(* ===== verification/Prelude.thy ===== *)
theory Prelude
  imports Main "HOL-Library.Word"
begin

text \<open>
  Shared vocabulary of the development: the machine types of the Go source as words, byte
  slices, the reading of an unsigned length as a machine integer, and the generic facts on
  words, lists and maps that several components use.  The collections
  \<open>u64_simps\<close> and \<open>list_facts\<close> carry them to the component proofs.
\<close>

named_theorems u64_simps \<open>reading lengths and indices as 64 bit words\<close>
named_theorems list_facts \<open>facts on lists shared by the components\<close>

type_synonym u8 = "8 word"
type_synonym u16 = "16 word"
type_synonym u32 = "32 word"
type_synonym u64 = "64 word"
type_synonym bytes = "u8 list"

text \<open>
  Go's \<open>len(x)\<close> is a signed 64 bit \<open>int\<close>, so every slice is shorter than \<open>2^63\<close>.
  \<open>uint64(len(x) - 1)\<close> is the conversion of a signed integer, which wraps at zero.
\<close>

definition max_len :: nat where
  "max_len = 2 ^ 63"

definition u64_of_int :: "int \<Rightarrow> u64" where
  "u64_of_int i = word_of_int i"

definition last_index :: "'a list \<Rightarrow> u64" where
  "last_index xs = u64_of_int (int (length xs) - 1)"

text \<open>A slice access \<open>xs[i]\<close> with a \<open>uint64\<close> index; \<open>None\<close> is the run-time panic.\<close>

definition goIndex :: "'a list \<Rightarrow> u64 \<Rightarrow> 'a option" where
  "goIndex xs i = (if unat i < length xs then Some (xs ! unat i) else None)"

lemma unat_u64_of_nat [u64_simps]:
  "n < 2 ^ 64 \<Longrightarrow> unat (of_nat n :: u64) = n"
  by (simp add: unat_of_nat take_bit_nat_eq_self_iff)

lemma last_index_eq [u64_simps]:
  "xs \<noteq> [] \<Longrightarrow> last_index xs = of_nat (length xs - 1)"
  by (cases xs) (simp_all add: last_index_def u64_of_int_def)

lemma unat_last_index [u64_simps]:
  assumes "xs \<noteq> []" and "length xs \<le> max_len"
  shows "unat (last_index xs) = length xs - 1"
proof -
  have "length xs - 1 < 2 ^ 64"
    using assms(2) by (simp add: max_len_def)
  with assms(1) show ?thesis
    by (simp add: u64_simps)
qed

lemma unat_u64_Suc [u64_simps]:
  fixes a b :: u64
  assumes "a < b"
  shows "unat (a + 1) = Suc (unat a)"
proof -
  have "unat b < 2 ^ LENGTH(64)"
    by (rule unsigned_less)
  with assms have "unat a + 1 < 2 ^ 64"
    by (simp add: word_less_nat_alt)
  then show ?thesis
    by (simp add: unat_word_ariths)
qed

lemma u64_index_less_iff [u64_simps]:
  fixes i :: u64
  assumes "length xs \<le> max_len"
  shows "of_nat (length xs) \<le> i \<longleftrightarrow> length xs \<le> unat i"
  using assms by (simp add: word_le_nat_alt unat_u64_of_nat max_len_def)

lemma le_last_index [u64_simps]:
  assumes "xs \<noteq> []" and "length xs \<le> max_len"
  shows "i \<le> last_index xs \<longleftrightarrow> unat i < length xs"
proof -
  have "i \<le> last_index xs \<longleftrightarrow> unat i \<le> length xs - 1"
    by (simp add: word_le_nat_alt unat_last_index [OF assms])
  moreover have "0 < length xs"
    using assms(1) by simp
  ultimately show ?thesis
    by linarith
qed

lemma goIndex_last_index:
  assumes "xs \<noteq> []" and "length xs \<le> max_len"
  shows "goIndex xs (last_index xs) = Some (last xs)"
  using assms by (simp add: goIndex_def unat_last_index last_conv_nth)

lemma take_Suc_map_upt [list_facts]:
  "map f [a..<Suc b] = (if a \<le> b then map f [a..<b] @ [f b] else [])"
  by simp

end
