(* ===== verification/Raft.thy ===== *)
theory Raft
  imports Prelude
begin

text \<open>
  The consensus core of \<open>internal/raft\<close>: the node state of \<open>raft.go\<close> as a record, its log
  and commit operations, \<open>RequestVote\<close> of \<open>vote.go\<close> and the start of an election of
  \<open>election.go\<close>.  A slice access that Go would panic on is \<open>None\<close>; an error return is
  \<open>Inl\<close> and leaves the state as it was.  The channel \<open>applyCh\<close> is the list of the
  messages sent on it, oldest first.
\<close>

datatype Role = Follower | Candidate | Leader

record LogEntry =
  entTerm :: u64
  entCommand :: bytes

record ApplyMsg =
  msgIndex :: u64
  msgTerm :: u64
  msgCommand :: bytes

record Raft =
  raftId :: string
  peers :: "string list"
  role :: Role
  currentTerm :: u64
  votedFor :: string
  log :: "LogEntry list"
  commitIndex :: u64
  lastApplied :: u64
  applyCh :: "ApplyMsg list"

definition dummyEntry :: LogEntry where
  "dummyEntry = \<lparr>entTerm = 0, entCommand = []\<rparr>"

definition newRaft :: "string \<Rightarrow> string list \<Rightarrow> Raft" where
  "newRaft i ps = \<lparr>raftId = i, peers = ps, role = Follower, currentTerm = 0, votedFor = [],
     log = [dummyEntry], commitIndex = 0, lastApplied = 0, applyCh = []\<rparr>"

definition LastLogIndex :: "Raft \<Rightarrow> u64" where
  "LastLogIndex r = last_index (log r)"

definition becomeFollowerLocked :: "u64 \<Rightarrow> Raft \<Rightarrow> Raft" where
  "becomeFollowerLocked t r =
     (if t < currentTerm r then r
      else (let r' = (if t > currentTerm r then r\<lparr>currentTerm := t, votedFor := []\<rparr> else r)
            in r'\<lparr>role := Follower\<rparr>))"

definition appendEntryLocked :: "u64 \<Rightarrow> bytes \<Rightarrow> Raft \<Rightarrow> Raft \<times> u64" where
  "appendEntryLocked t c r =
     (let r' = r\<lparr>log := log r @ [\<lparr>entTerm = t, entCommand = c\<rparr>]\<rparr>
      in (r', last_index (log r')))"

definition termAtLocked :: "u64 \<Rightarrow> Raft \<Rightarrow> u64 \<times> bool" where
  "termAtLocked i r =
     (if i \<ge> of_nat (length (log r)) then (0, False)
      else (entTerm (log r ! unat i), True))"

datatype raft_error =
    TruncateDummy
  | TruncateOutOfRange u64
  | TruncateCommitted u64 u64
  | CommitOutOfRange u64 u64

definition truncateFromLocked :: "u64 \<Rightarrow> Raft \<Rightarrow> raft_error + Raft" where
  "truncateFromLocked i r =
     (if i = 0 then Inl TruncateDummy
      else if i \<ge> of_nat (length (log r)) then Inl (TruncateOutOfRange i)
      else if i \<le> commitIndex r then Inl (TruncateCommitted i (commitIndex r))
      else Inr (r\<lparr>log := take (unat i) (log r)\<rparr>))"

definition advanceCommitLocked :: "u64 \<Rightarrow> Raft \<Rightarrow> raft_error + Raft" where
  "advanceCommitLocked i r =
     (let lastIndex = last_index (log r)
      in if i > lastIndex then Inl (CommitOutOfRange i lastIndex)
         else if i \<le> commitIndex r then Inr r
         else Inr (r\<lparr>commitIndex := i\<rparr>))"

text \<open>The operations that take the lock themselves.\<close>

definition CurrentTerm :: "Raft \<Rightarrow> u64" where
  "CurrentTerm r = currentTerm r"

definition RoleOf :: "Raft \<Rightarrow> Role" where
  "RoleOf r = role r"

definition CommitIndex :: "Raft \<Rightarrow> u64" where
  "CommitIndex r = commitIndex r"

definition LastApplied :: "Raft \<Rightarrow> u64" where
  "LastApplied r = lastApplied r"

definition appendEntry :: "u64 \<Rightarrow> bytes \<Rightarrow> Raft \<Rightarrow> Raft \<times> u64" where
  "appendEntry t c r = appendEntryLocked t c r"

definition termAt :: "u64 \<Rightarrow> Raft \<Rightarrow> u64 \<times> bool" where
  "termAt i r = termAtLocked i r"

definition truncateFrom :: "u64 \<Rightarrow> Raft \<Rightarrow> raft_error + Raft" where
  "truncateFrom i r = truncateFromLocked i r"

definition advanceCommit :: "u64 \<Rightarrow> Raft \<Rightarrow> raft_error + Raft" where
  "advanceCommit i r = advanceCommitLocked i r"

subsection \<open>Votes and elections\<close>

record RequestVoteRequest =
  reqTerm :: u64
  reqCandidateID :: string
  reqLastLogIndex :: u64
  reqLastLogTerm :: u64

record RequestVoteResponse =
  respTerm :: u64
  respVoteGranted :: bool

definition candidateLogUpToDate :: "u64 \<Rightarrow> u64 \<Rightarrow> u64 \<Rightarrow> u64 \<Rightarrow> bool" where
  "candidateLogUpToDate candidateIndex candidateTerm localIndex localTerm =
     (if candidateTerm \<noteq> localTerm then candidateTerm > localTerm
      else candidateIndex \<ge> localIndex)"

definition RequestVote ::
  "RequestVoteRequest \<Rightarrow> Raft \<Rightarrow> (Raft \<times> RequestVoteResponse) option" where
  "RequestVote req r =
     (if reqTerm req < currentTerm r
      then Some (r, \<lparr>respTerm = currentTerm r, respVoteGranted = False\<rparr>)
      else
        let r1 = (if reqTerm req > currentTerm r
                  then becomeFollowerLocked (reqTerm req) r else r)
        in if votedFor r1 \<noteq> [] \<and> votedFor r1 \<noteq> reqCandidateID req
           then Some (r1, \<lparr>respTerm = currentTerm r1, respVoteGranted = False\<rparr>)
           else
             let lastLogIndex = last_index (log r1)
             in case goIndex (log r1) lastLogIndex of
                  None \<Rightarrow> None
                | Some entry \<Rightarrow>
                    if \<not> candidateLogUpToDate (reqLastLogIndex req) (reqLastLogTerm req)
                           lastLogIndex (entTerm entry)
                    then Some (r1, \<lparr>respTerm = currentTerm r1, respVoteGranted = False\<rparr>)
                    else
                      let r2 = r1\<lparr>votedFor := reqCandidateID req\<rparr>
                      in Some (r2, \<lparr>respTerm = currentTerm r2, respVoteGranted = True\<rparr>))"

definition becomeCandidateLocked :: "Raft \<Rightarrow> Raft" where
  "becomeCandidateLocked r =
     r\<lparr>currentTerm := currentTerm r + 1, role := Candidate, votedFor := raftId r\<rparr>"

definition requestVoteRequestLocked :: "Raft \<Rightarrow> RequestVoteRequest option" where
  "requestVoteRequestLocked r =
     (let lastIndex = last_index (log r)
      in case goIndex (log r) lastIndex of
           None \<Rightarrow> None
         | Some entry \<Rightarrow>
             Some \<lparr>reqTerm = currentTerm r, reqCandidateID = raftId r,
                   reqLastLogIndex = lastIndex, reqLastLogTerm = entTerm entry\<rparr>)"

definition startElection :: "Raft \<Rightarrow> (Raft \<times> RequestVoteRequest) option" where
  "startElection r =
     (let r' = becomeCandidateLocked r
      in case requestVoteRequestLocked r' of
           None \<Rightarrow> None
         | Some req \<Rightarrow> Some (r', req))"

subsection \<open>The applier\<close>

text \<open>
  \<open>applyCommitted\<close> holds the lock while it picks the next entry, drops it while it sends,
  and takes it again to record the index.  \<open>applyFetch\<close> is the first critical section.
\<close>

datatype fetch = FetchDone | FetchPanic | FetchMsg ApplyMsg

definition applyFetch :: "Raft \<Rightarrow> fetch" where
  "applyFetch r =
     (if lastApplied r \<ge> commitIndex r then FetchDone
      else (let index = lastApplied r + 1
            in if unat index < length (log r)
               then (let entry = log r ! unat index
                     in FetchMsg \<lparr>msgIndex = index, msgTerm = entTerm entry,
                                  msgCommand = entCommand entry\<rparr>)
               else FetchPanic))"

definition applySend :: "ApplyMsg \<Rightarrow> Raft \<Rightarrow> Raft" where
  "applySend m r = r\<lparr>applyCh := applyCh r @ [m]\<rparr>"

definition applyMark :: "u64 \<Rightarrow> Raft \<Rightarrow> Raft" where
  "applyMark i r = r\<lparr>lastApplied := i\<rparr>"

lemma applyFetch_MsgD:
  assumes "applyFetch r = FetchMsg m"
  shows "lastApplied r < commitIndex r" and "msgIndex m = lastApplied r + 1"
    and "unat (lastApplied r + 1) < length (log r)"
    and "m = \<lparr>msgIndex = lastApplied r + 1,
              msgTerm = entTerm (log r ! unat (lastApplied r + 1)),
              msgCommand = entCommand (log r ! unat (lastApplied r + 1))\<rparr>"
  using assms by (auto simp: applyFetch_def Let_def not_le split: if_splits)

text \<open>With no other goroutine in between, the loop is this function; \<open>None\<close> is a panic.\<close>

function applyCommitted :: "Raft \<Rightarrow> Raft option" where
  "applyCommitted r =
     (case applyFetch r of
        FetchDone \<Rightarrow> Some r
      | FetchPanic \<Rightarrow> None
      | FetchMsg m \<Rightarrow> applyCommitted (applyMark (msgIndex m) (applySend m r)))"
  by pat_completeness auto
termination
proof (relation "measure (\<lambda>r. unat (commitIndex r) - unat (lastApplied r))")
  fix r m
  assume "applyFetch r = FetchMsg m"
  from applyFetch_MsgD(1,2) [OF this] show
    "(applyMark (msgIndex m) (applySend m r), r)
       \<in> measure (\<lambda>r. unat (commitIndex r) - unat (lastApplied r))"
    by (simp add: applyMark_def applySend_def unat_u64_Suc word_less_nat_alt)
qed simp

declare applyCommitted.simps [simp del]

subsection \<open>The node invariant\<close>

text \<open>
  What every critical section keeps: the dummy entry is in place, the log fits a Go slice,
  and \<open>lastApplied \<le> commitIndex \<le> LastLogIndex\<close>.
\<close>

definition raft_ok :: "Raft \<Rightarrow> bool" where
  "raft_ok r \<longleftrightarrow> log r \<noteq> [] \<and> length (log r) \<le> max_len \<and> hd (log r) = dummyEntry
     \<and> commitIndex r \<le> LastLogIndex r \<and> lastApplied r \<le> commitIndex r"

definition committed :: "Raft \<Rightarrow> LogEntry list" where
  "committed r = take (Suc (unat (commitIndex r))) (log r)"

lemma raft_okD:
  assumes "raft_ok r"
  shows "log r \<noteq> []" and "length (log r) \<le> max_len" and "hd (log r) = dummyEntry"
    and "unat (commitIndex r) < length (log r)"
    and "unat (lastApplied r) \<le> unat (commitIndex r)"
  using assms by (auto simp: raft_ok_def LastLogIndex_def le_last_index word_le_nat_alt [symmetric])

lemma raft_okI:
  assumes "log r \<noteq> []" and "length (log r) \<le> max_len" and "hd (log r) = dummyEntry"
    and "unat (commitIndex r) < length (log r)"
    and "unat (lastApplied r) \<le> unat (commitIndex r)"
  shows "raft_ok r"
  using assms by (auto simp: raft_ok_def LastLogIndex_def le_last_index word_le_nat_alt [symmetric])

lemma raft_ok_newRaft: "raft_ok (newRaft i ps)"
  by (rule raft_okI) (simp_all add: newRaft_def max_len_def)

lemma raft_ok_becomeFollower: "raft_ok r \<Longrightarrow> raft_ok (becomeFollowerLocked t r)"
  by (auto simp: becomeFollowerLocked_def raft_ok_def LastLogIndex_def Let_def)

lemma raft_ok_append:
  assumes "raft_ok r" and "length (log r) < max_len"
  shows "raft_ok (fst (appendEntryLocked t c r))"
  using raft_okD [OF assms(1)] assms(2)
  by (intro raft_okI) (auto simp: appendEntryLocked_def Let_def hd_append)

lemma truncate_cases:
  assumes "truncateFromLocked i r = Inr r'" and "raft_ok r"
  shows "r' = r\<lparr>log := take (unat i) (log r)\<rparr>" and "unat (commitIndex r) < unat i"
    and "unat i < length (log r)"
  using assms raft_okD(2) [OF assms(2)]
  by (auto simp: truncateFromLocked_def u64_index_less_iff not_le word_less_nat_alt
      split: if_splits)

lemma raft_ok_truncate:
  assumes "truncateFromLocked i r = Inr r'" and "raft_ok r"
  shows "raft_ok r'"
  using truncate_cases [OF assms] raft_okD [OF assms(2)]
  by (intro raft_okI) (auto simp: hd_conv_nth)

lemma advance_cases:
  assumes "advanceCommitLocked i r = Inr r'" and "raft_ok r"
  shows "r' = r\<lparr>commitIndex := max (commitIndex r) i\<rparr>"
    and "unat (max (commitIndex r) i) < length (log r)"
proof -
  have le: "\<not> last_index (log r) < i"
    using assms(1) by (auto simp: advanceCommitLocked_def Let_def split: if_splits)
  show "r' = r\<lparr>commitIndex := max (commitIndex r) i\<rparr>"
    using assms(1) le
    by (auto simp: advanceCommitLocked_def Let_def max_def not_le split: if_splits)
  have "unat i < length (log r)"
    using le raft_okD(1,2) [OF assms(2)] by (simp add: not_less le_last_index)
  with raft_okD(4) [OF assms(2)] show "unat (max (commitIndex r) i) < length (log r)"
    by (simp add: max_def)
qed

lemma raft_ok_advance:
  assumes "advanceCommitLocked i r = Inr r'" and "raft_ok r"
  shows "raft_ok r'"
  using advance_cases [OF assms] raft_okD [OF assms(2)]
  by (intro raft_okI) (auto simp: max_def word_le_nat_alt)

text \<open>The vote and election handlers never panic on such a node and only write the vote.\<close>

lemma raft_ok_last: "raft_ok r \<Longrightarrow> goIndex (log r) (last_index (log r)) = Some (last (log r))"
  by (rule goIndex_last_index) (auto dest: raft_okD)

lemma becomeFollower_frame [simp]:
  "log (becomeFollowerLocked t r) = log r"
  "commitIndex (becomeFollowerLocked t r) = commitIndex r"
  "lastApplied (becomeFollowerLocked t r) = lastApplied r"
  "applyCh (becomeFollowerLocked t r) = applyCh r"
  "raftId (becomeFollowerLocked t r) = raftId r"
  by (auto simp: becomeFollowerLocked_def Let_def)

lemma becomeFollower_term:
  "currentTerm (becomeFollowerLocked t r) = max (currentTerm r) t"
  by (auto simp: becomeFollowerLocked_def Let_def max_def)

lemma becomeFollower_votedFor:
  "votedFor (becomeFollowerLocked t r) = (if t > currentTerm r then [] else votedFor r)"
  by (auto simp: becomeFollowerLocked_def Let_def)

lemma takeover:
  assumes "currentTerm r \<le> t"
    and "r1 = (if t > currentTerm r then becomeFollowerLocked t r else r)"
  shows "currentTerm r1 = t" and "votedFor r1 = (if currentTerm r < t then [] else votedFor r)"
    and "log r1 = log r" and "raftId r1 = raftId r"
  using assms by (auto simp: becomeFollowerLocked_def Let_def)

text \<open>
  The three ways a request ends: a stale term, a refusal after the term was taken over, or
  the vote.
\<close>

lemma RequestVote_cases:
  assumes "RequestVote req r = Some (r', resp)"
  obtains
    (stale) "reqTerm req < currentTerm r" "r' = r" "respTerm resp = currentTerm r"
      "\<not> respVoteGranted resp"
  | (refused) r1 where "currentTerm r \<le> reqTerm req"
      "r1 = (if reqTerm req > currentTerm r then becomeFollowerLocked (reqTerm req) r else r)"
      "r' = r1" "respTerm resp = currentTerm r1" "\<not> respVoteGranted resp"
      "votedFor r1 \<noteq> [] \<and> votedFor r1 \<noteq> reqCandidateID req \<or>
       (\<forall>entry. goIndex (log r) (last_index (log r)) = Some entry \<longrightarrow>
         \<not> candidateLogUpToDate (reqLastLogIndex req) (reqLastLogTerm req)
            (last_index (log r)) (entTerm entry))"
  | (granted) r1 where "currentTerm r \<le> reqTerm req"
      "r1 = (if reqTerm req > currentTerm r then becomeFollowerLocked (reqTerm req) r else r)"
      "votedFor r1 = [] \<or> votedFor r1 = reqCandidateID req"
      "r' = r1\<lparr>votedFor := reqCandidateID req\<rparr>"
      "respTerm resp = currentTerm r1" "respVoteGranted resp"
      "\<exists>entry. goIndex (log r) (last_index (log r)) = Some entry \<and>
         candidateLogUpToDate (reqLastLogIndex req) (reqLastLogTerm req)
           (last_index (log r)) (entTerm entry)"
proof (cases "reqTerm req < currentTerm r")
  case True
  with assms show thesis
    by (intro stale) (auto simp: RequestVote_def)
next
  case False
  define r1 where "r1 = (if reqTerm req > currentTerm r then becomeFollowerLocked (reqTerm req) r else r)"
  have log: "log r1 = log r"
    by (simp add: r1_def)
  have eq: "RequestVote req r =
    (if votedFor r1 \<noteq> [] \<and> votedFor r1 \<noteq> reqCandidateID req
     then Some (r1, \<lparr>respTerm = currentTerm r1, respVoteGranted = False\<rparr>)
     else case goIndex (log r) (last_index (log r)) of None \<Rightarrow> None
          | Some entry \<Rightarrow>
              if \<not> candidateLogUpToDate (reqLastLogIndex req) (reqLastLogTerm req)
                     (last_index (log r)) (entTerm entry)
              then Some (r1, \<lparr>respTerm = currentTerm r1, respVoteGranted = False\<rparr>)
              else Some (r1\<lparr>votedFor := reqCandidateID req\<rparr>,
                         \<lparr>respTerm = currentTerm r1, respVoteGranted = True\<rparr>))"
    using False unfolding RequestVote_def
    by (simp add: Let_def r1_def [symmetric] log cong: if_cong option.case_cong)
  show thesis
  proof (cases "respVoteGranted resp")
    case True
    with assms eq show thesis
      using granted [OF _ r1_def] False
      by (auto split: if_splits option.splits)
  next
    case nog: False
    with assms eq show thesis
      using refused [OF _ r1_def] False
      by (auto split: if_splits option.splits)
  qed
qed

lemma RequestVote_frame:
  assumes "RequestVote req r = Some (r', resp)"
  shows "log r' = log r" and "commitIndex r' = commitIndex r"
    and "lastApplied r' = lastApplied r" and "applyCh r' = applyCh r" and "raftId r' = raftId r"
  using assms by (auto elim!: RequestVote_cases)

lemma startElection_frame:
  assumes "startElection r = Some (r', req)"
  shows "log r' = log r" and "commitIndex r' = commitIndex r"
    and "lastApplied r' = lastApplied r" and "applyCh r' = applyCh r" and "raftId r' = raftId r"
    and "currentTerm r' = currentTerm r + 1" and "votedFor r' = raftId r"
    and "role r' = Candidate" and "reqTerm req = currentTerm r + 1"
    and "reqCandidateID req = raftId r"
  using assms
  by (auto simp: startElection_def becomeCandidateLocked_def requestVoteRequestLocked_def
      Let_def split: option.splits)

lemma raft_ok_cong:
  assumes "raft_ok r" and "log r' = log r" and "commitIndex r' = commitIndex r"
    and "lastApplied r' = lastApplied r"
  shows "raft_ok r'"
  using assms by (simp add: raft_ok_def LastLogIndex_def)

lemma raft_ok_RequestVote:
  "raft_ok r \<Longrightarrow> RequestVote req r = Some (r', resp) \<Longrightarrow> raft_ok r'"
  by (erule raft_ok_cong) (auto dest: RequestVote_frame)

lemma raft_ok_startElection:
  "raft_ok r \<Longrightarrow> startElection r = Some (r', req) \<Longrightarrow> raft_ok r'"
  by (erule raft_ok_cong) (auto dest: startElection_frame)

lemma RequestVote_total: "raft_ok r \<Longrightarrow> \<exists>r' resp. RequestVote req r = Some (r', resp)"
  by (auto simp: RequestVote_def Let_def raft_ok_last split: option.splits)

lemma startElection_total: "raft_ok r \<Longrightarrow> \<exists>r' req. startElection r = Some (r', req)"
  using raft_ok_last [of r]
  by (auto simp: startElection_def requestVoteRequestLocked_def becomeCandidateLocked_def Let_def
      split: option.splits)

subsection \<open>Properties\<close>

definition upToDate :: "RequestVoteRequest \<Rightarrow> Raft \<Rightarrow> bool" where
  "upToDate req r \<longleftrightarrow> entTerm (last (log r)) < reqLastLogTerm req
     \<or> entTerm (last (log r)) = reqLastLogTerm req \<and> LastLogIndex r \<le> reqLastLogIndex req"

lemma candidateLogUpToDate_last:
  "candidateLogUpToDate (reqLastLogIndex req) (reqLastLogTerm req) (last_index (log r))
     (entTerm (last (log r))) = upToDate req r"
  by (auto simp: candidateLogUpToDate_def upToDate_def LastLogIndex_def)

text \<open>\<open>RequestVote\<close> never panics and decides as the protocol asks: it answers with the larger
  of the two terms, and grants the vote exactly when the candidate's term is not stale, the vote
  of that term is free or already the candidate's, and the candidate's log is at least as up to
  date; it records the vote, drops the old one when the term is new, and writes nothing else.\<close>

theorem RequestVote_decision:
  assumes "raft_ok r"
  shows "\<exists>r' resp. RequestVote req r = Some (r', resp)
    \<and> currentTerm r' = max (currentTerm r) (reqTerm req) \<and> respTerm resp = currentTerm r'
    \<and> (respVoteGranted resp \<longleftrightarrow> currentTerm r \<le> reqTerm req \<and> upToDate req r
         \<and> (currentTerm r < reqTerm req \<or> votedFor r \<in> {[], reqCandidateID req}))
    \<and> votedFor r' = (if respVoteGranted resp then reqCandidateID req
                     else if currentTerm r < reqTerm req then [] else votedFor r)
    \<and> log r' = log r \<and> commitIndex r' = commitIndex r \<and> lastApplied r' = lastApplied r"
proof -
  obtain r' resp where eq: "RequestVote req r = Some (r', resp)"
    using RequestVote_total [OF assms] by blast
  note last = raft_ok_last [OF assms]
  from eq have "currentTerm r' = max (currentTerm r) (reqTerm req) \<and> respTerm resp = currentTerm r'
    \<and> (respVoteGranted resp \<longleftrightarrow> currentTerm r \<le> reqTerm req \<and> upToDate req r
         \<and> (currentTerm r < reqTerm req \<or> votedFor r \<in> {[], reqCandidateID req}))
    \<and> votedFor r' = (if respVoteGranted resp then reqCandidateID req
                     else if currentTerm r < reqTerm req then [] else votedFor r)"
  proof (cases rule: RequestVote_cases)
    case stale
    then show ?thesis by (auto simp: max_def)
  next
    case (refused r1)
    with takeover(1,2) [OF refused(1,2)] last show ?thesis
      by (auto simp: max_def candidateLogUpToDate_last split: if_splits)
  next
    case (granted r1)
    with takeover(1,2) [OF granted(1,2)] last show ?thesis
      by (auto simp: max_def candidateLogUpToDate_last split: if_splits)
  qed
  with eq RequestVote_frame [OF eq] show ?thesis
    by auto
qed

text \<open>\<open>truncateFrom\<close> answers on every branch: it refuses the dummy entry, an index past the
  end and a committed entry, in that order, and otherwise keeps exactly the entries before the
  index, so the committed prefix and the invariant of the node stay.\<close>

theorem truncateFrom_branches:
  assumes "raft_ok r"
  shows "truncateFromLocked i r =
      (if i = 0 then Inl TruncateDummy
       else if length (log r) \<le> unat i then Inl (TruncateOutOfRange i)
       else if i \<le> commitIndex r then Inl (TruncateCommitted i (commitIndex r))
       else Inr (r\<lparr>log := take (unat i) (log r)\<rparr>))
    \<and> (\<forall>r'. truncateFromLocked i r = Inr r' \<longrightarrow> raft_ok r' \<and> committed r' = committed r)"
proof
  show "truncateFromLocked i r =
      (if i = 0 then Inl TruncateDummy
       else if length (log r) \<le> unat i then Inl (TruncateOutOfRange i)
       else if i \<le> commitIndex r then Inl (TruncateCommitted i (commitIndex r))
       else Inr (r\<lparr>log := take (unat i) (log r)\<rparr>))"
    using raft_okD(2) [OF assms] by (simp add: truncateFromLocked_def u64_index_less_iff)
  show "\<forall>r'. truncateFromLocked i r = Inr r' \<longrightarrow> raft_ok r' \<and> committed r' = committed r"
    using raft_ok_truncate [OF _ assms] truncate_cases [OF _ assms]
    by (fastforce simp: committed_def min_def)
qed

text \<open>\<open>startElection\<close> never panics: the node becomes the candidate of the next term, votes for
  itself and asks with the index and term of its last entry.  The term is a \<open>uint64\<close>: it grows
  by one unless it is the largest value, where it wraps to zero.\<close>

theorem startElection_request:
  assumes "raft_ok r"
  shows "\<exists>r' req. startElection r = Some (r', req) \<and> raft_ok r'
    \<and> role r' = Candidate \<and> votedFor r' = raftId r \<and> log r' = log r
    \<and> unat (currentTerm r') = (Suc (unat (currentTerm r))) mod 2 ^ 64
    \<and> req = \<lparr>reqTerm = currentTerm r', reqCandidateID = raftId r,
              reqLastLogIndex = LastLogIndex r, reqLastLogTerm = entTerm (last (log r))\<rparr>"
proof -
  obtain r' req where eq: "startElection r = Some (r', req)"
    using startElection_total [OF assms] by blast
  have "req = \<lparr>reqTerm = currentTerm r', reqCandidateID = raftId r,
              reqLastLogIndex = LastLogIndex r, reqLastLogTerm = entTerm (last (log r))\<rparr>"
    using eq raft_ok_last [OF assms]
    by (auto simp: startElection_def requestVoteRequestLocked_def becomeCandidateLocked_def
        LastLogIndex_def Let_def split: option.splits)
  moreover have "unat (currentTerm r + 1) = (Suc (unat (currentTerm r))) mod 2 ^ 64"
    by (simp add: unat_word_ariths)
  ultimately show ?thesis
    using eq startElection_frame [OF eq] raft_ok_startElection [OF assms eq] by auto
qed

definition two_entries :: Raft where
  "two_entries = (newRaft ''a'' [])\<lparr>currentTerm := 3, votedFor := ''b'', commitIndex := 1,
     log := [dummyEntry, \<lparr>entTerm = 1, entCommand = []\<rparr>, \<lparr>entTerm = 2, entCommand = []\<rparr>]\<rparr>"

lemma two_entries_ok: "raft_ok two_entries"
  by (rule raft_okI) (simp_all add: two_entries_def newRaft_def max_len_def)

theorem RequestVote_decision_witness:
  "\<exists>r' resp. RequestVote \<lparr>reqTerm = 4, reqCandidateID = ''c'', reqLastLogIndex = 1,
      reqLastLogTerm = 3\<rparr> two_entries = Some (r', resp)
    \<and> respVoteGranted resp \<and> respTerm resp = 4 \<and> votedFor r' = ''c''"
  using RequestVote_decision [OF two_entries_ok, of "\<lparr>reqTerm = 4, reqCandidateID = ''c'',
      reqLastLogIndex = 1, reqLastLogTerm = 3\<rparr>"]
  by (auto simp: two_entries_def newRaft_def upToDate_def)

theorem truncateFrom_branches_witness:
  "truncateFromLocked 2 two_entries = Inr (two_entries\<lparr>log := take 2 (log two_entries)\<rparr>)
    \<and> truncateFromLocked 1 two_entries = Inl (TruncateCommitted 1 1)
    \<and> truncateFromLocked 3 two_entries = Inl (TruncateOutOfRange 3)"
  using truncateFrom_branches [OF two_entries_ok, of 2] truncateFrom_branches [OF two_entries_ok, of 1]
    truncateFrom_branches [OF two_entries_ok, of 3]
  by (simp add: two_entries_def word_le_nat_alt)

theorem startElection_request_witness:
  "\<exists>r' req. startElection two_entries = Some (r', req) \<and> unat (currentTerm r') = 4
    \<and> reqLastLogIndex req = 2 \<and> reqLastLogTerm req = 2"
  using startElection_request [OF two_entries_ok]
  by (auto simp: two_entries_def newRaft_def LastLogIndex_def last_index_def u64_of_int_def)

end
