(* ===== verification/Transition.thy ===== *)
theory Transition
  imports Prelude
begin

text \<open>
  Runs of a component whose critical sections interleave: the reachable states of a step
  relation, and the contract of an inductive invariant as a locale.  Each concurrent
  component of the model interprets the locale with its own initial states, steps and
  invariant, and takes from it that the invariant holds in every reachable state.
\<close>

inductive reachable :: "('s \<Rightarrow> bool) \<Rightarrow> ('s \<Rightarrow> 's \<Rightarrow> bool) \<Rightarrow> 's \<Rightarrow> bool" for I S where
  reach_init: "I s \<Longrightarrow> reachable I S s"
| reach_step: "reachable I S s \<Longrightarrow> S s t \<Longrightarrow> reachable I S t"

inductive run :: "('s \<Rightarrow> 's \<Rightarrow> bool) \<Rightarrow> 's \<Rightarrow> 's \<Rightarrow> bool" for S where
  run_refl: "run S s s"
| run_step: "run S s t \<Longrightarrow> S t u \<Longrightarrow> run S s u"

lemma run_trans:
  assumes "run S s t" "run S t u"
  shows "run S s u"
  using assms(2,1) by (induction rule: run.induct) (auto intro: run.run_step)

lemma run_one: "S s t \<Longrightarrow> run S s t"
  by (blast intro: run_refl run_step)

lemma reachable_run: "run S s t \<Longrightarrow> reachable I S s \<Longrightarrow> reachable I S t"
  by (induction rule: run.induct) (auto intro: reach_step)

locale inductive_invariant =
  fixes init :: "'s \<Rightarrow> bool"
    and step :: "'s \<Rightarrow> 's \<Rightarrow> bool"
    and inv :: "'s \<Rightarrow> bool"
  assumes init_inv: "init s \<Longrightarrow> inv s"
    and step_inv: "inv s \<Longrightarrow> step s t \<Longrightarrow> inv t"
begin

lemma reachable_inv: "reachable init step s \<Longrightarrow> inv s"
  by (induction rule: reachable.induct) (auto intro: init_inv step_inv)

lemma run_inv: "run step s t \<Longrightarrow> inv s \<Longrightarrow> inv t"
  by (induction rule: run.induct) (auto intro: step_inv)

end

text \<open>
  A quantity that no step lowers, under an invariant: what the extension of the contract
  adds is that it is monotone along every run.
\<close>

locale monotone_system = inductive_invariant init step inv
  for init :: "'s \<Rightarrow> bool" and step :: "'s \<Rightarrow> 's \<Rightarrow> bool" and inv :: "'s \<Rightarrow> bool" +
  fixes below :: "'s \<Rightarrow> 's \<Rightarrow> bool"
  assumes below_refl: "below s s"
    and below_trans: "below s t \<Longrightarrow> below t u \<Longrightarrow> below s u"
    and step_below: "inv s \<Longrightarrow> step s t \<Longrightarrow> below s t"
begin

lemma run_below: "run step s t \<Longrightarrow> inv s \<Longrightarrow> below s t"
proof (induction rule: run.induct)
  case (run_refl s)
  show ?case by (rule below_refl)
next
  case (run_step s t u)
  then have "inv t"
    by (blast intro: run_inv)
  with run_step show ?case
    by (blast intro: below_trans step_below)
qed

lemma reachable_run_below: "reachable init step s \<Longrightarrow> run step s t \<Longrightarrow> below s t"
  by (blast intro: run_below reachable_inv)

end

end
