(* ===== verification/RaftApply.thy ===== *)
theory RaftApply
  imports Raft Transition "HOL-Library.Sublist"
begin

text \<open>
  The applier of \<open>raft.go\<close> next to the other critical sections of the node.  The sequential
  loop delivers exactly the committed entries that were not delivered yet.  The step
  relation interleaves the three critical sections of one applier (fetch, send, mark) with
  every other operation of the node; along all of its runs the delivered messages are the
  committed prefix of the log, in order, without a gap or a repetition, and the committed
  prefix only grows.
\<close>

definition msgAt :: "LogEntry list \<Rightarrow> nat \<Rightarrow> ApplyMsg" where
  "msgAt l i = \<lparr>msgIndex = of_nat i, msgTerm = entTerm (l ! i), msgCommand = entCommand (l ! i)\<rparr>"

lemma applyFetch_ok:
  assumes "raft_ok r"
  shows "applyFetch r =
    (if lastApplied r < commitIndex r then FetchMsg (msgAt (log r) (Suc (unat (lastApplied r))))
     else FetchDone)"
proof (cases "lastApplied r < commitIndex r")
  case True
  define x where "x = lastApplied r + 1"
  have sx: "unat x = Suc (unat (lastApplied r))"
    unfolding x_def using True by (rule unat_u64_Suc)
  then have "of_nat (Suc (unat (lastApplied r))) = x"
    by (metis of_nat_unat ucast_id)
  moreover have "Suc (unat (lastApplied r)) < length (log r)"
    using True raft_okD(4) [OF assms] by (simp add: word_less_nat_alt)
  ultimately show ?thesis
    using True
    by (simp add: applyFetch_def msgAt_def Let_def not_le sx x_def [symmetric] del: of_nat_Suc)
next
  case False
  then show ?thesis
    by (simp add: applyFetch_def not_less)
qed

lemma applyCommitted_spec:
  assumes "raft_ok r"
  shows "applyCommitted r = Some (r\<lparr>
     applyCh := applyCh r @ map (msgAt (log r)) [Suc (unat (lastApplied r))..<Suc (unat (commitIndex r))],
     lastApplied := commitIndex r\<rparr>)"
  using assms
proof (induction r rule: applyCommitted.induct)
  case (1 r)
  show ?case
  proof (cases "lastApplied r < commitIndex r")
    case False
    then have "lastApplied r = commitIndex r"
      using "1.prems" by (auto simp: raft_ok_def)
    then show ?thesis
      using applyFetch_ok [OF "1.prems"] by (subst applyCommitted.simps) simp
  next
    case True
    define m where "m = msgAt (log r) (Suc (unat (lastApplied r)))"
    define r' where "r' = applyMark (msgIndex m) (applySend m r)"
    have f: "applyFetch r = FetchMsg m"
      using applyFetch_ok [OF "1.prems"] True by (simp add: m_def)
    have i: "unat (msgIndex m) = Suc (unat (lastApplied r))"
      using applyFetch_MsgD(1,2) [OF f] by (simp add: unat_u64_Suc)
    have "raft_ok r'"
      using raft_okD [OF "1.prems"] True
      by (intro raft_okI) (auto simp: r'_def applyMark_def applySend_def i word_less_nat_alt)
    from "1.IH" [OF f] this have "applyCommitted r' = Some (r'\<lparr>
       applyCh := applyCh r' @ map (msgAt (log r')) [Suc (unat (lastApplied r'))..<Suc (unat (commitIndex r'))],
       lastApplied := commitIndex r'\<rparr>)"
      by (simp add: r'_def)
    moreover have "[Suc (unat (lastApplied r))..<Suc (unat (commitIndex r))] =
        Suc (unat (lastApplied r)) # [Suc (Suc (unat (lastApplied r)))..<Suc (unat (commitIndex r))]"
      using True by (simp add: upt_conv_Cons word_less_nat_alt)
    ultimately show ?thesis
      using f i by (subst applyCommitted.simps) (simp add: r'_def applyMark_def applySend_def m_def)
  qed
qed

subsection \<open>Interleaved critical sections\<close>

datatype applier = AIdle | ASending ApplyMsg | ASent u64

record node_state =
  core :: Raft
  applier :: applier

inductive raft_step :: "node_state \<Rightarrow> node_state \<Rightarrow> bool" where
  st_append: "length (log (core s)) < max_len \<Longrightarrow>
     raft_step s (s\<lparr>core := fst (appendEntryLocked t c (core s))\<rparr>)"
| st_truncate: "truncateFromLocked i (core s) = Inr r \<Longrightarrow> raft_step s (s\<lparr>core := r\<rparr>)"
| st_advance: "advanceCommitLocked i (core s) = Inr r \<Longrightarrow> raft_step s (s\<lparr>core := r\<rparr>)"
| st_follow: "raft_step s (s\<lparr>core := becomeFollowerLocked t (core s)\<rparr>)"
| st_vote: "RequestVote req (core s) = Some (r, resp) \<Longrightarrow> raft_step s (s\<lparr>core := r\<rparr>)"
| st_elect: "startElection (core s) = Some (r, req) \<Longrightarrow> raft_step s (s\<lparr>core := r\<rparr>)"
| st_fetch: "applier s = AIdle \<Longrightarrow> applyFetch (core s) = FetchMsg m \<Longrightarrow>
     raft_step s (s\<lparr>applier := ASending m\<rparr>)"
| st_send: "applier s = ASending m \<Longrightarrow>
     raft_step s (s\<lparr>core := applySend m (core s), applier := ASent (msgIndex m)\<rparr>)"
| st_mark: "applier s = ASent i \<Longrightarrow>
     raft_step s (s\<lparr>core := applyMark i (core s), applier := AIdle\<rparr>)"

inductive_cases raft_stepE: "raft_step s t"

definition raft_init :: "node_state \<Rightarrow> bool" where
  "raft_init s \<longleftrightarrow> (\<exists>i ps. s = \<lparr>core = newRaft i ps, applier = AIdle\<rparr>)"

text \<open>How many entries have gone out on the channel, by the point the applier is at.\<close>

fun delivered :: "node_state \<Rightarrow> nat" where
  "delivered s = (case applier s of ASent i \<Rightarrow> unat i | _ \<Rightarrow> unat (lastApplied (core s)))"

definition applier_ok :: "node_state \<Rightarrow> bool" where
  "applier_ok s \<longleftrightarrow>
     (case applier s of
        AIdle \<Rightarrow> True
      | ASending m \<Rightarrow> m = msgAt (log (core s)) (Suc (unat (lastApplied (core s))))
           \<and> Suc (unat (lastApplied (core s))) \<le> unat (commitIndex (core s))
           \<and> unat (msgIndex m) = Suc (unat (lastApplied (core s)))
      | ASent i \<Rightarrow> unat i = Suc (unat (lastApplied (core s))) \<and> i \<le> commitIndex (core s))"

definition node_inv :: "node_state \<Rightarrow> bool" where
  "node_inv s \<longleftrightarrow> raft_ok (core s) \<and> applier_ok s
     \<and> applyCh (core s) = map (msgAt (log (core s))) [1..<Suc (delivered s)]"

definition node_below :: "node_state \<Rightarrow> node_state \<Rightarrow> bool" where
  "node_below s t \<longleftrightarrow> prefix (committed (core s)) (committed (core t))
     \<and> prefix (applyCh (core s)) (applyCh (core t))"

lemma delivered_le:
  assumes "node_inv s"
  shows "delivered s \<le> unat (commitIndex (core s))"
  using assms raft_okD(5) [of "core s"]
  by (auto simp: node_inv_def applier_ok_def word_le_nat_alt split: applier.splits)

lemma msgs_cong:
  "(\<And>i. i \<le> n \<Longrightarrow> l' ! i = l ! i) \<Longrightarrow> map (msgAt l') [1..<Suc n] = map (msgAt l) [1..<Suc n]"
  by (rule map_cong) (auto simp: msgAt_def simp del: upt_Suc)

text \<open>
  Every operation other than the applier's own keeps the invariant for the same reason: it
  leaves the applier's fields alone and does not touch the committed prefix.
\<close>

lemma node_inv_frame:
  assumes inv: "node_inv s" and ok: "raft_ok r"
    and frame: "lastApplied r = lastApplied (core s)" "applyCh r = applyCh (core s)"
    and com: "commitIndex (core s) \<le> commitIndex r"
    and nth: "\<And>i. i \<le> unat (commitIndex (core s)) \<Longrightarrow> log r ! i = log (core s) ! i"
  shows "node_inv (s\<lparr>core := r\<rparr>)" and "node_below s (s\<lparr>core := r\<rparr>)"
proof -
  have del: "delivered (s\<lparr>core := r\<rparr>) = delivered s"
    by (simp add: frame cong: applier.case_cong)
  have "map (msgAt (log r)) [1..<Suc (delivered s)] = map (msgAt (log (core s))) [1..<Suc (delivered s)]"
    using delivered_le [OF inv] nth by (intro msgs_cong) auto
  moreover have "applier_ok (s\<lparr>core := r\<rparr>)"
    using inv com nth
    by (auto simp: node_inv_def applier_ok_def frame msgAt_def word_le_nat_alt split: applier.splits)
  ultimately show "node_inv (s\<lparr>core := r\<rparr>)"
    using inv ok unfolding node_inv_def del by (simp add: frame)
  have okc: "raft_ok (core s)"
    using inv by (simp add: node_inv_def)
  have "committed (core s) = take (Suc (unat (commitIndex (core s)))) (log r)"
    unfolding committed_def
    using nth raft_okD(4) [OF okc] raft_okD(4) [OF ok] com
    by (intro nth_equalityI) (auto simp: word_le_nat_alt)
  also have "prefix \<dots> (committed r)"
    using com by (simp add: committed_def word_le_nat_alt take_is_prefix prefix_def)
       (metis Suc_le_mono append_take_drop_id min.absorb1 take_take)
  finally show "node_below s (s\<lparr>core := r\<rparr>)"
    by (simp add: node_below_def frame)
qed

lemma append_frame:
  assumes "node_inv s" and "length (log (core s)) < max_len"
  shows "node_inv (s\<lparr>core := fst (appendEntryLocked t c (core s))\<rparr>)"
    and "node_below s (s\<lparr>core := fst (appendEntryLocked t c (core s))\<rparr>)"
proof -
  have ok: "raft_ok (core s)"
    using assms(1) by (simp add: node_inv_def)
  have "raft_ok (fst (appendEntryLocked t c (core s)))"
    by (rule raft_ok_append [OF ok assms(2)])
  from node_inv_frame [OF assms(1) this] raft_okD(4) [OF ok]
  show "node_inv (s\<lparr>core := fst (appendEntryLocked t c (core s))\<rparr>)"
    and "node_below s (s\<lparr>core := fst (appendEntryLocked t c (core s))\<rparr>)"
    by (simp_all add: appendEntryLocked_def Let_def nth_append)
qed

lemma truncate_frame:
  assumes inv: "node_inv s" and tr: "truncateFromLocked i (core s) = Inr r"
  shows "node_inv (s\<lparr>core := r\<rparr>)" and "node_below s (s\<lparr>core := r\<rparr>)"
proof -
  have ok: "raft_ok (core s)"
    using inv by (simp add: node_inv_def)
  note cases = truncate_cases [OF tr ok]
  have "raft_ok r"
    by (rule raft_ok_truncate [OF tr ok])
  from node_inv_frame [OF inv this] cases
  show "node_inv (s\<lparr>core := r\<rparr>)" and "node_below s (s\<lparr>core := r\<rparr>)"
    by simp_all
qed

lemma advance_frame:
  assumes inv: "node_inv s" and adv: "advanceCommitLocked i (core s) = Inr r"
  shows "node_inv (s\<lparr>core := r\<rparr>)" and "node_below s (s\<lparr>core := r\<rparr>)"
proof -
  have ok: "raft_ok (core s)"
    using inv by (simp add: node_inv_def)
  have "raft_ok r"
    by (rule raft_ok_advance [OF adv ok])
  from node_inv_frame [OF inv this] advance_cases(1) [OF adv ok]
  show "node_inv (s\<lparr>core := r\<rparr>)" and "node_below s (s\<lparr>core := r\<rparr>)"
    by simp_all
qed

lemma vote_frame:
  assumes inv: "node_inv s" and "log r = log (core s)" and "commitIndex r = commitIndex (core s)"
    and "lastApplied r = lastApplied (core s)" and "applyCh r = applyCh (core s)"
  shows "node_inv (s\<lparr>core := r\<rparr>)" and "node_below s (s\<lparr>core := r\<rparr>)"
proof -
  have "raft_ok r"
    using inv assms(2-4) by (auto simp: node_inv_def intro: raft_ok_cong)
  from node_inv_frame [OF inv this] assms(2-5)
  show "node_inv (s\<lparr>core := r\<rparr>)" and "node_below s (s\<lparr>core := r\<rparr>)"
    by simp_all
qed

lemma node_below_refl: "node_below s s"
  by (simp add: node_below_def)

lemma fetch_frame:
  assumes inv: "node_inv s" and "applier s = AIdle" and f: "applyFetch (core s) = FetchMsg m"
  shows "node_inv (s\<lparr>applier := ASending m\<rparr>)"
proof -
  have ok: "raft_ok (core s)"
    using inv by (simp add: node_inv_def)
  have lt: "lastApplied (core s) < commitIndex (core s)"
    and m: "m = msgAt (log (core s)) (Suc (unat (lastApplied (core s))))"
    using f applyFetch_ok [OF ok] by (auto split: if_splits)
  have "unat (msgIndex m) = Suc (unat (lastApplied (core s)))"
    using applyFetch_MsgD(2) [OF f] lt by (simp add: unat_u64_Suc)
  with inv assms(2) lt m show ?thesis
    by (simp add: node_inv_def applier_ok_def word_less_nat_alt Suc_le_eq)
qed

lemma send_frame:
  assumes inv: "node_inv s" and s: "applier s = ASending m"
  shows "node_inv (s\<lparr>core := applySend m (core s), applier := ASent (msgIndex m)\<rparr>)"
    and "node_below s (s\<lparr>core := applySend m (core s), applier := ASent (msgIndex m)\<rparr>)"
proof -
  have "raft_ok (applySend m (core s))"
    using inv by (auto simp: node_inv_def applySend_def intro: raft_ok_cong)
  with inv s show "node_inv (s\<lparr>core := applySend m (core s), applier := ASent (msgIndex m)\<rparr>)"
    by (auto simp: node_inv_def applier_ok_def applySend_def word_le_nat_alt)
  show "node_below s (s\<lparr>core := applySend m (core s), applier := ASent (msgIndex m)\<rparr>)"
    by (simp add: node_below_def applySend_def committed_def)
qed

lemma mark_frame:
  assumes inv: "node_inv s" and s: "applier s = ASent i"
  shows "node_inv (s\<lparr>core := applyMark i (core s), applier := AIdle\<rparr>)"
    and "node_below s (s\<lparr>core := applyMark i (core s), applier := AIdle\<rparr>)"
proof -
  have ok: "raft_ok (core s)" and i: "i \<le> commitIndex (core s)"
    using inv s by (auto simp: node_inv_def applier_ok_def)
  have "raft_ok (applyMark i (core s))"
    using raft_okD [OF ok] i by (intro raft_okI) (auto simp: applyMark_def word_le_nat_alt)
  with inv s show "node_inv (s\<lparr>core := applyMark i (core s), applier := AIdle\<rparr>)"
    by (auto simp: node_inv_def applier_ok_def applyMark_def)
  show "node_below s (s\<lparr>core := applyMark i (core s), applier := AIdle\<rparr>)"
    by (simp add: node_below_def applyMark_def committed_def)
qed

lemmas frame_facts = append_frame truncate_frame advance_frame send_frame mark_frame

lemma raft_step_inv_below: "raft_step s t \<Longrightarrow> node_inv s \<Longrightarrow> node_inv t \<and> node_below s t"
proof (induction rule: raft_step.induct)
  case (st_follow s t)
  then show ?case
    using vote_frame [of s "becomeFollowerLocked t (core s)"] by simp
next
  case (st_vote req s r resp)
  then show ?case
    using vote_frame [of s r] RequestVote_frame [of req "core s" r resp] by simp
next
  case (st_elect s r req)
  then show ?case
    using vote_frame [of s r] startElection_frame [of "core s" r req] by simp
next
  case (st_fetch s m)
  then show ?case
    using fetch_frame [of s m] by (simp add: node_below_def)
qed (blast intro: frame_facts)+

lemma node_inv_init: "raft_init s \<Longrightarrow> node_inv s"
  unfolding raft_init_def
  by (elim exE, simp add: node_inv_def applier_ok_def raft_ok_newRaft) (simp add: newRaft_def)

interpretation raft_node: monotone_system raft_init raft_step node_inv node_below
proof unfold_locales
  show "node_below s t \<Longrightarrow> node_below t u \<Longrightarrow> node_below s u" for s t u
    by (auto simp: node_below_def intro: prefix_order.trans)
qed (auto simp: node_inv_init node_below_refl dest: raft_step_inv_below)

subsection \<open>Properties\<close>

text \<open>C5. Whatever operations run between the applier's critical sections, the messages sent so
  far are exactly the log entries 1, 2, ... up to the last one delivered, in order and without
  repetition, none of them beyond the commit index, and the log bounds hold.\<close>

theorem delivered_committed_prefix:
  assumes "reachable raft_init raft_step s"
  shows "applyCh (core s) = map (msgAt (log (core s))) [1..<Suc (delivered s)]
    \<and> delivered s \<le> unat (commitIndex (core s)) \<and> unat (commitIndex (core s)) < length (log (core s))"
proof -
  have inv: "node_inv s"
    using assms by (rule raft_node.reachable_inv)
  then have "raft_ok (core s)"
    by (simp add: node_inv_def)
  with inv delivered_le [OF inv] raft_okD(4) show ?thesis
    by (simp add: node_inv_def)
qed

text \<open>C6. Committed entries are never lost or changed and delivered messages are never taken
  back: along every run the committed prefix of the log and the sent messages only grow.\<close>

theorem committed_entries_stable:
  assumes "reachable raft_init raft_step s" and "run raft_step s t"
  shows "prefix (committed (core s)) (committed (core t))
    \<and> prefix (applyCh (core s)) (applyCh (core t))"
  using raft_node.reachable_run_below [OF assms] by (simp add: node_below_def)

text \<open>With no other goroutine in between, \<open>applyCommitted\<close> returns, never indexes out of
  range, and sends each committed entry that was not applied yet once, in log order.\<close>

theorem applyCommitted_delivers:
  assumes "raft_ok r"
  shows "\<exists>r'. applyCommitted r = Some r' \<and> lastApplied r' = commitIndex r \<and> log r' = log r
    \<and> applyCh r' = applyCh r
        @ map (msgAt (log r)) [Suc (unat (lastApplied r))..<Suc (unat (commitIndex r))]"
  using applyCommitted_spec [OF assms] by simp

text \<open>
  A node with one entry appended and committed; then the applier fetches it while another
  entry is appended, and sends it.
\<close>

definition one_entry :: Raft where
  "one_entry = (newRaft ''a'' [])\<lparr>log := [dummyEntry, \<lparr>entTerm = 1, entCommand = [7]\<rparr>], commitIndex := 1\<rparr>"

definition one_msg :: ApplyMsg where
  "one_msg = \<lparr>msgIndex = 1, msgTerm = 1, msgCommand = [7]\<rparr>"

lemma one_entry_reachable:
  "reachable raft_init raft_step \<lparr>core = one_entry, applier = AIdle\<rparr>"
proof -
  let ?s0 = "\<lparr>core = newRaft ''a'' [], applier = AIdle\<rparr>"
  let ?r1 = "(newRaft ''a'' [])\<lparr>log := [dummyEntry, \<lparr>entTerm = 1, entCommand = [7]\<rparr>]\<rparr>"
  have "reachable raft_init raft_step ?s0"
    by (rule reach_init) (auto simp: raft_init_def)
  moreover have "raft_step ?s0 \<lparr>core = ?r1, applier = AIdle\<rparr>"
    using st_append [of ?s0 1 "[7]"]
    by (simp add: appendEntryLocked_def newRaft_def max_len_def)
  moreover have "raft_step \<lparr>core = ?r1, applier = AIdle\<rparr> \<lparr>core = one_entry, applier = AIdle\<rparr>"
    using st_advance [of 1 "\<lparr>core = ?r1, applier = AIdle\<rparr>" one_entry]
    by (simp add: advanceCommitLocked_def one_entry_def newRaft_def last_index_def u64_of_int_def)
  ultimately show ?thesis
    by (blast intro: reach_step)
qed

lemma one_entry_sent:
  "run raft_step \<lparr>core = one_entry, applier = AIdle\<rparr>
     \<lparr>core = applySend one_msg one_entry, applier = ASent 1\<rparr>"
proof -
  let ?s = "\<lparr>core = one_entry, applier = AIdle\<rparr>"
  have "applyFetch one_entry = FetchMsg one_msg"
    by (simp add: applyFetch_def one_entry_def newRaft_def one_msg_def)
  then have "raft_step ?s (?s\<lparr>applier := ASending one_msg\<rparr>)"
    by (intro st_fetch) simp_all
  moreover have "raft_step (?s\<lparr>applier := ASending one_msg\<rparr>)
      \<lparr>core = applySend one_msg one_entry, applier = ASent 1\<rparr>"
    using st_send [of "?s\<lparr>applier := ASending one_msg\<rparr>" one_msg] by (simp add: one_msg_def)
  ultimately show ?thesis
    by (blast intro: run_step run_refl)
qed

theorem delivered_committed_prefix_witness:
  "applyCh (applySend one_msg one_entry) = map (msgAt (log one_entry)) [1..<2]"
proof -
  have "reachable raft_init raft_step \<lparr>core = applySend one_msg one_entry, applier = ASent 1\<rparr>"
    by (rule reachable_run [OF one_entry_sent one_entry_reachable])
  from delivered_committed_prefix [OF this] show ?thesis
    by (simp add: applySend_def numeral_2_eq_2)
qed

theorem committed_entries_stable_witness:
  "prefix (committed one_entry) (committed (applySend one_msg one_entry))
    \<and> length (committed one_entry) = 2"
  using committed_entries_stable [OF one_entry_reachable one_entry_sent]
  by (simp add: committed_def one_entry_def)

theorem applyCommitted_delivers_witness:
  "\<exists>r'. applyCommitted one_entry = Some r' \<and> applyCh r' = [one_msg]"
proof -
  have "raft_ok one_entry"
    using raft_node.reachable_inv [OF one_entry_reachable] by (simp add: node_inv_def)
  from applyCommitted_delivers [OF this] show ?thesis
    by (auto simp: one_entry_def newRaft_def one_msg_def msgAt_def)
qed

end
