(* ===== verification/RaftElection.thy ===== *)
theory RaftElection
  imports Raft Transition
begin

text \<open>
  Votes across a cluster.  Each node runs \<open>startElection\<close> (\<open>election.go\<close>) and
  \<open>RequestVote\<close> (\<open>vote.go\<close>) on requests that may come from anywhere: the network may
  lose, repeat, reorder and invent them.  The history variable \<open>granted\<close> records every vote
  given, as voter, term and candidate.  A voter gives its vote to one named candidate per term,
  so two named candidates of one term cannot both hold the votes of a majority.  The empty name
  is the code's mark for no vote: a request without a candidate is granted like any other, but
  the voter forgets that vote at once, so votes for the empty name are outside the argument.
\<close>

record cluster =
  raftOf :: "string \<Rightarrow> Raft option"
  granted :: "(string \<times> u64 \<times> string) set"

text \<open>
  The steps a node takes, with the vote each of them gives away.  A request may carry anything,
  and a node may have any name.  A node counts its own term up only while it is below the
  largest \<open>uint64\<close> (at the largest the counter would wrap to 0), and a node keeps its state:
  the code has no restart that would read it back.
\<close>

inductive vote_step :: "cluster \<Rightarrow> cluster \<Rightarrow> bool" where
  v_elect: "raftOf c n = Some r \<Longrightarrow> currentTerm r < - 1 \<Longrightarrow>
     startElection r = Some (r', req) \<Longrightarrow>
     vote_step c (c\<lparr>raftOf := (raftOf c)(n \<mapsto> r'),
                    granted := insert (n, currentTerm r', raftId r) (granted c)\<rparr>)"
| v_request: "raftOf c n = Some r \<Longrightarrow>
     RequestVote req r = Some (r', resp) \<Longrightarrow>
     vote_step c (c\<lparr>raftOf := (raftOf c)(n \<mapsto> r'),
                    granted := (if respVoteGranted resp
                                then insert (n, respTerm resp, reqCandidateID req) (granted c)
                                else granted c)\<rparr>)"
| v_follow: "raftOf c n = Some r \<Longrightarrow>
     vote_step c (c\<lparr>raftOf := (raftOf c)(n \<mapsto> becomeFollowerLocked t r)\<rparr>)"
| v_log: "raftOf c n = Some r \<Longrightarrow> currentTerm r' = currentTerm r \<Longrightarrow> votedFor r' = votedFor r \<Longrightarrow>
     vote_step c (c\<lparr>raftOf := (raftOf c)(n \<mapsto> r')\<rparr>)"

definition vote_init :: "cluster \<Rightarrow> bool" where
  "vote_init c \<longleftrightarrow> granted c = {}
     \<and> (\<forall>n r. raftOf c n = Some r \<longrightarrow> (\<exists>i ps. r = newRaft i ps))"

definition vote_ok :: "Raft \<Rightarrow> u64 \<Rightarrow> string \<Rightarrow> bool" where
  "vote_ok r t d \<longleftrightarrow> t \<le> currentTerm r \<and> (t = currentTerm r \<longrightarrow> votedFor r = d)"

definition vote_inv :: "cluster \<Rightarrow> bool" where
  "vote_inv c \<longleftrightarrow>
     (\<forall>n t d. (n, t, d) \<in> granted c \<longrightarrow> d \<noteq> [] \<longrightarrow> (\<exists>r. raftOf c n = Some r \<and> vote_ok r t d))
   \<and> (\<forall>n t d d'. (n, t, d) \<in> granted c \<longrightarrow> (n, t, d') \<in> granted c \<longrightarrow>
        d \<noteq> [] \<longrightarrow> d' \<noteq> [] \<longrightarrow> d = d')"

subsection \<open>One vote\<close>

text \<open>
  What a handled request does to the vote: the term never falls, the vote of a term, once
  given to a named candidate, stays, and a granted vote is for the term of the answer.
\<close>

lemma RequestVote_vote:
  assumes "RequestVote req r = Some (r', resp)"
  shows "currentTerm r \<le> currentTerm r'" and "respTerm resp = currentTerm r'"
    and "currentTerm r' = currentTerm r \<Longrightarrow> votedFor r \<noteq> [] \<Longrightarrow> votedFor r' = votedFor r"
    and "respVoteGranted resp \<Longrightarrow> votedFor r' = reqCandidateID req"
    and "respVoteGranted resp \<Longrightarrow> currentTerm r' = reqTerm req"
proof -
  have "currentTerm r \<le> currentTerm r' \<and> respTerm resp = currentTerm r'
    \<and> (currentTerm r' = currentTerm r \<longrightarrow> votedFor r \<noteq> [] \<longrightarrow> votedFor r' = votedFor r)
    \<and> (respVoteGranted resp \<longrightarrow> votedFor r' = reqCandidateID req \<and> currentTerm r' = reqTerm req)"
    using assms
  proof (cases rule: RequestVote_cases)
    case stale
    then show ?thesis by simp
  next
    case (refused r1)
    with takeover(1,2) [OF refused(1,2)] show ?thesis by (simp split: if_splits)
  next
    case (granted r1)
    with takeover(1,2) [OF granted(1,2)] show ?thesis by (auto split: if_splits)
  qed
  then show "currentTerm r \<le> currentTerm r'" and "respTerm resp = currentTerm r'"
    and "currentTerm r' = currentTerm r \<Longrightarrow> votedFor r \<noteq> [] \<Longrightarrow> votedFor r' = votedFor r"
    and "respVoteGranted resp \<Longrightarrow> votedFor r' = reqCandidateID req"
    and "respVoteGranted resp \<Longrightarrow> currentTerm r' = reqTerm req"
    by blast+
qed

lemma vote_ok_mono:
  assumes "vote_ok r t d" and "d \<noteq> []" and "currentTerm r \<le> currentTerm r'"
    and "currentTerm r' = currentTerm r \<Longrightarrow> votedFor r \<noteq> [] \<Longrightarrow> votedFor r' = votedFor r"
  shows "vote_ok r' t d"
  using assms by (auto simp: vote_ok_def)

lemma vote_inv_update:
  assumes inv: "vote_inv c" and n: "raftOf c n = Some r"
    and mono: "currentTerm r \<le> currentTerm r'"
    and keep: "currentTerm r' = currentTerm r \<Longrightarrow> votedFor r \<noteq> [] \<Longrightarrow> votedFor r' = votedFor r"
    and new: "V \<subseteq> {(n, currentTerm r', votedFor r')}"
  shows "vote_inv (c\<lparr>raftOf := (raftOf c)(n \<mapsto> r'), granted := V \<union> granted c\<rparr>)"
proof -
  let ?c = "c\<lparr>raftOf := (raftOf c)(n \<mapsto> r'), granted := V \<union> granted c\<rparr>"
  have old: "vote_ok r' t d" if "(n, t, d) \<in> granted c" "d \<noteq> []" for t d
  proof (rule vote_ok_mono [OF _ that(2) mono keep])
    show "vote_ok r t d"
      using inv n that unfolding vote_inv_def by fastforce
  qed
  have V: "m = n \<and> t = currentTerm r' \<and> d = votedFor r'" if "(m, t, d) \<in> V" for m t d
    using new that by auto
  have "\<exists>q. raftOf ?c m = Some q \<and> vote_ok q t d"
    if "(m, t, d) \<in> granted ?c" "d \<noteq> []" for m t d
  proof (cases "(m, t, d) \<in> V")
    case True
    from V [OF this] show ?thesis by (auto simp: vote_ok_def)
  next
    case False
    with that have g: "(m, t, d) \<in> granted c" by simp
    show ?thesis
    proof (cases "m = n")
      case True
      with old g that show ?thesis by simp
    next
      case False
      with g that inv show ?thesis by (simp add: vote_inv_def)
    qed
  qed
  moreover have "d = d'"
    if "(m, t, d) \<in> granted ?c" "(m, t, d') \<in> granted ?c" "d \<noteq> []" "d' \<noteq> []" for m t d d'
  proof -
    have mixed: "d = d'" if "(m, t, d) \<in> V" "(m, t, d') \<in> granted c" "d' \<noteq> []" for d d'
      using V [OF that(1)] old [of t d'] that(2,3) by (simp add: vote_ok_def)
    have "d = d'" if "(m, t, d) \<in> granted c" "(m, t, d') \<in> granted c"
      using inv that \<open>d \<noteq> []\<close> \<open>d' \<noteq> []\<close> unfolding vote_inv_def by blast
    with that V mixed show ?thesis by simp metis
  qed
  ultimately show ?thesis
    unfolding vote_inv_def by blast
qed

lemma vote_step_inv: "vote_step c c' \<Longrightarrow> vote_inv c \<Longrightarrow> vote_inv c'"
proof (induction rule: vote_step.induct)
  case (v_elect c n r r' req)
  note f = startElection_frame [OF v_elect.hyps(3)]
  have "unat (currentTerm r + 1) = Suc (unat (currentTerm r))"
    using v_elect.hyps(2) by (rule unat_u64_Suc)
  then have lt: "currentTerm r < currentTerm r'"
    by (simp add: f word_less_nat_alt)
  show ?case
    using vote_inv_update [OF v_elect.prems v_elect.hyps(1), of r' "{(n, currentTerm r', raftId r)}"]
      lt f by simp
next
  case (v_request c n r req r' resp)
  note f = RequestVote_vote [OF v_request.hyps(2)]
  show ?case
    using vote_inv_update [OF v_request.prems v_request.hyps(1) f(1) f(3),
        of "if respVoteGranted resp then {(n, respTerm resp, reqCandidateID req)} else {}"]
      f by (auto split: if_splits)
next
  case (v_follow c n r t)
  show ?case
    using vote_inv_update [OF v_follow.prems v_follow.hyps(1), of "becomeFollowerLocked t r" "{}"]
    by (auto simp: becomeFollower_term becomeFollower_votedFor max_def split: if_splits)
next
  case (v_log c n r r')
  show ?case
    using vote_inv_update [OF v_log.prems v_log.hyps(1), of r' "{}"] v_log.hyps by simp
qed

lemma vote_inv_init: "vote_init c \<Longrightarrow> vote_inv c"
  by (simp add: vote_init_def vote_inv_def)

interpretation votes: inductive_invariant vote_init vote_step vote_inv
  by unfold_locales (auto intro: vote_inv_init vote_step_inv)

subsection \<open>Majorities\<close>

definition voters :: "cluster \<Rightarrow> u64 \<Rightarrow> string \<Rightarrow> string set" where
  "voters c t d = {n. (n, t, d) \<in> granted c}"

lemma majorities_meet:
  assumes "finite M" "A \<subseteq> M" "B \<subseteq> M" "card M < 2 * card A" "card M < 2 * card B"
  shows "A \<inter> B \<noteq> {}"
proof
  assume "A \<inter> B = {}"
  moreover have "finite A" "finite B"
    using assms(1-3) by (auto intro: finite_subset)
  ultimately have "card (A \<union> B) = card A + card B"
    by (intro card_Un_disjoint)
  moreover have "card (A \<union> B) \<le> card M"
    using assms(1-3) by (intro card_mono) auto
  ultimately show False
    using assms(4,5) by linarith
qed

subsection \<open>Properties\<close>

lemma voters_meet:
  assumes "reachable vote_init vote_step c" and "finite M"
    and "voters c t d \<subseteq> M" "voters c t d' \<subseteq> M"
    and "card M < 2 * card (voters c t d)" "card M < 2 * card (voters c t d')"
  shows "\<exists>n. (n, t, d) \<in> granted c \<and> (n, t, d') \<in> granted c"
  using majorities_meet [OF assms(2-6)] by (auto simp: voters_def)

text \<open>C4. Election safety: nodes that start elections below the largest term and keep their state
  handle any sequence of vote requests, lost, repeated, reordered or invented, nameless ones
  included.  In every cluster they reach, two candidates with a name that both hold the votes
  of a majority of the same members for the same term are the same candidate.\<close>

theorem election_safety:
  assumes "reachable vote_init vote_step c" and "finite M"
    and "voters c t d \<subseteq> M" "voters c t d' \<subseteq> M"
    and "card M < 2 * card (voters c t d)" "card M < 2 * card (voters c t d')"
    and "d \<noteq> []" "d' \<noteq> []"
  shows "d = d'"
proof -
  obtain n where "(n, t, d) \<in> granted c" "(n, t, d') \<in> granted c"
    using voters_meet [OF assms(1-6)] by blast
  with votes.reachable_inv [OF assms(1)] assms(7,8) show ?thesis
    unfolding vote_inv_def by blast
qed

text \<open>
  The name is needed: a request without a candidate is granted, and the voter then still has
  its vote of that term.
\<close>

lemma nameless_vote_forgotten:
  assumes "reqCandidateID req = []" "RequestVote req r = Some (r', resp)" "respVoteGranted resp"
  shows "votedFor r' = []" "currentTerm r' = reqTerm req"
  using RequestVote_vote [OF assms(2)] assms(1,3) by simp_all

text \<open>
  A run of two nodes: \<open>a\<close> starts an election and votes for itself, \<open>b\<close> handles the request
  and grants it.
\<close>

definition demo_start :: cluster where
  "demo_start = \<lparr>raftOf = [''a'' \<mapsto> newRaft ''a'' [''b''], ''b'' \<mapsto> newRaft ''b'' [''a'']],
                granted = {}\<rparr>"

definition demo_req :: RequestVoteRequest where
  "demo_req = \<lparr>reqTerm = 1, reqCandidateID = ''a'', reqLastLogIndex = 0, reqLastLogTerm = 0\<rparr>"

lemma demo_elect:
  "startElection (newRaft ''a'' [''b'']) =
     Some ((newRaft ''a'' [''b''])\<lparr>currentTerm := 1, role := Candidate, votedFor := ''a''\<rparr>, demo_req)"
  by (simp add: startElection_def becomeCandidateLocked_def requestVoteRequestLocked_def
      newRaft_def Let_def goIndex_def last_index_def u64_of_int_def demo_req_def dummyEntry_def)

lemma demo_grant:
  "RequestVote demo_req (newRaft ''b'' [''a'']) =
     Some ((newRaft ''b'' [''a''])\<lparr>currentTerm := 1, votedFor := ''a''\<rparr>,
           \<lparr>respTerm = 1, respVoteGranted = True\<rparr>)"
  by (simp add: RequestVote_def becomeFollowerLocked_def candidateLogUpToDate_def
      newRaft_def Let_def goIndex_def last_index_def u64_of_int_def demo_req_def dummyEntry_def)

lemma demo_reachable:
  "\<exists>c. reachable vote_init vote_step c \<and> voters c 1 ''a'' = {''a'', ''b''}"
proof -
  let ?a = "(newRaft ''a'' [''b''])\<lparr>currentTerm := 1, role := Candidate, votedFor := ''a''\<rparr>"
  let ?b = "(newRaft ''b'' [''a''])\<lparr>currentTerm := 1, votedFor := ''a''\<rparr>"
  let ?c1 = "demo_start\<lparr>raftOf := (raftOf demo_start)(''a'' \<mapsto> ?a), granted := {(''a'', 1, ''a'')}\<rparr>"
  let ?c2 = "?c1\<lparr>raftOf := (raftOf ?c1)(''b'' \<mapsto> ?b), granted := {(''b'', 1, ''a''), (''a'', 1, ''a'')}\<rparr>"
  have "reachable vote_init vote_step demo_start"
    by (rule reach_init) (auto simp: vote_init_def demo_start_def split: if_splits)
  moreover have "vote_step demo_start ?c1"
    using v_elect [of demo_start "''a''", OF _ _ demo_elect]
    by (simp add: demo_start_def newRaft_def word_gt_0)
  moreover have "vote_step ?c1 ?c2"
    using v_request [of ?c1 "''b''", OF _ demo_grant]
    by (simp add: demo_start_def demo_req_def)
  ultimately have "reachable vote_init vote_step ?c2"
    by (blast intro: reach_step)
  moreover have "voters ?c2 1 ''a'' = {''a'', ''b''}"
    by (auto simp: voters_def)
  ultimately show ?thesis by blast
qed

theorem election_safety_witness:
  "\<exists>c. voters c 1 ''a'' = {''a'', ''b''} \<and>
     (\<forall>d. d \<noteq> [] \<longrightarrow> 1 < card (voters c 1 d) \<longrightarrow> voters c 1 d \<subseteq> {''a'', ''b''} \<longrightarrow> d = ''a'')"
proof -
  obtain c where c: "reachable vote_init vote_step c" "voters c 1 ''a'' = {''a'', ''b''}"
    using demo_reachable by blast
  have "d = ''a''" if "d \<noteq> []" "1 < card (voters c 1 d)" "voters c 1 d \<subseteq> {''a'', ''b''}" for d
    using election_safety [OF c(1), of "{''a'', ''b''}" 1 d "''a''"] c(2) that by simp
  with c(2) show ?thesis by blast
qed

end
