(* ===== verification/Raftgrpc.thy ===== *)
theory Raftgrpc
  imports Raft
begin

text \<open>
  The gRPC adapter \<open>internal/raftgrpc\<close>: the protobuf messages of \<open>gen/raft/v1\<close> with their
  nil-safe getters, the server handler and the client call.  The transport between them
  (\<open>google.golang.org/grpc\<close>, not part of the repository) is the parameter \<open>rpc\<close>.
\<close>

record PbRequest =
  Term :: u64
  CandidateId :: string
  pbLastLogIndex :: u64
  pbLastLogTerm :: u64

record PbResponse =
  pbTerm :: u64
  pbVoteGranted :: bool

text \<open>A pointer to a message is an option; the generated getters answer zero on nil.\<close>

definition GetTerm :: "PbRequest option \<Rightarrow> u64" where
  "GetTerm x = (case x of Some m \<Rightarrow> Term m | None \<Rightarrow> 0)"

definition GetCandidateId :: "PbRequest option \<Rightarrow> string" where
  "GetCandidateId x = (case x of Some m \<Rightarrow> CandidateId m | None \<Rightarrow> [])"

definition GetLastLogIndex :: "PbRequest option \<Rightarrow> u64" where
  "GetLastLogIndex x = (case x of Some m \<Rightarrow> pbLastLogIndex m | None \<Rightarrow> 0)"

definition GetLastLogTerm :: "PbRequest option \<Rightarrow> u64" where
  "GetLastLogTerm x = (case x of Some m \<Rightarrow> pbLastLogTerm m | None \<Rightarrow> 0)"

definition respGetTerm :: "PbResponse option \<Rightarrow> u64" where
  "respGetTerm x = (case x of Some m \<Rightarrow> pbTerm m | None \<Rightarrow> 0)"

definition GetVoteGranted :: "PbResponse option \<Rightarrow> bool" where
  "GetVoteGranted x = (case x of Some m \<Rightarrow> pbVoteGranted m | None \<Rightarrow> False)"

definition serverRequestVote :: "PbRequest option \<Rightarrow> Raft \<Rightarrow> (Raft \<times> PbResponse option) option" where
  "serverRequestVote req r =
     (case RequestVote \<lparr>reqTerm = GetTerm req, reqCandidateID = GetCandidateId req,
                        reqLastLogIndex = GetLastLogIndex req,
                        reqLastLogTerm = GetLastLogTerm req\<rparr> r of
        None \<Rightarrow> None
      | Some (r', result) \<Rightarrow>
          Some (r', Some \<lparr>pbTerm = respTerm result, pbVoteGranted = respVoteGranted result\<rparr>))"

definition clientRequestVote ::
  "(PbRequest option \<Rightarrow> 'e + PbResponse option) \<Rightarrow> RequestVoteRequest
     \<Rightarrow> RequestVoteResponse \<times> 'e option" where
  "clientRequestVote rpc req =
     (case rpc (Some \<lparr>Term = reqTerm req, CandidateId = reqCandidateID req,
                      pbLastLogIndex = reqLastLogIndex req, pbLastLogTerm = reqLastLogTerm req\<rparr>) of
        Inl err \<Rightarrow> (\<lparr>respTerm = 0, respVoteGranted = False\<rparr>, Some err)
      | Inr resp \<Rightarrow> (\<lparr>respTerm = respGetTerm resp, respVoteGranted = GetVoteGranted resp\<rparr>, None))"

lemmas getters = GetTerm_def GetCandidateId_def GetLastLogIndex_def GetLastLogTerm_def
  respGetTerm_def GetVoteGranted_def

text \<open>A transport that hands the request to the server on \<open>r\<close> and brings the answer back.\<close>

definition deliver :: "'e \<Rightarrow> Raft \<Rightarrow> PbRequest option \<Rightarrow> 'e + PbResponse option" where
  "deliver e r m = (case serverRequestVote m r of Some (_, a) \<Rightarrow> Inr a | None \<Rightarrow> Inl e)"

lemma serverRequestVote_eq:
  assumes "RequestVote req r = Some (r', resp)"
  shows "serverRequestVote (Some \<lparr>Term = reqTerm req, CandidateId = reqCandidateID req,
      pbLastLogIndex = reqLastLogIndex req, pbLastLogTerm = reqLastLogTerm req\<rparr>) r
    = Some (r', Some \<lparr>pbTerm = respTerm resp, pbVoteGranted = respVoteGranted resp\<rparr>)"
  using assms by (cases req) (simp add: serverRequestVote_def getters)

subsection \<open>Properties\<close>

text \<open>A call over the adapter is the local call: when the transport hands the request to the
  server and brings the answer back, the client returns exactly what the node's own
  \<open>RequestVote\<close> answers and the server keeps exactly its new state; when the transport fails,
  the client returns the zero answer and the error, so a vote is never reported.\<close>

theorem rpc_is_local_call:
  assumes "raft_ok r"
  shows "\<exists>r' resp. RequestVote req r = Some (r', resp)
    \<and> clientRequestVote (deliver e r) req = (resp, None)
    \<and> map_option fst (serverRequestVote (Some \<lparr>Term = reqTerm req, CandidateId = reqCandidateID req,
         pbLastLogIndex = reqLastLogIndex req, pbLastLogTerm = reqLastLogTerm req\<rparr>) r) = Some r'
    \<and> clientRequestVote (\<lambda>_. Inl e) req = (\<lparr>respTerm = 0, respVoteGranted = False\<rparr>, Some e)"
proof -
  obtain r' resp where eq: "RequestVote req r = Some (r', resp)"
    using RequestVote_total [OF assms] by blast
  have "\<lparr>respTerm = respTerm resp, respVoteGranted = respVoteGranted resp\<rparr> = resp"
    by simp
  with eq serverRequestVote_eq [OF eq] show ?thesis
    by (simp add: clientRequestVote_def deliver_def getters)
qed

theorem rpc_is_local_call_witness:
  "clientRequestVote (deliver () two_entries)
     \<lparr>reqTerm = 4, reqCandidateID = ''c'', reqLastLogIndex = 1, reqLastLogTerm = 3\<rparr>
   = (\<lparr>respTerm = 4, respVoteGranted = True\<rparr>, None)"
proof -
  let ?req = "\<lparr>reqTerm = 4, reqCandidateID = ''c'', reqLastLogIndex = 1, reqLastLogTerm = 3\<rparr>"
  obtain r' resp where eq: "RequestVote ?req two_entries = Some (r', resp)"
    and call: "clientRequestVote (deliver () two_entries) ?req = (resp, None)"
    using rpc_is_local_call [OF two_entries_ok, of ?req "()"] by auto
  from eq have "resp = \<lparr>respTerm = 4, respVoteGranted = True\<rparr>"
    by (auto simp: RequestVote_def two_entries_def newRaft_def becomeFollowerLocked_def Let_def
        goIndex_def last_index_def u64_of_int_def candidateLogUpToDate_def)
  with call show ?thesis by simp
qed

end
