(* ===== verification/GoLib.thy ===== *)
theory GoLib
  imports Prelude "HOL-Library.Char_ord" "HOL-Library.List_Lexorder"
begin

text \<open>
  What the source uses of Go's standard library, executable: \<open>hash/crc32\<close> with the IEEE
  polynomial, \<open>encoding/binary\<close> big endian, the decimal \<open>%d\<close> of \<open>fmt\<close>, the binary search
  \<open>sort.Search\<close> and the zero value of a missing map entry.  A Go string is a byte sequence,
  here a \<open>string\<close>; its order is the bytewise order of \<open>HOL-Library.List_Lexorder\<close>.
\<close>

unbundle bit_operations_syntax

subsection \<open>Strings, maps\<close>

definition bytesOf :: "string \<Rightarrow> bytes" where
  "bytesOf s = map of_char s"

definition stringOf :: "bytes \<Rightarrow> string" where
  "stringOf bs = map (\<lambda>b. char_of (unat b)) bs"

text \<open>Reading a Go map at a missing key gives the zero value.\<close>

definition mapGet :: "('k \<rightharpoonup> string) \<Rightarrow> 'k \<Rightarrow> string" where
  "mapGet m k = (case m k of None \<Rightarrow> [] | Some v \<Rightarrow> v)"

definition digitChar :: "nat \<Rightarrow> char" where
  "digitChar d = char_of (48 + d)"

fun decimal :: "nat \<Rightarrow> string" where
  "decimal n = (if n < 10 then [digitChar n] else decimal (n div 10) @ [digitChar (n mod 10)])"

declare decimal.simps [simp del]

subsection \<open>CRC-32\<close>

definition crcPoly :: u32 where
  "crcPoly = 0xEDB88320"

definition crcBit :: "u32 \<Rightarrow> u32" where
  "crcBit c = (if bit c 0 then drop_bit 1 c XOR crcPoly else drop_bit 1 c)"

definition crcByte :: "u32 \<Rightarrow> u8 \<Rightarrow> u32" where
  "crcByte c b = (let x = c XOR ucast b
     in crcBit (crcBit (crcBit (crcBit (crcBit (crcBit (crcBit (crcBit x))))))))"

definition crcUpdate :: "u32 \<Rightarrow> bytes \<Rightarrow> u32" where
  "crcUpdate c bs = foldl crcByte c bs"

definition crc32 :: "bytes \<Rightarrow> u32" where
  "crc32 bs = NOT (crcUpdate (NOT 0) bs)"

lemma crcUpdate_append: "crcUpdate c (xs @ ys) = crcUpdate (crcUpdate c xs) ys"
  by (simp add: crcUpdate_def)

text \<open>Two byte strings with one checksum keep one checksum under any common suffix.\<close>

lemma crc32_append:
  assumes "crc32 xs = crc32 ys"
  shows "crc32 (xs @ zs) = crc32 (ys @ zs)"
proof -
  have "crcUpdate (NOT 0) xs = crcUpdate (NOT 0) ys"
    using assms by (simp add: crc32_def)
  then show ?thesis
    by (simp add: crc32_def crcUpdate_append)
qed

subsection \<open>Big endian\<close>

definition putUint32 :: "u32 \<Rightarrow> bytes" where
  "putUint32 v = [ucast (drop_bit 24 v), ucast (drop_bit 16 v), ucast (drop_bit 8 v), ucast v]"

definition putUint16 :: "u16 \<Rightarrow> bytes" where
  "putUint16 v = [ucast (drop_bit 8 v), ucast v]"

text \<open>The readers index their slice and so need four and two bytes.\<close>

definition getUint32 :: "bytes \<Rightarrow> u32" where
  "getUint32 bs = push_bit 24 (ucast (bs ! 0)) OR push_bit 16 (ucast (bs ! 1))
     OR push_bit 8 (ucast (bs ! 2)) OR ucast (bs ! 3)"

definition getUint16 :: "bytes \<Rightarrow> u16" where
  "getUint16 bs = push_bit 8 (ucast (bs ! 0)) OR ucast (bs ! 1)"

lemma length_putUint32 [simp]: "length (putUint32 v) = 4"
  by (simp add: putUint32_def)

lemma length_putUint16 [simp]: "length (putUint16 v) = 2"
  by (simp add: putUint16_def)

lemma getUint32_put [simp]: "getUint32 (putUint32 v @ rest) = v"
proof (rule bit_word_eqI)
  fix n
  assume "n < LENGTH(32)"
  then have n: "n < 32" by simp
  have eq: "getUint32 (putUint32 v @ rest) =
      push_bit 24 (ucast (ucast (drop_bit 24 v) :: u8)) OR push_bit 16 (ucast (ucast (drop_bit 16 v) :: u8))
      OR push_bit 8 (ucast (ucast (drop_bit 8 v) :: u8)) OR ucast (ucast v :: u8)"
    by (simp add: getUint32_def putUint32_def)
  consider "n < 8" | "8 \<le> n" "n < 16" | "16 \<le> n" "n < 24" | "24 \<le> n"
    by linarith
  then show "bit (getUint32 (putUint32 v @ rest)) n = bit v n"
    unfolding eq using n
    by cases (auto simp: bit_or_iff bit_push_bit_iff bit_unsigned_iff bit_drop_bit_eq less_diff_conv2)
qed

lemma getUint16_put [simp]: "getUint16 (putUint16 v @ rest) = v"
proof (rule bit_word_eqI)
  fix n
  assume "n < LENGTH(16)"
  then have n: "n < 16" by simp
  have eq: "getUint16 (putUint16 v @ rest) =
      push_bit 8 (ucast (ucast (drop_bit 8 v) :: u8)) OR ucast (ucast v :: u8)"
    by (simp add: getUint16_def putUint16_def)
  consider "n < 8" | "8 \<le> n" by linarith
  then show "bit (getUint16 (putUint16 v @ rest)) n = bit v n"
    unfolding eq using n
    by cases (auto simp: bit_or_iff bit_push_bit_iff bit_unsigned_iff bit_drop_bit_eq less_diff_conv2)
qed

lemma getUint32_put_only [simp]: "getUint32 (putUint32 v) = v"
  using getUint32_put [of v "[]"] by simp

lemma getUint16_put_only [simp]: "getUint16 (putUint16 v) = v"
  using getUint16_put [of v "[]"] by simp

lemma putUint32_get: "length bs = 4 \<Longrightarrow> putUint32 (getUint32 bs) = bs"
proof -
  assume "length bs = 4"
  then obtain a b c d where bs: "bs = [a, b, c, d]"
    by (auto simp: length_Suc_conv eval_nat_numeral)
  let ?w = "getUint32 bs"
  have w: "?w = push_bit 24 (ucast a) OR push_bit 16 (ucast b) OR push_bit 8 (ucast c) OR ucast d"
    by (simp add: bs getUint32_def)
  have short: "\<not> bit x n" if "8 \<le> n" for x :: u8 and n
    using bit_imp_le_length [of x n] that by auto
  have "ucast (drop_bit 24 ?w) = a" "ucast (drop_bit 16 ?w) = b" "ucast (drop_bit 8 ?w) = c" "ucast ?w = d"
    unfolding w by (rule bit_word_eqI;
      simp add: bit_or_iff bit_push_bit_iff bit_unsigned_iff bit_drop_bit_eq short)+
  then show ?thesis
    by (simp add: putUint32_def bs)
qed

subsection \<open>Binary search\<close>

text \<open>\<open>sort.Search(n, f)\<close>: the least index where a monotone predicate holds, else \<open>n\<close>.\<close>

function searchLoop :: "(nat \<Rightarrow> bool) \<Rightarrow> nat \<Rightarrow> nat \<Rightarrow> nat" where
  "searchLoop f i j =
     (if i < j
      then (let h = (i + j) div 2 in if \<not> f h then searchLoop f (h + 1) j else searchLoop f i h)
      else i)"
  by pat_completeness auto
termination
  by (relation "measure (\<lambda>(f, i, j). j - i)") auto

declare searchLoop.simps [simp del]

definition sortSearch :: "nat \<Rightarrow> (nat \<Rightarrow> bool) \<Rightarrow> nat" where
  "sortSearch n f = searchLoop f 0 n"

lemma searchLoop_spec:
  assumes "i \<le> j" and "\<And>a b. a \<le> b \<Longrightarrow> f a \<Longrightarrow> b < n \<Longrightarrow> f b" and "j \<le> n"
    and "\<And>k. k < i \<Longrightarrow> \<not> f k" and "j < n \<Longrightarrow> f j"
  shows "searchLoop f i j \<le> n \<and> (\<forall>k < searchLoop f i j. \<not> f k)
    \<and> (searchLoop f i j < n \<longrightarrow> f (searchLoop f i j))"
  using assms
proof (induction f i j rule: searchLoop.induct)
  case (1 f i j)
  show ?case
  proof (cases "i < j")
    case False
    with "1.prems" have "i = j" by simp
    with "1.prems" show ?thesis by (auto simp: searchLoop.simps [of f j j])
  next
    case True
    define h where "h = (i + j) div 2"
    have h: "i \<le> h" "h < j" using True by (auto simp: h_def)
    show ?thesis
    proof (cases "f h")
      case f: True
      have "searchLoop f i j = searchLoop f i h"
        using True f by (simp add: searchLoop.simps [of f i j] h_def)
      moreover have "searchLoop f i h \<le> n \<and> (\<forall>k < searchLoop f i h. \<not> f k)
          \<and> (searchLoop f i h < n \<longrightarrow> f (searchLoop f i h))"
        using "1.prems" h f by (intro "1.IH"(2) [OF True h_def]) auto
      ultimately show ?thesis by simp
    next
      case f: False
      have "searchLoop f i j = searchLoop f (h + 1) j"
        using True f by (simp add: searchLoop.simps [of f i j] h_def)
      moreover have "searchLoop f (h + 1) j \<le> n \<and> (\<forall>k < searchLoop f (h + 1) j. \<not> f k)
          \<and> (searchLoop f (h + 1) j < n \<longrightarrow> f (searchLoop f (h + 1) j))"
      proof (intro "1.IH"(1) [OF True h_def] f)
        show "\<not> f k" if "k < h + 1" for k
          using "1.prems"(2) [of k h] that h f "1.prems"(3) by auto
      qed (use "1.prems" h in auto)
      ultimately show ?thesis by simp
    qed
  qed
qed

lemma sortSearch_spec:
  assumes "\<And>a b. a \<le> b \<Longrightarrow> f a \<Longrightarrow> b < n \<Longrightarrow> f b"
  shows "sortSearch n f \<le> n" and "k < sortSearch n f \<Longrightarrow> \<not> f k"
    and "sortSearch n f < n \<Longrightarrow> f (sortSearch n f)"
  using searchLoop_spec [of 0 n f n] assms by (auto simp: sortSearch_def)

end
