(* ===== verification/RingWalk.thy ===== *)
theory RingWalk
  imports HashRing "HOL-Library.Sublist"
begin

text \<open>
  What the ring's lookups compute.  \<open>walk\<close> is the list of positions in clockwise order from
  the key, \<open>owners\<close> the distinct nodes met on it.  \<open>Get\<close> answers the first of them and \<open>GetN\<close>
  the first \<open>n\<close>, whenever it returns; it returns exactly when the ring has enough distinct
  owners, or as many owners as positions.
\<close>

subsection \<open>First occurrences\<close>

definition firsts :: "'a list \<Rightarrow> 'a list" where
  "firsts xs = rev (remdups (rev xs))"

lemma firsts_Nil [simp]: "firsts [] = []"
  by (simp add: firsts_def)

lemma firsts_snoc: "firsts (xs @ [x]) = (if x \<in> set xs then firsts xs else firsts xs @ [x])"
  by (simp add: firsts_def)

lemma set_firsts [simp]: "set (firsts xs) = set xs"
  by (simp add: firsts_def)

lemma distinct_firsts [simp]: "distinct (firsts xs)"
  by (simp add: firsts_def)

lemma length_firsts: "length (firsts xs) = card (set xs)"
  by (metis distinct_card distinct_firsts set_firsts)

lemma prefix_firsts: "prefix (firsts xs) (firsts (xs @ ys))"
proof (induction ys rule: rev_induct)
  case Nil
  show ?case by simp
next
  case (snoc y ys)
  then show ?case
    by (auto simp: firsts_snoc simp flip: append_assoc intro: prefix_prefix)
qed

lemma firsts_absorb: "set ys \<subseteq> set xs \<Longrightarrow> firsts (xs @ ys) = firsts xs"
proof (induction ys rule: rev_induct)
  case (snoc y ys)
  then show ?case
    by (auto simp: firsts_snoc simp flip: append_assoc)
qed simp

lemma filter_firsts: "filter P (firsts xs) = firsts (filter P xs)"
  by (induction xs rule: rev_induct) (auto simp: firsts_snoc)

subsection \<open>The clockwise walk\<close>

definition owner :: "Ring \<Rightarrow> u32 \<Rightarrow> string" where
  "owner r h = mapGet (nodes r) h"

definition walk :: "string \<Rightarrow> Ring \<Rightarrow> u32 list" where
  "walk key r = filter (\<lambda>h. hash key \<le> h) (hashes r) @ filter (\<lambda>h. \<not> hash key \<le> h) (hashes r)"

definition owners :: "string \<Rightarrow> Ring \<Rightarrow> string list" where
  "owners key r = firsts (map (owner r) (walk key r))"

lemma set_walk [simp]: "set (walk key r) = set (hashes r)"
  by (auto simp: walk_def)

lemma length_walk [simp]: "length (walk key r) = length (hashes r)"
  by (simp add: walk_def sum_length_filter_compl)

lemma filter_sorted_split:
  fixes hs :: "'a::linorder list"
  assumes "sorted hs" and "k \<le> length hs"
    and "\<And>i. i < k \<Longrightarrow> \<not> h \<le> hs ! i" and "k < length hs \<Longrightarrow> h \<le> hs ! k"
  shows "filter (\<lambda>x. h \<le> x) hs = drop k hs" and "filter (\<lambda>x. \<not> h \<le> x) hs = take k hs"
proof -
  have lo: "\<not> h \<le> x" if "x \<in> set (take k hs)" for x
    using that assms(2,3) by (auto simp: in_set_conv_nth)
  have hi: "h \<le> x" if "x \<in> set (drop k hs)" for x
  proof -
    from that obtain i where i: "i < length hs - k" "x = hs ! (k + i)"
      by (auto simp: in_set_conv_nth)
    then have "hs ! k \<le> x"
      using assms(1) by (auto intro: sorted_nth_mono)
    moreover have "h \<le> hs ! k"
      using assms(4) i(1) by auto
    ultimately show ?thesis by (rule order_trans [rotated])
  qed
  have split: "filter P hs = filter P (take k hs) @ filter P (drop k hs)" for P
    by (metis append_take_drop_id filter_append)
  have "filter (\<lambda>x. h \<le> x) (take k hs) = []" "filter (\<lambda>x. h \<le> x) (drop k hs) = drop k hs"
    using lo hi by (simp_all only: filter_empty_conv filter_id_conv) blast+
  then show "filter (\<lambda>x. h \<le> x) hs = drop k hs"
    by (simp only: split append_Nil)
  have "filter (\<lambda>x. \<not> h \<le> x) (take k hs) = take k hs" "filter (\<lambda>x. \<not> h \<le> x) (drop k hs) = []"
    using lo hi by (simp_all only: filter_empty_conv filter_id_conv) blast+
  then show "filter (\<lambda>x. \<not> h \<le> x) hs = take k hs"
    by (simp only: split append_Nil2)
qed

lemma walk_rotate:
  assumes "sorted (hashes r)" and "hashes r \<noteq> []"
  shows "walk key r = rotate (startIndex key r) (hashes r)" and "startIndex key r < length (hashes r)"
proof -
  let ?f = "\<lambda>i. hash key \<le> hashes r ! i"
  define k where "k = sortSearch (length (hashes r)) ?f"
  have mono: "?f b" if "a \<le> b" "?f a" "b < length (hashes r)" for a b
    using sorted_nth_mono [OF assms(1) that(1,3)] that(2) by simp
  have k: "k \<le> length (hashes r)" "\<And>i. i < k \<Longrightarrow> \<not> ?f i" "k < length (hashes r) \<Longrightarrow> ?f k"
    unfolding k_def using sortSearch_spec [of ?f "length (hashes r)"] mono by blast+
  have start: "startIndex key r = (if k = length (hashes r) then 0 else k)"
    by (simp add: startIndex_def k_def Let_def)
  then show "startIndex key r < length (hashes r)"
    using k(1) assms(2) by auto
  have "walk key r = drop k (hashes r) @ take k (hashes r)"
    unfolding walk_def using filter_sorted_split [OF assms(1) k(1), of "hash key"] k(2,3) by metis
  also have "\<dots> = rotate (startIndex key r) (hashes r)"
    using k(1) start by (auto simp: rotate_drop_take)
  finally show "walk key r = rotate (startIndex key r) (hashes r)" .
qed

lemma owners_facts:
  assumes "ring_ok r"
  shows "set (owners key r) = ran (nodes r)" and "length (owners key r) = card (ran (nodes r))"
    and "distinct (owners key r)" and "set (owners key r) \<subseteq> members r"
proof -
  have "owner r ` dom (nodes r) = ran (nodes r)"
    by (force simp: owner_def mapGet_def ran_def dom_def)
  with assms show s: "set (owners key r) = ran (nodes r)"
    by (simp add: owners_def ring_ok_def)
  show d: "distinct (owners key r)"
    by (simp add: owners_def)
  from s d show "length (owners key r) = card (ran (nodes r))"
    by (metis distinct_card)
  from s assms show "set (owners key r) \<subseteq> members r"
    by (auto simp: ring_ok_def ran_def)
qed

lemma owners_le_positions:
  assumes "ring_ok r"
  shows "length (owners key r) \<le> card (dom (nodes r))"
proof -
  have "finite (dom (nodes r))"
    using assms unfolding ring_ok_def by (metis List.finite_set)
  moreover have "length (owners key r) \<le> card (owner r ` dom (nodes r))"
    using assms by (simp add: owners_def length_firsts ring_ok_def)
  ultimately show ?thesis
    by (metis card_image_le le_trans)
qed

subsection \<open>The loop of GetN\<close>

text \<open>After \<open>j\<close> rounds the loop has visited the first \<open>j\<close> positions of the endless walk.\<close>

definition visits :: "string \<Rightarrow> Ring \<Rightarrow> nat \<Rightarrow> string list" where
  "visits key r j = map (\<lambda>i. owner r (walk key r ! (i mod length (hashes r)))) [0..<j]"

lemma visits_Suc:
  "visits key r (Suc j) = visits key r j @ [owner r (walk key r ! (j mod length (hashes r)))]"
  by (simp add: visits_def)

lemma visits_add:
  assumes "hashes r \<noteq> []"
  shows "\<exists>ys. visits key r (j + k) = visits key r j @ ys \<and> set ys \<subseteq> owner r ` set (hashes r)"
proof (intro exI conjI)
  let ?w = "\<lambda>i. owner r (walk key r ! (i mod length (hashes r)))"
  show "visits key r (j + k) = visits key r j @ map ?w [j..<j + k]"
    by (simp add: visits_def upt_add_eq_append [of 0 j k])
  have "?w i \<in> owner r ` set (hashes r)" for i
  proof -
    have "i mod length (hashes r) < length (walk key r)"
      using assms by simp
    from nth_mem [OF this] show ?thesis by simp
  qed
  then show "set (map ?w [j..<j + k]) \<subseteq> owner r ` set (hashes r)"
    by auto
qed

lemma visits_lap: "visits key r (length (hashes r)) = map (owner r) (walk key r)"
  by (rule nth_equalityI) (simp_all add: visits_def)

lemma firsts_visits_prefix:
  assumes "hashes r \<noteq> []"
  shows "prefix (firsts (visits key r j)) (owners key r)"
proof (cases "j \<le> length (hashes r)")
  case True
  then obtain k where "length (hashes r) = j + k"
    using le_Suc_ex by blast
  then obtain ys where "visits key r (length (hashes r)) = visits key r j @ ys"
    using visits_add [OF assms, of key j k] by auto
  then show ?thesis
    by (metis owners_def prefix_firsts visits_lap)
next
  case False
  then obtain k where "j = length (hashes r) + k"
    by (metis le_Suc_ex nat_le_linear)
  then obtain ys where "visits key r j = map (owner r) (walk key r) @ ys"
      "set ys \<subseteq> owner r ` set (hashes r)"
    using visits_add [OF assms, of key "length (hashes r)" k] by (auto simp: visits_lap)
  then show ?thesis
    by (simp add: owners_def firsts_absorb)
qed

definition going :: "string \<Rightarrow> Ring \<Rightarrow> int \<Rightarrow> nat \<Rightarrow> bool" where
  "going key r n j \<longleftrightarrow> int (length (firsts (visits key r j))) < n
     \<and> length (firsts (visits key r j)) < card (dom (nodes r))"

definition loopAt :: "string \<Rightarrow> Ring \<Rightarrow> int \<Rightarrow> nat \<Rightarrow> string list option" where
  "loopAt key r n j = getNLoop r n ((startIndex key r + j) mod length (hashes r))
     (set (firsts (visits key r j))) (firsts (visits key r j))"

lemma next_index:
  assumes "sorted (hashes r)" and "hashes r \<noteq> []"
    and idx_def: "idx = (startIndex key r + j) mod length (hashes r)"
  shows "(if idx + 1 = length (hashes r) then 0 else idx + 1) = (startIndex key r + Suc j) mod length (hashes r)"
    and "hashes r ! idx = walk key r ! (j mod length (hashes r))"
proof -
  show "(if idx + 1 = length (hashes r) then 0 else idx + 1) = (startIndex key r + Suc j) mod length (hashes r)"
    by (simp add: idx_def mod_Suc)
  show "hashes r ! idx = walk key r ! (j mod length (hashes r))"
    using assms(2) by (simp add: walk_rotate(1) [OF assms(1,2)] nth_rotate idx_def mod_add_right_eq)
qed

lemma loopAt_step:
  assumes "sorted (hashes r)" and "hashes r \<noteq> []"
  shows "loopAt key r n j =
    (if going key r n j then loopAt key r n (Suc j) else Some (firsts (visits key r j)))"
proof -
  define idx where "idx = (startIndex key r + j) mod length (hashes r)"
  note nx = next_index [OF assms idx_def]
  have card: "card (set (firsts (visits key r j))) = length (firsts (visits key r j))"
    by (simp add: distinct_card del: set_firsts)
  have node: "mapGet (nodes r) (hashes r ! idx) = owner r (walk key r ! (j mod length (hashes r)))"
    by (simp add: owner_def nx(2))
  show ?thesis
    unfolding loopAt_def idx_def [symmetric]
    by (subst getNLoop.simps, unfold card nx(1) node)
       (simp add: going_def visits_Suc firsts_snoc insert_absorb)
qed

lemma loopAt_stops:
  assumes "sorted (hashes r)" and "hashes r \<noteq> []" and "\<not> going key r n (j + k)"
  shows "\<exists>m \<ge> j. \<not> going key r n m \<and> (\<forall>i. j \<le> i \<and> i < m \<longrightarrow> going key r n i)
    \<and> loopAt key r n j = Some (firsts (visits key r m))"
  using assms(3)
proof (induction k arbitrary: j)
  case 0
  then show ?case
    using loopAt_step [OF assms(1,2), of key n j] by auto
next
  case (Suc k)
  show ?case
  proof (cases "going key r n j")
    case False
    then show ?thesis
      using loopAt_step [OF assms(1,2), of key n j] by auto
  next
    case True
    from Suc obtain m where m: "m \<ge> Suc j" "\<not> going key r n m"
        "\<forall>i. Suc j \<le> i \<and> i < m \<longrightarrow> going key r n i"
        "loopAt key r n (Suc j) = Some (firsts (visits key r m))"
      by (metis add_Suc_shift)
    with True have "\<forall>i. j \<le> i \<and> i < m \<longrightarrow> going key r n i"
      by (metis Suc_leI le_neq_implies_less)
    with m True show ?thesis
      using loopAt_step [OF assms(1,2), of key n j] by (intro exI [of _ m]) auto
  qed
qed

lemma loopAt_diverges:
  assumes "sorted (hashes r)" and "hashes r \<noteq> []" and go: "\<And>j. going key r n j"
  shows "loopAt key r n j = None"
proof (rule ccontr)
  assume "loopAt key r n j \<noteq> None"
  then obtain y where y: "getNLoop r n ((startIndex key r + j) mod length (hashes r))
     (set (firsts (visits key r j))) (firsts (visits key r j)) = Some y"
    by (auto simp: loopAt_def)
  let ?P = "\<lambda>r' n' idx seen result y. \<forall>j. r' = r \<longrightarrow> n' = n \<longrightarrow>
      idx = (startIndex key r + j) mod length (hashes r) \<longrightarrow> seen = set (firsts (visits key r j)) \<longrightarrow>
      result = firsts (visits key r j) \<longrightarrow> False"
  have "?P r n ((startIndex key r + j) mod length (hashes r))
     (set (firsts (visits key r j))) (firsts (visits key r j)) y"
  proof (rule getNLoop.raw_induct [where P = ?P, OF _ y])
    fix f r' n' idx seen result y
    assume IH: "\<And>r' n' idx seen result y. f r' n' idx seen result = Some y \<Longrightarrow> ?P r' n' idx seen result y"
      and eq: "(if int (length result) < n' \<and> card seen < card (dom (nodes r'))
        then f r' n' (if idx + 1 = length (hashes r') then 0 else idx + 1)
             (insert (mapGet (nodes r') (hashes r' ! idx)) seen)
             (if mapGet (nodes r') (hashes r' ! idx) \<in> seen then result
              else result @ [mapGet (nodes r') (hashes r' ! idx)])
        else Some result) = Some y"
    show "?P r' n' idx seen result y"
    proof (intro allI impI)
      fix j
      assume at: "r' = r" "n' = n" "idx = (startIndex key r + j) mod length (hashes r)"
        "seen = set (firsts (visits key r j))" "result = firsts (visits key r j)"
      note nx = next_index [OF assms(1,2) at(3)]
      have node: "mapGet (nodes r) (hashes r ! idx) = owner r (walk key r ! (j mod length (hashes r)))"
        by (simp add: owner_def nx(2))
      have cond: "int (length result) < n \<and> card seen < card (dom (nodes r))"
        using go [of j] at(4,5) by (simp add: going_def length_firsts)
      from eq have "f r n ((startIndex key r + Suc j) mod length (hashes r))
          (insert (owner r (walk key r ! (j mod length (hashes r)))) seen)
          (if owner r (walk key r ! (j mod length (hashes r))) \<in> seen then result
           else result @ [owner r (walk key r ! (j mod length (hashes r)))]) = Some y"
        by (simp only: at(1,2) cond if_True simp_thms nx(1) node)
      then have "f r n ((startIndex key r + Suc j) mod length (hashes r))
          (set (firsts (visits key r (Suc j)))) (firsts (visits key r (Suc j))) = Some y"
        unfolding at(4,5) by (simp add: visits_Suc firsts_snoc insert_absorb split: if_splits)
      from IH [OF this] show False
        by blast
    qed
  qed
  then show False by blast
qed

subsection \<open>What GetN and Get return\<close>

definition quota :: "int \<Rightarrow> Ring \<Rightarrow> int" where
  "quota n r = min n (int (card (members r)))"

lemma GetN_loopAt:
  assumes "sorted (hashes r)" and "hashes r \<noteq> []" and "0 < n"
  shows "GetN key n r = loopAt key r (quota n r) 0"
  using assms walk_rotate(2) [OF assms(1,2), of key]
  by (simp add: GetN_def loopAt_def quota_def min_def visits_def)

lemma GetN_enough:
  assumes ok: "ring_ok r" and ne: "hashes r \<noteq> []" and n: "0 < n"
    and enough: "quota n r \<le> int (length (owners key r))
      \<or> card (dom (nodes r)) \<le> length (owners key r)"
  shows "GetN key n r = Some (take (nat (quota n r)) (owners key r))"
proof -
  have so: "sorted (hashes r)"
    using ok by (simp add: ring_ok_def)
  let ?F = "\<lambda>j. firsts (visits key r j)" and ?q = "quota n r" and ?W = "owners key r"
  have "\<not> going key r ?q (0 + length (hashes r))"
    using enough by (auto simp: going_def visits_lap owners_def)
  from loopAt_stops [OF so ne this] obtain m where m: "\<not> going key r ?q m"
      "\<forall>i. i < m \<longrightarrow> going key r ?q i" "loopAt key r ?q 0 = Some (?F m)"
    by auto
  have pre: "prefix (?F m) ?W"
    by (rule firsts_visits_prefix [OF ne])
  have q0: "0 \<le> ?q"
    using n by (simp add: quota_def)
  have le: "int (length (?F m)) \<le> ?q"
  proof (cases m)
    case 0
    then show ?thesis using q0 by (simp add: visits_def)
  next
    case (Suc i)
    with m(2) have "int (length (?F i)) < ?q"
      by (auto simp: going_def)
    with Suc show ?thesis
      by (auto simp: visits_Suc firsts_snoc)
  qed
  have "?F m = take (nat ?q) ?W"
  proof (cases "int (length (?F m)) < ?q")
    case False
    with le have "nat ?q = length (?F m)" by simp
    with pre show ?thesis by (auto simp: prefix_def)
  next
    case True
    with m(1) have "card (dom (nodes r)) \<le> length (?F m)"
      by (simp add: going_def)
    with owners_le_positions [OF ok, of key] have "length ?W \<le> length (?F m)"
      by simp
    with pre have "?F m = ?W"
      by (auto simp: prefix_def)
    with True show ?thesis by simp
  qed
  with m(3) show ?thesis
    by (simp add: GetN_loopAt [OF so ne n])
qed

lemma GetN_stuck:
  assumes ok: "ring_ok r" and ne: "hashes r \<noteq> []" and n: "0 < n"
    and few: "int (length (owners key r)) < quota n r"
      "length (owners key r) < card (dom (nodes r))"
  shows "GetN key n r = None"
proof -
  have so: "sorted (hashes r)"
    using ok by (simp add: ring_ok_def)
  have "going key r (quota n r) j" for j
    using few prefix_length_le [OF firsts_visits_prefix [OF ne, of key j]]
    by (simp add: going_def)
  then show ?thesis
    by (simp add: GetN_loopAt [OF so ne n] loopAt_diverges [OF so ne])
qed

text \<open>
  A ring where every member kept a position, which fails only when the hashes of a member's
  virtual nodes are all taken over by other members.
\<close>

definition covered :: "Ring \<Rightarrow> bool" where
  "covered r \<longleftrightarrow> members r \<subseteq> ran (nodes r)"

lemma covered_members:
  assumes "ring_ok r" and "covered r"
  shows "ran (nodes r) = members r"
  using assms by (auto simp: ring_ok_def covered_def ran_def)

lemma Get_head:
  assumes "ring_ok r" and "hashes r \<noteq> []"
  shows "Get key r = (hd (owners key r), True)"
proof -
  have so: "sorted (hashes r)"
    using assms by (simp add: ring_ok_def)
  obtain h hs where w: "walk key r = h # hs"
    using assms(2) by (metis length_walk length_greater_0_conv neq_Nil_conv)
  have "hashes r ! startIndex key r = walk key r ! 0"
    using walk_rotate [OF so assms(2), of key] assms(2)
    by (simp add: nth_rotate)
  moreover have "hd (owners key r) = owner r h"
  proof -
    have "prefix (firsts [owner r h]) (owners key r)"
      using prefix_firsts [of "[owner r h]" "map (owner r) hs"] by (simp add: owners_def w)
    then show ?thesis
      by (auto simp: prefix_def firsts_def)
  qed
  ultimately show ?thesis
    using assms(2) by (simp add: Get_def owner_def w)
qed

end
