(* ===== verification/RingChange.thy ===== *)
theory RingChange
  imports RingWalk
begin

text \<open>
  Membership changes of the ring: what \<open>Add\<close> and \<open>Remove\<close> do to the placement of keys, and
  what happens when the virtual nodes of two members hash to the same positions.
\<close>

text \<open>A node that is new to the ring and whose virtual nodes hit no taken position.\<close>

definition fresh :: "string \<Rightarrow> Ring \<Rightarrow> bool" where
  "fresh x r \<longleftrightarrow> x \<notin> members r \<and> set (vhashes x r) \<inter> dom (nodes r) = {}"

lemma filter_out_added:
  assumes "ring_ok r" and "fresh x r"
  shows "filter (\<lambda>h. h \<notin> set (vhashes x r)) (sort (hashes r @ vhashes x r)) = hashes r"
proof -
  have "filter (\<lambda>h. h \<notin> set (vhashes x r)) (hashes r @ vhashes x r) = hashes r"
    using assms by (auto simp: ring_ok_def fresh_def filter_id_conv filter_empty_conv)
  with assms(1) show ?thesis
    by (simp add: filter_sort ring_ok_def sorted_sort_id)
qed

lemma Remove_Add_eq:
  assumes "ring_ok r" and "fresh x r"
  shows "Remove x (Add x r) = r"
proof -
  have "(\<lambda>h. if h \<in> set (vhashes x r) then None
      else if h \<in> set (vhashes x r) then Some x else nodes r h) = nodes r"
  proof
    show "(if h \<in> set (vhashes x r) then None
      else if h \<in> set (vhashes x r) then Some x else nodes r h) = nodes r h" for h
      using assms(2) by (cases "nodes r h") (auto simp: fresh_def dom_def)
  qed
  moreover have "insert x (members r) - {x} = members r"
    using assms(2) by (auto simp: fresh_def)
  moreover have "vhashes x (r\<lparr>members := M, nodes := N, hashes := H\<rparr>) = vhashes x r" for M N H
    by (simp add: vhashes_def)
  ultimately show ?thesis
    using assms(2) filter_out_added [OF assms]
    by (simp add: Remove_eq Add_eq fresh_def cong: if_cong)
qed

lemma walk_Add:
  assumes "ring_ok r" and "fresh x r"
  shows "filter (\<lambda>h. h \<notin> set (vhashes x r)) (walk key (Add x r)) = walk key r"
proof -
  have eq: "hashes (Add x r) = sort (hashes r @ vhashes x r)"
    using assms(2) by (simp add: Add_eq fresh_def)
  have "filter P (filter Q xs) = filter Q (filter P xs)" for P Q :: "u32 \<Rightarrow> bool" and xs
    by (simp add: conj_commute)
  then show ?thesis
    by (simp only: walk_def eq filter_append filter_out_added [OF assms])
qed

lemma owners_Add:
  assumes ok: "ring_ok r" and fr: "fresh x r"
  shows "filter (\<lambda>m. m \<noteq> x) (owners key (Add x r)) = owners key r"
proof -
  let ?H = "set (vhashes x r)"
  have own: "owner (Add x r) h = (if h \<in> ?H then x else owner r h)" for h
    using fr by (simp add: owner_def Add_eq fresh_def mapGet_def)
  have old: "owner r h \<noteq> x" if "h \<in> set (hashes r)" for h
    using that ok fr by (auto simp: ring_ok_def fresh_def owner_def mapGet_def)
  have "set (walk key (Add x r)) \<subseteq> set (hashes r) \<union> ?H"
    using fr by (auto simp: Add_eq fresh_def)
  then have "filter (\<lambda>m. m \<noteq> x) (map (owner (Add x r)) (walk key (Add x r)))
      = map (owner (Add x r)) (filter (\<lambda>h. h \<notin> ?H) (walk key (Add x r)))"
    unfolding filter_map o_def using old own by (intro arg_cong [where f = "map _"] filter_cong) auto
  also have "\<dots> = map (owner r) (walk key r)"
  proof -
    have "owner (Add x r) h = owner r h" if "h \<in> set (walk key r)" for h
      using that ok fr by (auto simp: own ring_ok_def fresh_def)
    then show ?thesis
      by (simp add: walk_Add [OF ok fr])
  qed
  finally show ?thesis
    by (simp add: owners_def filter_firsts)
qed

lemma covered_Add:
  assumes "covered r" and "fresh x r" and "0 < virtualNodes r"
  shows "covered (Add x r)"
  unfolding covered_def
proof
  fix m
  assume "m \<in> members (Add x r)"
  then consider "m = x" | "m \<in> members r"
    using assms(2) by (auto simp: Add_eq fresh_def)
  then show "m \<in> ran (nodes (Add x r))"
  proof cases
    case 1
    have "vhash x 0 \<in> set (vhashes x r)"
      using assms(3) by (auto simp: vhashes_def)
    with 1 assms(2) show ?thesis
      by (auto simp: Add_eq fresh_def ran_def)
  next
    case 2
    with assms(1) obtain h where "nodes r h = Some m"
      by (auto simp: covered_def ran_def)
    with assms(2) show ?thesis
      by (auto simp: Add_eq fresh_def ran_def dom_def)
  qed
qed

subsection \<open>Colliding members\<close>

text \<open>
  CRC-32 keeps a collision under a common suffix, so two member names with one checksum share
  the position of every virtual node, and the member added last owns all of them.
\<close>

lemma vhash_collide:
  assumes "crc32 (bytesOf a) = crc32 (bytesOf b)"
  shows "vhash a i = vhash b i"
  using crc32_append [OF assms] by (simp add: vhash_def hash_def virtualNode_def bytesOf_def)

lemma collide_ring:
  assumes "crc32 (bytesOf a) = crc32 (bytesOf b)" and "a \<noteq> b"
  shows "members (newRing [a, b] v) = {a, b}"
    and "nodes (newRing [a, b] v) = (\<lambda>h. if h \<in> vhash b ` {0..<nat v} then Some b else None)"
proof -
  have "vhash a = vhash b"
    using vhash_collide [OF assms(1)] by blast
  with assms(2) show "members (newRing [a, b] v) = {a, b}"
    and "nodes (newRing [a, b] v) = (\<lambda>h. if h \<in> vhash b ` {0..<nat v} then Some b else None)"
    by (auto simp: newRing_def emptyRing_def Add_eq vhashes_def fun_eq_iff)
qed

lemma collide_stuck:
  assumes "crc32 (bytesOf a) = crc32 (bytesOf b)" and "a \<noteq> b"
    and "vhash b 0 \<noteq> vhash b 1" and "2 \<le> v" and "2 \<le> n"
  shows "GetN key n (newRing [a, b] v) = None"
proof (rule GetN_stuck)
  let ?r = "newRing [a, b] v"
  note ring = collide_ring [OF assms(1,2), of v]
  show ok: "ring_ok ?r"
    by (rule ring_ok_newRing)
  have sub: "{vhash b 0, vhash b 1} \<subseteq> dom (nodes ?r)"
    using assms(4) by (auto simp: ring(2) dom_def)
  have "ran (nodes ?r) \<subseteq> {b}"
    by (auto simp: ring(2) ran_def split: if_splits)
  then have "card (ran (nodes ?r)) \<le> 1"
    using card_mono [of "{b}" "ran (nodes ?r)"] by simp
  then have own: "length (owners key ?r) \<le> 1"
    by (simp add: owners_facts(2) [OF ok])
  have "finite (dom (nodes ?r))"
    using ok unfolding ring_ok_def by (metis List.finite_set)
  from card_mono [OF this sub] have "2 \<le> card (dom (nodes ?r))"
    using assms(3) by simp
  with own show "length (owners key ?r) < card (dom (nodes ?r))"
    by linarith
  show "int (length (owners key ?r)) < quota n ?r"
    using own assms(2,5) by (simp add: quota_def ring(1))
  show "hashes ?r \<noteq> []"
    using sub ok unfolding ring_ok_def by fastforce
  show "0 < n"
    using assms(5) by simp
qed

subsection \<open>Properties\<close>

text \<open>The ring stays consistent: after any sequence of \<open>Add\<close> and \<open>Remove\<close> on a new ring the
  hash list is sorted and names exactly the positions of the map, and every position belongs to
  a current member through one of its virtual nodes.\<close>

theorem ring_operations_ok:
  "ring_ok (newRing ns v) \<and> (\<forall>r x. ring_ok r \<longrightarrow> ring_ok (Add x r) \<and> ring_ok (Remove x r))"
  by (simp add: ring_ok_newRing ring_ok_Add ring_ok_Remove)

theorem ring_operations_ok_witness:
  "ring_ok (Remove ''a'' (Add ''c'' (newRing [''a'', ''b''] 100)))"
  using ring_operations_ok [of "[''a'', ''b'']" 100] by blast

text \<open>\<open>Get\<close> answers the owner of the clockwise successor: the least position not below the
  key's hash, or the least position of all when there is none; the owner is a member.\<close>

theorem Get_successor:
  assumes "ring_ok r" and "hashes r \<noteq> []"
  shows "\<exists>h \<in> set (hashes r). Get key r = (owner r h, True) \<and> owner r h \<in> members r
    \<and> (if \<exists>x \<in> set (hashes r). hash key \<le> x
       then hash key \<le> h \<and> (\<forall>x \<in> set (hashes r). hash key \<le> x \<longrightarrow> h \<le> x)
       else \<forall>x \<in> set (hashes r). h \<le> x)"
proof -
  have so: "sorted (hashes r)"
    using assms(1) by (simp add: ring_ok_def)
  obtain h hs where w: "walk key r = h # hs"
    using assms(2) by (metis length_walk length_greater_0_conv neq_Nil_conv)
  have h: "h \<in> set (hashes r)"
    using w by (metis list.set_intros(1) set_walk)
  have "Get key r = (owner r h, True)"
    using walk_rotate [OF so assms(2), of key] assms(2) w
    by (simp add: Get_def owner_def) (metis hd_rotate_conv_nth list.sel(1) mod_less)
  moreover have "owner r h \<in> members r"
    using h assms(1) by (auto simp: ring_ok_def owner_def mapGet_def)
  moreover have "if \<exists>x \<in> set (hashes r). hash key \<le> x
       then hash key \<le> h \<and> (\<forall>x \<in> set (hashes r). hash key \<le> x \<longrightarrow> h \<le> x)
       else \<forall>x \<in> set (hashes r). h \<le> x"
  proof (cases "filter (\<lambda>x. hash key \<le> x) (hashes r)")
    case Nil
    then have "\<not> (\<exists>x \<in> set (hashes r). hash key \<le> x)" "walk key r = hashes r"
      by (auto simp: walk_def filter_empty_conv filter_id_conv)
    with w so show ?thesis by auto
  next
    case (Cons y ys)
    then have "y = h"
      using w by (simp add: walk_def)
    moreover have "sorted (y # ys)"
      using so sorted_wrt_filter [of "(\<le>)" "hashes r" "\<lambda>x. hash key \<le> x"] unfolding Cons by simp
    moreover have "set (y # ys) = {x \<in> set (hashes r). hash key \<le> x}"
      unfolding Cons [symmetric] by auto
    ultimately show ?thesis by auto
  qed
  ultimately show ?thesis
    using h by blast
qed

lemma GetN_covered:
  assumes "ring_ok r" and "covered r" and "members r \<noteq> {}" and "0 < n"
  shows "\<exists>ns. GetN key n r = Some ns \<and> ns = take (nat n) (owners key r)
    \<and> length ns = min (nat n) (card (members r)) \<and> distinct ns \<and> set ns \<subseteq> members r
    \<and> (hd ns, True) = Get key r"
proof -
  have card: "length (owners key r) = card (members r)"
    using covered_members [OF assms(1,2)] owners_facts(2) [OF assms(1)] by simp
  have ne: "hashes r \<noteq> []"
    using assms(1-3) unfolding ring_ok_def covered_def by (force simp: ran_def dom_def)
  have fin: "0 < card (members r)"
    using assms(1,3) by (auto simp: ring_ok_def card_gt_0_iff)
  have "GetN key n r = Some (take (nat (quota n r)) (owners key r))"
    by (rule GetN_enough [OF assms(1) ne assms(4)]) (simp add: quota_def card)
  moreover have take: "take (nat (quota n r)) (owners key r) = take (nat n) (owners key r)"
    by (simp add: quota_def card min_def)
  moreover have "hd (take (nat n) (owners key r)) = hd (owners key r)"
    using assms(4) by (cases "owners key r") (simp_all add: take_Cons')
  ultimately show ?thesis
    using owners_facts(3,4) [OF assms(1), of key] card Get_head [OF assms(1) ne, of key]
    by (auto simp: distinct_take dest: in_set_takeD)
qed

text \<open>C7. \<open>GetN\<close> on a ring where every member has a position returns, and returns the first
  distinct owners met clockwise from the key: as many as asked for or as there are members, no
  node twice, members only, the first of them the node \<open>Get\<close> answers.\<close>

theorem GetN_distinct_owners:
  assumes "ring_ok r" and "covered r" and "members r \<noteq> {}" and "0 < n"
  shows "\<exists>ns. GetN key n r = Some ns \<and> ns = take (nat n) (owners key r)
    \<and> length ns = min (nat n) (card (members r)) \<and> distinct ns \<and> set ns \<subseteq> members r
    \<and> (hd ns, True) = Get key r"
  by (rule GetN_covered [OF assms])

text \<open>When \<open>GetN\<close> returns at all: exactly when the ring has as many distinct owners as the
  call may ask for, or as many as it has positions.\<close>

theorem GetN_returns_iff:
  assumes "ring_ok r" and "hashes r \<noteq> []" and "0 < n"
  shows "(\<exists>ns. GetN key n r = Some ns) \<longleftrightarrow>
    min n (int (card (members r))) \<le> int (card (ran (nodes r)))
    \<or> card (dom (nodes r)) \<le> card (ran (nodes r))"
  using GetN_enough [OF assms, of key] GetN_stuck [OF assms, of key]
    owners_facts(2) [OF assms(1), of key]
  by (force simp: quota_def not_le)

text \<open>C9. Two member names with one CRC-32 hang every lookup: on the ring of these two members
  \<open>GetN\<close> never returns for any key when two or more replicas are asked for.\<close>

theorem GetN_hangs_on_collision:
  assumes "crc32 (bytesOf a) = crc32 (bytesOf b)" and "a \<noteq> b"
    and "vhash b 0 \<noteq> vhash b 1" and "2 \<le> v" and "2 \<le> n"
  shows "GetN key n (newRing [a, b] v) = None"
  by (rule collide_stuck [OF assms])

text \<open>C8. Adding a node moves only keys to that node: on a ring where every member holds a position
  (\<open>covered\<close>), when the new node is no member and none of its virtual nodes hits a position that is
  taken (\<open>fresh\<close>), every owner in a key's new replica set was an owner before or is the new node.\<close>

theorem Add_moves_only_to_new:
  assumes "ring_ok r" and "covered r" and "fresh x r" and "0 < virtualNodes r" and "0 < n"
  shows "\<exists>old new. GetN key n r = Some old \<and> GetN key n (Add x r) = Some new
    \<and> set new \<subseteq> insert x (set old)"
proof -
  note ok' = ring_ok_Add [OF assms(1), of x] and cov' = covered_Add [OF assms(2-4)]
  have mem': "members (Add x r) = insert x (members r)"
    using assms(3) by (simp add: Add_eq fresh_def)
  obtain new where new: "GetN key n (Add x r) = Some new" "new = take (nat n) (owners key (Add x r))"
      "set new \<subseteq> insert x (members r)"
    using GetN_covered [OF ok' cov' _ assms(5), of key] mem' by auto
  show ?thesis
  proof (cases "members r = {}")
    case True
    then have "hashes r = []"
      using assms(1) by (auto simp: ring_ok_def dom_def)
    with new True show ?thesis
      by (simp add: GetN_def)
  next
    case False
    obtain old where old: "GetN key n r = Some old" "old = take (nat n) (owners key r)"
      using GetN_covered [OF assms(1,2) False assms(5), of key] by auto
    have "filter (\<lambda>m. m \<noteq> x) new = take (length (filter (\<lambda>m. m \<noteq> x) new)) (owners key r)"
    proof -
      have "owners key r = filter (\<lambda>m. m \<noteq> x) new
          @ filter (\<lambda>m. m \<noteq> x) (drop (nat n) (owners key (Add x r)))"
        by (metis append_take_drop_id filter_append new(2) owners_Add [OF assms(1,3)])
      then show ?thesis by simp
    qed
    moreover have "length (filter (\<lambda>m. m \<noteq> x) new) \<le> nat n"
      using new(2) length_filter_le [of "\<lambda>m. m \<noteq> x" new] by simp
    ultimately have "set (filter (\<lambda>m. m \<noteq> x) new) \<subseteq> set old"
      using old(2) by (metis set_take_subset_set_take)
    with old new show ?thesis by auto
  qed
qed

text \<open>\<open>Remove\<close> undoes \<open>Add\<close>: taking a freshly added node out again gives back the ring as it
  was, positions, order and members.\<close>

theorem Remove_undoes_Add:
  assumes "ring_ok r" and "fresh x r"
  shows "Remove x (Add x r) = r"
  by (rule Remove_Add_eq [OF assms])

subsection \<open>Concrete rings\<close>

text \<open>Members \<open>a\<close> and \<open>b\<close> with one virtual node each, and the newcomer \<open>c\<close>.\<close>

definition ring_ab :: Ring where
  "ring_ab = newRing [''a'', ''b''] 1"

lemma vhash_abc:
  "vhash ''a'' 0 = 0x2E243FC8" "vhash ''b'' 0 = 0x2C628191" "vhash ''c'' 0 = 0x2DA0EBA6"
  by code_simp+

lemma ring_ab_facts:
  "members ring_ab = {''a'', ''b''}" "virtualNodes ring_ab = 1"
  "nodes ring_ab = [0x2E243FC8 \<mapsto> ''a'', 0x2C628191 \<mapsto> ''b'']" "ring_ok ring_ab"
  using vhash_abc
  by (auto simp: ring_ab_def ring_ok_newRing)
     (auto simp: newRing_def emptyRing_def Add_eq vhashes_def fun_eq_iff)

lemma ring_ab_covered: "covered ring_ab"
  by (simp add: covered_def ring_ab_facts)

lemma ring_ab_hashes: "hashes ring_ab \<noteq> []"
  using ring_ab_facts(3,4) by (auto simp: ring_ok_def)

lemma ring_ab_fresh: "fresh ''c'' ring_ab"
  using vhash_abc by (simp add: fresh_def ring_ab_facts vhashes_def)

theorem Get_successor_witness:
  "\<exists>h \<in> set (hashes ring_ab). Get ''key'' ring_ab = (owner ring_ab h, True)
    \<and> owner ring_ab h \<in> {''a'', ''b''}"
  using Get_successor [OF ring_ab_facts(4) ring_ab_hashes, of "''key''"] ring_ab_facts(1) by auto

theorem GetN_distinct_owners_witness:
  "\<exists>ns. GetN ''key'' 3 ring_ab = Some ns \<and> length ns = 2 \<and> set ns = {''a'', ''b''}"
proof -
  obtain ns where ns: "GetN ''key'' 3 ring_ab = Some ns" "length ns = 2" "distinct ns"
      "set ns \<subseteq> {''a'', ''b''}"
    using GetN_distinct_owners [OF ring_ab_facts(4) ring_ab_covered, of 3 "''key''"]
    by (auto simp: ring_ab_facts(1))
  then have "card (set ns) = card {''a'', ''b''}"
    by (simp add: distinct_card)
  with ns show ?thesis
    by (auto dest: card_subset_eq [rotated])
qed

theorem GetN_returns_iff_witness:
  "\<exists>ns. GetN ''key'' 2 ring_ab = Some ns"
proof -
  have "ran (nodes ring_ab) = {''a'', ''b''}"
    by (simp add: covered_members [OF ring_ab_facts(4) ring_ab_covered] ring_ab_facts(1))
  then show ?thesis
    using GetN_returns_iff [OF ring_ab_facts(4) ring_ab_hashes, of 2 "''key''"]
    by (simp add: ring_ab_facts(1))
qed

lemma plumless_buckeroo: "crc32 (bytesOf ''plumless'') = crc32 (bytesOf ''buckeroo'')"
  by code_simp

lemma buckeroo_positions: "vhash ''buckeroo'' 0 = 0x38EC8425" "vhash ''buckeroo'' 1 = 0x4FEBB4B3"
  by code_simp+

theorem GetN_hangs_on_collision_witness:
  "\<forall>key. GetN key 3 (newRing [''plumless'', ''buckeroo''] 100) = None"
proof
  show "GetN key 3 (newRing [''plumless'', ''buckeroo''] 100) = None" for key
    by (rule GetN_hangs_on_collision)
       (simp_all add: plumless_buckeroo buckeroo_positions del: One_nat_def)
qed

theorem Add_moves_only_to_new_witness:
  "\<exists>old new. GetN ''key'' 2 ring_ab = Some old \<and> GetN ''key'' 2 (Add ''c'' ring_ab) = Some new
    \<and> set new \<subseteq> insert ''c'' (set old)"
  by (rule Add_moves_only_to_new [OF ring_ab_facts(4) ring_ab_covered ring_ab_fresh])
     (simp_all add: ring_ab_facts(2))

theorem Remove_undoes_Add_witness: "Remove ''c'' (Add ''c'' ring_ab) = ring_ab"
  by (rule Remove_undoes_Add [OF ring_ab_facts(4) ring_ab_fresh])

end
