(* ===== verification/Json.thy ===== *)
theory Json
  imports GoLib
begin

text \<open>
  What the program uses of \<open>encoding/json\<close> and \<open>encoding/base64\<close>: the texts \<open>Marshal\<close> writes for
  structs, maps, strings, byte slices and unsigned integers, and what \<open>Unmarshal\<close> reads.  A JSON
  text is parsed into a tree first; a number keeps its literal.  The library's limit of 10000
  nested values is not modelled.
\<close>

datatype json =
    JNull
  | JBool bool
  | JNum bytes
  | JStr bytes
  | JArr "json list"
  | JObj "(bytes \<times> json) list"

subsection \<open>UTF-8\<close>

definition cont :: "u8 \<Rightarrow> bool" where
  "cont b \<longleftrightarrow> 0x80 \<le> b \<and> b \<le> 0xBF"

text \<open>The length a first byte announces, and the range it leaves for the second.\<close>

definition lead :: "u8 \<Rightarrow> nat" where
  "lead a =
     (if a < 0x80 then 1
      else if 0xC2 \<le> a \<and> a \<le> 0xDF then 2
      else if 0xE0 \<le> a \<and> a \<le> 0xEF then 3
      else if 0xF0 \<le> a \<and> a \<le> 0xF4 then 4
      else 0)"

definition second :: "u8 \<Rightarrow> u8 \<Rightarrow> bool" where
  "second a b \<longleftrightarrow>
     (if a = 0xE0 then 0xA0 else if a = 0xF0 then 0x90 else 0x80) \<le> b
     \<and> b \<le> (if a = 0xED then 0x9F else if a = 0xF4 then 0x8F else 0xBF)"

text \<open>The length of the character a text starts with, 0 when it is not valid.\<close>

definition utf8len :: "bytes \<Rightarrow> nat" where
  "utf8len bs =
     (case bs of
        [] \<Rightarrow> 0
      | a # r \<Rightarrow>
          if lead a = 1 then 1
          else if lead a = 2 then (case r of b # _ \<Rightarrow> if second a b then 2 else 0 | _ \<Rightarrow> 0)
          else if lead a = 3 then
            (case r of b # c # _ \<Rightarrow> if second a b \<and> cont c then 3 else 0 | _ \<Rightarrow> 0)
          else if lead a = 4 then
            (case r of b # c # d # _ \<Rightarrow> if second a b \<and> cont c \<and> cont d then 4 else 0 | _ \<Rightarrow> 0)
          else 0)"

definition replacement :: bytes where
  "replacement = [0xEF, 0xBF, 0xBD]"

definition encodeRune :: "nat \<Rightarrow> bytes" where
  "encodeRune r =
     (if r < 0x80 then [of_nat r]
      else if r < 0x800 then [of_nat (0xC0 + r div 64), of_nat (0x80 + r mod 64)]
      else if r < 0x10000
      then [of_nat (0xE0 + r div 4096), of_nat (0x80 + r div 64 mod 64), of_nat (0x80 + r mod 64)]
      else [of_nat (0xF0 + r div 262144), of_nat (0x80 + r div 4096 mod 64),
            of_nat (0x80 + r div 64 mod 64), of_nat (0x80 + r mod 64)])"

text \<open>A string as it comes back: what is not UTF-8 is replaced byte by byte.\<close>

function sanitize :: "bytes \<Rightarrow> bytes" where
  "sanitize [] = []"
| "sanitize (c # r) =
     (if utf8len (c # r) = 0 then replacement @ sanitize r
      else take (utf8len (c # r)) (c # r) @ sanitize (drop (utf8len (c # r) - 1) r))"
  by pat_completeness auto
termination by (relation "measure length") auto

definition validUTF8 :: "bytes \<Rightarrow> bool" where
  "validUTF8 bs \<longleftrightarrow> sanitize bs = bs"

subsection \<open>Writing\<close>

definition hexDigit :: "nat \<Rightarrow> u8" where
  "hexDigit n = (if n < 10 then of_nat (48 + n) else of_nat (87 + n))"

definition htmlSafe :: "u8 \<Rightarrow> bool" where
  "htmlSafe b \<longleftrightarrow> 0x20 \<le> b \<and> b < 0x80 \<and> b \<notin> {0x22, 0x26, 0x3C, 0x3E, 0x5C}"

definition escapeByte :: "u8 \<Rightarrow> bytes" where
  "escapeByte b =
     (if htmlSafe b then [b]
      else if b = 0x22 \<or> b = 0x5C then [0x5C, b]
      else if b = 8 then [0x5C, 0x62]
      else if b = 12 then [0x5C, 0x66]
      else if b = 10 then [0x5C, 0x6E]
      else if b = 13 then [0x5C, 0x72]
      else if b = 9 then [0x5C, 0x74]
      else [0x5C, 0x75, 0x30, 0x30, hexDigit (unat b div 16), hexDigit (unat b mod 16)])"

function escape :: "bytes \<Rightarrow> bytes" where
  "escape [] = []"
| "escape (c # r) =
     (if c < 0x80 then escapeByte c @ escape r
      else let n = utf8len (c # r)
           in if n = 0 then [0x5C, 0x75, 0x66, 0x66, 0x66, 0x64] @ escape r
              else (if take 3 (c # r) = [0xE2, 0x80, 0xA8] \<or> take 3 (c # r) = [0xE2, 0x80, 0xA9]
                    then [0x5C, 0x75, 0x32, 0x30, 0x32, hexDigit (unat (r ! 1) mod 16)]
                    else take n (c # r)) @ escape (drop (n - 1) r))"
  by pat_completeness auto
termination by (relation "measure length") auto

definition printStr :: "bytes \<Rightarrow> bytes" where
  "printStr s = 0x22 # escape s @ [0x22]"

fun commaSep :: "bytes list \<Rightarrow> bytes" where
  "commaSep [] = []"
| "commaSep [x] = x"
| "commaSep (x # y # xs) = x @ 0x2C # commaSep (y # xs)"

fun printJson :: "json \<Rightarrow> bytes" where
  "printJson JNull = [0x6E, 0x75, 0x6C, 0x6C]"
| "printJson (JBool b) = (if b then [0x74, 0x72, 0x75, 0x65] else [0x66, 0x61, 0x6C, 0x73, 0x65])"
| "printJson (JNum l) = l"
| "printJson (JStr s) = printStr s"
| "printJson (JArr xs) = 0x5B # commaSep (map printJson xs) @ [0x5D]"
| "printJson (JObj ms) = 0x7B # commaSep (map (\<lambda>m. printStr (fst m) @ 0x3A # printJson (snd m)) ms) @ [0x7D]"

subsection \<open>Reading\<close>

definition hexVal :: "u8 \<Rightarrow> nat option" where
  "hexVal c =
     (if 0x30 \<le> c \<and> c \<le> 0x39 then Some (unat c - 48)
      else if 0x61 \<le> c \<and> c \<le> 0x66 then Some (unat c - 87)
      else if 0x41 \<le> c \<and> c \<le> 0x46 then Some (unat c - 55)
      else None)"

fun hex4 :: "bytes \<Rightarrow> nat option" where
  "hex4 (a # b # c # d # _) =
     (case (hexVal a, hexVal b, hexVal c, hexVal d) of
        (Some w, Some x, Some y, Some z) \<Rightarrow> Some (4096 * w + 256 * x + 16 * y + z)
      | _ \<Rightarrow> None)"
| "hex4 _ = None"

text \<open>After a backslash: the bytes meant and the number of bytes read.\<close>

definition parseEscape :: "bytes \<Rightarrow> (bytes \<times> nat) option" where
  "parseEscape r =
     (case r of
        [] \<Rightarrow> None
      | x # t \<Rightarrow>
          if x = 0x22 \<or> x = 0x5C \<or> x = 0x2F then Some ([x], 1)
          else if x = 0x62 then Some ([8], 1)
          else if x = 0x66 then Some ([12], 1)
          else if x = 0x6E then Some ([10], 1)
          else if x = 0x72 then Some ([13], 1)
          else if x = 0x74 then Some ([9], 1)
          else if x \<noteq> 0x75 then None
          else case hex4 t of
            None \<Rightarrow> None
          | Some u \<Rightarrow>
              if \<not> (0xD800 \<le> u \<and> u < 0xE000) then Some (encodeRune u, 5)
              else case (take 2 (drop 4 t) = [0x5C, 0x75], hex4 (drop 6 t)) of
                (True, Some v) \<Rightarrow>
                  if u < 0xDC00 \<and> 0xDC00 \<le> v \<and> v < 0xE000
                  then Some (encodeRune (0x10000 + (u - 0xD800) * 1024 + (v - 0xDC00)), 11)
                  else Some (replacement, 5)
              | _ \<Rightarrow> Some (replacement, 5))"

definition prepend :: "bytes \<Rightarrow> (bytes \<times> bytes) option \<Rightarrow> (bytes \<times> bytes) option" where
  "prepend out r = map_option (\<lambda>(s, t). (out @ s, t)) r"

text \<open>The rest of a string behind its opening quote.\<close>

function parseStr :: "bytes \<Rightarrow> (bytes \<times> bytes) option" where
  "parseStr [] = None"
| "parseStr (c # r) =
     (if c = 0x22 then Some ([], r)
      else if c = 0x5C then
        (case parseEscape r of None \<Rightarrow> None | Some (out, k) \<Rightarrow> prepend out (parseStr (drop k r)))
      else if c < 0x20 then None
      else if c < 0x80 then prepend [c] (parseStr r)
      else let n = utf8len (c # r)
           in if n = 0 then prepend replacement (parseStr r)
              else prepend (take n (c # r)) (parseStr (drop (n - 1) r)))"
  by pat_completeness auto
termination by (relation "measure length") auto

definition isSpace :: "u8 \<Rightarrow> bool" where
  "isSpace c \<longleftrightarrow> c = 0x20 \<or> c = 9 \<or> c = 10 \<or> c = 13"

definition skipWs :: "bytes \<Rightarrow> bytes" where
  "skipWs bs = dropWhile isSpace bs"

definition isDigit :: "u8 \<Rightarrow> bool" where
  "isDigit c \<longleftrightarrow> 0x30 \<le> c \<and> c \<le> 0x39"

text \<open>A run of at least one digit.\<close>

definition digits1 :: "bytes \<Rightarrow> (bytes \<times> bytes) option" where
  "digits1 bs = (case takeWhile isDigit bs of [] \<Rightarrow> None | ds \<Rightarrow> Some (ds, dropWhile isDigit bs))"

definition parseInt :: "bytes \<Rightarrow> (bytes \<times> bytes) option" where
  "parseInt bs = (if take 1 bs = [0x30] then Some ([0x30], drop 1 bs) else digits1 bs)"

definition parseFrac :: "bytes \<Rightarrow> (bytes \<times> bytes) option" where
  "parseFrac bs = (if take 1 bs = [0x2E] then prepend [0x2E] (digits1 (drop 1 bs)) else Some ([], bs))"

definition parseExp :: "bytes \<Rightarrow> (bytes \<times> bytes) option" where
  "parseExp bs =
     (case bs of
        e # r \<Rightarrow>
          if e = 0x65 \<or> e = 0x45
          then (case r of
                  s # t \<Rightarrow> if s = 0x2B \<or> s = 0x2D then prepend [e, s] (digits1 t) else prepend [e] (digits1 r)
                | [] \<Rightarrow> None)
          else Some ([], bs)
      | [] \<Rightarrow> Some ([], bs))"

definition andThen :: "(bytes \<times> bytes) option \<Rightarrow> (bytes \<Rightarrow> (bytes \<times> bytes) option) \<Rightarrow> (bytes \<times> bytes) option" where
  "andThen r p = (case r of None \<Rightarrow> None | Some (x, t) \<Rightarrow> prepend x (p t))"

definition parseNum :: "bytes \<Rightarrow> (bytes \<times> bytes) option" where
  "parseNum bs =
     andThen (andThen (andThen (if take 1 bs = [0x2D] then Some ([0x2D], drop 1 bs) else Some ([], bs)) parseInt)
       parseFrac) parseExp"

definition literal :: "bytes \<Rightarrow> json \<Rightarrow> bytes \<Rightarrow> (json \<times> bytes) option" where
  "literal l j bs = (if take (length l) bs = l then Some (j, drop (length l) bs) else None)"

text \<open>
  The recursion carries fuel.  Every call but the one that starts an array or an object, which
  has read its bracket, follows a byte that was read, so the length of the text is enough.
\<close>

fun parseValue :: "nat \<Rightarrow> bytes \<Rightarrow> (json \<times> bytes) option"
  and parseElems :: "nat \<Rightarrow> bytes \<Rightarrow> (json list \<times> bytes) option"
  and parseMembers :: "nat \<Rightarrow> bytes \<Rightarrow> ((bytes \<times> json) list \<times> bytes) option" where
  "parseValue 0 bs = None"
| "parseValue (Suc n) bs =
     (case skipWs bs of
        [] \<Rightarrow> None
      | c # r \<Rightarrow>
          if c = 0x22 then map_option (\<lambda>(s, t). (JStr s, t)) (parseStr r)
          else if c = 0x5B then
            (if take 1 (skipWs r) = [0x5D] then Some (JArr [], drop 1 (skipWs r))
             else map_option (\<lambda>(xs, t). (JArr xs, t)) (parseElems n r))
          else if c = 0x7B then
            (if take 1 (skipWs r) = [0x7D] then Some (JObj [], drop 1 (skipWs r))
             else map_option (\<lambda>(ms, t). (JObj ms, t)) (parseMembers n r))
          else if c = 0x6E then literal [0x6E, 0x75, 0x6C, 0x6C] JNull (c # r)
          else if c = 0x74 then literal [0x74, 0x72, 0x75, 0x65] (JBool True) (c # r)
          else if c = 0x66 then literal [0x66, 0x61, 0x6C, 0x73, 0x65] (JBool False) (c # r)
          else map_option (\<lambda>(l, t). (JNum l, t)) (parseNum (c # r)))"
| "parseElems 0 bs = None"
| "parseElems (Suc n) bs =
     (case parseValue n bs of
        None \<Rightarrow> None
      | Some (x, t) \<Rightarrow>
          (case skipWs t of
             c # t' \<Rightarrow>
               if c = 0x2C then map_option (\<lambda>(xs, u). (x # xs, u)) (parseElems n t')
               else if c = 0x5D then Some ([x], t')
               else None
           | [] \<Rightarrow> None))"
| "parseMembers 0 bs = None"
| "parseMembers (Suc n) bs =
     (case skipWs bs of
        c # r \<Rightarrow>
          if c \<noteq> 0x22 then None
          else (case parseStr r of
             None \<Rightarrow> None
           | Some (k, t) \<Rightarrow>
               (case skipWs t of
                  d # t' \<Rightarrow>
                    if d \<noteq> 0x3A then None
                    else (case parseValue n t' of
                       None \<Rightarrow> None
                     | Some (x, u) \<Rightarrow>
                         (case skipWs u of
                            e # u' \<Rightarrow>
                              if e = 0x2C then map_option (\<lambda>(ms, v). ((k, x) # ms, v)) (parseMembers n u')
                              else if e = 0x7D then Some ([(k, x)], u')
                              else None
                          | [] \<Rightarrow> None))
                | [] \<Rightarrow> None))
      | [] \<Rightarrow> None)"

definition parseJson :: "bytes \<Rightarrow> json option" where
  "parseJson bs =
     (case parseValue (2 * length bs + 1) bs of
        Some (j, t) \<Rightarrow> if skipWs t = [] then Some j else None
      | None \<Rightarrow> None)"

end
