(* ===== verification/JsonText.thy ===== *)
theory JsonText
  imports Json
begin

text \<open>
  Round trip of JSON texts: a tree that \<open>Marshal\<close> writes is read back as the same tree, with the
  strings that are not UTF-8 repaired.
\<close>

subsection \<open>Strings\<close>

lemma prepend_simps [simp]:
  "prepend out None = None" "prepend out (Some (s, t)) = Some (out @ s, t)"
  "prepend xs (prepend ys r) = prepend (xs @ ys) r"
  by (cases r; simp add: prepend_def split_beta)+

lemma hexVal_hexDigit: "n < 16 \<Longrightarrow> hexVal (hexDigit n) = Some n"
proof -
  assume "n < 16"
  then have "n \<in> set [0..<16]" by simp
  moreover have "list_all (\<lambda>n. hexVal (hexDigit n) = Some n) [0..<16]"
    by code_simp
  ultimately show ?thesis
    unfolding list_all_iff by blast
qed

lemma utf8len_cases:
  assumes "utf8len bs = n" "n \<noteq> 0"
  obtains a r where "bs = a # r" "lead a = 1" "n = 1"
    | a b r where "bs = a # b # r" "lead a = 2" "second a b" "n = 2"
    | a b c r where "bs = a # b # c # r" "lead a = 3" "second a b" "cont c" "n = 3"
    | a b c d r where "bs = a # b # c # d # r" "lead a = 4" "second a b" "cont c" "cont d" "n = 4"
  using assms by (auto simp: utf8len_def split: list.splits if_splits)

lemma utf8len_take:
  assumes "utf8len bs = n" "n \<noteq> 0"
  shows "utf8len (take n bs @ x) = n" "n \<le> length bs"
  using assms by (cases rule: utf8len_cases; simp add: utf8len_def)+

lemma utf8len_ascii: "c < 0x80 \<Longrightarrow> utf8len (c # r) = 1"
  by (simp add: utf8len_def lead_def)

lemma encodeRune_ascii: "c < 0x80 \<Longrightarrow> encodeRune (unat c) = [c]" for c :: u8
  by (simp add: encodeRune_def word_less_nat_alt)

lemma hexVal_digits: "hexVal 0x30 = Some 0" "hexVal 0x32 = Some 2" "hexVal 0x66 = Some 15" "hexVal 0x64 = Some 13"
  by (simp_all add: hexVal_def)

lemma parseStr_u:
  assumes "hex4 [a, b, c, d] = Some u" "u < 0xD800 \<or> 0xE000 \<le> u"
  shows "parseStr (0x5C # 0x75 # a # b # c # d # x) = prepend (encodeRune u) (parseStr x)"
proof -
  have h: "hex4 (a # b # c # d # x) = Some u"
    using assms(1) by (simp split: option.splits)
  have n: "\<not> (0xD800 \<le> u \<and> u < 0xE000)"
    using assms(2) by auto
  have "parseEscape (0x75 # a # b # c # d # x) = Some (encodeRune u, 5)"
    unfolding parseEscape_def list.case h option.case if_P [OF n] by simp
  then show ?thesis
    by (simp del: hex4.simps)
qed

lemma parseStr_escapeByte:
  assumes "c < 0x80"
  shows "parseStr (escapeByte c @ x) = prepend [c] (parseStr x)"
proof -
  have u: "unat c < 128" using assms by (simp add: word_less_nat_alt)
  then have d: "unat c div 16 < 16" "unat c mod 16 < 16"
    by auto
  have "hex4 [0x30, 0x30, hexDigit (unat c div 16), hexDigit (unat c mod 16)] = Some (unat c)"
    using d by (simp add: hexVal_hexDigit hexVal_digits)
  from parseStr_u [OF this] u encodeRune_ascii [OF assms]
  have uc: "parseStr (0x5C # 0x75 # 0x30 # 0x30 # hexDigit (unat c div 16) # hexDigit (unat c mod 16) # x)
      = prepend [c] (parseStr x)"
    by simp
  show ?thesis
  proof (cases "htmlSafe c")
    case True
    with assms show ?thesis
      by (auto simp: escapeByte_def htmlSafe_def)
  next
    case False
    then show ?thesis
      using uc by (auto simp: escapeByte_def parseEscape_def simp del: parseStr.simps(1))
  qed
qed

lemma parseStr_raw:
  assumes "\<not> c < 0x80" "utf8len (c # r) = n" "n \<noteq> 0"
  shows "parseStr (take n (c # r) @ x) = prepend (take n (c # r)) (parseStr x)"
proof -
  have n: "n \<le> length (c # r)" "utf8len (take n (c # r) @ x) = n"
    using utf8len_take [OF assms(2,3)] by auto
  obtain m where m: "n = Suc m" using assms(3) by (cases n) auto
  have "c \<noteq> 0x22" "c \<noteq> 0x5C" "\<not> c < 0x20"
    using assms(1) by (auto simp: word_less_nat_alt)
  with assms(1) n m show ?thesis
    by (simp add: Let_def)
qed

lemma utf8len_separator:
  assumes "take 3 (c # r) = [0xE2, 0x80, x]" "x = 0xA8 \<or> x = 0xA9"
  shows "utf8len (c # r) = 3" "r ! 1 = x"
proof -
  obtain r' where r: "c = 0xE2" "r = 0x80 # x # r'"
    using assms(1) by (cases r; cases "tl r") (auto simp: eval_nat_numeral)
  have "lead 0xE2 = 3" "second 0xE2 0x80" "cont 0xA8" "cont 0xA9"
    by (simp_all add: lead_def second_def cont_def)
  then show "utf8len (c # r) = 3" "r ! 1 = x"
    using assms(2) by (auto simp: r utf8len_def)
qed

lemma parseStr_escape: "parseStr (escape s @ 0x22 # rest) = Some (sanitize s, rest)"
proof (induction s rule: escape.induct)
  case 1
  then show ?case by simp
next
  case (2 c r)
  note IH1 = 2(1) and IH2 = 2(2) and IH3 = 2(3)
  show ?case
  proof (cases "c < 0x80")
    case True
    then show ?thesis
      using IH1 by (simp add: parseStr_escapeByte utf8len_ascii del: parseStr.simps)
  next
    case False
    let ?n = "utf8len (c # r)"
    consider "?n = 0"
      | x where "?n \<noteq> 0" "take 3 (c # r) = [0xE2, 0x80, x]" "x = 0xA8 \<or> x = 0xA9"
      | "?n \<noteq> 0" "take 3 (c # r) \<noteq> [0xE2, 0x80, 0xA8]" "take 3 (c # r) \<noteq> [0xE2, 0x80, 0xA9]"
      by blast
    then show ?thesis
    proof cases
      case 1
      have "hex4 [0x66, 0x66, 0x66, 0x64] = Some 0xFFFD"
        by (simp add: hexVal_digits)
      from parseStr_u [OF this] have "parseStr (0x5C # 0x75 # 0x66 # 0x66 # 0x66 # 0x64 # x) =
          prepend replacement (parseStr x)" for x
        by (simp add: encodeRune_def replacement_def del: parseStr.simps)
      with 1 IH2 False show ?thesis
        by (simp add: Let_def del: parseStr.simps)
    next
      case (2 x)
      have n: "?n = 3" "r ! 1 = x"
        by (rule utf8len_separator [OF 2(2,3)])+
      have sep: "parseStr (0x5C # 0x75 # 0x32 # 0x30 # 0x32 # hexDigit (unat x mod 16) # y) =
          prepend (take 3 (c # r)) (parseStr y)" for y
      proof -
        have "hex4 [0x32, 0x30, 0x32, hexDigit (unat x mod 16)] = Some (0x2020 + unat x mod 16)"
          by (simp add: hexVal_digits hexVal_hexDigit)
        from parseStr_u [OF this] 2(2,3) show ?thesis
          by (auto simp: encodeRune_def simp del: parseStr.simps)
      qed
      show ?thesis
        using 2 IH3 n sep False by (auto simp: Let_def simp del: parseStr.simps)
    next
      case 3
      then show ?thesis
        using 3 IH3 False by (auto simp: Let_def parseStr_raw simp del: parseStr.simps)
    qed
  qed
qed

subsection \<open>Values\<close>

text \<open>Trees as \<open>Marshal\<close> builds them: a number is the decimal text of an unsigned integer.\<close>

definition decimalLit :: "bytes \<Rightarrow> bool" where
  "decimalLit l \<longleftrightarrow> l \<noteq> [] \<and> list_all isDigit l \<and> (hd l = 0x30 \<longrightarrow> l = [0x30])"

fun wfJson :: "json \<Rightarrow> bool" where
  "wfJson (JNum l) = decimalLit l"
| "wfJson (JArr xs) = list_all wfJson xs"
| "wfJson (JObj ms) = list_all (\<lambda>m. wfJson (snd m)) ms"
| "wfJson _ = True"

text \<open>The tree that comes back.\<close>

fun cleanJson :: "json \<Rightarrow> json" where
  "cleanJson (JStr s) = JStr (sanitize s)"
| "cleanJson (JArr xs) = JArr (map cleanJson xs)"
| "cleanJson (JObj ms) = JObj (map (\<lambda>m. (sanitize (fst m), cleanJson (snd m))) ms)"
| "cleanJson j = j"

fun fuelFor :: "json \<Rightarrow> nat" where
  "fuelFor (JArr xs) = Suc (sum_list (map (\<lambda>x. Suc (fuelFor x)) xs))"
| "fuelFor (JObj ms) = Suc (sum_list (map (\<lambda>m. Suc (fuelFor (snd m))) ms))"
| "fuelFor _ = 1"

text \<open>What may follow a value.\<close>

definition stops :: "bytes \<Rightarrow> bool" where
  "stops rest \<longleftrightarrow> rest = [] \<or> hd rest \<in> {0x2C, 0x5D, 0x7D, 0x0A}"

lemma stops_simps [simp]: "stops []" "stops (0x2C # r)" "stops (0x5D # r)" "stops (0x7D # r)" "stops (0x0A # r)"
  by (simp_all add: stops_def)

lemma skipWs_simps [simp]: "skipWs [] = []" "isSpace c \<Longrightarrow> skipWs (c # r) = skipWs r"
    "\<not> isSpace c \<Longrightarrow> skipWs (c # r) = c # r"
  by (simp_all add: skipWs_def)

lemma punctuation [simp]: "\<not> isSpace 0x22" "\<not> isSpace 0x2C" "\<not> isSpace 0x3A" "\<not> isSpace 0x5B" "\<not> isSpace 0x5D"
  "\<not> isSpace 0x7B" "\<not> isSpace 0x7D" "\<not> isSpace 0x6E" "\<not> isSpace 0x74" "\<not> isSpace 0x66"
  by (simp_all add: isSpace_def)

lemma digit_facts:
  assumes "isDigit c"
  shows "\<not> isSpace c" "c \<noteq> 0x22" "c \<noteq> 0x5B" "c \<noteq> 0x5D" "c \<noteq> 0x7B" "c \<noteq> 0x7D" "c \<noteq> 0x6E" "c \<noteq> 0x74" "c \<noteq> 0x66" "c \<noteq> 0x2D"
proof -
  have "48 \<le> unat c" "unat c \<le> 57"
    using assms by (simp_all add: isDigit_def word_le_nat_alt)
  then show "\<not> isSpace c" "c \<noteq> 0x22" "c \<noteq> 0x5B" "c \<noteq> 0x5D" "c \<noteq> 0x7B" "c \<noteq> 0x7D" "c \<noteq> 0x6E" "c \<noteq> 0x74" "c \<noteq> 0x66" "c \<noteq> 0x2D"
    by (auto simp: isSpace_def)
qed

lemma stops_facts:
  assumes "stops rest"
  shows "takeWhile isDigit rest = []" "dropWhile isDigit rest = rest" "take 1 rest \<noteq> [0x2E]" "parseExp rest = Some ([], rest)"
  using assms by (cases rest; auto simp: stops_def isDigit_def parseExp_def)+

lemma parseNum_decimal:
  assumes "decimalLit l" "stops rest"
  shows "parseNum (l @ rest) = Some (l, rest)"
proof -
  obtain c r where l: "l = c # r" "isDigit c" "list_all isDigit r"
    using assms(1) by (cases l) (auto simp: decimalLit_def)
  have all: "takeWhile isDigit (l @ rest) = l" "dropWhile isDigit (l @ rest) = rest"
    using l stops_facts(1,2) [OF assms(2)] by (auto simp: list_all_iff takeWhile_append dropWhile_append)
  have int: "parseInt (l @ rest) = Some (l, rest)"
  proof (cases "c = 0x30")
    case True
    with assms(1) l show ?thesis
      by (auto simp: decimalLit_def parseInt_def)
  next
    case False
    with l all show ?thesis
      by (simp add: parseInt_def digits1_def)
  qed
  have "take 1 (l @ rest) \<noteq> [0x2D]"
    using l digit_facts [OF l(2)] by simp
  then show ?thesis
    using int stops_facts [OF assms(2)] by (simp add: parseNum_def andThen_def parseFrac_def)
qed

lemma print_first:
  assumes "wfJson j"
  obtains c r where "printJson j = c # r" "\<not> isSpace c" "c \<noteq> 0x5D"
proof (cases j)
  case (JNum l)
  with assms obtain c r where "l = c # r" "isDigit c"
    by (cases l) (auto simp: decimalLit_def)
  with JNum digit_facts(1,4) [of c] that show ?thesis by simp
next
  case (JBool b)
  with that show ?thesis by (cases b) auto
qed (use that in \<open>auto simp: printStr_def\<close>)

lemma commaSep_first:
  assumes "wfJson x"
  obtains c r where "commaSep (map printJson (x # xs)) @ rest = c # r" "\<not> isSpace c" "c \<noteq> 0x5D"
  by (rule print_first [OF assms], cases xs) (auto intro: that)

lemma parseStr_printStr: "parseStr (tl (printStr s) @ rest) = Some (sanitize s, rest)"
  by (simp add: printStr_def parseStr_escape del: parseStr.simps)

lemma parseValue_JNum:
  assumes "decimalLit l" "stops rest"
  shows "parseValue (Suc n) (l @ rest) = Some (JNum l, rest)"
proof -
  obtain c r where l: "l = c # r" "isDigit c"
    using assms(1) by (cases l) (auto simp: decimalLit_def)
  then show ?thesis
    using digit_facts [OF l(2)] parseNum_decimal [OF assms] by simp
qed

definition reads :: "json \<Rightarrow> bool" where
  "reads j \<longleftrightarrow> (\<forall>n rest. fuelFor j \<le> n \<longrightarrow> stops rest \<longrightarrow>
     parseValue n (printJson j @ rest) = Some (cleanJson j, rest))"

lemma parseElems_print:
  assumes "xs \<noteq> []" "\<forall>x \<in> set xs. reads x" "sum_list (map (\<lambda>x. Suc (fuelFor x)) xs) \<le> n"
  shows "parseElems n (commaSep (map printJson xs) @ 0x5D # rest) = Some (map cleanJson xs, rest)"
  using assms
proof (induction xs arbitrary: n)
  case (Cons x xs)
  then obtain m where n: "n = Suc m" by (cases n) auto
  show ?case
  proof (cases xs)
    case Nil
    with Cons.prems n show ?thesis
      by (simp add: reads_def)
  next
    case (Cons y ys)
    with Cons.IH [of m] Cons.prems n show ?thesis
      by (simp add: reads_def)
  qed
qed simp

lemma parseMembers_print:
  assumes "ms \<noteq> []" "\<forall>m \<in> set ms. reads (snd m)" "sum_list (map (\<lambda>m. Suc (fuelFor (snd m))) ms) \<le> n"
  shows "parseMembers n (commaSep (map (\<lambda>m. printStr (fst m) @ 0x3A # printJson (snd m)) ms) @ 0x7D # rest)
    = Some (map (\<lambda>m. (sanitize (fst m), cleanJson (snd m))) ms, rest)"
  using assms
proof (induction ms arbitrary: n)
  case (Cons m ms)
  then obtain k where n: "n = Suc k" by (cases n) auto
  show ?case
  proof (cases ms)
    case Nil
    with Cons.prems n show ?thesis
      by (simp add: reads_def printStr_def parseStr_escape del: parseStr.simps)
  next
    case (Cons y ys)
    with Cons.IH [of k] Cons.prems n show ?thesis
      by (simp add: reads_def printStr_def parseStr_escape del: parseStr.simps)
  qed
qed simp

lemma reads_all: "wfJson j \<Longrightarrow> reads j"
proof (induction j)
  case (JNum l)
  show ?case
    unfolding reads_def
  proof (intro allI impI)
    fix n rest
    assume "fuelFor (JNum l) \<le> n" "stops rest"
    with JNum show "parseValue n (printJson (JNum l) @ rest) = Some (cleanJson (JNum l), rest)"
      by (cases n) (simp_all add: parseValue_JNum del: parseValue.simps)
  qed
next
  case (JArr xs)
  show ?case
    unfolding reads_def
  proof (intro allI impI)
    fix n rest
    assume n: "fuelFor (JArr xs) \<le> n" "stops rest"
    then obtain m where m: "n = Suc m" "sum_list (map (\<lambda>x. Suc (fuelFor x)) xs) \<le> m"
      by (cases n) auto
    show "parseValue n (printJson (JArr xs) @ rest) = Some (cleanJson (JArr xs), rest)"
    proof (cases xs)
      case (Cons x ys)
      have wf: "wfJson x" and all: "\<forall>x \<in> set xs. reads x"
        using JArr Cons by (auto simp: list_all_iff)
      obtain c r where cr: "commaSep (map printJson xs) @ 0x5D # rest = c # r" "\<not> isSpace c" "c \<noteq> 0x5D"
        unfolding Cons by (rule commaSep_first [OF wf])
      have "parseElems m (commaSep (map printJson xs) @ 0x5D # rest) = Some (map cleanJson xs, rest)"
        using Cons all m(2) by (intro parseElems_print) auto
      then show ?thesis
        unfolding m(1) using cr by simp
    qed (simp add: m)
  qed
next
  case (JObj ms)
  show ?case
    unfolding reads_def
  proof (intro allI impI)
    fix n rest
    assume n: "fuelFor (JObj ms) \<le> n" "stops rest"
    then obtain k where k: "n = Suc k" "sum_list (map (\<lambda>m. Suc (fuelFor (snd m))) ms) \<le> k"
      by (cases n) auto
    let ?f = "\<lambda>m. printStr (fst m) @ 0x3A # printJson (snd m)"
    show "parseValue n (printJson (JObj ms) @ rest) = Some (cleanJson (JObj ms), rest)"
    proof (cases ms)
      case (Cons m ns)
      have all: "\<forall>m \<in> set ms. reads (snd m)"
        using JObj by (auto simp: list_all_iff)
      obtain r where r: "commaSep (map ?f ms) @ 0x7D # rest = 0x22 # r"
        unfolding Cons by (cases ns) (auto simp: printStr_def)
      have "parseMembers k (commaSep (map ?f ms) @ 0x7D # rest)
          = Some (map (\<lambda>m. (sanitize (fst m), cleanJson (snd m))) ms, rest)"
        using Cons all k(2) by (intro parseMembers_print) auto
      then show ?thesis
        unfolding k(1) using r by simp
    qed (simp add: k)
  qed
qed (auto simp: reads_def Suc_le_eq gr0_conv_Suc literal_def printStr_def parseStr_escape simp del: parseStr.simps)

lemma length_commaSep: "length (commaSep xs) + 1 = sum_list (map (\<lambda>x. length x + 1) xs) \<or> xs = []"
  by (induction xs rule: commaSep.induct) auto

lemma sum_double:
  "\<forall>x \<in> set xs. (f x :: nat) \<le> 2 * g x \<Longrightarrow> sum_list (map (\<lambda>x. Suc (f x)) xs) \<le> 2 * sum_list (map (\<lambda>x. g x + 1) xs)"
  by (induction xs) fastforce+

lemma fuelFor_length: "wfJson j \<Longrightarrow> fuelFor j \<le> 2 * length (printJson j)"
proof (induction j)
  case (JNum l)
  then show ?case by (cases l) (auto simp: decimalLit_def)
next
  case (JArr xs)
  then have "sum_list (map (\<lambda>x. Suc (fuelFor x)) xs) \<le> 2 * sum_list (map (\<lambda>x. length (printJson x) + 1) xs)"
    by (intro sum_double) (auto simp: list_all_iff)
  with length_commaSep [of "map printJson xs"] show ?case
    by (auto simp: comp_def)
next
  case (JObj ms)
  let ?f = "\<lambda>m. printStr (fst m) @ 0x3A # printJson (snd m)"
  have "fuelFor (snd m) \<le> 2 * length (?f m)" if "m \<in> set ms" for m
    using JObj that by (cases m) (fastforce simp: list_all_iff)
  then have "sum_list (map (\<lambda>m. Suc (fuelFor (snd m))) ms) \<le> 2 * sum_list (map (\<lambda>m. length (?f m) + 1) ms)"
    by (intro sum_double) auto
  with length_commaSep [of "map ?f ms"] show ?case
    by (auto simp: comp_def)
qed (auto simp: printStr_def)

lemma parseJson_print:
  assumes "wfJson j" "stops rest" "skipWs rest = []"
  shows "parseJson (printJson j @ rest) = Some (cleanJson j)"
proof -
  have "parseValue (2 * length (printJson j @ rest) + 1) (printJson j @ rest) = Some (cleanJson j, rest)"
    using reads_all [OF assms(1)] fuelFor_length [OF assms(1)] assms(2)
    by (simp add: reads_def del: parseValue.simps)
  with assms(3) show ?thesis
    by (simp add: parseJson_def)
qed

declare parseStr.simps [simp del] parseValue.simps [simp del] escape.simps(2) [simp del]

end
