(* ===== verification/Codec.thy ===== *)
theory Codec
  imports JsonText
begin

text \<open>
  Fields of JSON objects and Go structs: the base64 text of a byte slice, unsigned integers,
  and decoding of an object into a struct, member by member, with the field names matched as
  \<open>encoding/json\<close> does.
\<close>

subsection \<open>Base64\<close>

definition b64Char :: "nat \<Rightarrow> u8" where
  "b64Char n =
     (if n < 26 then of_nat (65 + n)
      else if n < 52 then of_nat (71 + n)
      else if n < 62 then of_nat (n - 4)
      else if n = 62 then 0x2B
      else 0x2F)"

definition b64Val :: "u8 \<Rightarrow> nat option" where
  "b64Val c =
     (let n = unat c
      in if 65 \<le> n \<and> n < 91 then Some (n - 65)
         else if 97 \<le> n \<and> n < 123 then Some (n - 71)
         else if 48 \<le> n \<and> n < 58 then Some (n + 4)
         else if n = 43 then Some 62
         else if n = 47 then Some 63
         else None)"

fun b64Encode :: "bytes \<Rightarrow> bytes" where
  "b64Encode [] = []"
| "b64Encode [a] = [b64Char (unat a div 4), b64Char (unat a mod 4 * 16), 0x3D, 0x3D]"
| "b64Encode [a, b] =
     [b64Char (unat a div 4), b64Char (unat a mod 4 * 16 + unat b div 16), b64Char (unat b mod 16 * 4), 0x3D]"
| "b64Encode (a # b # c # r) =
     b64Char (unat a div 4) # b64Char (unat a mod 4 * 16 + unat b div 16)
     # b64Char (unat b mod 16 * 4 + unat c div 64) # b64Char (unat c mod 64) # b64Encode r"

text \<open>The decoder drops line breaks, wants full groups of four and ignores the unused low bits.\<close>

fun b64Groups :: "bytes \<Rightarrow> bytes option" where
  "b64Groups [] = Some []"
| "b64Groups (w # x # y # z # r) =
     (case (b64Val w, b64Val x) of
        (Some i, Some j) \<Rightarrow>
          if y = 0x3D \<and> z = 0x3D
          then (if r = [] then Some [of_nat (i * 4 + j div 16)] else None)
          else (case b64Val y of
                  None \<Rightarrow> None
                | Some k \<Rightarrow>
                    if z = 0x3D
                    then (if r = []
                          then Some [of_nat (i * 4 + j div 16), of_nat (j mod 16 * 16 + k div 4)]
                          else None)
                    else (case b64Val z of
                            None \<Rightarrow> None
                          | Some l \<Rightarrow>
                              map_option (\<lambda>t. of_nat (i * 4 + j div 16) # of_nat (j mod 16 * 16 + k div 4)
                                # of_nat (k mod 4 * 64 + l) # t) (b64Groups r)))
      | _ \<Rightarrow> None)"
| "b64Groups _ = None"

definition b64Decode :: "bytes \<Rightarrow> bytes option" where
  "b64Decode s = b64Groups (filter (\<lambda>c. c \<noteq> 10 \<and> c \<noteq> 13) s)"

lemma b64Val_b64Char: "n < 64 \<Longrightarrow> b64Val (b64Char n) = Some n"
proof -
  assume "n < 64"
  then have "n \<in> set [0..<64]" by simp
  moreover have "list_all (\<lambda>n. b64Val (b64Char n) = Some n) [0..<64]"
    by code_simp
  ultimately show ?thesis
    unfolding list_all_iff by blast
qed

lemma b64Char_plain: "n < 64 \<Longrightarrow> b64Char n \<noteq> 0x3D \<and> b64Char n \<noteq> 10 \<and> b64Char n \<noteq> 13 \<and> b64Char n < 0x80"
proof -
  assume "n < 64"
  then have "n \<in> set [0..<64]" by simp
  moreover have "list_all (\<lambda>n. b64Char n \<noteq> 0x3D \<and> b64Char n \<noteq> 10 \<and> b64Char n \<noteq> 13 \<and> b64Char n < 0x80) [0..<64]"
    by code_simp
  ultimately show ?thesis
    unfolding list_all_iff by blast
qed

lemma byte_bound: "unat (a :: u8) < 256"
  using unsigned_less [of a] by simp

lemma byte_parts:
  fixes a b c :: u8
  shows "unat a div 4 < 64" "unat a mod 4 * 16 < 64" "unat a mod 4 * 16 + unat b div 16 < 64"
    "unat b mod 16 * 4 < 64" "unat b mod 16 * 4 + unat c div 64 < 64" "unat c mod 64 < 64"
  using byte_bound [of a] byte_bound [of b] byte_bound [of c] by auto

lemma b64_join:
  fixes a b c :: nat
  shows "a div 4 * 4 + a mod 4 * 16 div 16 = a"
    and "b < 256 \<Longrightarrow> a div 4 * 4 + (a mod 4 * 16 + b div 16) div 16 = a"
    and "b < 256 \<Longrightarrow> (a mod 4 * 16 + b div 16) mod 16 * 16 + b mod 16 * 4 div 4 = b"
    and "b < 256 \<Longrightarrow> c < 256 \<Longrightarrow>
      (a mod 4 * 16 + b div 16) mod 16 * 16 + (b mod 16 * 4 + c div 64) div 4 = b"
    and "c < 256 \<Longrightarrow> (b mod 16 * 4 + c div 64) mod 4 * 64 + c mod 64 = c"
proof -
  have d: "x < 256 \<Longrightarrow> x div 16 < 16" "x < 256 \<Longrightarrow> x div 64 < 4" for x :: nat
    by auto
  have m: "q < 16 \<Longrightarrow> (p * 16 + q) div 16 = p" "q < 16 \<Longrightarrow> (p * 16 + q) mod 16 = q"
    "q < 4 \<Longrightarrow> (p * 4 + q) div 4 = p" "q < 4 \<Longrightarrow> (p * 4 + q) mod 4 = q" for p q :: nat
    by auto
  show "a div 4 * 4 + a mod 4 * 16 div 16 = a"
    by simp
  show "b < 256 \<Longrightarrow> a div 4 * 4 + (a mod 4 * 16 + b div 16) div 16 = a"
    using m(1) d(1) by simp
  show "b < 256 \<Longrightarrow> (a mod 4 * 16 + b div 16) mod 16 * 16 + b mod 16 * 4 div 4 = b"
    using m(2) d(1) by simp
  show "b < 256 \<Longrightarrow> c < 256 \<Longrightarrow>
      (a mod 4 * 16 + b div 16) mod 16 * 16 + (b mod 16 * 4 + c div 64) div 4 = b"
    using m(2) d(1) m(3) d(2) by simp
  show "c < 256 \<Longrightarrow> (b mod 16 * 4 + c div 64) mod 4 * 64 + c mod 64 = c"
    using m(4) d(2) by simp
qed

lemma b64Groups_b64Encode: "b64Groups (b64Encode bs) = Some bs"
proof (induction bs rule: b64Encode.induct)
  case (2 a)
  show ?case
    using b64_join(1) [where a = "unat a"]
    by (simp add: byte_parts b64Val_b64Char b64Char_plain del: of_nat_add of_nat_mult)
next
  case (3 a b)
  show ?case
    using b64_join(2,3) [of "unat b" "unat a"] byte_bound [of b]
    by (simp add: byte_parts b64Val_b64Char b64Char_plain del: of_nat_add of_nat_mult)
next
  case (4 a b c r)
  then show ?case
    using b64_join(2) [of "unat b" "unat a"] b64_join(4) [where a = "unat a" and b = "unat b" and c = "unat c"]
      b64_join(5) [where b = "unat b" and c = "unat c"] byte_bound [of b] byte_bound [of c]
    by (simp add: byte_parts b64Val_b64Char b64Char_plain del: of_nat_add of_nat_mult)
qed simp

lemma b64Encode_plain: "list_all (\<lambda>c. c \<noteq> 10 \<and> c \<noteq> 13 \<and> c < 0x80) (b64Encode bs)"
  by (induction bs rule: b64Encode.induct) (simp_all add: byte_parts b64Char_plain)

lemma b64Decode_b64Encode [simp]: "b64Decode (b64Encode bs) = Some bs"
proof -
  have "filter (\<lambda>c. c \<noteq> 10 \<and> c \<noteq> 13) (b64Encode bs) = b64Encode bs"
    using b64Encode_plain [of bs] by (simp add: filter_id_conv list_all_iff)
  then show ?thesis
    by (simp add: b64Decode_def b64Groups_b64Encode)
qed

subsection \<open>ASCII is UTF-8\<close>

lemma sanitize_ascii: "list_all (\<lambda>c. c < 0x80) bs \<Longrightarrow> sanitize bs = bs"
  by (induction bs) (simp_all add: utf8len_ascii)

declare sanitize.simps(2) [simp del]

lemma sanitize_b64Encode [simp]: "sanitize (b64Encode bs) = b64Encode bs"
  using b64Encode_plain [of bs] by (intro sanitize_ascii) (simp add: list_all_iff)

subsection \<open>Unsigned integers\<close>

definition uintLit :: "u64 \<Rightarrow> bytes" where
  "uintLit n = bytesOf (decimal (unat n))"

definition digitsVal :: "bytes \<Rightarrow> nat" where
  "digitsVal l = foldl (\<lambda>n c. 10 * n + (unat c - 48)) 0 l"

definition parseUint64 :: "bytes \<Rightarrow> u64 option" where
  "parseUint64 l =
     (if l \<noteq> [] \<and> list_all isDigit l \<and> digitsVal l < 2 ^ 64 then Some (of_nat (digitsVal l)) else None)"

lemma bytesOf_digit: "d < 10 \<Longrightarrow> bytesOf [digitChar d] = [of_nat (48 + d)]"
proof -
  assume "d < 10"
  then have "of_char (char_of (48 + d) :: char) = 48 + d"
    by (simp only: of_char_of) simp
  moreover have "(of_char (char_of (48 + d) :: char) :: u8) = of_nat (of_char (char_of (48 + d) :: char))"
    by (rule of_nat_of_char [symmetric])
  ultimately show ?thesis
    unfolding bytesOf_def digitChar_def by (simp only: list.map)
qed

lemma bytesOf_append: "bytesOf (s @ t) = bytesOf s @ bytesOf t"
  by (simp add: bytesOf_def)

lemma unat_numeral_48: "unat (0x30 :: u8) = 48"
  by simp

lemma digit_byte:
  assumes "d < 10"
  shows "unat (of_nat (48 + d) :: u8) = 48 + d" "isDigit (of_nat (48 + d))" "of_nat (48 + d) = (0x30 :: u8) \<longleftrightarrow> d = 0"
proof -
  show u: "unat (of_nat (48 + d) :: u8) = 48 + d"
    using assms by (simp add: unat_of_nat del: of_nat_add)
  then show "isDigit (of_nat (48 + d))"
    using assms by (simp add: isDigit_def word_le_nat_alt)
  show "of_nat (48 + d) = (0x30 :: u8) \<longleftrightarrow> d = 0"
    by (simp only: word_unat_eq_iff u unat_numeral_48) simp
qed

lemma decimal_digits:
  "bytesOf (decimal n) \<noteq> [] \<and> list_all isDigit (bytesOf (decimal n)) \<and> digitsVal (bytesOf (decimal n)) = n
    \<and> (hd (bytesOf (decimal n)) = 0x30 \<longleftrightarrow> n = 0)"
proof (induction n rule: decimal.induct)
  case (1 n)
  show ?case
  proof (cases "n < 10")
    case True
    then show ?thesis
      using digit_byte [OF True] by (subst (1 2 3 4) decimal.simps) (simp add: bytesOf_digit digitsVal_def)
  next
    case False
    have d: "n mod 10 < 10" by simp
    have e: "bytesOf (decimal n) = bytesOf (decimal (n div 10)) @ [of_nat (48 + n mod 10)]"
      using False bytesOf_digit [OF d] by (subst decimal.simps) (simp add: bytesOf_append)
    show ?thesis
      unfolding e using 1(1) [OF False] digit_byte [OF d] False
      by (auto simp: digitsVal_def)
  qed
qed

lemma decimalLit_uintLit [simp]: "decimalLit (uintLit n)"
  using decimal_digits [of "unat n"] unfolding decimalLit_def uintLit_def
  by (metis bytesOf_digit decimal.simps digitChar_def digit_byte(3) zero_less_numeral)

lemma parseUint64_uintLit [simp]: "parseUint64 (uintLit n) = Some n"
proof -
  have "unat n < 2 ^ 64"
    using unsigned_less [of n] by simp
  then show ?thesis
    using decimal_digits [of "unat n"] by (simp add: parseUint64_def uintLit_def)
qed

subsection \<open>Structs\<close>

text \<open>
  A member goes to the field of its name; letters match in either case, as do the two letters
  outside ASCII that fold to one.  A member of no field is skipped.  \<open>null\<close> leaves a field alone.
\<close>

function foldName :: "bytes \<Rightarrow> bytes" where
  "foldName [] = []"
| "foldName (c # r) =
     (if take 2 (c # r) = [0xC5, 0xBF] then 0x53 # foldName (drop 1 r)
      else if take 3 (c # r) = [0xE2, 0x84, 0xAA] then 0x4B # foldName (drop 2 r)
      else (if 0x61 \<le> c \<and> c \<le> 0x7A then c - 0x20 else c) # foldName r)"
  by pat_completeness auto
termination by (relation "measure length") auto

fun decodeMembers ::
  "(bytes \<times> (json \<Rightarrow> 'a \<Rightarrow> 'a option)) list \<Rightarrow> (bytes \<times> json) list \<Rightarrow> 'a \<Rightarrow> 'a option" where
  "decodeMembers fields [] s = Some s"
| "decodeMembers fields ((k, j) # ms) s =
     (case map_of fields (foldName k) of
        None \<Rightarrow> decodeMembers fields ms s
      | Some dec \<Rightarrow> (case dec j s of None \<Rightarrow> None | Some s' \<Rightarrow> decodeMembers fields ms s'))"

definition decodeStruct ::
  "(string \<times> (json \<Rightarrow> 'a \<Rightarrow> 'a option)) list \<Rightarrow> json \<Rightarrow> 'a \<Rightarrow> 'a option" where
  "decodeStruct fields j s =
     (case j of
        JNull \<Rightarrow> Some s
      | JObj ms \<Rightarrow> decodeMembers (map (\<lambda>(n, d). (foldName (bytesOf n), d)) fields) ms s
      | _ \<Rightarrow> None)"

definition decodeUint :: "json \<Rightarrow> u64 \<Rightarrow> u64 option" where
  "decodeUint j n = (case j of JNull \<Rightarrow> Some n | JNum l \<Rightarrow> parseUint64 l | _ \<Rightarrow> None)"

definition decodeBool :: "json \<Rightarrow> bool \<Rightarrow> bool option" where
  "decodeBool j b = (case j of JNull \<Rightarrow> Some b | JBool c \<Rightarrow> Some c | _ \<Rightarrow> None)"

definition decodeString :: "json \<Rightarrow> string \<Rightarrow> string option" where
  "decodeString j s = (case j of JNull \<Rightarrow> Some s | JStr t \<Rightarrow> Some (stringOf t) | _ \<Rightarrow> None)"

text \<open>A byte slice is base64 text, or an array of small numbers.\<close>

definition decodeByte :: "json \<Rightarrow> u8 option" where
  "decodeByte j =
     (case j of
        JNull \<Rightarrow> Some 0
      | JNum l \<Rightarrow> (case parseUint64 l of
          Some n \<Rightarrow> if n < 256 then Some (ucast n) else None | None \<Rightarrow> None)
      | _ \<Rightarrow> None)"

definition decodeBytes :: "json \<Rightarrow> bytes option \<Rightarrow> bytes option option" where
  "decodeBytes j b =
     (case j of
        JNull \<Rightarrow> Some None
      | JStr t \<Rightarrow> map_option Some (b64Decode t)
      | JArr xs \<Rightarrow> if list_all (\<lambda>x. decodeByte x \<noteq> None) xs
          then Some (Some (map (\<lambda>x. the (decodeByte x)) xs)) else None
      | _ \<Rightarrow> None)"

fun decodeEntries ::
  "(json \<Rightarrow> 'a option) \<Rightarrow> (bytes \<times> json) list \<Rightarrow> (string \<rightharpoonup> 'a) \<Rightarrow> (string \<rightharpoonup> 'a) option" where
  "decodeEntries dec [] m = Some m"
| "decodeEntries dec ((k, j) # ms) m =
     (case dec j of None \<Rightarrow> None | Some v \<Rightarrow> decodeEntries dec ms (m(stringOf k \<mapsto> v)))"

definition decodeMap :: "(json \<Rightarrow> 'a option) \<Rightarrow> json \<Rightarrow> (string \<rightharpoonup> 'a) \<Rightarrow> (string \<rightharpoonup> 'a) option" where
  "decodeMap dec j m =
     (case j of
        JNull \<Rightarrow> Some Map.empty
      | JObj ms \<Rightarrow> decodeEntries dec ms m
      | _ \<Rightarrow> None)"

text \<open>Writing; the members of a map come in the order of their keys.\<close>

definition encodeString :: "string \<Rightarrow> json" where
  "encodeString s = JStr (bytesOf s)"

definition encodeUint :: "u64 \<Rightarrow> json" where
  "encodeUint n = JNum (uintLit n)"

definition encodeBytes :: "bytes option \<Rightarrow> json" where
  "encodeBytes b = (case b of None \<Rightarrow> JNull | Some x \<Rightarrow> JStr (b64Encode x))"

definition encodeMap :: "('a \<Rightarrow> json) \<Rightarrow> (string \<rightharpoonup> 'a) \<Rightarrow> json" where
  "encodeMap enc m = JObj (map (\<lambda>k. (bytesOf k, enc (the (m k)))) (sorted_list_of_set (dom m)))"

definition goodString :: "string \<Rightarrow> bool" where
  "goodString s \<longleftrightarrow> validUTF8 (bytesOf s)"

lemma unat_of_char: "unat (of_char c :: u8) = of_char c"
proof -
  have "(of_char c :: u8) = of_nat (of_char c)"
    by (simp only: of_nat_of_char)
  then show ?thesis
    by (simp only: unat_of_nat) simp
qed

lemma stringOf_bytesOf [simp]: "stringOf (bytesOf s) = s"
  by (induction s) (simp_all add: stringOf_def bytesOf_def unat_of_char)

lemma sanitize_good [simp]: "goodString s \<Longrightarrow> sanitize (bytesOf s) = bytesOf s"
  by (simp add: goodString_def validUTF8_def)

lemma encode_clean [simp]:
  "goodString s \<Longrightarrow> cleanJson (encodeString s) = encodeString s"
  "cleanJson (encodeUint n) = encodeUint n"
  "cleanJson (encodeBytes b) = encodeBytes b"
  by (simp_all add: encodeString_def encodeUint_def encodeBytes_def split: option.splits)

lemma encode_wf [simp]: "wfJson (encodeString s)" "wfJson (encodeUint n)" "wfJson (encodeBytes b)"
  by (simp_all add: encodeString_def encodeUint_def encodeBytes_def split: option.splits)

lemma decode_encode [simp]:
  "decodeString (encodeString s) t = Some s"
  "decodeUint (encodeUint n) m = Some n"
  "decodeBytes (encodeBytes b) c = Some b"
  "decodeBool (JBool x) y = Some x"
  by (simp_all add: decodeString_def encodeString_def decodeUint_def encodeUint_def decodeBytes_def
      encodeBytes_def decodeBool_def split: option.splits)

lemma decodeEntries_encode:
  assumes "\<forall>k \<in> set ks. dec (enc (the (m k))) = Some (the (m k))"
  shows "decodeEntries dec (map (\<lambda>k. (bytesOf k, enc (the (m k)))) ks) m0 =
    Some (\<lambda>k. if k \<in> set ks then Some (the (m k)) else m0 k)"
  using assms by (induction ks arbitrary: m0) (auto simp: fun_eq_iff)

lemma decodeMap_encodeMap:
  assumes "finite (dom m)" "\<forall>k v. m k = Some v \<longrightarrow> goodString k \<and> dec (cleanJson (enc v)) = Some v"
  shows "decodeMap dec (cleanJson (encodeMap enc m)) Map.empty = Some m"
proof -
  let ?ks = "sorted_list_of_set (dom m)"
  have "cleanJson (encodeMap enc m) = JObj (map (\<lambda>k. (bytesOf k, (cleanJson \<circ> enc) (the (m k)))) ?ks)"
    using assms by (auto simp: encodeMap_def)
  moreover have "decodeEntries dec (map (\<lambda>k. (bytesOf k, (cleanJson \<circ> enc) (the (m k)))) ?ks) Map.empty =
      Some (\<lambda>k. if k \<in> set ?ks then Some (the (m k)) else None)"
    using assms by (intro decodeEntries_encode) auto
  moreover have "(\<lambda>k. if k \<in> set ?ks then Some (the (m k)) else None) = m"
    using assms(1) by (auto simp: fun_eq_iff domIff)
  ultimately show ?thesis
    by (simp add: decodeMap_def)
qed

lemma wfJson_encodeMap: "\<forall>v \<in> ran m. wfJson (enc v) \<Longrightarrow> finite (dom m) \<Longrightarrow> wfJson (encodeMap enc m)"
  by (auto simp: encodeMap_def list_all_iff ran_def domIff)

end
