(* ===== verification/Versions.thy ===== *)
theory Versions
  imports GoLib
begin

text \<open>
  Versions and versioned values of \<open>internal/store/memory.go\<close>.  A version is a counter and the
  name of the node that issued it; \<open>CompareVersion\<close> orders them.  Strings compare byte by byte.
\<close>

record Version =
  Counter :: u64
  NodeID :: string

record Value =
  Data :: "bytes option"
  VersionOf :: Version
  Deleted :: bool

text \<open>A byte slice is \<open>nil\<close> or a sequence of bytes.\<close>

definition zeroVersion :: Version where
  "zeroVersion = \<lparr>Counter = 0, NodeID = []\<rparr>"

definition zeroValue :: Value where
  "zeroValue = \<lparr>Data = None, VersionOf = zeroVersion, Deleted = False\<rparr>"

definition CompareVersion :: "Version \<Rightarrow> Version \<Rightarrow> int" where
  "CompareVersion a b =
     (if Counter a < Counter b then - 1
      else if Counter a > Counter b then 1
      else if NodeID a < NodeID b then - 1
      else if NodeID a > NodeID b then 1
      else 0)"

subsection \<open>Versions are linearly ordered\<close>

instantiation Version_ext :: (linorder) linorder
begin

definition less_eq_Version_ext :: "'a Version_scheme \<Rightarrow> 'a Version_scheme \<Rightarrow> bool" where
  "less_eq_Version_ext a b \<longleftrightarrow>
     Counter a < Counter b \<or> Counter a = Counter b \<and>
       (NodeID a < NodeID b \<or> NodeID a = NodeID b \<and> Version.more a \<le> Version.more b)"

definition less_Version_ext :: "'a Version_scheme \<Rightarrow> 'a Version_scheme \<Rightarrow> bool" where
  "less_Version_ext a b \<longleftrightarrow> a \<le> b \<and> \<not> b \<le> a"

instance
proof
  fix x y z :: "'a Version_scheme"
  show "x < y \<longleftrightarrow> x \<le> y \<and> \<not> y \<le> x"
    by (simp add: less_Version_ext_def)
  show "x \<le> x"
    by (simp add: less_eq_Version_ext_def)
  show "x \<le> y \<Longrightarrow> y \<le> z \<Longrightarrow> x \<le> z"
    unfolding less_eq_Version_ext_def 
    by (elim disjE conjE)
      (simp | blast intro: less_trans | blast intro: order_trans | (rule disjI2, simp, blast intro: less_trans order_trans))+
  show "x = y" if "x \<le> y" "y \<le> x"
  proof -
    have c: "Counter x = Counter y"
      using that unfolding less_eq_Version_ext_def by (metis less_asym)
    then have n: "NodeID x = NodeID y"
      using that unfolding less_eq_Version_ext_def by (metis less_asym less_irrefl)
    with c that have "Version.more x = Version.more y"
      unfolding less_eq_Version_ext_def by (simp add: order_antisym)
    with c n show ?thesis
      by (rule Version.equality)
  qed
  show "x \<le> y \<or> y \<le> x"
    unfolding less_eq_Version_ext_def
    by (cases "Counter x" "Counter y" rule: linorder_cases;
        cases "NodeID x" "NodeID y" rule: linorder_cases; simp add: linear)
qed

end

lemma Version_less: "(a :: Version) < b \<longleftrightarrow>
    Counter a < Counter b \<or> Counter a = Counter b \<and> NodeID a < NodeID b"
proof -
  have "a < b \<longleftrightarrow> \<not> b \<le> a" by auto
  then show ?thesis
    unfolding less_eq_Version_ext_def
    by (cases "Counter a" "Counter b" rule: linorder_cases;
        cases "NodeID a" "NodeID b" rule: linorder_cases;
        simp add: less_not_sym less_imp_neq less_imp_neq [THEN not_sym])
qed

lemma CompareVersion_cases:
  "a < b \<Longrightarrow> CompareVersion a b = - 1" "CompareVersion a a = 0" "b < a \<Longrightarrow> CompareVersion a b = 1"
  by (auto simp: CompareVersion_def Version_less less_not_sym)

lemma CompareVersion_order [simp]:
  "CompareVersion a b < 0 \<longleftrightarrow> a < b" "CompareVersion a b = 0 \<longleftrightarrow> a = b" "CompareVersion a b > 0 \<longleftrightarrow> b < a"
  "CompareVersion a b \<le> 0 \<longleftrightarrow> a \<le> b" "CompareVersion a b \<ge> 0 \<longleftrightarrow> b \<le> a"
  by (cases a b rule: linorder_cases; simp add: CompareVersion_cases)+

end
