(* ===== verification/StoreCodec.thy ===== *)
theory StoreCodec
  imports Codec Versions
begin

text \<open>
  The JSON of the store: \<open>Version\<close>, \<open>Value\<close> and the log entry \<open>kvWALEntry\<close> of
  \<open>internal/store/memory.go\<close> and \<open>snapshotData\<close> of \<open>internal/store/snapshot.go\<close>, with their
  field tags.
\<close>

record kvWALEntry =
  Op :: string
  EntryKey :: string
  EntryValue :: Value
  EntryVersion :: Version

record snapshotData =
  SnapData :: "string \<rightharpoonup> Value"
  MaxVersionCounter :: u64

definition zeroEntry :: kvWALEntry where
  "zeroEntry = \<lparr>Op = [], EntryKey = [], EntryValue = zeroValue, EntryVersion = zeroVersion\<rparr>"

definition walOpSet :: string where "walOpSet = ''set''"
definition walOpDelete :: string where "walOpDelete = ''delete''"

definition encodeVersion :: "Version \<Rightarrow> json" where
  "encodeVersion v =
     JObj [(bytesOf ''counter'', encodeUint (Counter v)), (bytesOf ''node_id'', encodeString (NodeID v))]"

definition encodeValue :: "Value \<Rightarrow> json" where
  "encodeValue v =
     JObj [(bytesOf ''data'', encodeBytes (Data v)), (bytesOf ''version'', encodeVersion (VersionOf v)),
           (bytesOf ''deleted'', JBool (Deleted v))]"

definition encodeEntry :: "kvWALEntry \<Rightarrow> json" where
  "encodeEntry e =
     JObj [(bytesOf ''op'', encodeString (Op e)), (bytesOf ''key'', encodeString (EntryKey e)),
           (bytesOf ''value'', encodeValue (EntryValue e)), (bytesOf ''version'', encodeVersion (EntryVersion e))]"

definition encodeSnapshot :: "snapshotData \<Rightarrow> json" where
  "encodeSnapshot s =
     JObj [(bytesOf ''data'', encodeMap encodeValue (SnapData s)),
           (bytesOf ''max_version_counter'', encodeUint (MaxVersionCounter s))]"

text \<open>A decoder of a field works on the value the field has.\<close>

definition onField :: "('a \<Rightarrow> 'b) \<Rightarrow> (('b \<Rightarrow> 'b) \<Rightarrow> 'a \<Rightarrow> 'a) \<Rightarrow> (json \<Rightarrow> 'b \<Rightarrow> 'b option) \<Rightarrow> json \<Rightarrow> 'a \<Rightarrow> 'a option" where
  "onField get upd dec j s = map_option (\<lambda>x. upd (\<lambda>_. x) s) (dec j (get s))"

definition decodeVersion :: "json \<Rightarrow> Version \<Rightarrow> Version option" where
  "decodeVersion = decodeStruct
     [(''counter'', onField Counter Counter_update decodeUint),
      (''node_id'', onField NodeID NodeID_update decodeString)]"

definition decodeValue :: "json \<Rightarrow> Value \<Rightarrow> Value option" where
  "decodeValue = decodeStruct
     [(''data'', onField Data Data_update decodeBytes),
      (''version'', onField VersionOf VersionOf_update decodeVersion),
      (''deleted'', onField Deleted Deleted_update decodeBool)]"

definition decodeEntry :: "json \<Rightarrow> kvWALEntry \<Rightarrow> kvWALEntry option" where
  "decodeEntry = decodeStruct
     [(''op'', onField Op Op_update decodeString),
      (''key'', onField EntryKey EntryKey_update decodeString),
      (''value'', onField EntryValue EntryValue_update decodeValue),
      (''version'', onField EntryVersion EntryVersion_update decodeVersion)]"

definition decodeSnapshot :: "json \<Rightarrow> snapshotData \<Rightarrow> snapshotData option" where
  "decodeSnapshot = decodeStruct
     [(''data'', onField SnapData SnapData_update (decodeMap (\<lambda>j. decodeValue j zeroValue))),
      (''max_version_counter'', onField MaxVersionCounter MaxVersionCounter_update decodeUint)]"

definition unmarshal :: "(json \<Rightarrow> 'a \<Rightarrow> 'a option) \<Rightarrow> bytes \<Rightarrow> 'a \<Rightarrow> 'a option" where
  "unmarshal dec bs s = (case parseJson bs of None \<Rightarrow> None | Some j \<Rightarrow> dec j s)"

definition marshalEntry :: "kvWALEntry \<Rightarrow> bytes" where
  "marshalEntry e = printJson (encodeEntry e)"

definition unmarshalEntry :: "bytes \<Rightarrow> kvWALEntry option" where
  "unmarshalEntry bs = unmarshal decodeEntry bs zeroEntry"

definition marshalSnapshot :: "snapshotData \<Rightarrow> bytes" where
  "marshalSnapshot s = printJson (encodeSnapshot s)"

definition unmarshalSnapshot :: "bytes \<Rightarrow> snapshotData option" where
  "unmarshalSnapshot bs = unmarshal decodeSnapshot bs \<lparr>SnapData = Map.empty, MaxVersionCounter = 0\<rparr>"

subsection \<open>Round trip\<close>

lemma bytesOf_inject [simp]: "bytesOf s = bytesOf t \<longleftrightarrow> s = t"
  by (metis stringOf_bytesOf)

lemma field_names [simp]:
  "foldName (bytesOf ''counter'') = bytesOf ''COUNTER''" "foldName (bytesOf ''node_id'') = bytesOf ''NODE_ID''"
  "foldName (bytesOf ''data'') = bytesOf ''DATA''" "foldName (bytesOf ''version'') = bytesOf ''VERSION''"
  "foldName (bytesOf ''deleted'') = bytesOf ''DELETED''" "foldName (bytesOf ''op'') = bytesOf ''OP''"
  "foldName (bytesOf ''key'') = bytesOf ''KEY''" "foldName (bytesOf ''value'') = bytesOf ''VALUE''"
  "foldName (bytesOf ''max_version_counter'') = bytesOf ''MAX_VERSION_COUNTER''"
  by code_simp+

lemma field_names_good [simp]:
  "goodString ''counter''" "goodString ''node_id''" "goodString ''data''" "goodString ''version''"
  "goodString ''deleted''" "goodString ''op''" "goodString ''key''" "goodString ''value''"
  "goodString ''max_version_counter''" "goodString ''set''" "goodString ''delete''"
  by code_simp+

definition goodVersion :: "Version \<Rightarrow> bool" where
  "goodVersion v \<longleftrightarrow> goodString (NodeID v)"

definition goodValue :: "Value \<Rightarrow> bool" where
  "goodValue v \<longleftrightarrow> goodVersion (VersionOf v)"

definition goodEntry :: "kvWALEntry \<Rightarrow> bool" where
  "goodEntry e \<longleftrightarrow> goodString (Op e) \<and> goodString (EntryKey e) \<and> goodValue (EntryValue e) \<and> goodVersion (EntryVersion e)"

definition goodSnapshot :: "snapshotData \<Rightarrow> bool" where
  "goodSnapshot s \<longleftrightarrow> finite (dom (SnapData s)) \<and> (\<forall>k v. SnapData s k = Some v \<longrightarrow> goodString k \<and> goodValue v)"

lemma decodeVersion_encode [simp]:
  "goodVersion v \<Longrightarrow> decodeVersion (cleanJson (encodeVersion v)) w = Some v"
  by (simp add: decodeVersion_def encodeVersion_def goodVersion_def decodeStruct_def onField_def)

lemma decodeValue_encode [simp]:
  "goodValue v \<Longrightarrow> decodeValue (cleanJson (encodeValue v)) w = Some v"
  by (simp add: decodeValue_def encodeValue_def goodValue_def decodeStruct_def onField_def)

lemma decodeEntry_encode [simp]:
  "goodEntry e \<Longrightarrow> decodeEntry (cleanJson (encodeEntry e)) w = Some e"
  by (simp add: decodeEntry_def encodeEntry_def goodEntry_def decodeStruct_def onField_def)

lemma encode_wf_store [simp]:
  "wfJson (encodeVersion v)" "wfJson (encodeValue x)" "wfJson (encodeEntry e)"
  by (simp_all add: encodeVersion_def encodeValue_def encodeEntry_def)

lemma unmarshal_print:
  "wfJson j \<Longrightarrow> dec (cleanJson j) s = r \<Longrightarrow> unmarshal dec (printJson j) s = r"
  using parseJson_print [of j "[]"] by (simp add: unmarshal_def)

lemma unmarshalEntry_marshal [simp]: "goodEntry e \<Longrightarrow> unmarshalEntry (marshalEntry e) = Some e"
  unfolding unmarshalEntry_def marshalEntry_def by (rule unmarshal_print) auto

lemma unmarshalSnapshot_marshal [simp]:
  assumes "goodSnapshot s"
  shows "unmarshalSnapshot (marshalSnapshot s) = Some s"
  unfolding unmarshalSnapshot_def marshalSnapshot_def
proof (rule unmarshal_print)
  have fin: "finite (dom (SnapData s))" "\<forall>k v. SnapData s k = Some v \<longrightarrow> goodString k \<and> goodValue v"
    using assms by (auto simp: goodSnapshot_def)
  then show "wfJson (encodeSnapshot s)"
    by (simp add: encodeSnapshot_def wfJson_encodeMap)
  have "decodeMap (\<lambda>j. decodeValue j zeroValue) (cleanJson (encodeMap encodeValue (SnapData s))) Map.empty
      = Some (SnapData s)"
    using fin by (intro decodeMap_encodeMap) auto
  then show "decodeSnapshot (cleanJson (encodeSnapshot s)) \<lparr>SnapData = Map.empty, MaxVersionCounter = 0\<rparr> = Some s"
    by (simp add: decodeSnapshot_def encodeSnapshot_def decodeStruct_def onField_def)
qed

end
