(* ===== verification/FileIO.thy ===== *)
theory FileIO
  imports GoLib
begin

text \<open>
  The file calls of package \<open>os\<close> and \<open>io\<close> the store makes, on one open file.  A file is its
  bytes, the read offset, and the outcomes of the system calls to come: \<open>Fine\<close>, or \<open>Fails k\<close>
  for a call that returns an error, after \<open>k\<close> bytes when it is a write.  With no outcome left
  every call succeeds.  Files are opened with \<open>O_APPEND\<close>, so a write goes to the end.
\<close>

datatype fault = Fine | Fails nat

record osFile =
  content :: bytes
  offset :: nat
  faults :: "fault list"

datatype ioError = EOF | UnexpectedEOF | OSError

definition nextFault :: "osFile \<Rightarrow> fault \<times> osFile" where
  "nextFault f = (case faults f of [] \<Rightarrow> (Fine, f) | x # xs \<Rightarrow> (x, f\<lparr>faults := xs\<rparr>))"

definition fileWrite :: "bytes \<Rightarrow> osFile \<Rightarrow> osFile \<times> ioError option" where
  "fileWrite data f =
     (case nextFault f of
        (Fine, f') \<Rightarrow> (f'\<lparr>content := content f @ data, offset := length (content f @ data)\<rparr>, None)
      | (Fails k, f') \<Rightarrow>
          (f'\<lparr>content := content f @ take k data, offset := length (content f @ take k data)\<rparr>,
           Some OSError))"

definition fileSync :: "osFile \<Rightarrow> osFile \<times> ioError option" where
  "fileSync f = (case nextFault f of (Fine, f') \<Rightarrow> (f', None) | (Fails _, f') \<Rightarrow> (f', Some OSError))"

definition fileSeek :: "nat \<Rightarrow> osFile \<Rightarrow> osFile \<times> ioError option" where
  "fileSeek pos f = (case nextFault f of
      (Fine, f') \<Rightarrow> (f'\<lparr>offset := pos\<rparr>, None) | (Fails _, f') \<Rightarrow> (f', Some OSError))"

text \<open>A truncation beyond the end fills with zeros.\<close>

definition fileTruncate :: "nat \<Rightarrow> osFile \<Rightarrow> osFile \<times> ioError option" where
  "fileTruncate n f = (case nextFault f of
      (Fine, f') \<Rightarrow> (f'\<lparr>content := take n (content f @ replicate n 0)\<rparr>, None)
    | (Fails _, f') \<Rightarrow> (f', Some OSError))"

definition fileSize :: "osFile \<Rightarrow> osFile \<times> (ioError + nat)" where
  "fileSize f = (case nextFault f of
      (Fine, f') \<Rightarrow> (f', Inr (length (content f))) | (Fails _, f') \<Rightarrow> (f', Inl OSError))"

text \<open>
  \<open>io.ReadFull\<close> reads exactly \<open>n\<close> bytes.  It answers \<open>EOF\<close> when not a single byte was there
  and \<open>UnexpectedEOF\<close> when some but not all were; it does not touch the file when \<open>n\<close> is 0.
\<close>

definition readFull :: "nat \<Rightarrow> osFile \<Rightarrow> osFile \<times> (ioError + bytes)" where
  "readFull n f =
     (if n = 0 then (f, Inr [])
      else case nextFault f of
        (Fails _, f') \<Rightarrow> (f', Inl OSError)
      | (Fine, f') \<Rightarrow>
          let avail = drop (offset f) (content f)
          in if avail = [] then (f', Inl EOF)
             else if length avail < n then (f'\<lparr>offset := length (content f)\<rparr>, Inl UnexpectedEOF)
             else (f'\<lparr>offset := offset f + n\<rparr>, Inr (take n avail)))"

text \<open>\<open>ReadAt\<close> at a fixed position needs all the bytes and leaves the offset alone.\<close>

definition readAt :: "nat \<Rightarrow> nat \<Rightarrow> osFile \<Rightarrow> osFile \<times> (ioError + bytes)" where
  "readAt n pos f =
     (case nextFault f of
        (Fails _, f') \<Rightarrow> (f', Inl OSError)
      | (Fine, f') \<Rightarrow>
          let avail = drop pos (content f)
          in if length avail < n then (f', Inl EOF) else (f', Inr (take n avail)))"

definition openFile :: "bytes \<Rightarrow> fault list \<Rightarrow> osFile" where
  "openFile bs fs = \<lparr>content = bs, offset = 0, faults = fs\<rparr>"

text \<open>Without outcomes left every call succeeds and leaves none.\<close>

lemma nextFault_none [simp]: "faults f = [] \<Longrightarrow> nextFault f = (Fine, f)"
  by (simp add: nextFault_def)

lemma fileWrite_fine:
  "faults f = [] \<Longrightarrow> fileWrite data f =
     (f\<lparr>content := content f @ data, offset := length (content f @ data)\<rparr>, None)"
  by (simp add: fileWrite_def)

lemma fileSync_fine: "faults f = [] \<Longrightarrow> fileSync f = (f, None)"
  by (simp add: fileSync_def)

lemma fileSeek_fine: "faults f = [] \<Longrightarrow> fileSeek p f = (f\<lparr>offset := p\<rparr>, None)"
  by (simp add: fileSeek_def)

lemma fileTruncate_fine:
  "faults f = [] \<Longrightarrow> n \<le> length (content f) \<Longrightarrow>
     fileTruncate n f = (f\<lparr>content := take n (content f)\<rparr>, None)"
  by (simp add: fileTruncate_def)

lemma fileSize_fine: "faults f = [] \<Longrightarrow> fileSize f = (f, Inr (length (content f)))"
  by (simp add: fileSize_def)

lemma readAt_fine:
  "faults f = [] \<Longrightarrow> p + n \<le> length (content f) \<Longrightarrow>
     readAt n p f = (f, Inr (take n (drop p (content f))))"
  by (auto simp: readAt_def Let_def)

lemma readFull_fine:
  assumes "faults f = []"
  shows "drop (offset f) (content f) = xs @ rest \<Longrightarrow> length xs = n \<Longrightarrow> n \<noteq> 0 \<Longrightarrow>
      readFull n f = (f\<lparr>offset := offset f + n\<rparr>, Inr xs)"
    and "drop (offset f) (content f) = [] \<Longrightarrow> n \<noteq> 0 \<Longrightarrow> readFull n f = (f, Inl EOF)"
    and "drop (offset f) (content f) = xs \<Longrightarrow> xs \<noteq> [] \<Longrightarrow> length xs < n \<Longrightarrow>
      readFull n f = (f\<lparr>offset := length (content f)\<rparr>, Inl UnexpectedEOF)"
    and "readFull 0 f = (f, Inr [])"
  using assms by (auto simp: readFull_def Let_def)

lemmas file_fine = fileWrite_fine fileSync_fine fileSeek_fine fileTruncate_fine fileSize_fine readAt_fine

text \<open>What any call leaves of the content, whatever its outcome.\<close>

lemma nextFault_cases:
  obtains o' f' where "nextFault f = (o', f')" "content f' = content f" "offset f' = offset f"
  by (cases "faults f") (auto simp: nextFault_def)

lemma fileSync_content: "fileSync f = (f', e) \<Longrightarrow> content f' = content f"
  by (rule nextFault_cases [of f]) (auto simp: fileSync_def split: fault.splits)

lemma fileSeek_content: "fileSeek p f = (f', e) \<Longrightarrow> content f' = content f"
  by (rule nextFault_cases [of f]) (auto simp: fileSeek_def split: fault.splits)

lemma fileSeek_offset: "fileSeek p f = (f', None) \<Longrightarrow> offset f' = p \<and> content f' = content f"
  by (rule nextFault_cases [of f]) (auto simp: fileSeek_def split: fault.splits)

lemma readFull_content: "readFull n f = (f', e) \<Longrightarrow> content f' = content f"
  by (rule nextFault_cases [of f]) (auto simp: readFull_def Let_def split: fault.splits if_splits)

lemma readFull_offset:
  "readFull n f = (f', Inr xs) \<Longrightarrow> offset f' = offset f + n \<and> offset f' \<le> max (offset f) (length (content f))"
  by (rule nextFault_cases [of f]) (auto simp: readFull_def Let_def split: fault.splits if_splits)

lemma readFull_take:
  "readFull n f = (f', Inr xs) \<Longrightarrow>
    drop (offset f) (content f) = xs @ drop (offset f') (content f') \<and> length xs = n"
  by (rule nextFault_cases [of f])
    (auto simp: readFull_def Let_def add.commute simp flip: drop_drop split: fault.splits if_splits)

lemma fileWrite_content:
  assumes "fileWrite data f = (f', e)"
  shows "\<exists>k. content f' = content f @ take k data \<and> (e = None \<longrightarrow> content f' = content f @ data)"
proof (rule nextFault_cases [of f])
  fix o' g
  assume g: "nextFault f = (o', g)"
  show ?thesis
  proof (cases o')
    case Fine
    with assms g show ?thesis
      by (intro exI [of _ "length data"]) (auto simp: fileWrite_def)
  next
    case (Fails k)
    with assms g show ?thesis
      by (intro exI [of _ k]) (auto simp: fileWrite_def)
  qed
qed

end
