(* ===== verification/Snapshot.thy ===== *)
theory Snapshot
  imports StoreCodec FileIO
begin

text \<open>
  The snapshot file of \<open>internal/store/snapshot.go\<close>: \<open>saveSnapshot\<close> writes a temporary file and
  renames it, \<open>loadSnapshot\<close> checks header and checksum.  The file system is the content of its
  files and the outcomes of the calls to come.
\<close>

definition snapshotMagic :: u32 where "snapshotMagic = 0x4D445350"
definition snapshotVersion :: u16 where "snapshotVersion = 1"
definition snapshotHeaderSize :: nat where "snapshotHeaderSize = 16"
definition maxSnapshotSize :: u32 where "maxSnapshotSize = 64 * 1024 * 1024"

record fileSystem =
  files :: "string \<rightharpoonup> bytes"
  calls :: "fault list"

datatype snapshotError =
    SnapIo ioError
  | SnapTooLarge nat
  | SnapInvalidMagic u32
  | SnapUnsupportedVersion u16
  | SnapChecksumMismatch u32 u32
  | SnapJson

definition nextCall :: "fileSystem \<Rightarrow> fault \<times> fileSystem" where
  "nextCall fs = (case calls fs of [] \<Rightarrow> (Fine, fs) | x # xs \<Rightarrow> (x, fs\<lparr>calls := xs\<rparr>))"

subsection \<open>The calls of the operating system\<close>

definition fsCreate :: "string \<Rightarrow> fileSystem \<Rightarrow> fileSystem \<times> ioError option" where
  "fsCreate p fs = (case nextCall fs of
      (Fine, fs') \<Rightarrow> (fs'\<lparr>files := (files fs')(p \<mapsto> [])\<rparr>, None) | (Fails _, fs') \<Rightarrow> (fs', Some OSError))"

definition fsWrite :: "string \<Rightarrow> bytes \<Rightarrow> fileSystem \<Rightarrow> fileSystem \<times> ioError option" where
  "fsWrite p bs fs =
     (let old = (case files fs p of None \<Rightarrow> [] | Some c \<Rightarrow> c)
      in case nextCall fs of
        (Fine, fs') \<Rightarrow> (fs'\<lparr>files := (files fs')(p \<mapsto> old @ bs)\<rparr>, None)
      | (Fails k, fs') \<Rightarrow> (fs'\<lparr>files := (files fs')(p \<mapsto> old @ take k bs)\<rparr>, Some OSError))"

definition fsPlain :: "fileSystem \<Rightarrow> fileSystem \<times> ioError option" where
  "fsPlain fs = (case nextCall fs of (Fine, fs') \<Rightarrow> (fs', None) | (Fails _, fs') \<Rightarrow> (fs', Some OSError))"

definition fsRename :: "string \<Rightarrow> string \<Rightarrow> fileSystem \<Rightarrow> fileSystem \<times> ioError option" where
  "fsRename p q fs = (case nextCall fs of
      (Fine, fs') \<Rightarrow> (fs'\<lparr>files := (files fs')(p := None, q := files fs' p)\<rparr>, None)
    | (Fails _, fs') \<Rightarrow> (fs', Some OSError))"

text \<open>A sequence of calls stops at the first error.\<close>

definition andThenCall ::
  "fileSystem \<times> ioError option \<Rightarrow> (fileSystem \<Rightarrow> fileSystem \<times> ioError option) \<Rightarrow> fileSystem \<times> ioError option" where
  "andThenCall r f = (case r of (fs, Some e) \<Rightarrow> (fs, Some e) | (fs, None) \<Rightarrow> f fs)"

subsection \<open>Saving and loading\<close>

definition snapshotHeader :: "bytes \<Rightarrow> bytes" where
  "snapshotHeader payload = putUint32 snapshotMagic @ putUint16 snapshotVersion @ [0, 0]
     @ putUint32 (of_nat (length payload)) @ putUint32 (crc32 payload)"

definition syncDir :: "fileSystem \<Rightarrow> fileSystem \<times> ioError option" where
  "syncDir fs = andThenCall (fsPlain fs) fsPlain"

definition saveSnapshot :: "string \<Rightarrow> snapshotData \<Rightarrow> fileSystem \<Rightarrow> fileSystem \<times> snapshotError option" where
  "saveSnapshot path snapshot fs =
     (let payload = marshalSnapshot snapshot; tmpPath = path @ ''.tmp''
      in if length payload > unat maxSnapshotSize then (fs, Some (SnapTooLarge (length payload)))
         else let r1 = fsCreate tmpPath fs;
                  r2 = andThenCall r1 (fsWrite tmpPath (snapshotHeader payload));
                  r3 = andThenCall r2 (fsWrite tmpPath payload);
                  r4 = andThenCall r3 fsPlain;
                  r5 = andThenCall r4 fsPlain;
                  r6 = andThenCall r5 (fsRename tmpPath path);
                  r7 = andThenCall r6 syncDir
              in (fst r7, map_option SnapIo (snd r7)))"

definition loadSnapshot :: "string \<Rightarrow> fileSystem \<Rightarrow> fileSystem \<times> (snapshotError + snapshotData)" where
  "loadSnapshot path fs =
     (case nextCall fs of
        (Fails _, fs1) \<Rightarrow> (fs1, Inl (SnapIo OSError))
      | (Fine, fs1) \<Rightarrow>
          case files fs1 path of
            None \<Rightarrow> (fs1, Inr \<lparr>SnapData = Map.empty, MaxVersionCounter = 0\<rparr>)
          | Some c \<Rightarrow>
          case readFull snapshotHeaderSize (openFile c (calls fs1)) of
            (f1, Inl e) \<Rightarrow> (fs1\<lparr>calls := faults f1\<rparr>, Inl (SnapIo e))
          | (f1, Inr header) \<Rightarrow>
              let magic = getUint32 (take 4 header);
                  version = getUint16 (take 2 (drop 4 header));
                  len = getUint32 (take 4 (drop 8 header));
                  expectedChecksum = getUint32 (take 4 (drop 12 header));
                  fs2 = fs1\<lparr>calls := faults f1\<rparr>
              in if magic \<noteq> snapshotMagic then (fs2, Inl (SnapInvalidMagic magic))
                 else if version \<noteq> snapshotVersion then (fs2, Inl (SnapUnsupportedVersion version))
                 else if len > maxSnapshotSize then (fs2, Inl (SnapTooLarge (unat len)))
                 else case readFull (unat len) f1 of
                   (f2, Inl e) \<Rightarrow> (fs2\<lparr>calls := faults f2\<rparr>, Inl (SnapIo e))
                 | (f2, Inr payload) \<Rightarrow>
                     (fs2\<lparr>calls := faults f2\<rparr>,
                      if crc32 payload \<noteq> expectedChecksum
                      then Inl (SnapChecksumMismatch expectedChecksum (crc32 payload))
                      else case unmarshalSnapshot payload of None \<Rightarrow> Inl SnapJson | Some s \<Rightarrow> Inr s))"

subsection \<open>The file on disk\<close>

definition snapshotBytes :: "snapshotData \<Rightarrow> bytes" where
  "snapshotBytes s = snapshotHeader (marshalSnapshot s) @ marshalSnapshot s"

definition snapshot_fits :: "snapshotData \<Rightarrow> bool" where
  "snapshot_fits s \<longleftrightarrow> length (marshalSnapshot s) \<le> unat maxSnapshotSize"

lemma nextCall_none [simp]: "calls fs = [] \<Longrightarrow> nextCall fs = (Fine, fs)"
  by (simp add: nextCall_def)

lemma nextCall_cases:
  obtains o' fs' where "nextCall fs = (o', fs')" "files fs' = files fs"
  by (cases "calls fs") (auto simp: nextCall_def)

lemma path_not_tmp [simp]: "path \<noteq> path @ ''.tmp''" "path @ ''.tmp'' \<noteq> path"
  by simp_all

lemma snapshotHeader_fields:
  "length (snapshotHeader p) = 16"
  "getUint32 (take 4 (snapshotHeader p)) = snapshotMagic"
  "getUint16 (take 2 (drop 4 (snapshotHeader p))) = snapshotVersion"
  "getUint32 (take 4 (drop 8 (snapshotHeader p))) = of_nat (length p)"
  "getUint32 (take 4 (drop 12 (snapshotHeader p))) = crc32 p"
  "getUint32 (drop 12 (snapshotHeader p)) = crc32 p"
  by (simp_all add: snapshotHeader_def)

lemma readFull_exact:
  "readFull (length xs) \<lparr>content = ys @ xs, offset = length ys, faults = []\<rparr>
     = (\<lparr>content = ys @ xs, offset = length ys + length xs, faults = []\<rparr>, Inr xs)"
  by (simp add: readFull_def)

lemma loadSnapshot_bytes:
  assumes "files fs path = Some (snapshotBytes s)" "calls fs = []" "snapshot_fits s" "goodSnapshot s"
  shows "loadSnapshot path fs = (fs, Inr s)"
proof -
  let ?p = "marshalSnapshot s"
  let ?h = "snapshotHeader ?p"
  have r1: "readFull snapshotHeaderSize (openFile (snapshotBytes s) []) =
      (\<lparr>content = ?h @ ?p, offset = 16, faults = []\<rparr>, Inr ?h)"
    using readFull_fine(1) [of "openFile (snapshotBytes s) []" ?h ?p 16]
    by (simp add: snapshotHeaderSize_def openFile_def snapshotBytes_def snapshotHeader_fields)
  have r2: "readFull (length ?p) \<lparr>content = ?h @ ?p, offset = 16, faults = []\<rparr> =
      (\<lparr>content = ?h @ ?p, offset = 16 + length ?p, faults = []\<rparr>, Inr ?p)"
    using readFull_exact [of ?p ?h] by (simp add: snapshotHeader_fields)
  have "unat (of_nat (length ?p) :: u32) = length ?p" "\<not> (of_nat (length ?p) :: u32) > maxSnapshotSize"
    using assms(3) by (simp_all add: snapshot_fits_def maxSnapshotSize_def word_less_nat_alt unat_of_nat)
  with r1 r2 assms show ?thesis
    by (simp add: loadSnapshot_def snapshotHeader_fields Let_def)
qed

text \<open>Whatever the calls do, another file than the temporary one is either as before or complete.\<close>

lemma call_files:
  "files (fst (fsPlain fs)) = files fs"
  "q \<noteq> p \<Longrightarrow> files (fst (fsCreate p fs)) q = files fs q"
  "q \<noteq> p \<Longrightarrow> files (fst (fsWrite p bs fs)) q = files fs q"
  "snd (fsCreate p fs) = None \<Longrightarrow> files (fst (fsCreate p fs)) p = Some []"
  "snd (fsWrite p bs fs) = None \<Longrightarrow> files fs p = Some c \<Longrightarrow> files (fst (fsWrite p bs fs)) p = Some (c @ bs)"
  "files (fst (fsRename p q fs)) = files fs
     \<or> files (fst (fsRename p q fs)) = (files fs)(p := None, q := files fs p)"
  "snd (fsRename p q fs) = None \<Longrightarrow> files (fst (fsRename p q fs)) = (files fs)(p := None, q := files fs p)"
  "snd (fsRename p q fs) \<noteq> None \<Longrightarrow> files (fst (fsRename p q fs)) = files fs"
  by (rule nextCall_cases [of fs]; auto simp: fsPlain_def fsCreate_def fsWrite_def fsRename_def Let_def
    split: fault.splits option.splits)+

lemma andThenCall_simps:
  "snd r = None \<Longrightarrow> andThenCall r f = f (fst r)"
  "snd r \<noteq> None \<Longrightarrow> andThenCall r f = r"
  by (cases r; auto simp: andThenCall_def)+

text \<open>Before the rename: all other files are as they were, the temporary one has its bytes so far.\<close>

definition writing :: "string \<Rightarrow> fileSystem \<Rightarrow> bytes \<Rightarrow> fileSystem \<times> ioError option \<Rightarrow> bool" where
  "writing t fs c r \<longleftrightarrow> (\<forall>q. q \<noteq> t \<longrightarrow> files (fst r) q = files fs q)
     \<and> (snd r = None \<longrightarrow> files (fst r) t = Some c)"

lemma writing_steps:
  "writing t fs [] (fsCreate t fs)"
  "writing t fs c r \<Longrightarrow> writing t fs (c @ bs) (andThenCall r (fsWrite t bs))"
  "writing t fs c r \<Longrightarrow> writing t fs c (andThenCall r fsPlain)"
  by (cases "snd r"; auto simp: writing_def andThenCall_simps call_files)+

lemma saveSnapshot_atomic:
  assumes "saveSnapshot path s fs = (fs', e)"
  shows "files fs' path = files fs path \<or> snapshot_fits s \<and> files fs' path = Some (snapshotBytes s)"
    and "e = None \<Longrightarrow> files fs' path = Some (snapshotBytes s) \<and> snapshot_fits s"
    and "q \<notin> {path, path @ ''.tmp''} \<Longrightarrow> files fs' q = files fs q"
proof -
  let ?t = "path @ ''.tmp''"
  let ?p = "marshalSnapshot s"
  define r5 where "r5 = andThenCall (andThenCall (andThenCall (andThenCall (fsCreate ?t fs)
    (fsWrite ?t (snapshotHeader ?p))) (fsWrite ?t ?p)) fsPlain) fsPlain"
  have "writing ?t fs ([] @ snapshotHeader ?p @ ?p) r5"
    unfolding r5_def append_assoc [symmetric] by (intro writing_steps)
  then have r5: "\<forall>q. q \<noteq> ?t \<longrightarrow> files (fst r5) q = files fs q"
      "snd r5 = None \<Longrightarrow> files (fst r5) ?t = Some (snapshotBytes s)"
    by (simp_all add: writing_def snapshotBytes_def)
  define r6 where "r6 = andThenCall r5 (fsRename ?t path)"
  have r6: "files (fst r6) path = files fs path \<or> files (fst r6) path = Some (snapshotBytes s)"
      "snd r6 = None \<Longrightarrow> files (fst r6) path = Some (snapshotBytes s)"
      "q \<notin> {path, ?t} \<Longrightarrow> files (fst r6) q = files fs q" for q
    using r5 call_files(6,7,8) [of ?t path "fst r5"]
    by (cases "snd r5"; cases "snd (fsRename ?t path (fst r5))"; auto simp: r6_def andThenCall_simps)+
  have r7: "files (fst (andThenCall r6 syncDir)) = files (fst r6)"
      "snd (andThenCall r6 syncDir) = None \<Longrightarrow> snd r6 = None"
    by (cases "snd r6"; cases "snd (fsPlain (fst r6))"; auto simp: andThenCall_simps syncDir_def call_files)+
  have save: "saveSnapshot path s fs =
      (if snapshot_fits s
       then (fst (andThenCall r6 syncDir), map_option SnapIo (snd (andThenCall r6 syncDir)))
       else (fs, Some (SnapTooLarge (length ?p))))"
    by (simp add: saveSnapshot_def Let_def r6_def r5_def snapshot_fits_def)
  show "files fs' path = files fs path \<or> snapshot_fits s \<and> files fs' path = Some (snapshotBytes s)"
    "e = None \<Longrightarrow> files fs' path = Some (snapshotBytes s) \<and> snapshot_fits s"
    "q \<notin> {path, ?t} \<Longrightarrow> files fs' q = files fs q"
    using assms r6 r7 unfolding save by (auto split: if_splits)
qed

end
