(* ===== verification/Wal.thy ===== *)
theory Wal
  imports FileIO
begin

text \<open>
  The write-ahead log of \<open>internal/store/wal.go\<close>: header, record format, \<open>Append\<close>, \<open>Replay\<close>
  with the repair of a torn tail, \<open>Truncate\<close> and \<open>Size\<close>.  The callback of \<open>Replay\<close> is a
  state transformer; its own error type is a parameter of the errors.
\<close>

definition walMagic :: u32 where "walMagic = 0x4D44574C"
definition walVersion :: u16 where "walVersion = 1"
definition walHeaderSize :: nat where "walHeaderSize = 8"
definition maxWALRecordSize :: u32 where "maxWALRecordSize = 16 * 1024 * 1024"

record WAL =
  wfile :: osFile
  hasHeader :: bool

record ReplayStats =
  Records :: nat
  TailRepaired :: bool

datatype 'e walError =
    Io ioError
  | WalRecordTooLarge nat
  | WalChecksumMismatch u32 u32
  | WalHeaderIncomplete
  | WalInvalidMagic u32
  | WalUnsupportedVersion u16
  | WalApply 'e

subsection \<open>The file header\<close>

definition headerBytes :: bytes where
  "headerBytes = putUint32 walMagic @ putUint16 walVersion @ [0, 0]"

definition writeWALHeader :: "osFile \<Rightarrow> osFile \<times> ioError option" where
  "writeWALHeader f =
     (case fileWrite headerBytes f of
        (f1, Some e) \<Rightarrow> (f1, Some e)
      | (f1, None) \<Rightarrow> fileSync f1)"

definition validateWALHeader :: "osFile \<Rightarrow> osFile \<times> 'e walError option" where
  "validateWALHeader f =
     (case readAt walHeaderSize 0 f of
        (f1, Inl e) \<Rightarrow> (f1, Some (Io e))
      | (f1, Inr header) \<Rightarrow>
          let magic = getUint32 (take 4 header)
          in if magic \<noteq> walMagic then (f1, Some (WalInvalidMagic magic))
             else let version = getUint16 (take 2 (drop 4 header))
                  in if version \<noteq> walVersion then (f1, Some (WalUnsupportedVersion version))
                     else (f1, None))"

definition detectWALHeader :: "osFile \<Rightarrow> nat \<Rightarrow> osFile \<times> ('e walError + bool)" where
  "detectWALHeader f sz =
     (if sz = 0 then (f, Inr False)
      else if sz < walHeaderSize then (f, Inl WalHeaderIncomplete)
      else case readAt 4 0 f of
        (f1, Inl e) \<Rightarrow> (f1, Inl (Io e))
      | (f1, Inr magicBytes) \<Rightarrow>
          if getUint32 magicBytes \<noteq> walMagic then (f1, Inr False)
          else if sz < walHeaderSize then (f1, Inl WalHeaderIncomplete)
          else (case validateWALHeader f1 of
            (f2, Some e) \<Rightarrow> (f2, Inl e)
          | (f2, None) \<Rightarrow> (f2, Inr True)))"

text \<open>\<open>OpenWAL\<close> on the file the operating system opened; its content stays on an error.\<close>

definition OpenWAL :: "osFile \<Rightarrow> osFile \<times> ('e walError + WAL)" where
  "OpenWAL f =
     (case fileSize f of
        (f1, Inl e) \<Rightarrow> (f1, Inl (Io e))
      | (f1, Inr sz) \<Rightarrow>
          case detectWALHeader f1 sz of
            (f2, Inl e) \<Rightarrow> (f2, Inl e)
          | (f2, Inr has) \<Rightarrow>
              if sz = 0
              then (case writeWALHeader f2 of
                      (f3, Some e) \<Rightarrow> (f3, Inl (Io e))
                    | (f3, None) \<Rightarrow> (f3, Inr \<lparr>wfile = f3, hasHeader = True\<rparr>))
              else (f2, Inr \<lparr>wfile = f2, hasHeader = has\<rparr>))"

subsection \<open>Records\<close>

definition recordHeader :: "bool \<Rightarrow> bytes \<Rightarrow> bytes" where
  "recordHeader has data =
     (if has then putUint32 (of_nat (length data)) @ putUint32 (crc32 data)
      else putUint32 (of_nat (length data)))"

definition writeRecord :: "bytes \<Rightarrow> WAL \<Rightarrow> WAL \<times> ioError option" where
  "writeRecord data w =
     (case fileWrite (recordHeader (hasHeader w) data) (wfile w) of
        (f1, Some e) \<Rightarrow> (w\<lparr>wfile := f1\<rparr>, Some e)
      | (f1, None) \<Rightarrow>
          case fileWrite data f1 of (f2, e) \<Rightarrow> (w\<lparr>wfile := f2\<rparr>, e))"

definition Append :: "bytes \<Rightarrow> WAL \<Rightarrow> WAL \<times> 'e walError option" where
  "Append data w =
     (if length data > unat maxWALRecordSize then (w, Some (WalRecordTooLarge (length data)))
      else case writeRecord data w of
        (w1, Some e) \<Rightarrow> (w1, Some (Io e))
      | (w1, None) \<Rightarrow>
          case fileSync (wfile w1) of (f2, e) \<Rightarrow> (w1\<lparr>wfile := f2\<rparr>, map_option Io e))"

definition readRecord :: "WAL \<Rightarrow> WAL \<times> ('e walError + bytes)" where
  "readRecord w =
     (let headerSize = (if hasHeader w then 8 else 4)
      in case readFull headerSize (wfile w) of
        (f1, Inl e) \<Rightarrow> (w\<lparr>wfile := f1\<rparr>, Inl (Io e))
      | (f1, Inr header) \<Rightarrow>
          let len = getUint32 (take 4 header)
          in if len > maxWALRecordSize
             then (w\<lparr>wfile := f1\<rparr>, Inl (WalRecordTooLarge (unat len)))
             else case readFull (unat len) f1 of
               (f2, Inl e) \<Rightarrow> (w\<lparr>wfile := f2\<rparr>, Inl (Io e))
             | (f2, Inr data) \<Rightarrow>
                 if hasHeader w \<and> crc32 data \<noteq> getUint32 (take 4 (drop 4 header))
                 then (w\<lparr>wfile := f2\<rparr>,
                       Inl (WalChecksumMismatch (getUint32 (take 4 (drop 4 header))) (crc32 data)))
                 else (w\<lparr>wfile := f2\<rparr>, Inr data))"

subsection \<open>Replay\<close>

definition repairTail :: "nat \<Rightarrow> osFile \<Rightarrow> osFile \<times> ioError option" where
  "repairTail validOffset f =
     (case fileTruncate validOffset f of
        (f1, Some e) \<Rightarrow> (f1, Some e)
      | (f1, None) \<Rightarrow>
          case fileSync f1 of
            (f2, Some e) \<Rightarrow> (f2, Some e)
          | (f2, None) \<Rightarrow> fileSeek (length (content f2)) f2)"

text \<open>A record that was read lies before the end of the file, so the loop gets closer to it.\<close>

lemma readRecord_progress:
  assumes "readRecord w = (w', Inr data)"
  shows "content (wfile w') = content (wfile w) \<and> offset (wfile w) < offset (wfile w')
    \<and> offset (wfile w') \<le> length (content (wfile w)) \<and> hasHeader w' = hasHeader w"
proof -
  define n :: nat where "n = (if hasHeader w then 8 else 4)"
  have n: "n \<noteq> 0" by (simp add: n_def)
  obtain f1 header where f1: "readFull n (wfile w) = (f1, Inr header)"
    using assms by (auto simp: readRecord_def Let_def n_def split: prod.splits sum.splits if_splits)
  then obtain f2 where f2: "readFull (unat (getUint32 (take 4 header))) f1 = (f2, Inr data)"
      and w': "w' = w\<lparr>wfile := f2\<rparr>"
    using assms by (auto simp: readRecord_def Let_def n_def split: prod.splits sum.splits if_splits)
  have "offset f1 = offset (wfile w) + n \<and> offset f1 \<le> length (content (wfile w))"
    using f1 n by (rule_tac nextFault_cases [of "wfile w"])
      (auto simp: readFull_def Let_def split: fault.splits if_splits)
  moreover have "content f1 = content (wfile w)" "content f2 = content f1"
    using f1 f2 by (auto dest: readFull_content)
  moreover have "offset f2 \<ge> offset f1" "offset f2 \<le> max (offset f1) (length (content f1))"
    using readFull_offset [OF f2] by auto
  ultimately show ?thesis
    using n w' by auto
qed

function replayLoop ::
  "(bytes \<Rightarrow> 's \<Rightarrow> 'e + 's) \<Rightarrow> WAL \<Rightarrow> nat \<Rightarrow> ReplayStats \<Rightarrow> 's
     \<Rightarrow> WAL \<times> ReplayStats \<times> 's \<times> 'e walError option" where
  "replayLoop apply w validOffset stats s =
     (case readRecord w of
        (w1, Inl (Io EOF)) \<Rightarrow>
          (case fileSeek (length (content (wfile w1))) (wfile w1) of
             (f2, e) \<Rightarrow> (w1\<lparr>wfile := f2\<rparr>, stats, s, map_option Io e))
      | (w1, Inl (Io UnexpectedEOF)) \<Rightarrow>
          (case repairTail validOffset (wfile w1) of
             (f2, Some e) \<Rightarrow> (w1\<lparr>wfile := f2\<rparr>, stats, s, Some (Io e))
           | (f2, None) \<Rightarrow> (w1\<lparr>wfile := f2\<rparr>, stats\<lparr>TailRepaired := True\<rparr>, s, None))
      | (w1, Inl e) \<Rightarrow> (w1, stats, s, Some e)
      | (w1, Inr data) \<Rightarrow>
          (case apply data s of
             Inl e \<Rightarrow> (w1, stats, s, Some (WalApply e))
           | Inr s' \<Rightarrow>
               (case fileSeek (offset (wfile w1)) (wfile w1) of
                  (f2, Some e) \<Rightarrow> (w1\<lparr>wfile := f2\<rparr>, stats\<lparr>Records := Records stats + 1\<rparr>, s', Some (Io e))
                | (f2, None) \<Rightarrow>
                    replayLoop apply (w1\<lparr>wfile := f2\<rparr>) (offset f2)
                      (stats\<lparr>Records := Records stats + 1\<rparr>) s')))"
  by pat_completeness auto
termination
  by (relation "measure (\<lambda>(app, w, v, stats, s). length (content (wfile w)) - offset (wfile w))")
    (auto dest!: readRecord_progress [OF sym] fileSeek_offset [OF sym])

declare replayLoop.simps [simp del]

definition Replay ::
  "(bytes \<Rightarrow> 's \<Rightarrow> 'e + 's) \<Rightarrow> WAL \<Rightarrow> 's \<Rightarrow> WAL \<times> ReplayStats \<times> 's \<times> 'e walError option" where
  "Replay apply w s =
     (let stats = \<lparr>Records = 0, TailRepaired = False\<rparr>;
          validOffset = (if hasHeader w then walHeaderSize else 0)
      in case fileSeek validOffset (wfile w) of
           (f1, Some e) \<Rightarrow> (w\<lparr>wfile := f1\<rparr>, stats, s, Some (Io e))
         | (f1, None) \<Rightarrow> replayLoop apply (w\<lparr>wfile := f1\<rparr>) validOffset stats s)"

definition Truncate :: "WAL \<Rightarrow> WAL \<times> ioError option" where
  "Truncate w =
     (case fileTruncate 0 (wfile w) of
        (f1, Some e) \<Rightarrow> (w\<lparr>wfile := f1\<rparr>, Some e)
      | (f1, None) \<Rightarrow>
          case fileSeek 0 f1 of
            (f2, Some e) \<Rightarrow> (w\<lparr>wfile := f2\<rparr>, Some e)
          | (f2, None) \<Rightarrow>
              case writeWALHeader f2 of
                (f3, Some e) \<Rightarrow> (w\<lparr>wfile := f3\<rparr>, Some e)
              | (f3, None) \<Rightarrow>
                  case fileSync f3 of (f4, e) \<Rightarrow> (\<lparr>wfile = f4, hasHeader = True\<rparr>, e))"

definition Size :: "WAL \<Rightarrow> WAL \<times> (ioError + int)" where
  "Size w =
     (case fileSize (wfile w) of
        (f1, Inl e) \<Rightarrow> (w\<lparr>wfile := f1\<rparr>, Inl e)
      | (f1, Inr n) \<Rightarrow>
          let sz = (if hasHeader w then int n - int walHeaderSize else int n)
          in (w\<lparr>wfile := f1\<rparr>, Inr (if sz < 0 then 0 else sz)))"

end
