(* ===== verification/Memory.thy ===== *)
theory Memory
  imports Snapshot Wal
begin

text \<open>
  The persistent key-value store of \<open>internal/store/memory.go\<close>: the map, the log it is written
  to first, the snapshots that shorten the log, and the recovery of both at the start.  Every
  operation runs under the lock.  The file system the snapshots are written to is part of
  the state.
\<close>

definition defaultSnapshotThreshold :: int where
  "defaultSnapshotThreshold = 64 * 1024 * 1024"

record Memory =
  memData :: "string \<rightharpoonup> Value"
  wal :: "WAL option"
  snapshotPath :: string
  snapshotThreshold :: int
  maxVersionCounter :: u64
  disk :: fileSystem

datatype replayError = ReplayJson | UnknownOperation string

text \<open>\<open>NilWal\<close> stands for the panic of a call on the missing log of a store without persistence.\<close>

datatype memoryError =
    MemWal "replayError walError"
  | MemIo ioError
  | MemSnapshot snapshotError
  | NilWal

definition NewMemory :: "fileSystem \<Rightarrow> Memory" where
  "NewMemory fs = \<lparr>memData = Map.empty, wal = None, snapshotPath = [], snapshotThreshold = 0,
     maxVersionCounter = 0, disk = fs\<rparr>"

subsection \<open>The map\<close>

definition ForceSet :: "string \<Rightarrow> Value \<Rightarrow> Memory \<Rightarrow> Memory" where
  "ForceSet key value m =
     (let m1 = m\<lparr>memData := (memData m)(key \<mapsto> value)\<rparr>
      in if Counter (VersionOf value) > maxVersionCounter m1
         then m1\<lparr>maxVersionCounter := Counter (VersionOf value)\<rparr> else m1)"

definition forceDelete :: "string \<Rightarrow> Memory \<Rightarrow> Memory" where
  "forceDelete key m = m\<lparr>memData := (memData m)(key := None)\<rparr>"

definition MemGet :: "string \<Rightarrow> Memory \<Rightarrow> Value \<times> bool" where
  "MemGet key m = (case memData m key of None \<Rightarrow> (zeroValue, False) | Some v \<Rightarrow> (v, True))"

definition memSnapshot :: "Memory \<Rightarrow> (string \<rightharpoonup> Value)" where
  "memSnapshot m = memData m"

subsection \<open>Snapshots\<close>

definition memSaveSnapshot :: "Memory \<Rightarrow> Memory \<times> memoryError option" where
  "memSaveSnapshot m =
     (case saveSnapshot (snapshotPath m)
        \<lparr>SnapData = memData m, MaxVersionCounter = maxVersionCounter m\<rparr> (disk m) of
        (fs, Some e) \<Rightarrow> (m\<lparr>disk := fs\<rparr>, Some (MemSnapshot e))
      | (fs, None) \<Rightarrow>
          case wal m of
            None \<Rightarrow> (m\<lparr>disk := fs\<rparr>, Some NilWal)
          | Some w \<Rightarrow>
              case Truncate w of (w', e) \<Rightarrow> (m\<lparr>disk := fs, wal := Some w'\<rparr>, map_option MemIo e))"

definition MaybeSnapshot :: "Memory \<Rightarrow> Memory \<times> memoryError option" where
  "MaybeSnapshot m =
     (case wal m of
        None \<Rightarrow> (m, None)
      | Some w \<Rightarrow>
          case Size w of
            (w', Inl e) \<Rightarrow> (m\<lparr>wal := Some w'\<rparr>, Some (MemIo e))
          | (w', Inr n) \<Rightarrow>
              let m1 = m\<lparr>wal := Some w'\<rparr>
              in if n < snapshotThreshold m1 then (m1, None) else memSaveSnapshot m1)"

definition SaveSnapshot :: "Memory \<Rightarrow> Memory \<times> memoryError option" where
  "SaveSnapshot m = memSaveSnapshot m"

subsection \<open>Writes\<close>

text \<open>The part of \<open>Set\<close> under the lock, and the whole; the error of the snapshot is only logged.\<close>

definition logEntry :: "kvWALEntry \<Rightarrow> Memory \<Rightarrow> Memory \<times> memoryError option" where
  "logEntry entry m =
     (case wal m of
        None \<Rightarrow> (m, None)
      | Some w \<Rightarrow>
          case Append (marshalEntry entry) w of
            (w', e) \<Rightarrow> (m\<lparr>wal := Some w'\<rparr>, map_option MemWal e))"

definition setLocked :: "string \<Rightarrow> Value \<Rightarrow> Memory \<Rightarrow> Memory \<times> memoryError option \<times> bool" where
  "setLocked key value m =
     (case memData m key of
        Some current \<Rightarrow>
          if CompareVersion (VersionOf value) (VersionOf current) \<le> 0 then (m, None, False)
          else (case logEntry (zeroEntry\<lparr>Op := walOpSet, EntryKey := key, EntryValue := value\<rparr>) m of
                  (m1, Some e) \<Rightarrow> (m1, Some e, False)
                | (m1, None) \<Rightarrow> (ForceSet key value m1, None, True))
      | None \<Rightarrow>
          (case logEntry (zeroEntry\<lparr>Op := walOpSet, EntryKey := key, EntryValue := value\<rparr>) m of
             (m1, Some e) \<Rightarrow> (m1, Some e, False)
           | (m1, None) \<Rightarrow> (ForceSet key value m1, None, True)))"

definition Set :: "string \<Rightarrow> Value \<Rightarrow> Memory \<Rightarrow> Memory \<times> memoryError option" where
  "Set key value m =
     (case setLocked key value m of
        (m1, e, changed) \<Rightarrow> if changed then (fst (MaybeSnapshot m1), None) else (m1, e))"

definition deleteLocked :: "string \<Rightarrow> Version \<Rightarrow> Memory \<Rightarrow> Memory \<times> memoryError option \<times> bool" where
  "deleteLocked key version m =
     (case memData m key of
        None \<Rightarrow> (m, None, False)
      | Some current \<Rightarrow>
          if CompareVersion (VersionOf current) version \<noteq> 0 then (m, None, False)
          else (case logEntry (zeroEntry\<lparr>Op := walOpDelete, EntryKey := key, EntryVersion := version\<rparr>) m of
                  (m1, Some e) \<Rightarrow> (m1, Some e, False)
                | (m1, None) \<Rightarrow> (forceDelete key m1, None, True)))"

definition DeleteIfMatch :: "string \<Rightarrow> Version \<Rightarrow> Memory \<Rightarrow> Memory \<times> bool \<times> memoryError option" where
  "DeleteIfMatch key version m =
     (case deleteLocked key version m of
        (m1, e, changed) \<Rightarrow> if changed then (fst (MaybeSnapshot m1), True, None) else (m1, False, e))"

subsection \<open>Recovery\<close>

definition replayEntry :: "bytes \<Rightarrow> Memory \<Rightarrow> replayError + Memory" where
  "replayEntry data m =
     (case unmarshalEntry data of
        None \<Rightarrow> Inl ReplayJson
      | Some entry \<Rightarrow>
          if Op entry = walOpSet then Inr (ForceSet (EntryKey entry) (EntryValue entry) m)
          else if Op entry = walOpDelete then
            (case MemGet (EntryKey entry) m of
               (current, ok) \<Rightarrow>
                 if \<not> ok then Inr m
                 else if CompareVersion (VersionOf current) (EntryVersion entry) = 0
                 then Inr (forceDelete (EntryKey entry) m) else Inr m)
          else Inl (UnknownOperation (Op entry)))"

text \<open>The arguments are the log file as it is opened, the file system and the snapshot's path.\<close>

definition OpenMemory :: "osFile \<Rightarrow> fileSystem \<Rightarrow> string \<Rightarrow> memoryError + Memory" where
  "OpenMemory walFile fs path =
     (case loadSnapshot path fs of
        (fs1, Inl e) \<Rightarrow> Inl (MemSnapshot e)
      | (fs1, Inr snapshot) \<Rightarrow>
          case OpenWAL walFile of
            (_, Inl e) \<Rightarrow> Inl (MemWal e)
          | (_, Inr w) \<Rightarrow>
              let m = \<lparr>memData = SnapData snapshot, wal = Some w, snapshotPath = path,
                       snapshotThreshold = defaultSnapshotThreshold,
                       maxVersionCounter = MaxVersionCounter snapshot, disk = fs1\<rparr>
              in case Replay replayEntry w m of
                   (w', stats, m', Some e) \<Rightarrow> Inl (MemWal e)
                 | (w', stats, m', None) \<Rightarrow> Inr (m'\<lparr>wal := Some w'\<rparr>))"

definition memMaxVersionCounter :: "Memory \<Rightarrow> u64" where
  [simp]: "memMaxVersionCounter m = maxVersionCounter m"

definition WALSize :: "Memory \<Rightarrow> Memory \<times> (ioError + int)" where
  "WALSize m =
     (case wal m of
        None \<Rightarrow> (m, Inr 0)
      | Some w \<Rightarrow> case Size w of (w', r) \<Rightarrow> (m\<lparr>wal := Some w'\<rparr>, r))"

end
