(* ===== verification/WalReplay.thy ===== *)
theory WalReplay
  imports Wal
begin

text \<open>
  What the log of \<open>internal/store/wal.go\<close> guarantees: the bytes a sequence of appends leaves,
  their replay in order, the repair of a torn tail, and the cuts that the repair misses.
\<close>

subsection \<open>The bytes of a log\<close>

definition encodeRecord :: "bool \<Rightarrow> bytes \<Rightarrow> bytes" where
  "encodeRecord has d = recordHeader has d @ d"

definition walBytes :: "bool \<Rightarrow> bytes list \<Rightarrow> bytes" where
  "walBytes has ds = (if has then headerBytes else []) @ concat (map (encodeRecord has) ds)"

definition record_fits :: "bytes \<Rightarrow> bool" where
  "record_fits d \<longleftrightarrow> length d \<le> unat maxWALRecordSize"

fun applyAll :: "(bytes \<Rightarrow> 's \<Rightarrow> 'e + 's) \<Rightarrow> bytes list \<Rightarrow> 's \<Rightarrow> 'e + 's" where
  "applyAll app [] s = Inr s"
| "applyAll app (d # ds) s = (case app d s of Inl e \<Rightarrow> Inl e | Inr s' \<Rightarrow> applyAll app ds s')"

fun appendAll :: "bytes list \<Rightarrow> WAL \<Rightarrow> WAL \<times> 'e walError option" where
  "appendAll [] w = (w, None)"
| "appendAll (d # ds) w =
     (case Append d w of (w', Some e) \<Rightarrow> (w', Some e) | (w', None) \<Rightarrow> appendAll ds w')"

lemma walBytes_snoc: "walBytes has (ds @ es) = walBytes has ds @ concat (map (encodeRecord has) es)"
  by (simp add: walBytes_def)

lemma maxWALRecordSize_unat [simp]: "unat maxWALRecordSize = 16777216"
  by (simp add: maxWALRecordSize_def)

lemma record_len:
  "record_fits d \<Longrightarrow> unat (of_nat (length d) :: u32) = length d \<and> \<not> (of_nat (length d) :: u32) > maxWALRecordSize"
  by (simp add: record_fits_def word_less_nat_alt unat_of_nat)

lemma length_recordHeader [simp]: "length (recordHeader has d) = (if has then 8 else 4)"
  by (simp add: recordHeader_def)

lemma recordHeader_not_Nil [simp]: "recordHeader has d \<noteq> []"
  by (simp add: recordHeader_def putUint32_def)

lemma length_headerBytes [simp]: "length headerBytes = 8"
  by (simp add: headerBytes_def)

lemma length_encodeRecord: "length (encodeRecord has d) = (if has then 8 else 4) + length d"
  by (simp add: encodeRecord_def)

lemma recordHeader_fields:
  "getUint32 (take 4 (recordHeader has d)) = of_nat (length d)"
  "getUint32 (take 4 (drop 4 (recordHeader True d))) = crc32 d"
  "getUint32 (drop 4 (recordHeader True d)) = crc32 d"
  by (auto simp: recordHeader_def)


lemma drop_shift: "drop n xs = ys @ zs \<Longrightarrow> drop (n + length ys) xs = zs"
  by (metis add.commute append_eq_conv_conj drop_drop)

subsection \<open>Reading\<close>

lemma readRecord_fine:
  assumes "faults (wfile w) = []" "drop (offset (wfile w)) (content (wfile w)) = encodeRecord (hasHeader w) d @ rest"
    and fits: "record_fits d"
  shows "readRecord w =
    (w\<lparr>wfile := wfile w\<lparr>offset := offset (wfile w) + length (encodeRecord (hasHeader w) d)\<rparr>\<rparr>, Inr d)"
proof -
  define n :: nat where "n = (if hasHeader w then 8 else 4)"
  define h where "h = recordHeader (hasHeader w) d"
  have h: "length h = n" "n \<noteq> 0"
    by (auto simp: h_def n_def)
  have d1: "drop (offset (wfile w)) (content (wfile w)) = h @ (d @ rest)"
    using assms(2) by (simp add: h_def encodeRecord_def)
  have r1: "readFull n (wfile w) = ((wfile w)\<lparr>offset := offset (wfile w) + n\<rparr>, Inr h)"
    using assms(1) d1 h by (intro readFull_fine(1))
  define f1 where "f1 = (wfile w)\<lparr>offset := offset (wfile w) + n\<rparr>"
  have d2: "drop (offset f1) (content f1) = d @ rest" "faults f1 = []"
    using drop_shift [OF d1] assms(1) h by (simp_all add: f1_def)
  have r2: "readFull (length d) f1 = (f1\<lparr>offset := offset f1 + length d\<rparr>, Inr d)"
  proof (cases "d = []")
    case True
    then show ?thesis by (simp add: readFull_def f1_def)
  next
    case False
    with d2 show ?thesis by (intro readFull_fine(1)) auto
  qed
  have len: "unat (getUint32 (take 4 h)) = length d" "\<not> getUint32 (take 4 h) > maxWALRecordSize"
    using record_len [OF fits] by (simp_all add: h_def recordHeader_fields)
  have "readRecord w = (w\<lparr>wfile := f1\<lparr>offset := offset f1 + length d\<rparr>\<rparr>, Inr d)"
    using r1 r2 len by (simp add: readRecord_def Let_def recordHeader_fields h_def flip: n_def f1_def)
  then show ?thesis
    by (simp add: f1_def n_def length_encodeRecord add.assoc)
qed

definition advance :: "nat \<Rightarrow> WAL \<Rightarrow> WAL" where
  "advance n w = w\<lparr>wfile := wfile w\<lparr>offset := offset (wfile w) + n\<rparr>\<rparr>"

lemma advance_simps [simp]:
  "faults (wfile (advance n w)) = faults (wfile w)" "content (wfile (advance n w)) = content (wfile w)"
  "offset (wfile (advance n w)) = offset (wfile w) + n" "hasHeader (advance n w) = hasHeader w"
  "advance m (advance n w) = advance (n + m) w" "advance 0 w = w"
  by (simp_all add: advance_def add.assoc)

lemma replayLoop_step:
  assumes "faults (wfile w) = []" "drop (offset (wfile w)) (content (wfile w)) = encodeRecord (hasHeader w) d @ rest"
    and "record_fits d" "app d s = Inr s'"
  shows "replayLoop app w v stats s =
    replayLoop app (advance (length (encodeRecord (hasHeader w) d)) w)
      (offset (wfile w) + length (encodeRecord (hasHeader w) d)) (stats\<lparr>Records := Records stats + 1\<rparr>) s'"
  by (subst replayLoop.simps)
    (simp add: readRecord_fine [OF assms(1-3)] assms fileSeek_fine advance_def)

lemma replayLoop_records:
  assumes "faults (wfile w) = []"
    and "drop (offset (wfile w)) (content (wfile w)) = concat (map (encodeRecord (hasHeader w)) ds) @ rest"
    and "list_all record_fits ds" "applyAll app ds s = Inr s'"
  shows "replayLoop app w (offset (wfile w)) stats s =
    (let n = length (concat (map (encodeRecord (hasHeader w)) ds))
     in replayLoop app (advance n w) (offset (wfile w) + n) (stats\<lparr>Records := Records stats + length ds\<rparr>) s')"
  using assms
proof (induction ds arbitrary: w s stats)
  case Nil
  then show ?case by (cases stats) simp
next
  case (Cons d ds)
  from Cons.prems obtain s1 where s1: "app d s = Inr s1" "applyAll app ds s1 = Inr s'"
    by (auto split: sum.splits)
  let ?k = "length (encodeRecord (hasHeader w) d)"
  have dd: "drop (offset (wfile w)) (content (wfile w)) =
      encodeRecord (hasHeader w) d @ (concat (map (encodeRecord (hasHeader w)) ds) @ rest)"
    using Cons.prems by simp
  have st: "replayLoop app w (offset (wfile w)) stats s =
      replayLoop app (advance ?k w) (offset (wfile (advance ?k w))) (stats\<lparr>Records := Records stats + 1\<rparr>) s1"
    using replayLoop_step [where app = app, OF Cons.prems(1) dd, of s s1 "offset (wfile w)" stats] Cons.prems s1
    by simp
  show ?case
    unfolding st using Cons.prems s1 drop_shift [OF dd]
    by (subst Cons.IH [of "advance ?k w" s1]) (simp_all add: Let_def add.assoc)
qed

subsection \<open>The ends of a log\<close>

lemma replayLoop_eof:
  fixes app :: "bytes \<Rightarrow> 's \<Rightarrow> 'e + 's"
  assumes "faults (wfile w) = []" "readRecord w = (w, Inl (Io EOF) :: 'e walError + bytes)"
  shows "replayLoop app w v stats s =
    (w\<lparr>wfile := wfile w\<lparr>offset := length (content (wfile w))\<rparr>\<rparr>, stats, s, None)"
  using assms by (subst replayLoop.simps) (simp add: fileSeek_fine)

lemma replayLoop_end:
  assumes "faults (wfile w) = []" "drop (offset (wfile w)) (content (wfile w)) = []"
  shows "replayLoop app w v stats s =
    (w\<lparr>wfile := wfile w\<lparr>offset := length (content (wfile w))\<rparr>\<rparr>, stats, s, None)"
proof (rule replayLoop_eof [OF assms(1)])
  have "readFull n (wfile w) = (wfile w, Inl EOF)" if "n \<noteq> 0" for n
    using assms that by (intro readFull_fine(2))
  then show "readRecord w = (w, Inl (Io EOF))"
    by (simp add: readRecord_def Let_def)
qed

text \<open>A file cut right behind a record header looks like one that ends there.\<close>

lemma replayLoop_cut_header:
  fixes app :: "bytes \<Rightarrow> 's \<Rightarrow> 'e + 's"
  assumes "faults (wfile w) = []" "drop (offset (wfile w)) (content (wfile w)) = recordHeader (hasHeader w) d"
    and "record_fits d" "d \<noteq> []"
  shows "replayLoop app w v stats s =
    (w\<lparr>wfile := wfile w\<lparr>offset := length (content (wfile w))\<rparr>\<rparr>, stats, s, None)"
proof -
  define n :: nat where "n = (if hasHeader w then 8 else 4)"
  define h where "h = recordHeader (hasHeader w) d"
  have h: "length h = n" "n \<noteq> 0"
    by (auto simp: h_def n_def)
  have d1: "drop (offset (wfile w)) (content (wfile w)) = h @ []"
    using assms(2) by (simp add: h_def)
  define f1 where "f1 = (wfile w)\<lparr>offset := offset (wfile w) + n\<rparr>"
  have r1: "readFull n (wfile w) = (f1, Inr h)"
    unfolding f1_def using assms(1) d1 h by (intro readFull_fine(1))
  have d2: "drop (offset f1) (content f1) = []" "faults f1 = []"
    using drop_shift [OF d1] assms(1) h by (simp_all add: f1_def)
  have r2: "readFull (length d) f1 = (f1, Inl EOF)"
    using d2 assms(4) by (intro readFull_fine(2)) auto
  have len: "unat (getUint32 (take 4 h)) = length d" "\<not> getUint32 (take 4 h) > maxWALRecordSize"
    using record_len [OF assms(3)] by (simp_all add: h_def recordHeader_fields)
  have "readRecord w = (w\<lparr>wfile := f1\<rparr>, Inl (Io EOF) :: 'e walError + bytes)"
    using r1 r2 len by (simp add: readRecord_def Let_def flip: n_def)
  then show ?thesis
    using assms(1) by (subst replayLoop.simps) (simp add: fileSeek_fine f1_def)
qed

lemma repairTail_fine:
  assumes "faults f = []" "v \<le> length (content f)"
  shows "repairTail v f = (f\<lparr>content := take v (content f), offset := v\<rparr>, None)"
  using assms by (simp add: repairTail_def file_fine)

lemma replayLoop_repair:
  fixes app :: "bytes \<Rightarrow> 's \<Rightarrow> 'e + 's"
  assumes "faults (wfile w) = []" "v \<le> length (content (wfile w))"
    and "readRecord w = (w\<lparr>wfile := wfile w\<lparr>offset := p\<rparr>\<rparr>, Inl (Io UnexpectedEOF) :: 'e walError + bytes)"
  shows "replayLoop app w v stats s =
    (w\<lparr>wfile := wfile w\<lparr>content := take v (content (wfile w)), offset := v\<rparr>\<rparr>,
     stats\<lparr>TailRepaired := True\<rparr>, s, None)"
  using assms by (subst replayLoop.simps) (simp add: repairTail_fine)

lemma readRecord_cut_data:
  assumes "faults (wfile w) = []"
    and "drop (offset (wfile w)) (content (wfile w)) = recordHeader (hasHeader w) d @ x"
    and "record_fits d" "x \<noteq> []" "length x < length d"
  shows "readRecord w = (w\<lparr>wfile := wfile w\<lparr>offset := length (content (wfile w))\<rparr>\<rparr>, Inl (Io UnexpectedEOF))"
proof -
  define n :: nat where "n = (if hasHeader w then 8 else 4)"
  define h where "h = recordHeader (hasHeader w) d"
  have h: "length h = n" "n \<noteq> 0"
    by (auto simp: h_def n_def)
  have d1: "drop (offset (wfile w)) (content (wfile w)) = h @ x"
    using assms(2) by (simp add: h_def)
  define f1 where "f1 = (wfile w)\<lparr>offset := offset (wfile w) + n\<rparr>"
  have r1: "readFull n (wfile w) = (f1, Inr h)"
    unfolding f1_def using assms(1) d1 h by (intro readFull_fine(1))
  have d2: "drop (offset f1) (content f1) = x" "faults f1 = []"
    using drop_shift [OF d1] assms(1) h by (simp_all add: f1_def)
  have r2: "readFull (length d) f1 = (f1\<lparr>offset := length (content f1)\<rparr>, Inl UnexpectedEOF)"
    using d2 assms(4,5) by (intro readFull_fine(3)) auto
  have len: "unat (getUint32 (take 4 h)) = length d" "\<not> getUint32 (take 4 h) > maxWALRecordSize"
    using record_len [OF assms(3)] by (simp_all add: h_def recordHeader_fields)
  have "readRecord w = (w\<lparr>wfile := f1\<lparr>offset := length (content f1)\<rparr>\<rparr>, Inl (Io UnexpectedEOF))"
    using r1 r2 len by (simp add: readRecord_def Let_def flip: n_def)
  then show ?thesis
    by (simp add: f1_def)
qed

lemma readRecord_part_header:
  assumes "faults (wfile w) = []" "drop (offset (wfile w)) (content (wfile w)) = x"
    and "x \<noteq> []" "length x < (if hasHeader w then 8 else 4)"
  shows "readRecord w = (w\<lparr>wfile := wfile w\<lparr>offset := length (content (wfile w))\<rparr>\<rparr>, Inl (Io UnexpectedEOF))"
proof -
  define n :: nat where "n = (if hasHeader w then 8 else 4)"
  have "readFull n (wfile w) = ((wfile w)\<lparr>offset := length (content (wfile w))\<rparr>, Inl UnexpectedEOF)"
    using assms by (intro readFull_fine(3)) (auto simp: n_def)
  then show ?thesis
    by (simp add: readRecord_def Let_def flip: n_def)
qed

end
