(* ===== verification/Recovery.thy ===== *)
theory Recovery
  imports Memory WalReplay
begin

text \<open>
  What the log of the store means: the effect of its entries on the map and the largest counter,
  and that reading a log twice has the effect of reading it once, so that a log that was not
  yet truncated does no harm to a newer snapshot.
\<close>

type_synonym view = "(string \<rightharpoonup> Value) \<times> u64"

definition viewOf :: "Memory \<Rightarrow> view" where
  "viewOf m = (memData m, maxVersionCounter m)"

definition applyEntry :: "kvWALEntry \<Rightarrow> view \<Rightarrow> view" where
  "applyEntry e v =
     (if Op e = walOpSet
      then ((fst v)(EntryKey e \<mapsto> EntryValue e), max (snd v) (Counter (VersionOf (EntryValue e))))
      else (case fst v (EntryKey e) of
              None \<Rightarrow> v
            | Some c \<Rightarrow> if VersionOf c = EntryVersion e then ((fst v)(EntryKey e := None), snd v) else v))"

definition applyEntries :: "kvWALEntry list \<Rightarrow> view \<Rightarrow> view" where
  "applyEntries es v = foldl (\<lambda>v e. applyEntry e v) v es"

definition legalEntry :: "kvWALEntry \<Rightarrow> bool" where
  "legalEntry e \<longleftrightarrow> goodEntry e \<and> Op e \<in> {walOpSet, walOpDelete}"

lemma applyEntries_simps [simp]:
  "applyEntries [] v = v" "applyEntries (e # es) v = applyEntries es (applyEntry e v)"
  "applyEntries (es @ fs) v = applyEntries fs (applyEntries es v)"
  by (simp_all add: applyEntries_def)

lemma walOps_distinct [simp]: "walOpSet \<noteq> walOpDelete" "walOpDelete \<noteq> walOpSet"
  by (simp_all add: walOpSet_def walOpDelete_def)

lemma Memory_fields [simp]:
  "memData (ForceSet k x m) = (memData m)(k \<mapsto> x)"
  "maxVersionCounter (ForceSet k x m) = max (maxVersionCounter m) (Counter (VersionOf x))"
  "memData (forceDelete k m) = (memData m)(k := None)"
  "maxVersionCounter (forceDelete k m) = maxVersionCounter m"
  by (auto simp: ForceSet_def forceDelete_def Let_def max_def)

lemma viewOf_updates [simp]:
  "viewOf (m\<lparr>wal := w\<rparr>) = viewOf m" "viewOf (m\<lparr>disk := f\<rparr>) = viewOf m"
  by (simp_all add: viewOf_def)

definition frame :: "Memory \<Rightarrow> WAL option \<times> string \<times> int \<times> fileSystem" where
  "frame m = (wal m, snapshotPath m, snapshotThreshold m, disk m)"

lemma frame_updates [simp]: "frame (ForceSet k x m) = frame m" "frame (forceDelete k m) = frame m"
  by (simp_all add: frame_def ForceSet_def forceDelete_def Let_def)

lemma Memory_eq: "viewOf m = viewOf m' \<Longrightarrow> frame m = frame m' \<Longrightarrow> m = m'"
  by (cases m; cases m') (simp add: viewOf_def frame_def)

lemma replayEntry_legal:
  assumes "legalEntry e"
  shows "\<exists>m'. replayEntry (marshalEntry e) m = Inr m' \<and> viewOf m' = applyEntry e (viewOf m) \<and> frame m' = frame m"
  using assms
  by (auto simp: legalEntry_def replayEntry_def applyEntry_def MemGet_def viewOf_def split: option.splits)

lemma replay_entries:
  assumes "list_all legalEntry es"
  shows "\<exists>m'. applyAll replayEntry (map marshalEntry es) m = Inr m'
    \<and> viewOf m' = applyEntries es (viewOf m) \<and> frame m' = frame m"
  using assms
proof (induction es arbitrary: m)
  case (Cons e es)
  from replayEntry_legal [of e m] Cons.prems obtain m1 where
    m1: "replayEntry (marshalEntry e) m = Inr m1" "viewOf m1 = applyEntry e (viewOf m)" "frame m1 = frame m"
    by auto
  with Cons.IH [of m1] Cons.prems show ?case
    by auto
qed simp

subsection \<open>Reading a log twice\<close>

definition setsKey :: "string \<Rightarrow> kvWALEntry \<Rightarrow> bool" where
  "setsKey k e \<longleftrightarrow> Op e = walOpSet \<and> EntryKey e = k"

definition deletesVersion :: "string \<Rightarrow> Version \<Rightarrow> kvWALEntry \<Rightarrow> bool" where
  "deletesVersion k v e \<longleftrightarrow> Op e \<noteq> walOpSet \<and> EntryKey e = k \<and> EntryVersion e = v"

lemma applyEntry_key:
  "fst (applyEntry e v) k =
     (if setsKey k e then Some (EntryValue e)
      else case fst v k of None \<Rightarrow> None | Some c \<Rightarrow> if deletesVersion k (VersionOf c) e then None else Some c)"
  by (auto simp: applyEntry_def setsKey_def deletesVersion_def split: option.splits)

lemma applyEntry_max:
  "snd (applyEntry e v) = (if Op e = walOpSet then max (snd v) (Counter (VersionOf (EntryValue e))) else snd v)"
  by (auto simp: applyEntry_def split: option.splits)

lemma applyEntries_unset:
  "list_all (\<lambda>e. \<not> setsKey k e) es \<Longrightarrow>
    fst (applyEntries es v) k =
      (case fst v k of None \<Rightarrow> None
       | Some c \<Rightarrow> if list_ex (deletesVersion k (VersionOf c)) es then None else Some c)"
proof (induction es arbitrary: v)
  case Nil
  show ?case by (simp split: option.split)
next
  case (Cons e es)
  then show ?case
    by (cases "fst v k") (simp_all add: applyEntry_key)
qed

lemma applyEntries_cong: "fst v k = fst w k \<Longrightarrow> fst (applyEntries es v) k = fst (applyEntries es w) k"
  by (induction es arbitrary: v w) (auto simp: applyEntry_key)

lemma applyEntries_set:
  "\<not> list_all (\<lambda>e. \<not> setsKey k e) es \<Longrightarrow> fst (applyEntries es v) k = fst (applyEntries es w) k"
proof (induction es arbitrary: v w)
  case (Cons e es)
  show ?case
  proof (cases "setsKey k e")
    case True
    then have "fst (applyEntry e v) k = fst (applyEntry e w) k"
      by (simp add: applyEntry_key)
    then show ?thesis
      unfolding applyEntries_simps by (rule applyEntries_cong)
  next
    case False
    with Cons show ?thesis by simp
  qed
qed simp

lemma applyEntries_max:
  "snd (applyEntries es v) = foldl max (snd v) (map (\<lambda>e. Counter (VersionOf (EntryValue e))) (filter (\<lambda>e. Op e = walOpSet) es))"
  by (induction es arbitrary: v) (auto simp: applyEntry_max)

lemma foldl_max_ge: "x \<le> foldl max (x :: 'a :: linorder) xs"
proof (induction xs arbitrary: x)
  case (Cons y xs)
  have "max x y \<le> foldl max (max x y) xs" by (rule Cons.IH)
  then show ?case by simp
qed simp

lemma foldl_max_mem: "y \<in> set xs \<Longrightarrow> y \<le> foldl max (x :: 'a :: linorder) xs"
proof (induction xs arbitrary: x)
  case (Cons z xs)
  have "max x z \<le> foldl max (max x z) xs" by (rule foldl_max_ge)
  with Cons show ?case by auto
qed simp

lemma foldl_max_same: "\<forall>y \<in> set xs. y \<le> x \<Longrightarrow> foldl max (x :: 'a :: linorder) xs = x"
  by (induction xs) (simp_all add: max_absorb1)

lemma applyEntries_idem: "applyEntries es (applyEntries es v) = applyEntries es v"
proof (rule prod_eqI)
  show "fst (applyEntries es (applyEntries es v)) = fst (applyEntries es v)"
  proof
    fix k
    show "fst (applyEntries es (applyEntries es v)) k = fst (applyEntries es v) k"
    proof (cases "list_all (\<lambda>e. \<not> setsKey k e) es")
      case True
      then show ?thesis
        by (simp add: applyEntries_unset split: option.splits)
    next
      case False
      then show ?thesis by (rule applyEntries_set)
    qed
  qed
  show "snd (applyEntries es (applyEntries es v)) = snd (applyEntries es v)"
    unfolding applyEntries_max by (rule foldl_max_same) (use foldl_max_mem in blast)
qed

end
