(* ===== verification/WalProps.thy ===== *)
theory WalProps
  imports WalReplay
begin

text \<open>
  The properties of the write-ahead log: round trip of appends and replay, repair of a torn
  tail, soundness of replay under any outcome of the system calls, and the states from which
  an acknowledged record is lost.
\<close>

lemma Replay_records:
  assumes "faults (wfile w) = []" "content (wfile w) = walBytes (hasHeader w) ds @ rest"
    and "list_all record_fits ds" "applyAll app ds s = Inr s'"
  shows "Replay app w s = replayLoop app
    (w\<lparr>wfile := wfile w\<lparr>offset := length (walBytes (hasHeader w) ds)\<rparr>\<rparr>)
    (length (walBytes (hasHeader w) ds)) \<lparr>Records = length ds, TailRepaired = False\<rparr> s'"
proof -
  define n :: nat where "n = (if hasHeader w then walHeaderSize else 0)"
  define w0 where "w0 = w\<lparr>wfile := wfile w\<lparr>offset := n\<rparr>\<rparr>"
  have "Replay app w s = replayLoop app w0 (offset (wfile w0)) \<lparr>Records = 0, TailRepaired = False\<rparr> s"
    using assms(1) by (simp add: Replay_def Let_def fileSeek_fine w0_def n_def)
  also have "\<dots> = replayLoop app (advance (length (concat (map (encodeRecord (hasHeader w)) ds))) w0)
      (n + length (concat (map (encodeRecord (hasHeader w)) ds))) \<lparr>Records = length ds, TailRepaired = False\<rparr> s'"
    using assms
    by (subst replayLoop_records [where ds = ds and rest = rest])
      (auto simp: w0_def n_def walBytes_def walHeaderSize_def Let_def)
  also have "n + length (concat (map (encodeRecord (hasHeader w)) ds)) = length (walBytes (hasHeader w) ds)"
    by (simp add: n_def walBytes_def walHeaderSize_def)
  finally show ?thesis
    by (simp add: w0_def n_def advance_def walBytes_def walHeaderSize_def split: if_splits)
qed

lemma Replay_clean:
  fixes app :: "bytes \<Rightarrow> 's \<Rightarrow> 'e + 's"
  assumes "faults (wfile w) = []" "content (wfile w) = walBytes (hasHeader w) ds"
    and "list_all record_fits ds" "applyAll app ds s = Inr s'"
  shows "Replay app w s = (w\<lparr>wfile := wfile w\<lparr>offset := length (content (wfile w))\<rparr>\<rparr>,
    \<lparr>Records = length ds, TailRepaired = False\<rparr>, s', None)"
  using Replay_records [where app = app, of w ds "[]" s s'] assms
  by (simp add: replayLoop_end)

lemma Append_fine:
  assumes "faults (wfile w) = []" "record_fits d"
  shows "Append d w = (w\<lparr>wfile := wfile w\<lparr>content := content (wfile w) @ encodeRecord (hasHeader w) d,
    offset := length (content (wfile w) @ encodeRecord (hasHeader w) d)\<rparr>\<rparr>, None)"
  using assms by (simp add: Append_def writeRecord_def record_fits_def file_fine encodeRecord_def)

lemma appendAll_fine:
  "faults (wfile w) = [] \<Longrightarrow> list_all record_fits ds \<Longrightarrow>
    \<exists>w'. appendAll ds w = (w', None :: 'e walError option) \<and> faults (wfile w') = [] \<and> hasHeader w' = hasHeader w
      \<and> content (wfile w') = content (wfile w) @ concat (map (encodeRecord (hasHeader w)) ds)"
proof (induction ds arbitrary: w)
  case (Cons d ds)
  let ?w = "w\<lparr>wfile := wfile w\<lparr>content := content (wfile w) @ encodeRecord (hasHeader w) d,
    offset := length (content (wfile w) @ encodeRecord (hasHeader w) d)\<rparr>\<rparr>"
  show ?case
    using Cons.IH [of ?w] Cons.prems by (simp add: Append_fine)
qed simp

lemma OpenWAL_empty:
  "OpenWAL (openFile [] []) = (openFile headerBytes []\<lparr>offset := 8\<rparr>,
     Inr \<lparr>wfile = openFile headerBytes []\<lparr>offset := 8\<rparr>, hasHeader = True\<rparr>)"
  by (simp add: OpenWAL_def detectWALHeader_def writeWALHeader_def openFile_def file_fine)

lemma headerBytes_fields:
  "getUint32 (take 4 (headerBytes @ rest)) = walMagic"
  "getUint16 (take 2 (drop 4 (take 8 (headerBytes @ rest)))) = walVersion"
  by (simp_all add: headerBytes_def)

lemma OpenWAL_with_header:
  "OpenWAL (openFile (headerBytes @ rest) []) = (openFile (headerBytes @ rest) [],
     Inr \<lparr>wfile = openFile (headerBytes @ rest) [], hasHeader = True\<rparr>)"
  by (simp add: OpenWAL_def detectWALHeader_def validateWALHeader_def openFile_def file_fine
      walHeaderSize_def headerBytes_fields [of rest, simplified] headerBytes_fields [of "[]", simplified])

lemma OpenWAL_legacy:
  assumes "8 \<le> length bs" "getUint32 (take 4 bs) \<noteq> walMagic"
  shows "OpenWAL (openFile bs []) = (openFile bs [], Inr \<lparr>wfile = openFile bs [], hasHeader = False\<rparr>)"
  using assms by (auto simp: OpenWAL_def detectWALHeader_def openFile_def file_fine walHeaderSize_def)

lemma walBytes_True: "walBytes True ds = headerBytes @ concat (map (encodeRecord True) ds)"
  by (simp add: walBytes_def)

text \<open>C10. Round trip of \<open>Append\<close> and \<open>Replay\<close>: records appended one after the other to the log of a
  new file, each of at most 16 MB, are all acknowledged, and after the file is opened again
  \<open>Replay\<close> hands exactly these records to its callback, in order, reports their number and no
  repair, and leaves the file as it is.\<close>
theorem Append_Replay_roundtrip:
  fixes app :: "bytes \<Rightarrow> 's \<Rightarrow> 'e + 's" and e :: "'x walError option"
  assumes "list_all record_fits ds" "applyAll app ds s = Inr s'"
    and "OpenWAL (openFile [] []) = (f0, Inr w0)" "appendAll ds w0 = (w1, e)"
    and "OpenWAL (openFile (content (wfile w1)) []) = (f2, Inr w2)"
    and "Replay app w2 s = (w3, stats, s3, e3)"
  shows "e = None \<and> s3 = s' \<and> e3 = None \<and> stats = \<lparr>Records = length ds, TailRepaired = False\<rparr>
    \<and> content (wfile w3) = content (wfile w1)"
proof -
  have w0: "faults (wfile w0) = []" "hasHeader w0" "content (wfile w0) = headerBytes"
    using assms(3) unfolding OpenWAL_empty by (auto simp: openFile_def)
  have e: "e = None" and c1: "content (wfile w1) = walBytes True ds"
    using appendAll_fine [where 'e = 'x, OF w0(1) assms(1)] assms(4) w0
    by (auto simp: walBytes_def)
  have w2: "faults (wfile w2) = []" "hasHeader w2" "content (wfile w2) = walBytes True ds"
    using assms(5) unfolding c1 walBytes_True OpenWAL_with_header by (auto simp: openFile_def)
  show ?thesis
    using Replay_records [where app = app, OF w2(1), of ds "[]"] w2 assms(1,2,6) e c1
    by (auto simp: replayLoop_end)
qed

lemma Append_Replay_roundtrip_witness:
  "\<exists>f0 w0 w1 f2 w2 w3 stats s3. OpenWAL (openFile [] []) = (f0, Inr w0 :: unit walError + WAL)
    \<and> appendAll [[104, 105], [], [7]] w0 = (w1, None :: unit walError option)
    \<and> OpenWAL (openFile (content (wfile w1)) []) = (f2, Inr w2 :: unit walError + WAL)
    \<and> Replay (\<lambda>d s. Inr (s @ [d]) :: unit + bytes list) w2 [] = (w3, stats, s3, None)
    \<and> s3 = [[104, 105], [], [7]] \<and> Records stats = 3 \<and> content (wfile w3) = content (wfile w1)"
proof -
  obtain f0 w0 where o0: "OpenWAL (openFile [] []) = (f0, Inr w0 :: unit walError + WAL)"
    unfolding OpenWAL_empty by simp
  have w0: "faults (wfile w0) = []" "hasHeader w0" "content (wfile w0) = headerBytes"
    using o0 unfolding OpenWAL_empty by (auto simp: openFile_def)
  have fits: "list_all record_fits [[104, 105], [], [7]]"
    by (simp add: record_fits_def)
  obtain w1 where w1: "appendAll [[104, 105], [], [7]] w0 = (w1, None :: unit walError option)"
      "content (wfile w1) = headerBytes @ concat (map (encodeRecord True) [[104, 105], [], [7]])"
    using appendAll_fine [where 'e = unit, OF w0(1) fits] w0 by auto
  obtain f2 w2 where o2: "OpenWAL (openFile (content (wfile w1)) []) = (f2, Inr w2 :: unit walError + WAL)"
    unfolding w1(2) OpenWAL_with_header by simp
  obtain w3 stats s3 e3 where r:
      "Replay (\<lambda>d s. Inr (s @ [d]) :: unit + bytes list) w2 [] = (w3, stats, s3, e3)"
    by (metis prod_cases3 surj_pair)
  have "applyAll (\<lambda>d s. Inr (s @ [d]) :: unit + bytes list) [[104, 105], [], [7]] [] =
      Inr [[104, 105], [], [7]]"
    by simp
  from Append_Replay_roundtrip [OF fits this o0 w1(1) o2 r] o0 w1(1) o2 r show ?thesis
    by auto
qed

lemma Replay_torn:
  fixes app :: "bytes \<Rightarrow> 's \<Rightarrow> 'b + 's"
  assumes "faults (wfile w) = []" "list_all record_fits ds" "record_fits d"
    and "k < length (encodeRecord (hasHeader w) d)"
    and "content (wfile w) = walBytes (hasHeader w) ds @ take k (encodeRecord (hasHeader w) d)"
    and "applyAll app ds s = Inr s'"
  shows "\<exists>w' stats. Replay app w s = (w', stats, s', None) \<and> Records stats = length ds
    \<and> faults (wfile w') = [] \<and> hasHeader w' = hasHeader w
    \<and> (if k = 0 \<or> k = length (recordHeader (hasHeader w) d)
       then \<not> TailRepaired stats \<and> content (wfile w') = content (wfile w)
       else TailRepaired stats \<and> content (wfile w') = walBytes (hasHeader w) ds)"
proof -
  let ?has = "hasHeader w" and ?v = "length (walBytes (hasHeader w) ds)"
    and ?st = "\<lparr>Records = length ds, TailRepaired = False\<rparr>"
  define w1 where "w1 = w\<lparr>wfile := wfile w\<lparr>offset := ?v\<rparr>\<rparr>"
  have R: "Replay app w s = replayLoop app w1 ?v ?st s'"
    unfolding w1_def using assms by (intro Replay_records) auto
  have f1: "faults (wfile w1) = []" "hasHeader w1 = ?has"
    and t1: "drop (offset (wfile w1)) (content (wfile w1)) = take k (encodeRecord ?has d)"
    and v1: "?v \<le> length (content (wfile w1))"
    using assms(1,5) by (simp_all add: w1_def)
  let ?h = "recordHeader ?has d"
  consider "k = 0" | "k = length ?h" | "0 < k" "k < length ?h" | "length ?h < k"
    by linarith
  then show ?thesis
  proof cases
    case 1
    with R replayLoop_end [where app = app, OF f1(1)] t1 show ?thesis
      by (simp add: w1_def assms(1))
  next
    case 2
    then have "drop (offset (wfile w1)) (content (wfile w1)) = ?h" "d \<noteq> []"
      using t1 assms(4) by (auto simp: encodeRecord_def)
    with R replayLoop_cut_header [where app = app, OF f1(1)] f1(2) assms(3) 2 show ?thesis
      by (simp add: w1_def assms(1))
  next
    case 3
    have "readRecord w1 = (w1\<lparr>wfile := wfile w1\<lparr>offset := length (content (wfile w1))\<rparr>\<rparr>,
        Inl (Io UnexpectedEOF) :: 'b walError + bytes)"
      using f1 t1 3 by (intro readRecord_part_header) (auto simp: encodeRecord_def)
    with R replayLoop_repair [where app = app, OF f1(1) v1] 3 assms(5) show ?thesis
      by (simp add: w1_def assms(1))
  next
    case 4
    then have t: "drop (offset (wfile w1)) (content (wfile w1)) = ?h @ take (k - length ?h) d"
      using t1 by (simp add: encodeRecord_def)
    have "readRecord w1 = (w1\<lparr>wfile := wfile w1\<lparr>offset := length (content (wfile w1))\<rparr>\<rparr>,
        Inl (Io UnexpectedEOF) :: 'b walError + bytes)"
      using f1 4 assms(3,4) t by (intro readRecord_cut_data) (auto simp: length_encodeRecord)
    with R replayLoop_repair [where app = app, OF f1(1) v1] 4 assms(5) show ?thesis
      by (simp add: w1_def assms(1))
  qed
qed

text \<open>C11. Repair of a torn tail: when the file holds some complete records and then \<open>k\<close> bytes, fewer
  than all, of one more, \<open>Replay\<close> applies exactly the complete records and succeeds.  It cuts the
  torn record off and reports the repair, unless the cut lies at a record's beginning or exactly
  between the record's header and its data: then the file keeps the bytes and no repair is
  reported.\<close>
theorem Replay_torn_tail:
  fixes app :: "bytes \<Rightarrow> 's \<Rightarrow> 'b + 's"
  assumes "faults (wfile w) = []" "list_all record_fits ds" "record_fits d"
    and "k < length (encodeRecord (hasHeader w) d)"
    and "content (wfile w) = walBytes (hasHeader w) ds @ take k (encodeRecord (hasHeader w) d)"
    and "applyAll app ds s = Inr s'"
  shows "\<exists>w' stats. Replay app w s = (w', stats, s', None) \<and> Records stats = length ds
    \<and> (if k = 0 \<or> k = length (recordHeader (hasHeader w) d)
       then \<not> TailRepaired stats \<and> content (wfile w') = content (wfile w)
       else TailRepaired stats \<and> content (wfile w') = walBytes (hasHeader w) ds)"
  using Replay_torn [OF assms] by blast

lemma Replay_torn_tail_witness:
  "\<exists>w' stats. Replay (\<lambda>d s. Inr (s @ [d]) :: unit + bytes list)
      \<lparr>wfile = openFile (walBytes True [[1]] @ take 9 (encodeRecord True [5, 6])) [], hasHeader = True\<rparr> []
        = (w', stats, [[1]], None)
    \<and> Records stats = 1 \<and> TailRepaired stats \<and> content (wfile w') = walBytes True [[1]]"
  using Replay_torn_tail [of
    "\<lparr>wfile = openFile (walBytes True [[1]] @ take 9 (encodeRecord True [5, 6])) [], hasHeader = True\<rparr>"
    "[[1]]" "[5, 6]" 9 "\<lambda>d s. Inr (s @ [d])" "[]" "[[1]]"]
  by (simp add: openFile_def record_fits_def length_encodeRecord)

text \<open>A record that ends the file is swallowed by a longer record whose data is missing.\<close>

lemma Replay_swallows:
  fixes app :: "bytes \<Rightarrow> 's \<Rightarrow> 'e + 's"
  assumes "faults (wfile w) = []" "list_all record_fits ds" "record_fits d" "applyAll app ds s = Inr s'"
    and "content (wfile w) = walBytes (hasHeader w) ds @ recordHeader (hasHeader w) d @ x"
    and "x \<noteq> []" "length x < length d"
  shows "\<exists>w' stats. Replay app w s = (w', stats, s', None) \<and> TailRepaired stats
    \<and> Records stats = length ds \<and> content (wfile w') = walBytes (hasHeader w) ds"
proof -
  let ?v = "length (walBytes (hasHeader w) ds)"
  define w1 where "w1 = w\<lparr>wfile := wfile w\<lparr>offset := ?v\<rparr>\<rparr>"
  have R: "Replay app w s = replayLoop app w1 ?v \<lparr>Records = length ds, TailRepaired = False\<rparr> s'"
    unfolding w1_def using assms by (intro Replay_records) auto
  have "readRecord w1 = (w1\<lparr>wfile := wfile w1\<lparr>offset := length (content (wfile w1))\<rparr>\<rparr>,
      Inl (Io UnexpectedEOF) :: 'e walError + bytes)"
    using assms by (intro readRecord_cut_data [where d = d and x = x]) (auto simp: w1_def)
  from replayLoop_repair [where app = app, OF _ _ this, of ?v] R assms(1,5) show ?thesis
    by (simp add: w1_def)
qed

lemma encodeRecord_not_Nil: "encodeRecord has d \<noteq> []"
  by (simp add: encodeRecord_def)

text \<open>The cut that the repair misses loses data: the file ends exactly behind the header of a record
  whose data never reached it.  \<open>Replay\<close> takes the file for complete, the next \<open>Append\<close> is
  acknowledged, and the \<open>Replay\<close> of the next start reads the new record as data of the old header,
  finds it too short and cuts it off: the acknowledged record is gone.\<close>
theorem cut_header_loses_append:
  fixes app :: "bytes \<Rightarrow> 's \<Rightarrow> 'e + 's"
  assumes "faults (wfile w) = []" "list_all record_fits ds" "record_fits d" "record_fits d2"
    and "content (wfile w) = walBytes (hasHeader w) ds @ recordHeader (hasHeader w) d"
    and "length (encodeRecord (hasHeader w) d2) < length d" "applyAll app ds s = Inr s'"
  shows "\<exists>w1 stats1 w2 w3 stats3. Replay app w s = (w1, stats1, s', None) \<and> \<not> TailRepaired stats1
    \<and> Append d2 w1 = (w2, None :: 'e walError option)
    \<and> Replay app w2 s = (w3, stats3, s', None) \<and> content (wfile w3) = walBytes (hasHeader w) ds"
proof -
  let ?v = "length (walBytes (hasHeader w) ds)"
  define w0 where "w0 = w\<lparr>wfile := wfile w\<lparr>offset := ?v\<rparr>\<rparr>"
  define w1 where "w1 = w\<lparr>wfile := wfile w\<lparr>offset := length (content (wfile w))\<rparr>\<rparr>"
  have "d \<noteq> []"
    using assms(6) by auto
  have "Replay app w s = replayLoop app w0 ?v \<lparr>Records = length ds, TailRepaired = False\<rparr> s'"
    unfolding w0_def using assms by (intro Replay_records) auto
  also have "\<dots> = (w1, \<lparr>Records = length ds, TailRepaired = False\<rparr>, s', None)"
    using replayLoop_cut_header [where app = app, of w0 d] assms(1,3,5) \<open>d \<noteq> []\<close>
    by (simp add: w0_def w1_def)
  finally have R1: "Replay app w s = (w1, \<lparr>Records = length ds, TailRepaired = False\<rparr>, s', None)" .
  have f1: "faults (wfile w1) = []" "hasHeader w1 = hasHeader w" "content (wfile w1) = content (wfile w)"
    using assms(1) by (simp_all add: w1_def)
  define w2 where "w2 = fst (Append d2 w1 :: WAL \<times> 'e walError option)"
  have A: "Append d2 w1 = (w2, None :: 'e walError option)"
    using f1 assms(4) by (simp add: w2_def Append_fine)
  have f2: "faults (wfile w2) = []" "hasHeader w2 = hasHeader w"
      "content (wfile w2) = walBytes (hasHeader w) ds @ recordHeader (hasHeader w) d @ encodeRecord (hasHeader w) d2"
    using f1 assms(4,5) by (simp_all add: w2_def Append_fine)
  show ?thesis
    using Replay_swallows [where app = app, of w2 ds d s s' "encodeRecord (hasHeader w) d2"]
      f2 assms(2,3,6,7) R1 A by (auto simp: encodeRecord_not_Nil)
qed

lemma cut_header_loses_append_witness:
  "\<exists>w1 stats1 w2 w3 stats3.
    Replay (\<lambda>d s. Inr (s @ [d]) :: unit + bytes list)
      \<lparr>wfile = openFile (walBytes True [[1]] @ recordHeader True (replicate 10 7)) [], hasHeader = True\<rparr> []
        = (w1, stats1, [[1]], None) \<and> \<not> TailRepaired stats1
    \<and> Append [9] w1 = (w2, None :: unit walError option)
    \<and> Replay (\<lambda>d s. Inr (s @ [d]) :: unit + bytes list) w2 [] = (w3, stats3, [[1]], None)
    \<and> content (wfile w3) = walBytes True [[1]]"
  using cut_header_loses_append [of
    "\<lparr>wfile = openFile (walBytes True [[1]] @ recordHeader True (replicate 10 7)) [], hasHeader = True\<rparr>"
    "[[1]]" "replicate 10 7" "[9]" "\<lambda>d s. Inr (s @ [d])" "[]" "[[1]]"]
  by (simp add: openFile_def record_fits_def length_encodeRecord)

text \<open>A failed \<open>Append\<close> is not undone: when the write of the data fails after \<open>j\<close> bytes, the
  error is returned but the header and these bytes stay in the log.  The next \<open>Append\<close> is
  acknowledged, and the next \<open>Replay\<close> cuts it off with the failed record when it is short enough
  to pass for that record's data.\<close>
theorem failed_Append_loses_next:
  fixes app :: "bytes \<Rightarrow> 's \<Rightarrow> 'e + 's"
  assumes "faults (wfile w) = [Fine, Fails j]" "list_all record_fits ds" "record_fits d" "record_fits d2"
    and "content (wfile w) = walBytes (hasHeader w) ds"
    and "j + length (encodeRecord (hasHeader w) d2) < length d" "applyAll app ds s = Inr s'"
  shows "\<exists>w1 w2 w3 stats. Append d w = (w1, Some (Io OSError) :: 'e walError option)
    \<and> Append d2 w1 = (w2, None :: 'e walError option)
    \<and> Replay app w2 s = (w3, stats, s', None) \<and> content (wfile w3) = walBytes (hasHeader w) ds"
proof -
  define w1 where "w1 = w\<lparr>wfile := (wfile w)\<lparr>
    content := walBytes (hasHeader w) ds @ recordHeader (hasHeader w) d @ take j d,
    offset := length (walBytes (hasHeader w) ds @ recordHeader (hasHeader w) d @ take j d), faults := []\<rparr>\<rparr>"
  have A1: "Append d w = (w1, Some (Io OSError) :: 'e walError option)"
    using assms(1,3,5) by (cases w; cases "wfile w")
      (simp add: w1_def Append_def writeRecord_def record_fits_def fileWrite_def nextFault_def)
  have f1: "faults (wfile w1) = []" "hasHeader w1 = hasHeader w"
      "content (wfile w1) = walBytes (hasHeader w) ds @ recordHeader (hasHeader w) d @ take j d"
    by (simp_all add: w1_def)
  define w2 where "w2 = fst (Append d2 w1 :: WAL \<times> 'e walError option)"
  have A2: "Append d2 w1 = (w2, None :: 'e walError option)"
    using f1 assms(4) by (simp add: w2_def Append_fine)
  have f2: "faults (wfile w2) = []" "hasHeader w2 = hasHeader w"
      "content (wfile w2) = walBytes (hasHeader w) ds @ recordHeader (hasHeader w) d
        @ (take j d @ encodeRecord (hasHeader w) d2)"
    using f1 assms(4) by (simp_all add: w2_def Append_fine)
  show ?thesis
    using Replay_swallows [where app = app, OF f2(1) assms(2,3,7), of "take j d @ encodeRecord (hasHeader w) d2"]
      f2 assms(6) A1 A2 by (auto simp: encodeRecord_not_Nil)
qed

lemma failed_Append_loses_next_witness:
  "\<exists>w1 w2 w3 stats. Append (replicate 20 7)
        \<lparr>wfile = openFile (walBytes True [[1]]) [Fine, Fails 3], hasHeader = True\<rparr>
        = (w1, Some (Io OSError) :: unit walError option)
    \<and> Append [9] w1 = (w2, None :: unit walError option)
    \<and> Replay (\<lambda>d s. Inr (s @ [d]) :: unit + bytes list) w2 [] = (w3, stats, [[1]], None)
    \<and> content (wfile w3) = walBytes True [[1]]"
  using failed_Append_loses_next [of
    "\<lparr>wfile = openFile (walBytes True [[1]]) [Fine, Fails 3], hasHeader = True\<rparr>" 3
    "[[1]]" "replicate 20 7" "[9]" "\<lambda>d s. Inr (s @ [d])" "[]" "[[1]]"]
  by (simp add: openFile_def record_fits_def length_encodeRecord)

subsection \<open>Any outcome of the system calls\<close>

lemma readRecord_encodes:
  assumes "readRecord w = (w', Inr d)"
  shows "\<exists>rest. drop (offset (wfile w)) (content (wfile w)) = encodeRecord (hasHeader w) d @ rest
    \<and> offset (wfile w') = offset (wfile w) + length (encodeRecord (hasHeader w) d)"
proof -
  define n :: nat where "n = (if hasHeader w then 8 else 4)"
  have n: "n \<noteq> 0" by (simp add: n_def)
  obtain f1 h where f1: "readFull n (wfile w) = (f1, Inr h)"
    using assms by (auto simp: readRecord_def Let_def n_def split: prod.splits sum.splits if_splits)
  then obtain f2 where f2: "readFull (unat (getUint32 (take 4 h))) f1 = (f2, Inr d)"
      and w': "w' = w\<lparr>wfile := f2\<rparr>"
      and crc: "hasHeader w \<Longrightarrow> crc32 d = getUint32 (take 4 (drop 4 h))"
    using assms by (auto simp: readRecord_def Let_def n_def split: prod.splits sum.splits if_splits)
  have d1: "drop (offset (wfile w)) (content (wfile w)) = h @ drop (offset f1) (content f1)" "length h = n"
    using readFull_take [OF f1] by auto
  have d2: "drop (offset f1) (content f1) = d @ drop (offset f2) (content f2)"
      "length d = unat (getUint32 (take 4 h))"
    using readFull_take [OF f2] by auto
  have len: "(of_nat (length d) :: u32) = getUint32 (take 4 h)"
    using d2(2) by simp
  have "recordHeader (hasHeader w) d = h"
  proof (cases "hasHeader w")
    case True
    then have "take 4 h @ take 4 (drop 4 h) = h"
      using d1(2) by (simp add: n_def)
    with True d1(2) show ?thesis
      by (simp add: recordHeader_def len crc putUint32_get n_def)
  next
    case False
    with d1(2) show ?thesis
      by (simp add: recordHeader_def len putUint32_get n_def)
  qed
  moreover have "offset f2 = offset (wfile w) + n + length d"
    using readFull_offset [OF f1] readFull_offset [OF f2] d2(2) by simp
  ultimately show ?thesis
    using d1 d2 w' by (auto simp: encodeRecord_def n_def)
qed

lemma repairTail_content:
  "repairTail v f = (f', None) \<Longrightarrow> v \<le> length (content f) \<Longrightarrow> content f' = take v (content f)"
  "repairTail v f = (f', Some e) \<Longrightarrow> v \<le> length (content f) \<Longrightarrow>
     content f' = content f \<or> content f' = take v (content f)"
  by (rule_tac [!] nextFault_cases [of f])
    (auto simp: repairTail_def fileTruncate_def split: fault.splits prod.splits option.splits
      dest!: fileSync_content fileSeek_content)

definition replay_outcome ::
  "(bytes \<Rightarrow> 's \<Rightarrow> 'e + 's) \<Rightarrow> bool \<Rightarrow> bytes \<Rightarrow> nat \<Rightarrow> ReplayStats \<Rightarrow> 's \<Rightarrow> bytes list
     \<Rightarrow> WAL \<Rightarrow> ReplayStats \<Rightarrow> 's \<Rightarrow> bool" where
  "replay_outcome app has bs v stats s ds w' stats' s' \<longleftrightarrow>
     take (length (concat (map (encodeRecord has) ds))) (drop v bs) = concat (map (encodeRecord has) ds)
     \<and> v + length (concat (map (encodeRecord has) ds)) \<le> length bs
     \<and> applyAll app ds s = Inr s' \<and> Records stats' = Records stats + length ds
     \<and> (content (wfile w') = bs
         \<or> content (wfile w') = take (v + length (concat (map (encodeRecord has) ds))) bs)
     \<and> (TailRepaired stats' \<and> \<not> TailRepaired stats
         \<longrightarrow> content (wfile w') = take (v + length (concat (map (encodeRecord has) ds))) bs)"

lemma replay_outcome_Nil:
  "v \<le> length bs \<Longrightarrow> Records stats' = Records stats \<Longrightarrow> content (wfile w') = bs \<Longrightarrow>
     TailRepaired stats' = TailRepaired stats \<Longrightarrow> replay_outcome app has bs v stats s [] w' stats' s"
  "v \<le> length bs \<Longrightarrow> content (wfile w') = take v bs \<Longrightarrow> Records stats' = Records stats \<Longrightarrow>
     replay_outcome app has bs v stats s [] w' stats' s"
  by (simp_all add: replay_outcome_def)

lemma replay_outcome_Cons:
  assumes "app d s = Inr s1" "Records stats1 = Records stats + 1" "TailRepaired stats1 = TailRepaired stats"
    and "drop v bs = encodeRecord has d @ rest"
    and "replay_outcome app has bs (v + length (encodeRecord has d)) stats1 s1 ds w' stats' s'"
  shows "replay_outcome app has bs v stats s (d # ds) w' stats' s'"
  using assms drop_shift [OF assms(4)] by (simp add: replay_outcome_def add.assoc)

lemma replayLoop_sound:
  "replayLoop app w v stats s = (w', stats', s', e) \<Longrightarrow> v = offset (wfile w) \<Longrightarrow>
    v \<le> length (content (wfile w)) \<Longrightarrow>
    \<exists>ds. replay_outcome app (hasHeader w) (content (wfile w)) v stats s ds w' stats' s'"
proof (induction app w v stats s rule: replayLoop.induct)
  case (1 app w v stats s)
  obtain w1 r where r: "readRecord w = (w1, r :: 'b walError + bytes)"
    by fastforce
  have c1: "content (wfile w1) = content (wfile w)"
    using r by (auto simp: readRecord_def Let_def dest!: readFull_content split: prod.splits sum.splits if_splits)
  show ?case
  proof (cases r)
    case (Inl err)
    have "\<exists>ds. ds = [] \<and> replay_outcome app (hasHeader w) (content (wfile w)) v stats s ds w' stats' s'"
    proof (cases err)
      case (Io io)
      then show ?thesis
        using 1(2) Inl r c1 1(4)
        by (subst (asm) replayLoop.simps)
          (cases io; auto dest!: fileSeek_content repairTail_content split: prod.splits option.splits
            intro: replay_outcome_Nil)
    qed (use 1(2) Inl r c1 1(4) in \<open>subst (asm) replayLoop.simps, auto intro: replay_outcome_Nil\<close>)+
    then show ?thesis by blast
  next
    case (Inr d)
    with r have rd: "readRecord w = (w1, Inr d :: 'b walError + bytes)" by simp
    obtain rest where rest: "drop v (content (wfile w)) = encodeRecord (hasHeader w) d @ rest"
        and off: "offset (wfile w1) = v + length (encodeRecord (hasHeader w) d)"
      using readRecord_encodes [OF rd] 1(3) by auto
    have h1: "hasHeader w1 = hasHeader w" "offset (wfile w1) \<le> length (content (wfile w))"
      using readRecord_progress [OF rd] by auto
    show ?thesis
    proof (cases "app d s")
      case (Inl x)
      with 1(2) rd have "w' = w1 \<and> stats' = stats \<and> s' = s"
        by (subst (asm) replayLoop.simps) simp
      with c1 1(4) show ?thesis
        by (auto intro: replay_outcome_Nil)
    next
      case (Inr s1)
      obtain f2 e2 where sk: "fileSeek (offset (wfile w1)) (wfile w1) = (f2, e2)"
        by fastforce
      let ?st = "stats\<lparr>Records := Records stats + 1\<rparr>"
      have "\<exists>ds. replay_outcome app (hasHeader w) (content (wfile w))
          (v + length (encodeRecord (hasHeader w) d)) ?st s1 ds w' stats' s'"
      proof (cases e2)
        case (Some e')
        with 1(2) rd Inr sk have "w' = w1\<lparr>wfile := f2\<rparr> \<and> stats' = ?st \<and> s' = s1"
          by (subst (asm) replayLoop.simps) simp
        with fileSeek_content [OF sk] c1 off h1 show ?thesis
          by (intro exI [of _ "[]"], elim conjE, hypsubst, intro replay_outcome_Nil(1)) auto
      next
        case None
        with sk have f2: "offset f2 = offset (wfile w1)" "content f2 = content (wfile w)"
          using fileSeek_offset c1 by auto
        have "replayLoop app (w1\<lparr>wfile := f2\<rparr>) (offset f2) ?st s1 = (w', stats', s', e)"
          using 1(2) rd Inr sk None by (subst (asm) replayLoop.simps) simp
        from 1(1) [OF rd [symmetric] refl Inr sk [symmetric] None this] show ?thesis
          using f2 h1 off c1 by simp
      qed
      then obtain ds where "replay_outcome app (hasHeader w) (content (wfile w))
          (v + length (encodeRecord (hasHeader w) d)) ?st s1 ds w' stats' s'" ..
      then show ?thesis
        by (intro exI [of _ "d # ds"] replay_outcome_Cons [of app d s s1 ?st stats, OF Inr _ _ rest]) auto
    qed
  qed
qed

text \<open>C12. Soundness of \<open>Replay\<close> on any file and any outcome of the system calls: the records handed to
  the callback are records that stand one after the other, with their length and checksum, at the
  start of the log, and all of these took effect; their number is reported.  The file is
  left as it is or cut behind the last of them, and cut there whenever a repair is reported.\<close>
theorem Replay_sound:
  assumes "Replay app w s = (w', stats, s', e)" "hasHeader w \<longrightarrow> walHeaderSize \<le> length (content (wfile w))"
  shows "\<exists>start ds rest. length start = (if hasHeader w then walHeaderSize else 0)
    \<and> content (wfile w) = start @ concat (map (encodeRecord (hasHeader w)) ds) @ rest
    \<and> applyAll app ds s = Inr s' \<and> Records stats = length ds
    \<and> (content (wfile w') = content (wfile w)
        \<or> content (wfile w') = start @ concat (map (encodeRecord (hasHeader w)) ds))
    \<and> (TailRepaired stats \<longrightarrow> content (wfile w') = start @ concat (map (encodeRecord (hasHeader w)) ds))"
proof -
  let ?bs = "content (wfile w)" and ?has = "hasHeader w" and ?st = "\<lparr>Records = 0, TailRepaired = False\<rparr>"
  define v where "v = (if ?has then walHeaderSize else 0)"
  obtain f1 e1 where sk: "fileSeek v (wfile w) = (f1, e1)"
    by fastforce
  have v: "v \<le> length ?bs"
    using assms(2) by (simp add: v_def)
  have "\<exists>ds. replay_outcome app ?has ?bs v ?st s ds w' stats s'"
  proof (cases e1)
    case (Some x)
    with assms(1) sk have "w' = w\<lparr>wfile := f1\<rparr> \<and> stats = ?st \<and> s' = s"
      by (auto simp: Replay_def Let_def v_def)
    with fileSeek_content [OF sk] v show ?thesis
      by (intro exI [of _ "[]"], elim conjE, hypsubst, intro replay_outcome_Nil(1)) auto
  next
    case None
    with sk have f1: "offset f1 = v" "content f1 = ?bs"
      using fileSeek_offset by auto
    have "replayLoop app (w\<lparr>wfile := f1\<rparr>) v ?st s = (w', stats, s', e)"
      using assms(1) sk None by (simp add: Replay_def Let_def v_def)
    from replayLoop_sound [OF this] f1 v show ?thesis
      by simp
  qed
  then obtain ds where ds: "replay_outcome app ?has ?bs v ?st s ds w' stats s'" ..
  let ?k = "concat (map (encodeRecord ?has) ds)"
  have "?bs = take v ?bs @ ?k @ drop (length ?k) (drop v ?bs)"
    using ds by (metis append_take_drop_id replay_outcome_def)
  moreover from this have "take (v + length ?k) ?bs = take v ?bs @ ?k"
    using ds by (metis replay_outcome_def take_add)
  ultimately show ?thesis
    using ds v by (intro exI [of _ "take v ?bs"] exI [of _ ds] exI [of _ "drop (length ?k) (drop v ?bs)"])
      (auto simp: replay_outcome_def v_def)
qed

lemma Replay_sound_witness:
  "\<exists>w' stats s' e. Replay (\<lambda>d s. Inr (s @ [d]) :: unit + bytes list)
      \<lparr>wfile = openFile (headerBytes @ [0, 0, 0]) [Fine, Fine, Fails 0], hasHeader = True\<rparr> [] = (w', stats, s', e)
    \<and> Records stats = length s'"
proof -
  let ?w = "\<lparr>wfile = openFile (headerBytes @ [0, 0, 0]) [Fine, Fine, Fails 0], hasHeader = True\<rparr>"
  let ?app = "\<lambda>d s. Inr (s @ [d]) :: unit + bytes list"
  have all: "applyAll ?app ds s = Inr (s @ ds)" for ds s
    by (induction ds arbitrary: s) auto
  obtain w' stats s' e where r: "Replay ?app ?w [] = (w', stats, s', e)"
    by (metis prod_cases3 surj_pair)
  have "hasHeader ?w \<longrightarrow> walHeaderSize \<le> length (content (wfile ?w))"
    by (simp add: openFile_def walHeaderSize_def)
  from Replay_sound [OF r this] r show ?thesis
    by (auto simp: all)
qed

text \<open>\<open>Append\<close> under any outcome of the system calls: the log grows by a beginning of the encoded
  record, by all of it when \<open>nil\<close> is returned, and not at all when the data exceeds 16 MB, which
  is the error then.\<close>
theorem Append_writes_prefix:
  "case Append d w of (w', e) \<Rightarrow> hasHeader w' = hasHeader w
    \<and> (\<exists>k. content (wfile w') = content (wfile w) @ take k (encodeRecord (hasHeader w) d)
         \<and> (e = None \<longrightarrow> take k (encodeRecord (hasHeader w) d) = encodeRecord (hasHeader w) d)
         \<and> (record_fits d \<or> k = 0 \<and> e = Some (WalRecordTooLarge (length d))))"
proof (cases "record_fits d")
  case False
  then show ?thesis
    by (auto simp: Append_def record_fits_def intro!: exI [of _ 0])
next
  case True
  let ?h = "recordHeader (hasHeader w) d"
  obtain f1 e1 where w1: "fileWrite ?h (wfile w) = (f1, e1)"
    by fastforce
  show ?thesis
  proof (cases e1)
    case (Some x)
    from fileWrite_content [OF w1] obtain k where "content f1 = content (wfile w) @ take k ?h"
      by blast
    moreover have "take k ?h = take (min k (length ?h)) (encodeRecord (hasHeader w) d)"
      by (simp add: encodeRecord_def take_append min_def)
    ultimately show ?thesis
      using True w1 Some by (auto simp: Append_def writeRecord_def record_fits_def)
  next
    case None
    with fileWrite_content [OF w1] have c1: "content f1 = content (wfile w) @ ?h"
      by blast
    obtain f2 e2 where w2: "fileWrite d f1 = (f2, e2)"
      by fastforce
    then obtain k where k: "content f2 = content f1 @ take k d" "e2 = None \<longrightarrow> content f2 = content f1 @ d"
      using fileWrite_content by blast
    obtain f3 e3 where w3: "fileSync f2 = (f3, e3)"
      by fastforce
    have k': "?h @ take k d = take (length ?h + k) (encodeRecord (hasHeader w) d)"
      by (simp add: encodeRecord_def)
    show ?thesis
    proof (cases e2)
      case (Some x)
      with True w1 None w2 c1 k(1) k' show ?thesis
        by (auto simp: Append_def writeRecord_def record_fits_def intro!: exI [of _ "length ?h + k"])
    next
      case e2: None
      then have "content f3 = content (wfile w) @ take (length (encodeRecord (hasHeader w) d)) (encodeRecord (hasHeader w) d)"
        using c1 k(2) fileSync_content [OF w3] by (simp add: encodeRecord_def)
      with True w1 None w2 e2 w3 show ?thesis
        by (auto simp: Append_def writeRecord_def record_fits_def
            intro!: exI [of _ "length (encodeRecord (hasHeader w) d)"])
    qed
  qed
qed

lemma Append_writes_prefix_witness:
  "case Append [1, 2] \<lparr>wfile = openFile headerBytes [Fine, Fails 1], hasHeader = True\<rparr> of
     (w', e :: unit walError option) \<Rightarrow> hasHeader w'
       \<and> (\<exists>k. content (wfile w') = headerBytes @ take k (encodeRecord True [1, 2]))"
proof -
  let ?w = "\<lparr>wfile = openFile headerBytes [Fine, Fails 1], hasHeader = True\<rparr>"
  obtain w' e where a: "Append [1, 2] ?w = (w', e :: unit walError option)"
    by fastforce
  with Append_writes_prefix [where d = "[1, 2]" and w = ?w and 'a = unit] show ?thesis
    unfolding a by (auto simp: openFile_def)
qed

subsection \<open>Truncation\<close>

text \<open>\<open>Truncate\<close> empties a log of either format: afterwards the file is a header alone, the log is
  in the format with checksums, \<open>Size\<close> is 0, \<open>Replay\<close> applies nothing, and records appended from
  here are what the next \<open>Replay\<close> applies.\<close>
theorem Truncate_resets:
  fixes app :: "bytes \<Rightarrow> 's \<Rightarrow> 'e + 's"
  assumes "faults (wfile w) = []" "list_all record_fits ds" "applyAll app ds s = Inr s'"
  shows "\<exists>w1 w2 w3. Truncate w = (w1, None) \<and> hasHeader w1 \<and> content (wfile w1) = headerBytes
    \<and> Size w1 = (w1, Inr 0) \<and> appendAll ds w1 = (w2, None :: 'e walError option)
    \<and> Replay app w2 s = (w3, \<lparr>Records = length ds, TailRepaired = False\<rparr>, s', None)"
proof -
  define w1 where "w1 = \<lparr>wfile = (wfile w)\<lparr>content := headerBytes, offset := 8\<rparr>, hasHeader = True\<rparr>"
  have f1: "faults (wfile w1) = []" "hasHeader w1" "content (wfile w1) = headerBytes"
    using assms(1) by (simp_all add: w1_def)
  have T: "Truncate w = (w1, None)" "Size w1 = (w1, Inr 0)"
    using assms(1) by (simp_all add: Truncate_def writeWALHeader_def Size_def file_fine w1_def walHeaderSize_def)
  obtain w2 where w2: "appendAll ds w1 = (w2, None :: 'e walError option)" "faults (wfile w2) = []"
      "hasHeader w2" "content (wfile w2) = walBytes True ds"
    using appendAll_fine [where 'e = 'e, OF f1(1) assms(2)] f1 by (auto simp: walBytes_def)
  have "Replay app w2 s = (w2\<lparr>wfile := wfile w2\<lparr>offset := length (walBytes True ds)\<rparr>\<rparr>,
      \<lparr>Records = length ds, TailRepaired = False\<rparr>, s', None)"
    using Replay_records [where app = app, OF w2(2), of ds "[]"] w2 assms(2,3) by (simp add: replayLoop_end)
  with T f1 w2(1) show ?thesis
    by blast
qed

lemma Truncate_resets_witness:
  "\<exists>w1 w2 w3. Truncate \<lparr>wfile = openFile (putUint32 1 @ [5]) [], hasHeader = False\<rparr> = (w1, None)
    \<and> hasHeader w1 \<and> content (wfile w1) = headerBytes
    \<and> Size w1 = (w1, Inr 0) \<and> appendAll [[3, 4]] w1 = (w2, None :: unit walError option)
    \<and> Replay (\<lambda>d s. Inr (s @ [d]) :: unit + bytes list) w2 [] =
        (w3, \<lparr>Records = 1, TailRepaired = False\<rparr>, [[3, 4]], None)"
  using Truncate_resets [of "\<lparr>wfile = openFile (putUint32 1 @ [5]) [], hasHeader = False\<rparr>" "[[3, 4]]"
    "\<lambda>d s. Inr (s @ [d])" "[]" "[[3, 4]]"]
  by (simp add: openFile_def record_fits_def)

text \<open>A \<open>Truncate\<close> whose header write fails leaves a log that still takes appends: they are
  acknowledged and written with a checksum, but the file has lost its header, so that the next
  \<open>OpenWAL\<close> takes it for the format without checksums and reads the checksum as data.\<close>
theorem failed_Truncate_misreads:
  assumes "faults (wfile w) = [Fine, Fine, Fails 0]" "hasHeader w" "record_fits d" "d \<noteq> []"
  shows "\<exists>w1 w2 w3 w4. Truncate w = (w1, Some OSError) \<and> Append d w1 = (w2, None :: 'e walError option)
    \<and> OpenWAL (openFile (content (wfile w2)) []) = (wfile w3, Inr w3 :: 'e walError + WAL)
    \<and> \<not> hasHeader w3
    \<and> readRecord w3 = (w4, Inr (take (length d) (putUint32 (crc32 d) @ d)) :: 'e walError + bytes)"
proof -
  define w1 where "w1 = \<lparr>wfile = (wfile w)\<lparr>content := [], offset := 0, faults := []\<rparr>, hasHeader = True\<rparr>"
  have T: "Truncate w = (w1, Some OSError)"
    using assms(1,2) by (cases w; cases "wfile w")
      (simp add: w1_def Truncate_def writeWALHeader_def fileTruncate_def fileSeek_def fileWrite_def nextFault_def)
  have f1: "faults (wfile w1) = []" "hasHeader w1" "content (wfile w1) = []"
    by (simp_all add: w1_def)
  define w2 where "w2 = fst (Append d w1 :: WAL \<times> 'e walError option)"
  have A: "Append d w1 = (w2, None :: 'e walError option)" "content (wfile w2) = encodeRecord True d"
    using f1 assms(3) by (simp_all add: w2_def Append_fine)
  define w3 where "w3 = \<lparr>wfile = openFile (encodeRecord True d) [], hasHeader = False\<rparr>"
  have len: "unat (of_nat (length d) :: u32) = length d" "\<not> (of_nat (length d) :: u32) > maxWALRecordSize"
    using record_len [OF assms(3)] by auto
  have "unat (of_nat (length d) :: u32) \<noteq> unat walMagic"
    using assms(3) len(1) by (simp add: record_fits_def walMagic_def)
  then have O: "OpenWAL (openFile (content (wfile w2)) []) = (wfile w3, Inr w3 :: 'e walError + WAL)"
    unfolding A(2) w3_def
    by (subst OpenWAL_legacy) (auto simp: length_encodeRecord encodeRecord_def recordHeader_def)
  have r1: "readFull 4 (wfile w3) = (wfile w3\<lparr>offset := 4\<rparr>, Inr (putUint32 (of_nat (length d))))"
    using readFull_fine(1) [of "wfile w3" "putUint32 (of_nat (length d))" "putUint32 (crc32 d) @ d" 4]
    by (simp add: w3_def openFile_def encodeRecord_def recordHeader_def)
  have dp: "drop 4 (putUint32 v @ bs) = bs" for v bs
    by simp
  have r2: "readFull (length d) (wfile w3\<lparr>offset := 4\<rparr>) =
      (wfile w3\<lparr>offset := 4 + length d\<rparr>, Inr (take (length d) (putUint32 (crc32 d) @ d)))"
    using assms(4) readFull_fine(1) [of "wfile w3\<lparr>offset := 4\<rparr>" "take (length d) (putUint32 (crc32 d) @ d)"
      "drop (length d) (putUint32 (crc32 d) @ d)" "length d"]
    by (simp add: w3_def openFile_def encodeRecord_def recordHeader_def dp del: take_append drop_append)
  have "readRecord w3 = (w3\<lparr>wfile := wfile w3\<lparr>offset := 4 + length d\<rparr>\<rparr>,
      Inr (take (length d) (putUint32 (crc32 d) @ d)) :: 'e walError + bytes)"
    using r1 r2 len by (simp add: readRecord_def Let_def w3_def del: take_append)
  with T A(1) O show ?thesis
    unfolding w3_def by (metis WAL.select_convs(2))
qed

lemma failed_Truncate_misreads_witness:
  "\<exists>w1 w2 w3 w4. Truncate \<lparr>wfile = openFile headerBytes [Fine, Fine, Fails 0], hasHeader = True\<rparr> = (w1, Some OSError)
    \<and> Append [65] w1 = (w2, None :: unit walError option)
    \<and> OpenWAL (openFile (content (wfile w2)) []) = (wfile w3, Inr w3 :: unit walError + WAL)
    \<and> \<not> hasHeader w3
    \<and> readRecord w3 = (w4, Inr (take 1 (putUint32 (crc32 [65]) @ [65])) :: unit walError + bytes)"
  using failed_Truncate_misreads [of "\<lparr>wfile = openFile headerBytes [Fine, Fine, Fails 0], hasHeader = True\<rparr>" "[65]"]
  by (simp add: openFile_def record_fits_def del: take_append)

end
