(* ===== verification/NewerWins.thy ===== *)
theory NewerWins
  imports Versions
begin

text \<open>
  The contract of a store that keeps the value of the larger version for each key, as the
  key-value store and the hint store do: what a lookup returns after a write, and from it that
  versions never go back, that writing twice is writing once, and that two writes commute.
\<close>

definition newest :: "Value option \<Rightarrow> Value \<Rightarrow> Value" where
  "newest old v = (case old of None \<Rightarrow> v | Some c \<Rightarrow> if VersionOf c < VersionOf v then v else c)"

lemma newest_simps [simp]:
  "newest None v = v" "newest (Some c) v = (if VersionOf c < VersionOf v then v else c)"
  by (simp_all add: newest_def)

lemma newest_same: "newest (Some (newest c v)) v = newest c v"
  by (cases c) auto

lemma newest_commute:
  assumes "VersionOf v = VersionOf w \<longrightarrow> v = w"
  shows "newest (Some (newest c v)) w = newest (Some (newest c w)) v"
proof (cases "VersionOf v" "VersionOf w" rule: linorder_cases)
  case less
  then show ?thesis by (cases c) (auto dest: less_trans less_asym)
next
  case equal
  with assms show ?thesis by simp
next
  case greater
  then show ?thesis by (cases c) (auto dest: less_trans less_asym)
qed

text \<open>\<open>valid\<close> marks the keys the store can tell apart; a write of another key may disturb them.\<close>

locale newer_wins =
  fixes put :: "'k \<Rightarrow> Value \<Rightarrow> 's \<Rightarrow> 's \<times> 'e option"
    and get :: "'s \<Rightarrow> 'k \<Rightarrow> Value option"
    and valid :: "'k \<Rightarrow> bool"
  assumes put_ok: "valid k \<Longrightarrow> valid x \<Longrightarrow> put k v s = (s', None) \<Longrightarrow>
      get s' x = (if x = k then Some (newest (get s k) v) else get s x)"
    and put_error: "put k v s = (s', Some e) \<Longrightarrow> get s' x = get s x"
begin

lemma versions_grow:
  assumes "valid k" "valid x" "put k v s = (s', r)" "get s x = Some c"
  shows "\<exists>c'. get s' x = Some c' \<and> VersionOf c \<le> VersionOf c'"
proof (cases r)
  case None
  with assms put_ok [of k x v s s'] have "get s' x = Some (if x = k then newest (Some c) v else c)"
    by auto
  then show ?thesis
    by (simp add: order.strict_implies_order)
next
  case (Some e)
  with assms put_error show ?thesis by auto
qed

lemma put_twice:
  assumes "valid k" "valid x" "put k v s = (s1, None)" "put k v s1 = (s2, None)"
  shows "get s2 x = get s1 x"
  using put_ok [OF assms(1,2,3)] put_ok [OF assms(1,1,3)] put_ok [OF assms(1,2,4)]
  by (simp add: newest_same del: newest_simps)

lemma put_commute:
  assumes "valid k" "valid l" "valid x"
    and "put k v s = (s1, None)" "put l w s1 = (s2, None)"
    and "put l w s = (t1, None)" "put k v t1 = (t2, None)"
    and "k = l \<longrightarrow> VersionOf v = VersionOf w \<longrightarrow> v = w"
  shows "get s2 x = get t2 x"
proof -
  have s2: "get s2 x = (if x = l then Some (newest (if l = k then Some (newest (get s k) v) else get s l) w)
      else if x = k then Some (newest (get s k) v) else get s x)"
    using put_ok [OF assms(2,3,5)] put_ok [OF assms(1,2,4)] put_ok [OF assms(1,3,4)] by simp
  have t2: "get t2 x = (if x = k then Some (newest (if k = l then Some (newest (get s l) w) else get s k) v)
      else if x = l then Some (newest (get s l) w) else get s x)"
    using put_ok [OF assms(1,3,7)] put_ok [OF assms(2,1,6)] put_ok [OF assms(2,3,6)] by simp
  show ?thesis
  proof (cases "k = l")
    case True
    with assms(8) newest_commute [of v w "get s l"] show ?thesis
      unfolding s2 t2 by (simp del: newest_simps)
  next
    case False
    then show ?thesis
      unfolding s2 t2 by simp
  qed
qed

end

end
