(* ===== verification/MemoryProps.thy ===== *)
theory MemoryProps
  imports Recovery WalProps Transition NewerWins
begin

text \<open>
  The store survives restarts: in every state reached by writes, deletes, snapshots and
  restarts, the log and the snapshot file on disk hold exactly the map in memory.
\<close>

subsection \<open>What is on disk\<close>

definition durable :: "fileSystem \<Rightarrow> string \<Rightarrow> snapshotData \<Rightarrow> bool" where
  "durable fs path s \<longleftrightarrow>
     files fs path = None \<and> s = \<lparr>SnapData = Map.empty, MaxVersionCounter = 0\<rparr>
     \<or> files fs path = Some (snapshotBytes s) \<and> snapshot_fits s \<and> goodSnapshot s"

definition goodView :: "view \<Rightarrow> bool" where
  "goodView v \<longleftrightarrow> goodSnapshot \<lparr>SnapData = fst v, MaxVersionCounter = snd v\<rparr>"

definition snapshotView :: "snapshotData \<Rightarrow> view" where
  "snapshotView s = (SnapData s, MaxVersionCounter s)"

definition logHolds :: "WAL \<Rightarrow> kvWALEntry list \<Rightarrow> bool" where
  "logHolds w es \<longleftrightarrow> faults (wfile w) = [] \<and> hasHeader w
     \<and> content (wfile w) = walBytes True (map marshalEntry es)
     \<and> list_all record_fits (map marshalEntry es) \<and> list_all legalEntry es"

definition recorded :: "Memory \<Rightarrow> bool" where
  "recorded m \<longleftrightarrow> (\<exists>w s es. wal m = Some w \<and> logHolds w es \<and> durable (disk m) (snapshotPath m) s
     \<and> viewOf m = applyEntries es (snapshotView s))"

lemma loadSnapshot_durable:
  "durable fs path s \<Longrightarrow> calls fs = [] \<Longrightarrow> loadSnapshot path fs = (fs, Inr s)"
  unfolding durable_def by (auto simp: loadSnapshot_bytes) (simp add: loadSnapshot_def)

lemma goodView_applyEntry:
  assumes "legalEntry e" "goodView v"
  shows "goodView (applyEntry e v)"
  using assms unfolding goodView_def goodSnapshot_def legalEntry_def goodEntry_def applyEntry_def
  by (auto split: option.splits if_splits)

lemma goodView_applyEntries: "list_all legalEntry es \<Longrightarrow> goodView v \<Longrightarrow> goodView (applyEntries es v)"
  by (induction es arbitrary: v) (auto simp: goodView_applyEntry)

lemma durable_goodView: "durable fs path s \<Longrightarrow> goodView (snapshotView s)"
  by (auto simp: durable_def goodView_def snapshotView_def goodSnapshot_def)

lemma recorded_goodView: "recorded m \<Longrightarrow> goodView (viewOf m)"
  by (auto simp: recorded_def logHolds_def durable_goodView goodView_applyEntries)

lemma durable_saved:
  assumes "recorded m" "files fs (snapshotPath m) = Some (snapshotBytes s)" "snapshot_fits s"
    and "s = \<lparr>SnapData = memData m, MaxVersionCounter = maxVersionCounter m\<rparr>"
  shows "durable fs (snapshotPath m) s"
  using assms recorded_goodView [OF assms(1)] by (simp add: durable_def goodView_def viewOf_def)

subsection \<open>Writes\<close>

lemma logEntry_recorded:
  assumes "recorded m" "legalEntry e" "logEntry e m = (m1, None)"
    and "viewOf m2 = applyEntry e (viewOf m)" "frame m2 = frame m1"
  shows "recorded m2"
proof -
  from assms(1) obtain w s es where w: "wal m = Some w" "logHolds w es"
      "durable (disk m) (snapshotPath m) s" "viewOf m = applyEntries es (snapshotView s)"
    by (auto simp: recorded_def)
  have fits: "record_fits (marshalEntry e)"
    using assms(3) w(1) by (auto simp: logEntry_def Append_def record_fits_def split: prod.splits if_splits)
  let ?w = "w\<lparr>wfile := wfile w\<lparr>content := content (wfile w) @ encodeRecord True (marshalEntry e),
    offset := length (content (wfile w) @ encodeRecord True (marshalEntry e))\<rparr>\<rparr>"
  have "logEntry e m = (m\<lparr>wal := Some ?w\<rparr>, None)"
    using w fits by (simp add: logEntry_def logHolds_def Append_fine)
  with assms(3,5) have "wal m2 = Some ?w" "snapshotPath m2 = snapshotPath m" "disk m2 = disk m"
    by (auto simp: frame_def)
  moreover have "logHolds ?w (es @ [e])"
    using w(2) fits assms(2) by (simp add: logHolds_def walBytes_snoc)
  moreover have "viewOf m2 = applyEntries (es @ [e]) (snapshotView s)"
    using assms(4) w(4) by simp
  ultimately show ?thesis
    using w(3) unfolding recorded_def by metis
qed

lemma logEntry_error:
  assumes "recorded m" "logEntry e m = (m1, Some x)"
  shows "m1 = m"
proof -
  from assms(1) obtain w es where w: "wal m = Some w" "logHolds w es"
    by (auto simp: recorded_def)
  show ?thesis
  proof (cases "record_fits (marshalEntry e)")
    case True
    with assms(2) w show ?thesis
      by (simp add: logEntry_def logHolds_def Append_fine)
  next
    case False
    with assms(2) w show ?thesis
      by (auto simp: logEntry_def Append_def record_fits_def)
  qed
qed

lemma goodString_basic [simp]: "goodString []" "goodString walOpSet" "goodString walOpDelete"
  by (simp_all add: walOpSet_def walOpDelete_def goodString_def validUTF8_def bytesOf_def
      field_names_good [unfolded goodString_def validUTF8_def bytesOf_def, simplified])

lemma legal_entries:
  "goodString k \<Longrightarrow> goodValue v \<Longrightarrow> legalEntry (zeroEntry\<lparr>Op := walOpSet, EntryKey := k, EntryValue := v\<rparr>)"
  "goodString k \<Longrightarrow> goodVersion x \<Longrightarrow> legalEntry (zeroEntry\<lparr>Op := walOpDelete, EntryKey := k, EntryVersion := x\<rparr>)"
  by (simp_all add: legalEntry_def goodEntry_def zeroEntry_def zeroValue_def zeroVersion_def goodValue_def
      goodVersion_def)

lemma logEntry_frame: "logEntry e m = (m1, r) \<Longrightarrow> viewOf m1 = viewOf m"
  by (auto simp: logEntry_def split: option.splits prod.splits)

lemma setLocked_recorded:
  assumes "recorded m" "goodString key" "goodValue value" "setLocked key value m = (m1, e, changed)"
  shows "recorded m1"
proof -
  let ?e = "zeroEntry\<lparr>Op := walOpSet, EntryKey := key, EntryValue := value\<rparr>"
  obtain m2 r where l: "logEntry ?e m = (m2, r)"
    by fastforce
  have "m1 = m \<or> r \<noteq> None \<and> m1 = m2 \<or> r = None \<and> m1 = ForceSet key value m2"
    using assms(4) l by (auto simp: setLocked_def split: option.splits if_splits)
  then show ?thesis
  proof (elim disjE conjE)
    assume "r \<noteq> None" "m1 = m2"
    with l assms(1) show ?thesis
      by (auto dest: logEntry_error)
  next
    assume r: "r = None" and m1: "m1 = ForceSet key value m2"
    have "viewOf m1 = applyEntry ?e (viewOf m)"
      using logEntry_frame [OF l] by (simp add: m1 viewOf_def applyEntry_def)
    moreover have "frame m1 = frame m2"
      by (simp add: m1)
    ultimately show ?thesis
      using logEntry_recorded [OF assms(1) legal_entries(1) [OF assms(2,3)]] l r by blast
  qed (use assms(1) in simp)
qed

lemma deleteLocked_recorded:
  assumes "recorded m" "goodString key" "goodVersion version" "deleteLocked key version m = (m1, e, changed)"
  shows "recorded m1"
proof -
  let ?e = "zeroEntry\<lparr>Op := walOpDelete, EntryKey := key, EntryVersion := version\<rparr>"
  obtain m2 r where l: "logEntry ?e m = (m2, r)"
    by fastforce
  consider "m1 = m" | "r \<noteq> None" "m1 = m2"
    | c where "r = None" "m1 = forceDelete key m2" "memData m key = Some c" "VersionOf c = version"
    using assms(4) l by (auto simp: deleteLocked_def split: option.splits if_splits)
  then show ?thesis
  proof cases
    case 2
    with l assms(1) show ?thesis
      by (auto dest: logEntry_error)
  next
    case (3 c)
    have "viewOf m1 = applyEntry ?e (viewOf m)"
      using logEntry_frame [OF l] 3 by (simp add: viewOf_def applyEntry_def)
    moreover have "frame m1 = frame m2"
      using 3 by simp
    ultimately show ?thesis
      using logEntry_recorded [OF assms(1) legal_entries(2) [OF assms(2,3)]] l 3(1) by blast
  qed (use assms(1) in simp)
qed

subsection \<open>Snapshots\<close>

text \<open>The log may be older than the snapshot: reading it twice does no harm.\<close>

lemma saving_recorded:
  assumes "recorded m"
    and "saveSnapshot (snapshotPath m) \<lparr>SnapData = memData m, MaxVersionCounter = maxVersionCounter m\<rparr> (disk m) = (fs, r)"
  shows "recorded (m\<lparr>disk := fs\<rparr>)"
proof -
  let ?s = "\<lparr>SnapData = memData m, MaxVersionCounter = maxVersionCounter m\<rparr>"
  have vs: "snapshotView ?s = viewOf m"
    by (simp add: snapshotView_def viewOf_def)
  from assms(1) obtain w s es where w: "wal m = Some w" "logHolds w es"
      "durable (disk m) (snapshotPath m) s" "viewOf m = applyEntries es (snapshotView s)"
    by (auto simp: recorded_def)
  note at = saveSnapshot_atomic(1,2) [OF assms(2)]
  from at(1) have "durable fs (snapshotPath m) s \<or> durable fs (snapshotPath m) ?s"
    using w(3) durable_saved [OF assms(1)] by (auto simp: durable_def)
  moreover have "viewOf m = applyEntries es (snapshotView ?s)"
    unfolding vs using w(4) by (simp add: applyEntries_idem)
  ultimately obtain s' where s': "durable fs (snapshotPath m) s'" "viewOf m = applyEntries es (snapshotView s')"
    using w(4) by metis
  show ?thesis
    unfolding recorded_def using w(1,2) s'
    by (intro conjI exI [of _ w] exI [of _ s'] exI [of _ es]) simp_all
qed

lemma memSaveSnapshot_recorded:
  assumes "recorded m" "memSaveSnapshot m = (m1, e)"
  shows "recorded m1 \<and> viewOf m1 = viewOf m"
proof -
  let ?s = "\<lparr>SnapData = memData m, MaxVersionCounter = maxVersionCounter m\<rparr>"
  have vs: "snapshotView ?s = viewOf m"
    by (simp add: snapshotView_def viewOf_def)
  from assms(1) obtain w s es where w: "wal m = Some w" "logHolds w es"
      "durable (disk m) (snapshotPath m) s" "viewOf m = applyEntries es (snapshotView s)"
    by (auto simp: recorded_def)
  obtain fs r where sv: "saveSnapshot (snapshotPath m) ?s (disk m) = (fs, r)"
    by fastforce
  note at = saveSnapshot_atomic(1,2) [OF sv]
  show ?thesis
  proof (cases r)
    case (Some x)
    with assms(2) sv have m1: "m1 = m\<lparr>disk := fs\<rparr>"
      by (simp add: memSaveSnapshot_def)
    with saving_recorded [OF assms(1) sv] show ?thesis
      by simp
  next
    case None
    define w1 where "w1 = \<lparr>wfile = (wfile w)\<lparr>content := headerBytes, offset := 8\<rparr>, hasHeader = True\<rparr>"
    have t: "Truncate w = (w1, None)"
      using w(2) by (simp add: Truncate_def writeWALHeader_def file_fine w1_def logHolds_def)
    with None assms(2) sv w(1) have m1: "m1 = m\<lparr>disk := fs, wal := Some w1\<rparr>"
      by (simp add: memSaveSnapshot_def)
    have "logHolds w1 []"
      using w(2) by (simp add: logHolds_def w1_def walBytes_def)
    moreover have "durable fs (snapshotPath m) ?s"
      using at(2) None durable_saved [OF assms(1)] by simp
    moreover have "viewOf m1 = applyEntries [] (snapshotView ?s)"
      by (simp add: vs m1)
    ultimately show ?thesis
      unfolding recorded_def m1 by (intro conjI exI [of _ w1] exI [of _ ?s] exI [of _ "[]"]) simp_all
  qed
qed

lemma MaybeSnapshot_recorded:
  assumes "recorded m" "MaybeSnapshot m = (m1, e)"
  shows "recorded m1 \<and> viewOf m1 = viewOf m"
proof -
  from assms(1) obtain w es where w: "wal m = Some w" "logHolds w es"
    by (auto simp: recorded_def)
  then obtain n where n: "Size w = (w, Inr n)"
    by (auto simp: Size_def file_fine logHolds_def)
  have same: "m\<lparr>wal := Some w\<rparr> = m"
    using w(1) by (cases m) simp
  have "MaybeSnapshot m = (if n < snapshotThreshold m then (m, None) else memSaveSnapshot m)"
    by (simp add: MaybeSnapshot_def Let_def w(1) n same)
  with assms memSaveSnapshot_recorded show ?thesis
    by (auto split: if_splits)
qed

subsection \<open>Restarts\<close>

text \<open>The log may end in a part of one more record, left by a process that died in \<open>Append\<close>.\<close>

lemma OpenMemory_torn:
  assumes "recorded m" "wal m = Some w" "calls (disk m) = []" "record_fits d"
    and "k < length (encodeRecord True d)"
  shows "\<exists>m'. OpenMemory (openFile (content (wfile w) @ take k (encodeRecord True d)) []) (disk m) (snapshotPath m) = Inr m'
    \<and> viewOf m' = viewOf m \<and> snapshotPath m' = snapshotPath m \<and> (k \<noteq> 8 \<longrightarrow> recorded m')"
proof -
  from assms(1,2) obtain s es where w: "logHolds w es" "durable (disk m) (snapshotPath m) s"
      "viewOf m = applyEntries es (snapshotView s)"
    by (auto simp: recorded_def)
  let ?bs = "content (wfile w) @ take k (encodeRecord True d)"
  define w0 where "w0 = \<lparr>wfile = openFile ?bs [], hasHeader = True\<rparr>"
  define m0 where "m0 = \<lparr>memData = SnapData s, wal = Some w0, snapshotPath = snapshotPath m,
    snapshotThreshold = defaultSnapshotThreshold, maxVersionCounter = MaxVersionCounter s, disk = disk m\<rparr>"
  have bs: "?bs = walBytes True (map marshalEntry es) @ take k (encodeRecord True d)"
    using w(1) by (simp add: logHolds_def)
  have o: "OpenWAL (openFile ?bs []) = (openFile ?bs [], Inr w0 :: replayError walError + WAL)"
    unfolding w0_def bs walBytes_True append_assoc by (rule OpenWAL_with_header)
  obtain m1 where m1: "applyAll replayEntry (map marshalEntry es) m0 = Inr m1"
      "viewOf m1 = applyEntries es (viewOf m0)" "frame m1 = frame m0"
    using replay_entries [of es m0] w(1) by (auto simp: logHolds_def)
  have f0: "faults (wfile w0) = []" "hasHeader w0" "content (wfile w0) = ?bs"
    by (simp_all add: w0_def openFile_def)
  obtain w1 stats where r: "Replay replayEntry w0 m0 = (w1, stats, m1, None)"
      "faults (wfile w1) = []" "hasHeader w1" "k \<noteq> 8 \<Longrightarrow> content (wfile w1) = walBytes True (map marshalEntry es)"
    using Replay_torn [OF f0(1), of "map marshalEntry es" d k replayEntry m0 m1] f0 w(1) assms(4,5) bs m1(1)
    by (auto simp: logHolds_def split: if_splits)
  have "OpenMemory (openFile ?bs []) (disk m) (snapshotPath m) = Inr (m1\<lparr>wal := Some w1\<rparr>)"
    using loadSnapshot_durable [OF w(2) assms(3)] o r
    by (simp add: OpenMemory_def Let_def flip: m0_def)
  moreover have "viewOf (m1\<lparr>wal := Some w1\<rparr>) = viewOf m"
    using m1(2) w(3) by (simp add: m0_def viewOf_def snapshotView_def)
  moreover have "snapshotPath (m1\<lparr>wal := Some w1\<rparr>) = snapshotPath m"
    using m1(3) by (simp add: frame_def m0_def)
  moreover have "recorded (m1\<lparr>wal := Some w1\<rparr>)" if "k \<noteq> 8"
    unfolding recorded_def
  proof (intro exI conjI)
    show "logHolds w1 es"
      using w(1) r(2,3) r(4) [OF that] by (simp add: logHolds_def)
    show "durable (disk (m1\<lparr>wal := Some w1\<rparr>)) (snapshotPath (m1\<lparr>wal := Some w1\<rparr>)) s"
      using m1(3) w(2) by (simp add: frame_def m0_def)
    show "viewOf (m1\<lparr>wal := Some w1\<rparr>) = applyEntries es (snapshotView s)"
      using m1(2) by (simp add: m0_def viewOf_def snapshotView_def)
  qed simp
  ultimately show ?thesis
    by blast
qed

subsection \<open>Runs of the store\<close>

text \<open>
  \<open>Set\<close> and \<open>DeleteIfMatch\<close> let go of the lock before they look whether a snapshot is due, and skip
  it while another one is being taken, so their two parts are steps of their own as well.
\<close>

inductive memStep :: "Memory \<Rightarrow> Memory \<Rightarrow> bool" where
  StepSet: "goodString key \<Longrightarrow> goodValue value \<Longrightarrow> memStep m (fst (Set key value m))"
| StepDelete: "goodString key \<Longrightarrow> goodVersion version \<Longrightarrow> memStep m (fst (DeleteIfMatch key version m))"
| StepSetLocked: "goodString key \<Longrightarrow> goodValue value \<Longrightarrow> memStep m (fst (setLocked key value m))"
| StepDeleteLocked: "goodString key \<Longrightarrow> goodVersion version \<Longrightarrow> memStep m (fst (deleteLocked key version m))"
| StepMaybe: "memStep m (fst (MaybeSnapshot m))"
| StepSnapshot: "memStep m (fst (SaveSnapshot m))"
| StepOutcomes: "memStep m (m\<lparr>disk := (disk m)\<lparr>calls := cs\<rparr>\<rparr>)"
| StepRestart: "wal m = Some w \<Longrightarrow> calls (disk m) = [] \<Longrightarrow>
    OpenMemory (openFile (content (wfile w)) []) (disk m) (snapshotPath m) = Inr m' \<Longrightarrow> memStep m m'"

text \<open>A store starts on no files; the calls that write snapshots may fail at any time.\<close>

definition memInit :: "Memory \<Rightarrow> bool" where
  "memInit m \<longleftrightarrow> (\<exists>fs path. files fs path = None \<and> calls fs = [] \<and> OpenMemory (openFile [] []) fs path = Inr m)"

lemma memInit_recorded:
  assumes "memInit m"
  shows "recorded m \<and> viewOf m = (Map.empty, 0)"
proof -
  from assms obtain fs path where fs: "files fs path = None" "calls fs = []"
      and o: "OpenMemory (openFile [] []) fs path = Inr m"
    by (auto simp: memInit_def)
  let ?w = "\<lparr>wfile = openFile headerBytes []\<lparr>offset := 8\<rparr>, hasHeader = True\<rparr>"
  have rp: "Replay replayEntry ?w s = (?w, \<lparr>Records = 0, TailRepaired = False\<rparr>, s, None)" for s
    using Replay_clean [of ?w "[]" replayEntry s s] by (simp add: openFile_def walBytes_def)
  have "m = \<lparr>memData = Map.empty, wal = Some ?w, snapshotPath = path,
      snapshotThreshold = defaultSnapshotThreshold, maxVersionCounter = 0, disk = fs\<rparr>"
    using o fs unfolding OpenMemory_def OpenWAL_empty by (simp add: loadSnapshot_def rp)
  moreover have "logHolds ?w []"
    by (simp add: logHolds_def openFile_def walBytes_def)
  ultimately show ?thesis
    using fs(1)
    by (auto simp: recorded_def durable_def viewOf_def snapshotView_def intro!: exI [of _ "[]"])
qed

lemma memStep_recorded:
  assumes "recorded m" "memStep m m'"
  shows "recorded m'"
  using assms(2)
proof cases
  case (StepSet key v)
  obtain m1 e c where l: "setLocked key v m = (m1, e, c)"
    by (metis prod_cases3)
  then have r: "recorded m1"
    using StepSet setLocked_recorded assms(1) by blast
  then have "recorded (fst (MaybeSnapshot m1))"
    using MaybeSnapshot_recorded by (metis prod.collapse)
  with r l StepSet show ?thesis
    by (simp add: Set_def)
next
  case (StepDelete key version)
  obtain m1 e c where l: "deleteLocked key version m = (m1, e, c)"
    by (metis prod_cases3)
  then have r: "recorded m1"
    using StepDelete deleteLocked_recorded assms(1) by blast
  then have "recorded (fst (MaybeSnapshot m1))"
    using MaybeSnapshot_recorded by (metis prod.collapse)
  with r l StepDelete show ?thesis
    by (simp add: DeleteIfMatch_def)
next
  case (StepSetLocked key v)
  then show ?thesis
    using setLocked_recorded assms(1) by (metis prod.collapse)
next
  case (StepDeleteLocked key version)
  then show ?thesis
    using deleteLocked_recorded assms(1) by (metis prod.collapse)
next
  case StepMaybe
  then show ?thesis
    using MaybeSnapshot_recorded assms(1) by (metis prod.collapse)
next
  case StepSnapshot
  then show ?thesis
    using memSaveSnapshot_recorded assms(1) by (metis SaveSnapshot_def prod.collapse)
next
  case (StepOutcomes cs)
  then show ?thesis
    using assms(1) by (auto simp: recorded_def durable_def viewOf_def)
next
  case (StepRestart w)
  then show ?thesis
    using OpenMemory_torn [OF assms(1), of w "[]" 0] by (auto simp: record_fits_def length_encodeRecord)
qed

interpretation store: inductive_invariant memInit memStep recorded
  by unfold_locales (auto dest: memInit_recorded memStep_recorded)

lemma memory_reopened:
  assumes "reachable memInit memStep m" "calls (disk m) = []"
  shows "\<exists>w m'. wal m = Some w
    \<and> OpenMemory (openFile (content (wfile w)) []) (disk m) (snapshotPath m) = Inr m'
    \<and> memData m' = memData m \<and> maxVersionCounter m' = maxVersionCounter m"
proof -
  have r: "recorded m"
    by (rule store.reachable_inv [OF assms(1)])
  then obtain w where "wal m = Some w"
    by (auto simp: recorded_def)
  with OpenMemory_torn [OF r this assms(2), of "[]" 0] show ?thesis
    by (auto simp: record_fits_def length_encodeRecord viewOf_def)
qed

text \<open>C13. Recovery: in every state a store reaches from empty files by \<open>Set\<close> and \<open>DeleteIfMatch\<close> with UTF-8
  keys and node names, by snapshots, where any call on the snapshot's files may fail while those on
  the log succeed, and by restarts, opening its files again, by calls that succeed, gives a store
  with the same map and the same largest counter.\<close>
theorem recovery_exact:
  assumes "reachable memInit memStep m" "calls (disk m) = []"
  shows "\<exists>w m'. wal m = Some w
    \<and> OpenMemory (openFile (content (wfile w)) []) (disk m) (snapshotPath m) = Inr m'
    \<and> memData m' = memData m \<and> maxVersionCounter m' = maxVersionCounter m"
  by (rule memory_reopened [OF assms])

definition emptyDisk :: fileSystem where
  "emptyDisk = \<lparr>files = Map.empty, calls = []\<rparr>"

definition openedMemory :: Memory where
  "openedMemory = \<lparr>memData = Map.empty, wal = Some \<lparr>wfile = openFile headerBytes []\<lparr>offset := 8\<rparr>, hasHeader = True\<rparr>,
     snapshotPath = ''w.snapshot'', snapshotThreshold = defaultSnapshotThreshold, maxVersionCounter = 0, disk = emptyDisk\<rparr>"

lemma OpenMemory_new: "OpenMemory (openFile [] []) emptyDisk ''w.snapshot'' = Inr openedMemory"
proof -
  let ?w = "\<lparr>wfile = openFile headerBytes []\<lparr>offset := 8\<rparr>, hasHeader = True\<rparr>"
  have rp: "Replay replayEntry ?w s = (?w, \<lparr>Records = 0, TailRepaired = False\<rparr>, s, None)" for s
    using Replay_clean [of ?w "[]" replayEntry s s] by (simp add: openFile_def walBytes_def)
  show ?thesis
    unfolding OpenMemory_def OpenWAL_empty by (simp add: loadSnapshot_def emptyDisk_def rp openedMemory_def)
qed

definition valueA :: Value where
  "valueA = \<lparr>Data = Some [65], VersionOf = \<lparr>Counter = 1, NodeID = ''n''\<rparr>, Deleted = False\<rparr>"

lemma valueA_good: "goodValue valueA" "goodString ''k''"
  by (simp_all add: valueA_def goodValue_def goodVersion_def) (code_simp+)

lemma openedMemory_init: "memInit openedMemory"
  unfolding memInit_def using OpenMemory_new
  by (intro exI [of _ emptyDisk] exI [of _ "''w.snapshot''"]) (simp add: emptyDisk_def)

lemma openedMemory_Set: "reachable memInit memStep (fst (Set ''k'' valueA openedMemory))"
proof (rule reach_step [OF reach_init])
  show "memInit openedMemory"
    by (rule openedMemory_init)
  show "memStep openedMemory (fst (Set ''k'' valueA openedMemory))"
    by (intro StepSet valueA_good)
qed

definition entryA :: kvWALEntry where
  "entryA = zeroEntry\<lparr>Op := walOpSet, EntryKey := ''k'', EntryValue := valueA\<rparr>"

lemma length_entryA: "length (marshalEntry entryA) = 137"
  by code_simp

abbreviation setEntry :: "string \<Rightarrow> Value \<Rightarrow> kvWALEntry" where
  "setEntry k v \<equiv> zeroEntry\<lparr>Op := walOpSet, EntryKey := k, EntryValue := v\<rparr>"

lemma Set_opened:
  assumes "length (marshalEntry (setEntry k v)) < 1000"
  shows "\<exists>m w. Set k v openedMemory = (m, None) \<and> memData m = [k \<mapsto> v]
    \<and> maxVersionCounter m = Counter (VersionOf v) \<and> wal m = Some w \<and> disk m = emptyDisk
    \<and> snapshotPath m = ''w.snapshot'' \<and> content (wfile w) = walBytes True [marshalEntry (setEntry k v)]"
proof -
  let ?w = "\<lparr>wfile = openFile headerBytes []\<lparr>offset := 8\<rparr>, hasHeader = True\<rparr>"
  define r where "r = encodeRecord True (marshalEntry (setEntry k v))"
  let ?w1 = "?w\<lparr>wfile := (wfile ?w)\<lparr>content := headerBytes @ r, offset := length (headerBytes @ r)\<rparr>\<rparr>"
  have fits: "record_fits (marshalEntry (setEntry k v))" "length r < 2000"
    using assms by (simp_all add: record_fits_def r_def length_encodeRecord)
  have "logEntry (setEntry k v) openedMemory = (openedMemory\<lparr>wal := Some ?w1\<rparr>, None)"
    using fits(1) by (simp add: logEntry_def openedMemory_def Append_fine openFile_def r_def)
  then have l: "setLocked k v openedMemory = (ForceSet k v (openedMemory\<lparr>wal := Some ?w1\<rparr>), None, True)"
    by (simp add: setLocked_def openedMemory_def)
  have "Size ?w1 = (?w1, Inr (int (length r)))"
    by (simp add: Size_def file_fine openFile_def walHeaderSize_def)
  with fits(2) have "MaybeSnapshot (ForceSet k v (openedMemory\<lparr>wal := Some ?w1\<rparr>)) =
      (ForceSet k v (openedMemory\<lparr>wal := Some ?w1\<rparr>), None)"
    by (simp add: MaybeSnapshot_def ForceSet_def openedMemory_def Let_def defaultSnapshotThreshold_def)
  with l show ?thesis
    by (auto simp: Set_def ForceSet_def openedMemory_def Let_def walBytes_def r_def word_gt_0)
qed

lemma Set_valueA:
  "\<exists>m w. Set ''k'' valueA openedMemory = (m, None) \<and> memData m = [''k'' \<mapsto> valueA]
    \<and> maxVersionCounter m = 1 \<and> wal m = Some w \<and> disk m = emptyDisk \<and> snapshotPath m = ''w.snapshot''
    \<and> content (wfile w) = walBytes True [marshalEntry entryA]"
  using Set_opened [where k = "''k''" and v = valueA] length_entryA by (simp add: entryA_def valueA_def)

lemma recovery_exact_witness:
  "\<exists>m w m'. Set ''k'' valueA openedMemory = (m, None) \<and> wal m = Some w
    \<and> OpenMemory (openFile (content (wfile w)) []) (disk m) (snapshotPath m) = Inr m'
    \<and> memData m' = [''k'' \<mapsto> valueA]"
proof -
  obtain m w where m: "Set ''k'' valueA openedMemory = (m, None)" "memData m = [''k'' \<mapsto> valueA]"
      "wal m = Some w" "disk m = emptyDisk"
    using Set_valueA by blast
  have "reachable memInit memStep m"
    using openedMemory_Set m(1) by simp
  from recovery_exact [OF this] m show ?thesis
    by (auto simp: emptyDisk_def)
qed

text \<open>C14. A crash in the middle of \<open>Set\<close> or \<open>DeleteIfMatch\<close>: when the process dies with only a part of
  the log record written, at any byte, the next start recovers the map and the counter as they
  were before the call.\<close>
theorem crash_keeps_store:
  assumes "reachable memInit memStep m" "wal m = Some w" "calls (disk m) = []"
    and "record_fits (marshalEntry e)" "k < length (encodeRecord True (marshalEntry e))"
  shows "\<exists>m'. OpenMemory (openFile (content (wfile w) @ take k (encodeRecord True (marshalEntry e))) [])
      (disk m) (snapshotPath m) = Inr m'
    \<and> memData m' = memData m \<and> maxVersionCounter m' = maxVersionCounter m"
  using OpenMemory_torn [OF store.reachable_inv [OF assms(1)] assms(2-5)] by (auto simp: viewOf_def)

lemma crash_keeps_store_witness:
  "\<exists>m w m'. Set ''k'' valueA openedMemory = (m, None) \<and> wal m = Some w
    \<and> OpenMemory (openFile (content (wfile w) @ take 8 (encodeRecord True (marshalEntry entryA))) [])
        (disk m) (snapshotPath m) = Inr m'
    \<and> memData m' = [''k'' \<mapsto> valueA]"
proof -
  obtain m w where m: "Set ''k'' valueA openedMemory = (m, None)" "memData m = [''k'' \<mapsto> valueA]"
      "wal m = Some w" "disk m = emptyDisk"
    using Set_valueA by blast
  have "reachable memInit memStep m"
    using openedMemory_Set m(1) by simp
  from crash_keeps_store [OF this m(3), of entryA 8] m show ?thesis
    by (auto simp: emptyDisk_def record_fits_def length_entryA length_encodeRecord)
qed

end
