(* ===== verification/MemoryWrites.thy ===== *)
theory MemoryWrites
  imports MemoryProps
begin

text \<open>
  What a write to the store means: the newer version wins, writes commute, deletes only hit the
  version they name; the largest counter bounds every version; a snapshot file is replaced as a
  whole; and a key that is not UTF-8 does not survive a restart.
\<close>

lemma saved_fields: "memSaveSnapshot m = (m', e) \<Longrightarrow> memData m' = memData m \<and> maxVersionCounter m' = maxVersionCounter m"
  by (auto simp: memSaveSnapshot_def split: prod.splits option.splits)

lemma MaybeSnapshot_fields:
  "memData (fst (MaybeSnapshot m)) = memData m" "maxVersionCounter (fst (MaybeSnapshot m)) = maxVersionCounter m"
proof -
  obtain m1 e where m1: "MaybeSnapshot m = (m1, e)"
    by fastforce
  then have "memData m1 = memData m \<and> maxVersionCounter m1 = maxVersionCounter m"
    by (auto simp: MaybeSnapshot_def Let_def split: option.splits prod.splits sum.splits if_splits dest!: saved_fields)
  with m1 show "memData (fst (MaybeSnapshot m)) = memData m"
      "maxVersionCounter (fst (MaybeSnapshot m)) = maxVersionCounter m"
    by simp_all
qed

lemma logEntry_fields:
  "logEntry e m = (m1, r) \<Longrightarrow> memData m1 = memData m \<and> maxVersionCounter m1 = maxVersionCounter m"
  using logEntry_frame [of e m m1 r] by (simp add: viewOf_def)

lemma Set_ok: "Set key v m = (m', None) \<Longrightarrow> memData m' = (memData m)(key \<mapsto> newest (memData m key) v)"
  by (auto simp: Set_def setLocked_def MaybeSnapshot_fields
      split: option.splits prod.splits if_splits dest!: logEntry_fields)

lemma Set_error: "Set key v m = (m', Some e) \<Longrightarrow> memData m' = memData m"
  by (auto simp: Set_def setLocked_def split: option.splits prod.splits if_splits dest!: logEntry_fields)

interpretation mem: newer_wins Set memData "\<lambda>_. True"
  by unfold_locales (auto dest: Set_ok Set_error)

lemma setLocked_cases:
  assumes "setLocked key v m = (m1, e, changed)"
  shows "viewOf m1 = (if changed then ((memData m)(key \<mapsto> v), max (maxVersionCounter m) (Counter (VersionOf v))) else viewOf m)"
    and "changed \<Longrightarrow> e = None \<and> newest (memData m key) v = v \<and> memData m key \<noteq> Some v"
    and "\<not> changed \<Longrightarrow> e = None \<Longrightarrow> memData m key = Some (newest (memData m key) v)"
  using assms
  by (auto simp: setLocked_def viewOf_def split: option.splits prod.splits if_splits dest!: logEntry_fields)

text \<open>C15. \<open>Set\<close> on any store, whatever the log and the snapshots do: an error leaves the map as it
  was; without one the key holds the value of the larger version, the old one when they are
  equal, every other key is untouched, and the largest counter covers the value it took.\<close>
theorem Set_newer_wins:
  assumes "Set key v m = (m', e)"
  shows "memData m' = (if e = None then (memData m)(key \<mapsto> newest (memData m key) v) else memData m)
    \<and> maxVersionCounter m' = (if e = None \<and> memData m' key \<noteq> memData m key
      then max (maxVersionCounter m) (Counter (VersionOf v)) else maxVersionCounter m)"
proof -
  obtain m1 e1 c where l: "setLocked key v m = (m1, e1, c)"
    by (metis prod_cases3)
  note lc = setLocked_cases [OF l]
  show ?thesis
  proof (cases c)
    case True
    with assms l have "m' = fst (MaybeSnapshot m1)" "e = None"
      by (auto simp: Set_def)
    with lc(1,2) True show ?thesis
      by (auto simp: viewOf_def MaybeSnapshot_fields)
  next
    case False
    with assms l have "m' = m1" "e = e1"
      by (auto simp: Set_def)
    with lc(1,3) False show ?thesis
      by (auto simp: viewOf_def fun_upd_idem)
  qed
qed
lemma Set_newer_wins_witness:
  "\<exists>m. Set ''k'' valueA openedMemory = (m, None) \<and> memData m = [''k'' \<mapsto> valueA] \<and> maxVersionCounter m = 1"
proof -
  obtain m where m: "Set ''k'' valueA openedMemory = (m, None)"
    using Set_valueA by blast
  from Set_newer_wins [OF m] m show ?thesis
    by (auto simp: openedMemory_def valueA_def)
qed

text \<open>C16. Writes converge: two \<open>Set\<close> calls that succeed leave the same map in either order, unless
  they bring different values under one key and one version.\<close>
theorem Sets_commute:
  assumes "Set k v m = (m1, None)" "Set l w m1 = (m2, None)"
    and "Set l w m = (n1, None)" "Set k v n1 = (n2, None)"
    and "k = l \<longrightarrow> VersionOf v = VersionOf w \<longrightarrow> v = w"
  shows "memData m2 = memData n2"
  by (rule ext) (rule mem.put_commute [OF TrueI TrueI TrueI assms])

definition plainMemory :: Memory where
  "plainMemory = NewMemory emptyDisk"

definition valueB :: Value where
  "valueB = \<lparr>Data = Some [66], VersionOf = \<lparr>Counter = 1, NodeID = ''o''\<rparr>, Deleted = False\<rparr>"

lemma Set_plain: "wal m = None \<Longrightarrow> \<exists>m'. Set k v m = (m', None) \<and> wal m' = None"
  by (auto simp: Set_def setLocked_def logEntry_def MaybeSnapshot_def ForceSet_def Let_def
      split: option.splits if_splits)

lemma Sets_commute_witness:
  "\<exists>m1 m2 n1 n2. Set ''k'' valueA plainMemory = (m1, None) \<and> Set ''k'' valueB m1 = (m2, None)
    \<and> Set ''k'' valueB plainMemory = (n1, None) \<and> Set ''k'' valueA n1 = (n2, None) \<and> memData m2 = memData n2"
proof -
  have w: "wal plainMemory = None"
    by (simp add: plainMemory_def NewMemory_def)
  obtain m1 m2 where m: "Set ''k'' valueA plainMemory = (m1, None)" "Set ''k'' valueB m1 = (m2, None)"
    using Set_plain [OF w] Set_plain by metis
  obtain n1 n2 where n: "Set ''k'' valueB plainMemory = (n1, None)" "Set ''k'' valueA n1 = (n2, None)"
    using Set_plain [OF w] Set_plain by metis
  have "VersionOf valueA \<noteq> VersionOf valueB"
    by (simp add: valueA_def valueB_def)
  with Sets_commute [OF m n] m n show ?thesis
    by blast
qed

lemma DeleteIfMatch_frame:
  assumes "DeleteIfMatch key version m = (m', deleted, e)"
  shows "memData m' = (if deleted then (memData m)(key := None) else memData m)
    \<and> maxVersionCounter m' = maxVersionCounter m
    \<and> (deleted \<longrightarrow> e = None)
    \<and> (e = None \<longrightarrow> deleted = (\<exists>c. memData m key = Some c \<and> VersionOf c = version))"
proof -
  obtain m1 e1 c where l: "deleteLocked key version m = (m1, e1, c)"
    by (metis prod_cases3)
  have lc: "memData m1 = (if c then (memData m)(key := None) else memData m)"
      "maxVersionCounter m1 = maxVersionCounter m"
      "c \<longrightarrow> e1 = None" "e1 = None \<longrightarrow> c = (\<exists>x. memData m key = Some x \<and> VersionOf x = version)"
    using l by (auto simp: deleteLocked_def split: option.splits prod.splits if_splits dest!: logEntry_fields)
  show ?thesis
  proof (cases c)
    case True
    with assms l have "m' = fst (MaybeSnapshot m1)" "deleted" "e = None"
      by (auto simp: DeleteIfMatch_def)
    with lc True show ?thesis
      by (simp add: MaybeSnapshot_fields)
  next
    case False
    with assms l have "m' = m1" "\<not> deleted" "e = e1"
      by (auto simp: DeleteIfMatch_def)
    with lc False show ?thesis
      by simp
  qed
qed

text \<open>\<open>DeleteIfMatch\<close> deletes a key exactly when it is there with the named version and the log
  takes the entry, and says so; otherwise, and for every other key, the map stays.\<close>
theorem DeleteIfMatch_result:
  assumes "DeleteIfMatch key version m = (m', deleted, e)"
  shows "memData m' = (if deleted then (memData m)(key := None) else memData m)
    \<and> maxVersionCounter m' = maxVersionCounter m
    \<and> (deleted \<longrightarrow> e = None)
    \<and> (e = None \<longrightarrow> deleted = (\<exists>c. memData m key = Some c \<and> VersionOf c = version))"
  by (rule DeleteIfMatch_frame [OF assms])

lemma DeleteIfMatch_result_witness:
  "\<exists>m. DeleteIfMatch ''k'' (VersionOf valueA) (ForceSet ''k'' valueA plainMemory) = (m, True, None)
    \<and> memData m = Map.empty"
proof -
  obtain m d e where m: "DeleteIfMatch ''k'' (VersionOf valueA) (ForceSet ''k'' valueA plainMemory) = (m, d, e)"
    by (metis prod_cases3)
  have "e = None"
    using m by (auto simp: DeleteIfMatch_def deleteLocked_def logEntry_def plainMemory_def NewMemory_def
        ForceSet_def Let_def split: if_splits)
  with DeleteIfMatch_result [OF m] m show ?thesis
    by (auto simp: plainMemory_def NewMemory_def)
qed

subsection \<open>The largest counter\<close>

definition bounded :: "Memory \<Rightarrow> bool" where
  "bounded m \<longleftrightarrow> (\<forall>k v. memData m k = Some v \<longrightarrow> Counter (VersionOf v) \<le> maxVersionCounter m)"

definition counterBelow :: "Memory \<Rightarrow> Memory \<Rightarrow> bool" where
  "counterBelow m m' \<longleftrightarrow> maxVersionCounter m \<le> maxVersionCounter m'"

lemma setLocked_bounded:
  assumes "setLocked k v m = (m1, e, c)" "bounded m"
  shows "bounded m1 \<and> counterBelow m m1"
proof (cases c)
  case True
  with setLocked_cases(1) [OF assms(1)] have m1: "memData m1 = (memData m)(k \<mapsto> v)"
      "maxVersionCounter m1 = max (maxVersionCounter m) (Counter (VersionOf v))"
    by (auto simp: viewOf_def)
  then show ?thesis
    using assms(2) by (auto simp: bounded_def counterBelow_def le_max_iff_disj)
next
  case False
  with setLocked_cases(1) [OF assms(1)] assms(2) show ?thesis
    by (auto simp: viewOf_def bounded_def counterBelow_def)
qed

lemma deleteLocked_bounded:
  "deleteLocked k x m = (m1, e, c) \<Longrightarrow> bounded m \<Longrightarrow> bounded m1 \<and> counterBelow m m1"
  by (auto simp: deleteLocked_def bounded_def counterBelow_def
      split: option.splits prod.splits if_splits dest!: logEntry_fields)

lemma bounded_cong:
  "memData m' = memData m \<Longrightarrow> maxVersionCounter m' = maxVersionCounter m \<Longrightarrow>
    (bounded m' \<longleftrightarrow> bounded m) \<and> counterBelow m m' \<and> (counterBelow l m' \<longleftrightarrow> counterBelow l m)"
  by (simp add: bounded_def counterBelow_def)

lemma memStep_bounded:
  assumes "recorded m" "bounded m" "memStep m m'"
  shows "bounded m' \<and> counterBelow m m'"
  using assms(3)
proof cases
  case (StepSet key v)
  obtain m1 e c where l: "setLocked key v m = (m1, e, c)"
    by (metis prod_cases3)
  with StepSet setLocked_bounded [OF l assms(2)] show ?thesis
    using bounded_cong [OF MaybeSnapshot_fields] by (auto simp: Set_def)
next
  case (StepDelete key version)
  obtain m1 e c where l: "deleteLocked key version m = (m1, e, c)"
    by (metis prod_cases3)
  with StepDelete deleteLocked_bounded [OF l assms(2)] show ?thesis
    using bounded_cong [OF MaybeSnapshot_fields] by (auto simp: DeleteIfMatch_def)
next
  case (StepSetLocked key v)
  then show ?thesis
    using setLocked_bounded assms(2) by (metis prod.collapse)
next
  case (StepDeleteLocked key version)
  then show ?thesis
    using deleteLocked_bounded assms(2) by (metis prod.collapse)
next
  case StepMaybe
  then show ?thesis
    using bounded_cong [OF MaybeSnapshot_fields] assms(2) by auto
next
  case StepSnapshot
  then have "memData m' = memData m \<and> maxVersionCounter m' = maxVersionCounter m"
    using saved_fields [of m m'] by (metis SaveSnapshot_def prod.collapse)
  with assms(2) show ?thesis
    using bounded_cong by blast
next
  case (StepOutcomes cs)
  with assms(2) show ?thesis
    by (simp add: bounded_def counterBelow_def)
next
  case (StepRestart w)
  then have "viewOf m' = viewOf m"
    using OpenMemory_torn [OF assms(1), of w "[]" 0] by (auto simp: record_fits_def length_encodeRecord)
  with assms(2) show ?thesis
    by (simp add: viewOf_def bounded_def counterBelow_def)
qed

interpretation counter: monotone_system memInit memStep "\<lambda>m. recorded m \<and> bounded m" counterBelow
proof unfold_locales
  fix m assume "memInit m"
  then show "recorded m \<and> bounded m"
    using memInit_recorded [of m] by (simp add: viewOf_def bounded_def)
next
  fix m m' assume "recorded m \<and> bounded m" "memStep m m'"
  then show "recorded m' \<and> bounded m'" "counterBelow m m'"
    using memStep_recorded memStep_bounded by blast+
qed (auto simp: counterBelow_def)

text \<open>C17. The largest counter is safe to issue versions from: in every reachable state it bounds the
  counter of every stored version, tombstones included, and along every run, restarts included, it
  never goes back.\<close>
theorem counter_bounds:
  assumes "reachable memInit memStep m" "run memStep m m'"
  shows "maxVersionCounter m \<le> maxVersionCounter m'
    \<and> (\<forall>k v. memData m' k = Some v \<longrightarrow> Counter (VersionOf v) \<le> maxVersionCounter m')"
  using counter.reachable_run_below [OF assms] counter.reachable_inv [OF reachable_run [OF assms(2,1)]]
  by (simp add: counterBelow_def bounded_def)

lemma counter_bounds_witness:
  "\<exists>m. Set ''k'' valueA openedMemory = (m, None) \<and> memData m ''k'' = Some valueA
    \<and> Counter (VersionOf valueA) \<le> maxVersionCounter m"
proof -
  obtain m where m: "Set ''k'' valueA openedMemory = (m, None)" "memData m = [''k'' \<mapsto> valueA]"
    using Set_valueA by blast
  have "reachable memInit memStep m"
    using openedMemory_Set m(1) by simp
  from counter_bounds [OF this run_refl] m show ?thesis
    by auto
qed

subsection \<open>Snapshot files\<close>

text \<open>A snapshot is replaced as a whole: when the calls of \<open>saveSnapshot\<close> fail at any point,
  loading afterwards gives the snapshot that was there before or the new one, complete; without
  an error it gives the new one; no file but the snapshot and its temporary file is touched.\<close>
theorem snapshot_all_or_nothing:
  assumes "durable fs path old" "goodSnapshot s" "saveSnapshot path s fs = (fs', e)"
  shows "\<exists>r. loadSnapshot path (fs'\<lparr>calls := []\<rparr>) = (fs'\<lparr>calls := []\<rparr>, Inr r)
    \<and> (r = old \<or> r = s) \<and> (e = None \<longrightarrow> r = s)
    \<and> (\<forall>q. q \<notin> {path, path @ ''.tmp''} \<longrightarrow> files fs' q = files fs q)"
proof -
  note at = saveSnapshot_atomic [OF assms(3)]
  show ?thesis
  proof (cases "files fs' path = Some (snapshotBytes s) \<and> snapshot_fits s")
    case True
    with assms(2) have "durable (fs'\<lparr>calls := []\<rparr>) path s"
      by (simp add: durable_def)
    from loadSnapshot_durable [OF this] at(3) show ?thesis
      by auto
  next
    case False
    with at(1,2) have e: "e \<noteq> None" "files fs' path = files fs path"
      by auto
    with assms(1) have "durable (fs'\<lparr>calls := []\<rparr>) path old"
      by (simp add: durable_def)
    from loadSnapshot_durable [OF this] at(3) e show ?thesis
      by auto
  qed
qed

lemma snapshot_all_or_nothing_witness:
  "\<exists>fs' e r. saveSnapshot ''s'' \<lparr>SnapData = [''k'' \<mapsto> valueA], MaxVersionCounter = 1\<rparr>
      \<lparr>files = Map.empty, calls = [Fine, Fine, Fails 3]\<rparr> = (fs', e)
    \<and> loadSnapshot ''s'' (fs'\<lparr>calls := []\<rparr>) = (fs'\<lparr>calls := []\<rparr>, Inr r)
    \<and> SnapData r \<in> {Map.empty, [''k'' \<mapsto> valueA]}"
proof -
  let ?s = "\<lparr>SnapData = [''k'' \<mapsto> valueA], MaxVersionCounter = 1\<rparr>"
  let ?fs = "\<lparr>files = Map.empty, calls = [Fine, Fine, Fails 3]\<rparr>"
  obtain fs' e where sv: "saveSnapshot ''s'' ?s ?fs = (fs', e)"
    by fastforce
  have d: "durable ?fs ''s'' \<lparr>SnapData = Map.empty, MaxVersionCounter = 0\<rparr>"
    by (simp add: durable_def)
  have g: "goodSnapshot ?s"
    using valueA_good by (simp add: goodSnapshot_def)
  from snapshot_all_or_nothing [OF d g sv] obtain r where
    r: "loadSnapshot ''s'' (fs'\<lparr>calls := []\<rparr>) = (fs'\<lparr>calls := []\<rparr>, Inr r)"
      "r = \<lparr>SnapData = Map.empty, MaxVersionCounter = 0\<rparr> \<or> r = ?s"
    by blast
  from r(2) have "SnapData r \<in> {Map.empty, [''k'' \<mapsto> valueA]}"
    by (elim disjE) simp_all
  with sv r(1) show ?thesis
    by blast
qed

subsection \<open>Keys that are not UTF-8\<close>

lemma bytesOf_stringOf [simp]: "bytesOf (stringOf bs) = bs"
proof (induction bs)
  case (Cons b bs)
  have "(of_char (char_of (unat b) :: char) :: u8) = of_nat (of_char (char_of (unat b) :: char))"
    by (simp only: of_nat_of_char)
  also have "\<dots> = b"
    using byte_bound [of b] by (simp only: of_char_of) simp
  finally show ?case
    using Cons by (simp add: bytesOf_def stringOf_def)
qed (simp add: bytesOf_def stringOf_def)

definition cleanString :: "string \<Rightarrow> string" where
  "cleanString s = stringOf (sanitize (bytesOf s))"

lemma cleanString_id: "cleanString s = s \<longleftrightarrow> goodString s"
  by (metis bytesOf_stringOf cleanString_def goodString_def stringOf_bytesOf validUTF8_def)

lemma unmarshalEntry_anyKey:
  assumes "goodString (Op e)" "goodValue (EntryValue e)" "goodVersion (EntryVersion e)"
  shows "unmarshalEntry (marshalEntry e) = Some (e\<lparr>EntryKey := cleanString (EntryKey e)\<rparr>)"
proof -
  have "decodeString (cleanJson (encodeString (EntryKey e))) x = Some (cleanString (EntryKey e))" for x
    by (simp add: encodeString_def decodeString_def cleanString_def)
  with assms have "decodeEntry (cleanJson (encodeEntry e)) w = Some (e\<lparr>EntryKey := cleanString (EntryKey e)\<rparr>)" for w
    by (simp add: decodeEntry_def encodeEntry_def decodeStruct_def onField_def)
  then show ?thesis
    unfolding unmarshalEntry_def marshalEntry_def by (intro unmarshal_print) auto
qed

text \<open>A key that is not UTF-8 is lost at a restart: \<open>Set\<close> acknowledges it and \<open>Get\<close> finds it, but the
  JSON of the log replaces its invalid bytes, so that after the next start \<open>Get\<close> does not find
  the key, and finds the value under the replaced key.\<close>
theorem invalid_key_lost:
  assumes "\<not> goodString key" "goodValue v" "length (marshalEntry (setEntry key v)) < 1000"
  shows "\<exists>m w m'. Set key v openedMemory = (m, None) \<and> MemGet key m = (v, True) \<and> wal m = Some w
    \<and> OpenMemory (openFile (content (wfile w)) []) (disk m) (snapshotPath m) = Inr m'
    \<and> MemGet key m' = (zeroValue, False) \<and> MemGet (cleanString key) m' = (v, True)"
proof -
  let ?d = "marshalEntry (setEntry key v)"
  obtain m w where m: "Set key v openedMemory = (m, None)" "memData m = [key \<mapsto> v]" "wal m = Some w"
      "disk m = emptyDisk" "snapshotPath m = ''w.snapshot''" "content (wfile w) = walBytes True [?d]"
    using Set_opened [OF assms(3)] by blast
  let ?w = "\<lparr>wfile = openFile (walBytes True [?d]) [], hasHeader = True\<rparr>"
  define m0 where "m0 = \<lparr>memData = Map.empty, wal = Some ?w, snapshotPath = ''w.snapshot'',
    snapshotThreshold = defaultSnapshotThreshold, maxVersionCounter = 0, disk = emptyDisk\<rparr>"
  have "unmarshalEntry ?d = Some ((setEntry key v)\<lparr>EntryKey := cleanString key\<rparr>)"
    using unmarshalEntry_anyKey [of "setEntry key v"] assms(2)
    by (simp add: zeroEntry_def zeroVersion_def goodVersion_def)
  then have app: "applyAll replayEntry [?d] m0 = Inr (ForceSet (cleanString key) v m0)"
    by (simp add: replayEntry_def)
  have fits: "list_all record_fits [?d]"
    using assms(3) by (simp add: record_fits_def)
  obtain w1 where rp: "Replay replayEntry ?w m0 = (w1, \<lparr>Records = 1, TailRepaired = False\<rparr>, ForceSet (cleanString key) v m0, None)"
    using Replay_clean [OF _ _ fits app, of ?w] by (simp add: openFile_def)
  have o: "OpenWAL (openFile (walBytes True [?d]) []) = (openFile (walBytes True [?d]) [], Inr ?w :: replayError walError + WAL)"
    unfolding walBytes_True by (rule OpenWAL_with_header)
  have "OpenMemory (openFile (walBytes True [?d]) []) emptyDisk ''w.snapshot'' =
      Inr ((ForceSet (cleanString key) v m0)\<lparr>wal := Some w1\<rparr>)"
    using o rp by (simp add: OpenMemory_def loadSnapshot_def emptyDisk_def flip: m0_def [unfolded emptyDisk_def])
  moreover have "cleanString key \<noteq> key"
    using assms(1) cleanString_id by blast
  ultimately show ?thesis
    using m by (intro exI conjI) (auto simp: MemGet_def m0_def)
qed

lemma length_invalid: "length (marshalEntry (setEntry [CHR 0xFF] valueA)) = 142"
  by code_simp

lemma invalid_key_lost_witness:
  "\<exists>m w m'. Set [CHR 0xFF] valueA openedMemory = (m, None) \<and> wal m = Some w
    \<and> OpenMemory (openFile (content (wfile w)) []) (disk m) (snapshotPath m) = Inr m'
    \<and> MemGet [CHR 0xFF] m' = (zeroValue, False)"
proof -
  have "\<not> goodString [CHR 0xFF]"
    by code_simp
  from invalid_key_lost [OF this valueA_good(1)] length_invalid show ?thesis
    by auto
qed

end
