(* ===== verification/Membership.thy ===== *)
theory Membership
  imports Prelude
begin

text \<open>
  The failure detector of \<open>internal/node/membership.go\<close> and the messages of
  \<open>internal/node/gossip.go\<close>: what a node believes of the members, how its own probes change it
  and how it merges what other nodes tell.  The clock is an argument of the operations that
  read it; every operation runs under the lock.
\<close>

datatype nodeStatus = statusAlive | statusSuspect | statusDead

record memberState =
  Status :: nodeStatus
  LastSuccess :: int
  LastFailure :: int
  FailureCount :: int
  Incarnation :: u64
  StateVersion :: u64

text \<open>The zero value, which a lookup of an absent member gives; the zero time is 0.\<close>

definition zeroState :: memberState where
  "zeroState = \<lparr>Status = statusAlive, LastSuccess = 0, LastFailure = 0, FailureCount = 0,
     Incarnation = 0, StateVersion = 0\<rparr>"

record failureDetector =
  self :: string
  tracked :: "string \<rightharpoonup> memberState"

record gossipMember =
  GNode :: string
  GStatus :: string
  GVersion :: u64
  GIncarnation :: u64

definition stateOf :: "failureDetector \<Rightarrow> string \<Rightarrow> memberState" where
  "stateOf f node = (case tracked f node of None \<Rightarrow> zeroState | Some s \<Rightarrow> s)"

definition putState :: "string \<Rightarrow> memberState \<Rightarrow> failureDetector \<Rightarrow> failureDetector" where
  "putState node s f = f\<lparr>tracked := (tracked f)(node \<mapsto> s)\<rparr>"

subsection \<open>Construction and tracking\<close>

definition newFailureDetector :: "string list \<Rightarrow> string \<Rightarrow> int \<Rightarrow> u64 \<Rightarrow> failureDetector" where
  "newFailureDetector nodes me now unixNano =
     (let fd = foldl (\<lambda>fd node. putState node (zeroState\<lparr>Status := statusAlive, LastSuccess := now\<rparr>) fd)
            \<lparr>self = me, tracked = Map.empty\<rparr> nodes
      in putState me ((stateOf fd me)\<lparr>Incarnation := unixNano, StateVersion := 1\<rparr>) fd)"

definition TrackMember :: "string \<Rightarrow> int \<Rightarrow> failureDetector \<Rightarrow> failureDetector" where
  "TrackMember node now f =
     (if tracked f node \<noteq> None then f
      else putState node (zeroState\<lparr>Status := statusAlive, LastSuccess := now\<rparr>) f)"

definition UntrackMember :: "string \<Rightarrow> failureDetector \<Rightarrow> failureDetector" where
  "UntrackMember member f = f\<lparr>tracked := (tracked f)(member := None)\<rparr>"

definition fdList :: "failureDetector \<Rightarrow> string set" where
  "fdList f = dom (tracked f)"

subsection \<open>Probes\<close>

definition MarkSuccess :: "string \<Rightarrow> int \<Rightarrow> failureDetector \<Rightarrow> failureDetector" where
  "MarkSuccess node now f =
     (let state = stateOf f node
      in putState node (state\<lparr>Status := statusAlive, LastSuccess := now, FailureCount := 0,
           StateVersion := StateVersion state + 1\<rparr>) f)"

definition MarkFailure :: "string \<Rightarrow> int \<Rightarrow> failureDetector \<Rightarrow> failureDetector" where
  "MarkFailure node now f =
     (let state = stateOf f node;
          state1 = state\<lparr>FailureCount := FailureCount state + 1, LastFailure := now,
                    StateVersion := StateVersion state + 1\<rparr>;
          state2 = (if FailureCount state1 \<ge> 3 then state1\<lparr>Status := statusDead\<rparr>
                    else state1\<lparr>Status := statusSuspect\<rparr>)
      in putState node state2 f)"

subsection \<open>Gossip\<close>

definition statusString :: "nodeStatus \<Rightarrow> string" where
  "statusString s =
     (case s of statusAlive \<Rightarrow> ''alive'' | statusSuspect \<Rightarrow> ''suspect'' | statusDead \<Rightarrow> ''dead'')"

definition parseNodeStatus :: "string \<Rightarrow> nodeStatus" where
  "parseNodeStatus s =
     (if s = ''alive'' then statusAlive
      else if s = ''suspect'' then statusSuspect
      else if s = ''dead'' then statusDead
      else statusSuspect)"

text \<open>A map is listed in some order of its keys, which is an argument.\<close>

definition gossipOf :: "string \<Rightarrow> memberState \<Rightarrow> gossipMember" where
  "gossipOf node state =
     \<lparr>GNode = node, GStatus = statusString (Status state), GVersion = StateVersion state,
      GIncarnation = Incarnation state\<rparr>"

definition GossipSnapshot :: "string list \<Rightarrow> failureDetector \<Rightarrow> gossipMember list" where
  "GossipSnapshot order f = map (\<lambda>node. gossipOf node (stateOf f node)) order"

definition newerMemberState :: "gossipMember \<Rightarrow> memberState \<Rightarrow> bool" where
  "newerMemberState remote loc =
     (if GIncarnation remote > Incarnation loc then True
      else if GIncarnation remote < Incarnation loc then False
      else GVersion remote > StateVersion loc)"

definition refuteSelf :: "gossipMember \<Rightarrow> int \<Rightarrow> failureDetector \<Rightarrow> failureDetector" where
  "refuteSelf remote now f =
     (let loc = stateOf f (self f)
      in if GIncarnation remote < Incarnation loc then f
         else putState (self f) (loc\<lparr>Incarnation := GIncarnation remote + 1, StateVersion := 1,
                Status := statusAlive, FailureCount := 0, LastSuccess := now\<rparr>) f)"

definition mergeOne :: "int \<Rightarrow> gossipMember \<Rightarrow> failureDetector \<Rightarrow> failureDetector" where
  "mergeOne now remote f =
     (if GNode remote = self f
      then let loc = stateOf f (self f)
           in if parseNodeStatus (GStatus remote) \<noteq> statusAlive \<and> newerMemberState remote loc
              then refuteSelf remote now f else f
      else case tracked f (GNode remote) of
             None \<Rightarrow> putState (GNode remote) (zeroState\<lparr>Status := parseNodeStatus (GStatus remote),
                       Incarnation := GIncarnation remote, StateVersion := GVersion remote\<rparr>) f
           | Some loc \<Rightarrow>
               if \<not> newerMemberState remote loc then f
               else putState (GNode remote) (loc\<lparr>Status := parseNodeStatus (GStatus remote),
                      Incarnation := GIncarnation remote, StateVersion := GVersion remote\<rparr>) f)"

definition Merge :: "int \<Rightarrow> gossipMember list \<Rightarrow> failureDetector \<Rightarrow> failureDetector" where
  "Merge now members f = foldl (\<lambda>f remote. mergeOne now remote f) f members"

text \<open>\<open>handleGossip\<close> keeps the members of the ring only.\<close>

definition handleGossip :: "string list \<Rightarrow> int \<Rightarrow> gossipMember list \<Rightarrow> failureDetector \<Rightarrow> failureDetector" where
  "handleGossip ringMembers now members f =
     Merge now (filter (\<lambda>m. GNode m \<in> set ringMembers) members) f"

subsection \<open>The order of states\<close>

text \<open>States are compared by incarnation first and version second.\<close>

definition rank :: "memberState \<Rightarrow> nat \<times> nat" where
  "rank s = (unat (Incarnation s), unat (StateVersion s))"

definition grank :: "gossipMember \<Rightarrow> nat \<times> nat" where
  "grank g = (unat (GIncarnation g), unat (GVersion g))"

definition lexLess :: "nat \<times> nat \<Rightarrow> nat \<times> nat \<Rightarrow> bool" where
  "lexLess a b \<longleftrightarrow> fst a < fst b \<or> fst a = fst b \<and> snd a < snd b"

definition lexLe :: "nat \<times> nat \<Rightarrow> nat \<times> nat \<Rightarrow> bool" where
  "lexLe a b \<longleftrightarrow> \<not> lexLess b a"

lemma lex_order [simp]:
  "lexLe a a" "lexLess a b \<Longrightarrow> lexLe a b" "\<not> lexLess a a"
  by (auto simp: lexLe_def lexLess_def)

lemma lexLe_trans: "lexLe a b \<Longrightarrow> lexLe b c \<Longrightarrow> lexLe a c"
  by (auto simp: lexLe_def lexLess_def)

lemma newerMemberState_rank: "newerMemberState g s \<longleftrightarrow> lexLess (rank s) (grank g)"
  by (auto simp: newerMemberState_def lexLess_def rank_def grank_def word_less_nat_alt)

subsection \<open>What the operations change\<close>

lemma putState_simps [simp]:
  "self (putState n s f) = self f" "tracked (putState n s f) = (tracked f)(n \<mapsto> s)"
  "stateOf (putState n s f) m = (if m = n then s else stateOf f m)"
  by (auto simp: putState_def stateOf_def)

lemma parse_statusString [simp]: "parseNodeStatus (statusString s) = s"
  by (cases s) (simp_all add: parseNodeStatus_def statusString_def)

lemma gossipOf_simps [simp]:
  "GNode (gossipOf n s) = n" "GStatus (gossipOf n s) = statusString (Status s)" "grank (gossipOf n s) = rank s"
  by (simp_all add: gossipOf_def grank_def rank_def)

lemma refute_rank:
  assumes "GIncarnation g \<noteq> - 1" "\<not> GIncarnation g < Incarnation s"
  shows "lexLess (rank s) (unat (GIncarnation g + 1), 1)" "lexLess (grank g) (unat (GIncarnation g + 1), 1)"
proof -
  have "unat (GIncarnation g + 1) = unat (GIncarnation g) + 1"
    using assms(1) by (simp add: unatSuc add_eq_0_iff) (metis add.commute unatSuc add_eq_0_iff)
  then show "lexLess (rank s) (unat (GIncarnation g + 1), 1)" "lexLess (grank g) (unat (GIncarnation g + 1), 1)"
    using assms(2) by (simp_all add: lexLess_def rank_def grank_def word_less_nat_alt not_less)
qed
end
