(* ===== verification/MembershipProps.thy ===== *)
theory MembershipProps
  imports Membership Transition
begin

text \<open>
  The properties of the failure detector and its gossip: beliefs never go back, a node refutes
  what is said of it, the thresholds of the probes, and the ties that gossip does not settle.
\<close>

text \<open>A merge that does not run into the largest incarnation, which refutation cannot exceed.\<close>

definition refutable :: "failureDetector \<Rightarrow> gossipMember \<Rightarrow> bool" where
  "refutable f g \<longleftrightarrow> (GNode g = self f \<longrightarrow> GIncarnation g \<noteq> - 1)"

definition notBack :: "memberState \<Rightarrow> memberState \<Rightarrow> bool" where
  "notBack s s' \<longleftrightarrow> s' = s \<or> lexLess (rank s) (rank s')"

lemma notBack_trans: "notBack s t \<Longrightarrow> notBack t u \<Longrightarrow> notBack s u"
  by (auto simp: notBack_def lexLess_def)

lemma refuted_rank:
  "rank (s\<lparr>Incarnation := i + 1, StateVersion := 1, Status := st, FailureCount := c, LastSuccess := t\<rparr>) =
    (unat (i + 1), 1)"
  by (simp add: rank_def)

lemma mergeOne_self [simp]: "self (mergeOne now g f) = self f"
  by (auto simp: mergeOne_def refuteSelf_def Let_def split: option.split)

lemma Merge_self [simp]: "self (Merge now gs f) = self f"
  by (induction gs arbitrary: f) (simp_all add: Merge_def)

lemma Merge_simps [simp]:
  "Merge now [] f = f" "Merge now (g # gs) f = Merge now gs (mergeOne now g f)"
  by (simp_all add: Merge_def)

lemma refuteSelf_notBack:
  assumes "GIncarnation g \<noteq> - 1"
  shows "notBack (stateOf f (self f)) (stateOf (refuteSelf g now f) (self f))"
proof (cases "GIncarnation g < Incarnation (stateOf f (self f))")
  case False
  from refute_rank(1) [OF assms False] False show ?thesis
    by (simp add: refuteSelf_def Let_def notBack_def refuted_rank)
qed (simp add: refuteSelf_def notBack_def)

lemma mergeOne_notBack:
  assumes "tracked f n = Some s" "refutable f g"
  shows "\<exists>s'. tracked (mergeOne now g f) n = Some s' \<and> notBack s s'
    \<and> (n = self f \<longrightarrow> Status s = statusAlive \<longrightarrow> Status s' = statusAlive)"
proof (cases "GNode g = self f")
  case True
  then have m: "mergeOne now g f = f \<or> mergeOne now g f = refuteSelf g now f"
    by (auto simp: mergeOne_def Let_def)
  have "notBack (stateOf f (self f)) (stateOf (refuteSelf g now f) (self f))"
    using assms(2) True by (intro refuteSelf_notBack) (simp add: refutable_def)
  moreover have "Status (stateOf f (self f)) = statusAlive \<Longrightarrow>
      Status (stateOf (refuteSelf g now f) (self f)) = statusAlive"
    by (simp add: refuteSelf_def Let_def)
  moreover have "n \<noteq> self f \<Longrightarrow> tracked (refuteSelf g now f) n = tracked f n"
      "tracked f (self f) \<noteq> None \<Longrightarrow> tracked (refuteSelf g now f) (self f) \<noteq> None"
    by (simp_all add: refuteSelf_def Let_def)
  ultimately show ?thesis
    using assms(1) m by (cases "n = self f") (auto simp: stateOf_def notBack_def split: option.splits)
next
  case False
  then show ?thesis
    using assms(1)
    by (auto simp: mergeOne_def newerMemberState_rank notBack_def rank_def grank_def split: option.split)
qed

lemma Merge_notBack:
  assumes "tracked f n = Some s" "\<forall>g \<in> set gs. refutable f g"
  shows "\<exists>s'. tracked (Merge now gs f) n = Some s' \<and> notBack s s'
    \<and> (n = self f \<longrightarrow> Status s = statusAlive \<longrightarrow> Status s' = statusAlive)"
  using assms
proof (induction gs arbitrary: f s)
  case (Cons g gs)
  obtain t where t: "tracked (mergeOne now g f) n = Some t" "notBack s t"
      "n = self f \<longrightarrow> Status s = statusAlive \<longrightarrow> Status t = statusAlive"
    using mergeOne_notBack [OF Cons.prems(1), of g now] Cons.prems(2) by auto
  have "\<forall>g \<in> set gs. refutable (mergeOne now g' f) g" for g'
    using Cons.prems(2) by (simp add: refutable_def)
  with Cons.IH [OF t(1)] t show ?case
    by (auto intro: notBack_trans)
qed (simp add: notBack_def)

text \<open>C21. Merging gossip never takes a belief back: every member stays tracked, its state is
  unchanged or strictly newer by incarnation and version, and a node that believes itself alive
  goes on to, whatever the others say, unless they claim the largest incarnation of it.\<close>
theorem Merge_never_goes_back:
  assumes "tracked f n = Some s" "\<forall>g \<in> set gs. GNode g = self f \<longrightarrow> GIncarnation g \<noteq> - 1"
  shows "\<exists>s'. tracked (Merge now gs f) n = Some s' \<and> (s' = s \<or> lexLess (rank s) (rank s'))
    \<and> (n = self f \<longrightarrow> Status s = statusAlive \<longrightarrow> Status s' = statusAlive)"
  using Merge_notBack [OF assms(1), of gs now] assms(2) by (simp add: refutable_def notBack_def)

definition fdA :: failureDetector where
  "fdA = newFailureDetector [''a'', ''b'', ''c''] ''a'' 0 7"

lemma fdA_facts:
  "self fdA = ''a''" "tracked fdA ''a'' = Some (zeroState\<lparr>Incarnation := 7, StateVersion := 1\<rparr>)"
  "tracked fdA ''b'' = Some zeroState"
  by (simp_all add: fdA_def newFailureDetector_def Let_def zeroState_def)

lemma Merge_never_goes_back_witness:
  "\<exists>s'. tracked (Merge 5 [\<lparr>GNode = ''a'', GStatus = ''dead'', GVersion = 4, GIncarnation = 7\<rparr>] fdA) ''a'' = Some s'
    \<and> Status s' = statusAlive"
  using Merge_never_goes_back [OF fdA_facts(2), of "[\<lparr>GNode = ''a'', GStatus = ''dead'', GVersion = 4, GIncarnation = 7\<rparr>]" 5]
  by (auto simp: fdA_facts zeroState_def)

text \<open>Refutation wins: a node told that it is suspect or dead in a state newer than its own
  takes the next incarnation, and every node whose belief of it is no newer than that rumour
  believes it alive once it has merged its answer.\<close>
theorem refutation_wins:
  assumes "GNode g = self f" "parseNodeStatus (GStatus g) \<noteq> statusAlive" "newerMemberState g (stateOf f (self f))"
    and "GIncarnation g \<noteq> - 1" "self h \<noteq> self f"
    and "tracked h (self f) = Some t" "lexLe (rank t) (grank g)"
  shows "Incarnation (stateOf (Merge now [g] f) (self f)) = GIncarnation g + 1
    \<and> Status (stateOf (Merge now' [gossipOf (self f) (stateOf (Merge now [g] f) (self f))] h) (self f)) = statusAlive"
proof -
  have n: "\<not> GIncarnation g < Incarnation (stateOf f (self f))"
    using assms(3) by (auto simp: newerMemberState_def split: if_splits)
  let ?s = "(stateOf f (self f))\<lparr>Incarnation := GIncarnation g + 1, StateVersion := 1,
    Status := statusAlive, FailureCount := 0, LastSuccess := now\<rparr>"
  have s: "stateOf (Merge now [g] f) (self f) = ?s"
    using assms(1-3) n by (simp add: mergeOne_def refuteSelf_def Let_def)
  have "lexLess (rank t) (rank ?s)"
    using refute_rank(2) [OF assms(4) n] assms(7) unfolding refuted_rank
    by (auto simp: lexLess_def lexLe_def)
  with assms(5,6) show ?thesis
    unfolding s by (simp add: mergeOne_def newerMemberState_rank)
qed

lemma refutation_wins_witness:
  "Status (stateOf (Merge 9 [gossipOf ''a'' (stateOf (Merge 5 [\<lparr>GNode = ''a'', GStatus = ''dead'', GVersion = 4,
      GIncarnation = 7\<rparr>] fdA) ''a'')] (fdA\<lparr>self := ''b''\<rparr>)) ''a'') = statusAlive"
  using refutation_wins [of "\<lparr>GNode = ''a'', GStatus = ''dead'', GVersion = 4, GIncarnation = 7\<rparr>" fdA
      "fdA\<lparr>self := ''b''\<rparr>" "zeroState\<lparr>Incarnation := 7, StateVersion := 1\<rparr>" 5 9]
  by (simp add: fdA_facts stateOf_def parseNodeStatus_def newerMemberState_def zeroState_def
      lexLe_def lexLess_def rank_def grank_def)

text \<open>The thresholds of the probes: after a successful probe, one or two failures in a row make
  a member suspect and three or more dead, and the next success makes it alive again; each
  probe raises the version.\<close>
theorem probe_thresholds:
  "let f1 = MarkSuccess n t f; fk = (MarkFailure n t ^^ k) f1
   in Status (stateOf fk n) = (if k = 0 then statusAlive else if k < 3 then statusSuspect else statusDead)
      \<and> FailureCount (stateOf fk n) = int k
      \<and> StateVersion (stateOf fk n) = StateVersion (stateOf f n) + 1 + of_nat k
      \<and> Status (stateOf (MarkSuccess n t fk) n) = statusAlive
      \<and> FailureCount (stateOf (MarkSuccess n t fk) n) = 0"
proof -
  have "Status (stateOf ((MarkFailure n t ^^ k) (MarkSuccess n t f)) n) =
        (if k = 0 then statusAlive else if k < 3 then statusSuspect else statusDead)
      \<and> FailureCount (stateOf ((MarkFailure n t ^^ k) (MarkSuccess n t f)) n) = int k
      \<and> StateVersion (stateOf ((MarkFailure n t ^^ k) (MarkSuccess n t f)) n) =
          StateVersion (stateOf f n) + 1 + of_nat k"
  proof (induction k)
    case 0
    show ?case by (simp add: MarkSuccess_def Let_def)
  next
    case (Suc k)
    then show ?case
      by (auto simp: MarkFailure_def Let_def)
  qed
  then show ?thesis
    by (simp add: Let_def) (simp add: MarkSuccess_def Let_def)
qed

subsection \<open>Ties\<close>

text \<open>Two nodes gossip: one of them merges the list of the other.\<close>

inductive exchange :: "failureDetector \<times> failureDetector \<Rightarrow> failureDetector \<times> failureDetector \<Rightarrow> bool" where
  ToFirst: "exchange (a, b) (Merge now (GossipSnapshot order b) a, b)"
| ToSecond: "exchange (a, b) (a, Merge now (GossipSnapshot order a) b)"

lemma mergeOne_tie:
  assumes "GNode g = x \<longrightarrow> \<not> newerMemberState g s" "tracked f x = Some s" "x \<noteq> self f"
  shows "tracked (mergeOne now g f) x = Some s"
  using assms by (auto simp: mergeOne_def refuteSelf_def Let_def split: option.split)

lemma Merge_tie:
  assumes "\<forall>g \<in> set gs. GNode g = x \<longrightarrow> \<not> newerMemberState g s" "tracked f x = Some s" "x \<noteq> self f"
  shows "tracked (Merge now gs f) x = Some s"
  using assms by (induction gs arbitrary: f) (simp_all add: mergeOne_tie)

definition tied :: "string \<Rightarrow> memberState \<Rightarrow> memberState \<Rightarrow> failureDetector \<times> failureDetector \<Rightarrow> bool" where
  "tied x s t p \<longleftrightarrow> x \<noteq> self (fst p) \<and> x \<noteq> self (snd p) \<and> tracked (fst p) x = Some s
     \<and> tracked (snd p) x = Some t \<and> rank s = rank t"

lemma exchange_tied:
  assumes "tied x s t p" "exchange p q"
  shows "tied x s t q"
  using assms(2)
proof cases
  case (ToFirst a b now order)
  have "\<forall>g \<in> set (GossipSnapshot order b). GNode g = x \<longrightarrow> \<not> newerMemberState g s"
    using assms(1) ToFirst by (auto simp: GossipSnapshot_def tied_def newerMemberState_rank stateOf_def)
  with Merge_tie [OF this] assms(1) ToFirst show ?thesis
    by (simp add: tied_def)
next
  case (ToSecond a b now order)
  have "\<forall>g \<in> set (GossipSnapshot order a). GNode g = x \<longrightarrow> \<not> newerMemberState g t"
    using assms(1) ToSecond by (auto simp: GossipSnapshot_def tied_def newerMemberState_rank stateOf_def)
  with Merge_tie [OF this] assms(1) ToSecond show ?thesis
    by (simp add: tied_def)
qed

interpretation tie: inductive_invariant "\<lambda>p. tied x s t p" exchange "\<lambda>p. tied x s t p" for x s t
  by unfold_locales (auto intro: exchange_tied)

text \<open>Gossip does not settle a tie: when two nodes with one belief of a third probe it once each, one
  with success and one without, they raise the version alike, and then disagree for ever, however
  often they gossip, until a further probe breaks the tie.\<close>
theorem gossip_tie_stays:
  assumes "tracked a x = Some s" "tracked b x = Some s" "x \<noteq> self a" "x \<noteq> self b"
    and "run exchange (MarkSuccess x t a, MarkFailure x t' b) (a', b')"
  shows "Status (stateOf a' x) = statusAlive \<and> Status (stateOf b' x) \<noteq> statusAlive"
proof -
  let ?s = "stateOf (MarkSuccess x t a) x" and ?t = "stateOf (MarkFailure x t' b) x"
  have "tied x ?s ?t (MarkSuccess x t a, MarkFailure x t' b)"
    using assms(1-4) by (simp add: tied_def rank_def stateOf_def MarkSuccess_def MarkFailure_def Let_def putState_def)
  from tie.run_inv [OF assms(5) this] have "stateOf a' x = ?s" "stateOf b' x = ?t"
    by (auto simp: tied_def stateOf_def)
  then show ?thesis
    by (simp add: MarkSuccess_def MarkFailure_def Let_def)
qed

lemma gossip_tie_stays_witness:
  "Status (stateOf (Merge 3 (GossipSnapshot [''b''] (MarkFailure ''b'' 2 (fdA\<lparr>self := ''c''\<rparr>))) (MarkSuccess ''b'' 2 fdA)) ''b'') = statusAlive"
proof -
  let ?a = "MarkSuccess ''b'' 2 fdA" and ?c = "MarkFailure ''b'' 2 (fdA\<lparr>self := ''c''\<rparr>)"
  have "run exchange (?a, ?c) (Merge 3 (GossipSnapshot [''b''] ?c) ?a, ?c)"
    by (rule run_step [where S = exchange and t = "(?a, ?c)"], rule run_refl, rule ToFirst)
  from gossip_tie_stays [OF _ _ _ _ this, of zeroState] show ?thesis
    by (simp add: fdA_facts)
qed

end
