(* ===== verification/Hints.thy ===== *)
theory Hints
  imports NewerWins
begin

text \<open>
  The hint store of \<open>internal/node/hint.go\<close>: the writes that did not reach a replica, one for
  each replica and key, and their hand-off.  The hand-off is over any way to write to a replica.
\<close>

record hint =
  Replica :: string
  HintKey :: string
  HintValue :: Value

record hintStore =
  hints :: "string \<rightharpoonup> hint"

definition newHintStore :: hintStore where
  "newHintStore = \<lparr>hints = Map.empty\<rparr>"

definition hintKey :: "string \<Rightarrow> string \<Rightarrow> string" where
  "hintKey replica key = replica @ ''|'' @ key"

definition newer :: "Value \<Rightarrow> Value \<Rightarrow> bool" where
  "newer a b \<longleftrightarrow> CompareVersion (VersionOf a) (VersionOf b) > 0"

definition hintAdd :: "string \<Rightarrow> string \<Rightarrow> Value \<Rightarrow> hintStore \<Rightarrow> hintStore" where
  "hintAdd replica key v h =
     (let k = hintKey replica key; fresh = \<lparr>Replica = replica, HintKey = key, HintValue = v\<rparr>
      in case hints h k of
           Some current \<Rightarrow> if \<not> newer v (HintValue current) then h else h\<lparr>hints := (hints h)(k \<mapsto> fresh)\<rparr>
         | None \<Rightarrow> h\<lparr>hints := (hints h)(k \<mapsto> fresh)\<rparr>)"

text \<open>A map is listed in some order of its keys, which is an argument.\<close>

definition hintList :: "string list \<Rightarrow> hintStore \<Rightarrow> hint list" where
  "hintList order h = map (\<lambda>k. the (hints h k)) order"

definition RemoveIfMatch :: "string \<Rightarrow> string \<Rightarrow> Version \<Rightarrow> hintStore \<Rightarrow> hintStore" where
  "RemoveIfMatch replica key version h =
     (let k = hintKey replica key
      in case hints h k of
           None \<Rightarrow> h
         | Some current \<Rightarrow>
             if CompareVersion (VersionOf (HintValue current)) version \<noteq> 0 then h
             else h\<lparr>hints := (hints h)(k := None)\<rparr>)"

text \<open>
  One pass of the hand-off.  \<open>put\<close> is \<open>putReplica\<close>: it changes the world and says whether the
  replica acknowledged.
\<close>

fun flushLoop ::
  "(string \<Rightarrow> string \<Rightarrow> Value \<Rightarrow> 'w \<Rightarrow> 'w \<times> bool) \<Rightarrow> hint list \<Rightarrow> hintStore \<Rightarrow> 'w \<Rightarrow> hintStore \<times> 'w" where
  "flushLoop put [] h w = (h, w)"
| "flushLoop put (x # xs) h w =
     (case put (Replica x) (HintKey x) (HintValue x) w of
        (w', ok) \<Rightarrow>
          if \<not> ok then flushLoop put xs h w'
          else flushLoop put xs (RemoveIfMatch (Replica x) (HintKey x) (VersionOf (HintValue x)) h) w')"

definition flushHints ::
  "(string \<Rightarrow> string \<Rightarrow> Value \<Rightarrow> 'w \<Rightarrow> 'w \<times> bool) \<Rightarrow> string list \<Rightarrow> hintStore \<Rightarrow> 'w \<Rightarrow> hintStore \<times> 'w" where
  "flushHints put order h w = flushLoop put (hintList order h) h w"

subsection \<open>The store as a newer-wins register\<close>

text \<open>Keys are told apart as long as the name of the replica has no separator in it.\<close>

lemma hintKey_inject:
  assumes "CHR ''|'' \<notin> set r" "CHR ''|'' \<notin> set r'"
  shows "hintKey r k = hintKey r' k' \<longleftrightarrow> r = r' \<and> k = k'"
proof
  assume eq: "hintKey r k = hintKey r' k'"
  have "takeWhile (\<lambda>c. c \<noteq> CHR ''|'') (hintKey x y) = x" if "CHR ''|'' \<notin> set x" for x y
    using that by (auto simp: hintKey_def takeWhile_append)
  with eq assms have "r = r'" by metis
  with eq show "r = r' \<and> k = k'"
    by (simp add: hintKey_def)
qed simp

definition hintGet :: "hintStore \<Rightarrow> string \<times> string \<Rightarrow> Value option" where
  "hintGet h rk = map_option HintValue (hints h (hintKey (fst rk) (snd rk)))"

interpretation hint: newer_wins
  "\<lambda>rk v h. (hintAdd (fst rk) (snd rk) v h, None :: unit option)" hintGet "\<lambda>rk. CHR ''|'' \<notin> set (fst rk)"
  by unfold_locales
    (auto simp: hintAdd_def hintGet_def newer_def Let_def hintKey_inject prod_eq_iff split: option.splits)

text \<open>Every hint is filed under its own replica and key.\<close>

definition hints_ok :: "hintStore \<Rightarrow> bool" where
  "hints_ok h \<longleftrightarrow> (\<forall>k x. hints h k = Some x \<longrightarrow> k = hintKey (Replica x) (HintKey x))"

lemma hints_ok_operations:
  "hints_ok newHintStore" "hints_ok h \<Longrightarrow> hints_ok (hintAdd r k v h)" "hints_ok h \<Longrightarrow> hints_ok (RemoveIfMatch r k x h)"
  by (auto simp: hints_ok_def newHintStore_def hintAdd_def RemoveIfMatch_def Let_def split: option.splits)

subsection \<open>Hand-off\<close>

text \<open>
  What a client of the hand-off may rely on: an acknowledged write is at the replica, and later
  writes leave it there.  Then no hint disappears before its value has arrived.
\<close>

locale delivery =
  fixes put :: "string \<Rightarrow> string \<Rightarrow> Value \<Rightarrow> 'w \<Rightarrow> 'w \<times> bool"
    and arrived :: "string \<Rightarrow> string \<Rightarrow> Value \<Rightarrow> 'w \<Rightarrow> bool"
    and fine :: "string \<Rightarrow> Value \<Rightarrow> bool"
  assumes put_arrives: "fine k v \<Longrightarrow> put r k v w = (w', True) \<Longrightarrow> arrived r k v w'"
    and put_keeps: "put r k v w = (w', ok) \<Longrightarrow> arrived r' k' v' w \<Longrightarrow> arrived r' k' v' w'"
begin

lemma flushLoop_keeps: "flushLoop put xs h w = (h', w') \<Longrightarrow> arrived r k v w \<Longrightarrow> arrived r k v w'"
  by (induction xs arbitrary: h w) (auto split: prod.splits if_splits dest: put_keeps)

lemma flushLoop_safe:
  assumes "flushLoop put xs h w = (h', w')" "hints_ok h" "\<forall>y \<in> set xs. fine (HintKey y) (HintValue y)"
    and "hints h k = Some x" "hints h' k \<noteq> Some x"
  shows "\<exists>y \<in> set xs. hintKey (Replica y) (HintKey y) = k \<and> VersionOf (HintValue y) = VersionOf (HintValue x)
    \<and> arrived (Replica y) (HintKey y) (HintValue y) w'"
  using assms
proof (induction xs arbitrary: h w)
  case (Cons y xs)
  obtain w1 ok where p: "put (Replica y) (HintKey y) (HintValue y) w = (w1, ok)"
    by fastforce
  define h1 where "h1 = (if ok then RemoveIfMatch (Replica y) (HintKey y) (VersionOf (HintValue y)) h else h)"
  have fl: "flushLoop put xs h1 w1 = (h', w')"
    using Cons.prems(1) p by (auto simp: h1_def split: if_splits)
  have ok1: "hints_ok h1"
    using Cons.prems(2) hints_ok_operations by (simp add: h1_def)
  show ?case
  proof (cases "hints h1 k = Some x")
    case True
    from Cons.IH [OF fl ok1 _ True Cons.prems(5)] Cons.prems(3) show ?thesis
      by auto
  next
    case False
    with Cons.prems(4) have "ok" "hintKey (Replica y) (HintKey y) = k"
        "VersionOf (HintValue x) = VersionOf (HintValue y)"
      by (auto simp: h1_def RemoveIfMatch_def Let_def split: if_splits option.splits)
    moreover have "arrived (Replica y) (HintKey y) (HintValue y) w'"
      using flushLoop_keeps [OF fl] put_arrives [of "HintKey y" "HintValue y"] p \<open>ok\<close> Cons.prems(3) by auto
    ultimately show ?thesis
      by auto
  qed
qed simp

end

end
