(* ===== verification/Sha256.thy ===== *)
theory Sha256
  imports GoLib
begin

text \<open>
  \<open>crypto/sha256\<close> and \<open>encoding/hex\<close>: the digest of a byte slice, executable, its hexadecimal
  text and the check of such a text.
\<close>

definition shaK :: "u32 list" where
  "shaK =
    [
     0x428A2F98, 0x71374491, 0xB5C0FBCF, 0xE9B5DBA5, 0x3956C25B, 0x59F111F1, 0x923F82A4, 0xAB1C5ED5,
     0xD807AA98, 0x12835B01, 0x243185BE, 0x550C7DC3, 0x72BE5D74, 0x80DEB1FE, 0x9BDC06A7, 0xC19BF174,
     0xE49B69C1, 0xEFBE4786, 0x0FC19DC6, 0x240CA1CC, 0x2DE92C6F, 0x4A7484AA, 0x5CB0A9DC, 0x76F988DA,
     0x983E5152, 0xA831C66D, 0xB00327C8, 0xBF597FC7, 0xC6E00BF3, 0xD5A79147, 0x06CA6351, 0x14292967,
     0x27B70A85, 0x2E1B2138, 0x4D2C6DFC, 0x53380D13, 0x650A7354, 0x766A0ABB, 0x81C2C92E, 0x92722C85,
     0xA2BFE8A1, 0xA81A664B, 0xC24B8B70, 0xC76C51A3, 0xD192E819, 0xD6990624, 0xF40E3585, 0x106AA070,
     0x19A4C116, 0x1E376C08, 0x2748774C, 0x34B0BCB5, 0x391C0CB3, 0x4ED8AA4A, 0x5B9CCA4F, 0x682E6FF3,
     0x748F82EE, 0x78A5636F, 0x84C87814, 0x8CC70208, 0x90BEFFFA, 0xA4506CEB, 0xBEF9A3F7, 0xC67178F2]"

type_synonym shaState = "u32 \<times> u32 \<times> u32 \<times> u32 \<times> u32 \<times> u32 \<times> u32 \<times> u32"

definition shaInit :: shaState where
  "shaInit = (0x6A09E667, 0xBB67AE85, 0x3C6EF372, 0xA54FF53A, 0x510E527F, 0x9B05688C, 0x1F83D9AB, 0x5BE0CD19)"

definition shaPad :: "bytes \<Rightarrow> bytes" where
  "shaPad bs =
     (let n = length bs; bits = 8 * of_nat n :: u64
      in bs @ [0x80] @ replicate ((119 - n mod 64) mod 64) 0
         @ putUint32 (ucast (drop_bit 32 bits)) @ putUint32 (ucast bits))"

text \<open>The message schedule, newest word first.\<close>

definition shaNext :: "u32 list \<Rightarrow> u32 list" where
  "shaNext ws =
     (let x = ws ! 14; y = ws ! 1;
          s0 = word_rotr 7 x XOR word_rotr 18 x XOR drop_bit 3 x;
          s1 = word_rotr 17 y XOR word_rotr 19 y XOR drop_bit 10 y
      in (ws ! 15 + s0 + ws ! 6 + s1) # ws)"

fun shaWords :: "bytes \<Rightarrow> u32 list" where
  "shaWords (a # b # c # d # r) = getUint32 [a, b, c, d] # shaWords r"
| "shaWords _ = []"

definition shaSchedule :: "bytes \<Rightarrow> u32 list" where
  "shaSchedule block = rev ((shaNext ^^ 48) (rev (shaWords block)))"

definition shaRound :: "shaState \<Rightarrow> u32 \<times> u32 \<Rightarrow> shaState" where
  "shaRound s kw =
     (case (s, kw) of ((a, b, c, d, e, f, g, h), (k, w)) \<Rightarrow>
        let s1 = word_rotr 6 e XOR word_rotr 11 e XOR word_rotr 25 e;
            ch = (e AND f) XOR (NOT e AND g);
            t1 = h + s1 + ch + k + w;
            s0 = word_rotr 2 a XOR word_rotr 13 a XOR word_rotr 22 a;
            maj = (a AND b) XOR (a AND c) XOR (b AND c)
        in (t1 + (s0 + maj), a, b, c, d + t1, e, f, g))"

definition shaBlock :: "shaState \<Rightarrow> bytes \<Rightarrow> shaState" where
  "shaBlock s block =
     (case (s, foldl shaRound s (zip shaK (shaSchedule block))) of
        ((a, b, c, d, e, f, g, h), (a', b', c', d', e', f', g', h')) \<Rightarrow>
          (a + a', b + b', c + c', d + d', e + e', f + f', g + g', h + h'))"

function shaBlocks :: "shaState \<Rightarrow> bytes \<Rightarrow> shaState" where
  "shaBlocks s bs = (if length bs < 64 then s else shaBlocks (shaBlock s (take 64 bs)) (drop 64 bs))"
  by pat_completeness auto
termination by (relation "measure (\<lambda>(s, bs). length bs)") auto

declare shaBlocks.simps [simp del]

definition sha256 :: "bytes \<Rightarrow> bytes" where
  "sha256 bs =
     (case shaBlocks shaInit (shaPad bs) of (a, b, c, d, e, f, g, h) \<Rightarrow>
        concat (map putUint32 [a, b, c, d, e, f, g, h]))"

subsection \<open>Hexadecimal text\<close>

definition hexTable :: string where
  "hexTable = ''0123456789abcdef''"

definition hexEncode :: "bytes \<Rightarrow> string" where
  "hexEncode bs = concat (map (\<lambda>b. [hexTable ! (unat b div 16), hexTable ! (unat b mod 16)]) bs)"

definition isHex :: "char \<Rightarrow> bool" where
  "isHex c \<longleftrightarrow> c \<in> set hexTable \<or> c \<in> set ''ABCDEF''"

lemma length_sha256 [simp]: "length (sha256 bs) = 32"
  by (simp add: sha256_def split: prod.split)

lemma length_hexEncode [simp]: "length (hexEncode bs) = 2 * length bs"
  by (induction bs) (simp_all add: hexEncode_def)

lemma hexEncode_hex: "set (hexEncode bs) \<subseteq> set hexTable"
proof -
  have "unat b div 16 < length hexTable" "unat b mod 16 < length hexTable" for b :: u8
    using unsigned_less [of b, where 'a = nat] by (simp_all add: hexTable_def)
  then show ?thesis
    by (auto simp: hexEncode_def)
qed

lemma hexEncode_isHex: "list_all isHex (hexEncode bs)"
  using hexEncode_hex [of bs] by (auto simp: list_all_iff isHex_def)

end
