(* ===== verification/ChunkStore.thy ===== *)
theory ChunkStore
  imports Sha256 FileIO
begin

text \<open>
  The content addressed store of \<open>internal/chunk/store.go\<close>: one file for each chunk, under the
  hash of its bytes.  The store is the files below its root, by the components of their path, with
  their modification times, and the outcomes of the system calls to come; directories are not
  modelled.  The clock and the random name of a temporary file are arguments.  Each operation
  runs under the lock: readers write different files or the same bytes.
\<close>

record chunkFile =
  chunkBytes :: bytes
  modTime :: int

record chunkStore =
  chunkFiles :: "string list \<rightharpoonup> chunkFile"
  chunkCalls :: "fault list"

record SweepResult =
  Scanned :: int
  DeletedCount :: int
  Kept :: int

datatype chunkError =
    ChunkNotFound
  | ChunkRootEmpty
  | ChunkIo
  | ChunkInvalidLength nat
  | ChunkInvalidHex
  | ChunkMismatch string
  | ChunkUnexpectedId string string

definition chunkCall :: "chunkStore \<Rightarrow> fault \<times> chunkStore" where
  "chunkCall s = (case chunkCalls s of [] \<Rightarrow> (Fine, s) | x # xs \<Rightarrow> (x, s\<lparr>chunkCalls := xs\<rparr>))"

subsection \<open>The calls of the operating system\<close>

definition plainCall :: "chunkStore \<Rightarrow> chunkStore \<times> chunkError option" where
  "plainCall s = (case chunkCall s of (Fine, s') \<Rightarrow> (s', None) | (Fails _, s') \<Rightarrow> (s', Some ChunkIo))"

definition readFile :: "string list \<Rightarrow> chunkStore \<Rightarrow> chunkStore \<times> (chunkError + bytes)" where
  "readFile p s = (case chunkCall s of
      (Fails _, s') \<Rightarrow> (s', Inl ChunkIo)
    | (Fine, s') \<Rightarrow>
        (s', case chunkFiles s p of None \<Rightarrow> Inl ChunkNotFound | Some f \<Rightarrow> Inr (chunkBytes f)))"

definition chtimes :: "string list \<Rightarrow> int \<Rightarrow> chunkStore \<Rightarrow> chunkStore \<times> chunkError option" where
  "chtimes p now s = (case chunkCall s of
      (Fails _, s') \<Rightarrow> (s', Some ChunkIo)
    | (Fine, s') \<Rightarrow> (s'\<lparr>chunkFiles := (chunkFiles s)(p := map_option (\<lambda>f. f\<lparr>modTime := now\<rparr>) (chunkFiles s p))\<rparr>, None))"

text \<open>\<open>CreateTemp\<close> takes a name that is not in use, or gives up.\<close>

definition createTemp :: "string list \<Rightarrow> int \<Rightarrow> chunkStore \<Rightarrow> chunkStore \<times> chunkError option" where
  "createTemp p now s = (case chunkCall s of
      (Fails _, s') \<Rightarrow> (s', Some ChunkIo)
    | (Fine, s') \<Rightarrow>
        if chunkFiles s p \<noteq> None then (s', Some ChunkIo)
        else (s'\<lparr>chunkFiles := (chunkFiles s)(p \<mapsto> \<lparr>chunkBytes = [], modTime = now\<rparr>)\<rparr>, None))"

definition writeTemp :: "string list \<Rightarrow> bytes \<Rightarrow> int \<Rightarrow> chunkStore \<Rightarrow> chunkStore \<times> chunkError option" where
  "writeTemp p data now s = (case chunkCall s of
      (Fails k, s') \<Rightarrow> (s'\<lparr>chunkFiles := (chunkFiles s)(p \<mapsto> \<lparr>chunkBytes = take k data, modTime = now\<rparr>)\<rparr>, Some ChunkIo)
    | (Fine, s') \<Rightarrow> (s'\<lparr>chunkFiles := (chunkFiles s)(p \<mapsto> \<lparr>chunkBytes = data, modTime = now\<rparr>)\<rparr>, None))"

definition renameFile :: "string list \<Rightarrow> string list \<Rightarrow> chunkStore \<Rightarrow> chunkStore \<times> chunkError option" where
  "renameFile p q s = (case chunkCall s of
      (Fails _, s') \<Rightarrow> (s', Some ChunkIo)
    | (Fine, s') \<Rightarrow> (s'\<lparr>chunkFiles := (chunkFiles s)(p := None, q := chunkFiles s p)\<rparr>, None))"

definition removeFile :: "string list \<Rightarrow> chunkStore \<Rightarrow> chunkStore \<times> chunkError option" where
  "removeFile p s = (case chunkCall s of
      (Fails _, s') \<Rightarrow> (s', Some ChunkIo)
    | (Fine, s') \<Rightarrow>
        if chunkFiles s p = None then (s', Some ChunkNotFound)
        else (s'\<lparr>chunkFiles := (chunkFiles s)(p := None)\<rparr>, None))"

definition thenCall ::
  "chunkStore \<times> chunkError option \<Rightarrow> (chunkStore \<Rightarrow> chunkStore \<times> chunkError option) \<Rightarrow> chunkStore \<times> chunkError option" where
  "thenCall r f = (case r of (s, Some e) \<Rightarrow> (s, Some e) | (s, None) \<Rightarrow> f s)"

subsection \<open>Operations\<close>

definition ID :: "bytes \<Rightarrow> string" where
  "ID data = hexEncode (sha256 data)"

definition chunkDir :: "string \<Rightarrow> string list" where
  "chunkDir cid = [take 2 cid, take 2 (drop 2 cid)]"

definition chunkPath :: "string \<Rightarrow> string list" where
  "chunkPath cid = chunkDir cid @ [cid]"

definition validateID :: "string \<Rightarrow> chunkError option" where
  "validateID cid =
     (if length cid \<noteq> 64 then Some (ChunkInvalidLength (length cid))
      else if \<not> list_all isHex cid then Some ChunkInvalidHex
      else None)"

definition tempPath :: "string \<Rightarrow> string \<Rightarrow> string list" where
  "tempPath cid random = chunkDir cid @ [''.chunk-'' @ random @ ''.tmp'']"

definition chunkOpen :: "string \<Rightarrow> chunkStore \<Rightarrow> chunkStore \<times> chunkError option" where
  "chunkOpen root s = (if root = [] then (s, Some ChunkRootEmpty) else plainCall s)"

text \<open>The part of \<open>Put\<close> that writes the file; the temporary file goes away whatever happened.\<close>

definition writeChunk :: "string \<Rightarrow> int \<Rightarrow> string \<Rightarrow> bytes \<Rightarrow> chunkStore \<Rightarrow> chunkStore \<times> chunkError option" where
  "writeChunk random now cid data s =
     (let tmp = tempPath cid random
      in case thenCall (plainCall s) (createTemp tmp now) of
           (s1, Some e) \<Rightarrow> (s1, Some e)
         | (s1, None) \<Rightarrow>
             (case thenCall (thenCall (thenCall (writeTemp tmp data now s1) plainCall) plainCall)
                     (renameFile tmp (chunkPath cid)) of
                (s2, r) \<Rightarrow> (fst (removeFile tmp s2), r)))"

definition chunkPut :: "string \<Rightarrow> int \<Rightarrow> bytes \<Rightarrow> chunkStore \<Rightarrow> chunkStore \<times> (chunkError + string)" where
  "chunkPut random now data s =
     (let cid = ID data;
          write = (\<lambda>s. case writeChunk random now cid data s of
                     (s', Some e) \<Rightarrow> (s', Inl e) | (s', None) \<Rightarrow> (s', Inr cid))
      in case readFile (chunkPath cid) s of
           (s1, Inr existing) \<Rightarrow>
             if ID existing = cid
             then (case chtimes (chunkPath cid) now s1 of
                     (s2, Some e) \<Rightarrow> (s2, Inl e) | (s2, None) \<Rightarrow> (s2, Inr cid))
             else write s1
         | (s1, Inl ChunkNotFound) \<Rightarrow> write s1
         | (s1, Inl e) \<Rightarrow> (s1, Inl e))"

definition chunkGet :: "string \<Rightarrow> chunkStore \<Rightarrow> chunkStore \<times> (chunkError + bytes)" where
  "chunkGet cid s =
     (case validateID cid of
        Some e \<Rightarrow> (s, Inl e)
      | None \<Rightarrow>
          (case readFile (chunkPath cid) s of
             (s1, Inl e) \<Rightarrow> (s1, Inl e)
           | (s1, Inr data) \<Rightarrow> (s1, if ID data \<noteq> cid then Inl (ChunkMismatch cid) else Inr data)))"

definition chunkDelete :: "string \<Rightarrow> chunkStore \<Rightarrow> chunkStore \<times> chunkError option" where
  "chunkDelete cid s =
     (case validateID cid of
        Some e \<Rightarrow> (s, Some e)
      | None \<Rightarrow>
          (case removeFile (chunkPath cid) s of
             (s1, Some ChunkNotFound) \<Rightarrow> (s1, None)
           | r \<Rightarrow> r))"

definition chunkExists :: "string \<Rightarrow> chunkStore \<Rightarrow> chunkStore \<times> (chunkError + bool)" where
  "chunkExists cid s =
     (case validateID cid of
        Some e \<Rightarrow> (s, Inl e)
      | None \<Rightarrow>
          (case chunkCall s of
             (Fails _, s1) \<Rightarrow> (s1, Inl ChunkIo)
           | (Fine, s1) \<Rightarrow> (s1, Inr (chunkFiles s (chunkPath cid) \<noteq> None))))"

text \<open>
  \<open>WalkDir\<close> visits the files in the order of their paths; reading a directory may fail before
  each.  The name of a file is the last component of its path.
\<close>

definition walkOrder :: "chunkStore \<Rightarrow> string list list" where
  "walkOrder s = sorted_list_of_set (dom (chunkFiles s))"

fun idsLoop :: "string list list \<Rightarrow> string list \<Rightarrow> chunkStore \<Rightarrow> chunkStore \<times> (chunkError + string list)" where
  "idsLoop [] ids s = (s, Inr ids)"
| "idsLoop (p # ps) ids s =
     (case plainCall s of
        (s1, Some e) \<Rightarrow> (s1, Inl e)
      | (s1, None) \<Rightarrow> idsLoop ps (if validateID (last p) \<noteq> None then ids else ids @ [last p]) s1)"

definition chunkIDs :: "chunkStore \<Rightarrow> chunkStore \<times> (chunkError + string list)" where
  "chunkIDs s =
     (case idsLoop (walkOrder s) [] s of
        (s1, Inl e) \<Rightarrow> (s1, Inl e) | (s1, Inr ids) \<Rightarrow> (s1, Inr (sort ids)))"

fun sweepLoop ::
  "string set \<Rightarrow> int \<Rightarrow> string list list \<Rightarrow> SweepResult \<Rightarrow> chunkStore \<Rightarrow> chunkStore \<times> (chunkError + SweepResult)" where
  "sweepLoop live cutoff [] result s = (s, Inr result)"
| "sweepLoop live cutoff (p # ps) result s =
     (case plainCall s of
        (s1, Some e) \<Rightarrow> (s1, Inl e)
      | (s1, None) \<Rightarrow>
          if validateID (last p) \<noteq> None then sweepLoop live cutoff ps result s1
          else let result1 = result\<lparr>Scanned := Scanned result + 1\<rparr>
               in if last p \<in> live then sweepLoop live cutoff ps (result1\<lparr>Kept := Kept result + 1\<rparr>) s1
                  else (case plainCall s1 of
                          (s2, Some e) \<Rightarrow> (s2, Inl e)
                        | (s2, None) \<Rightarrow>
                            if \<not> modTime (the (chunkFiles s2 p)) < cutoff
                            then sweepLoop live cutoff ps (result1\<lparr>Kept := Kept result + 1\<rparr>) s2
                            else (case removeFile p s2 of
                                    (s3, Some e) \<Rightarrow> (s3, Inl e)
                                  | (s3, None) \<Rightarrow>
                                      sweepLoop live cutoff ps
                                        (result1\<lparr>DeletedCount := DeletedCount result + 1\<rparr>) s3)))"

definition Sweep :: "string set \<Rightarrow> int \<Rightarrow> chunkStore \<Rightarrow> chunkStore \<times> (chunkError + SweepResult)" where
  "Sweep live cutoff s = sweepLoop live cutoff (walkOrder s) \<lparr>Scanned = 0, DeletedCount = 0, Kept = 0\<rparr> s"

end
