(* ===== verification/Http.thy ===== *)
theory Http
  imports GoLib
begin

text \<open>
  What the handlers use of \<open>net/http\<close>: the methods, and a response as status and body.  An error
  response is its text and a line break.  The texts are not modelled where nothing depends on them.
\<close>

datatype httpMethod = MethodGet | MethodPut | MethodPost | MethodDelete | MethodOther

type_synonym response = "nat \<times> bytes"

definition httpError :: "string \<Rightarrow> nat \<Rightarrow> response" where
  "httpError msg code = (code, bytesOf msg @ [10])"

definition noContent :: response where
  "noContent = (204, [])"

lemmas answers = httpError_def noContent_def

definition trimPrefix :: "string \<Rightarrow> string \<Rightarrow> string" where
  "trimPrefix s prefix = (if take (length prefix) s = prefix then drop (length prefix) s else s)"

end
