(* ===== verification/Replication.thy ===== *)
theory Replication
  imports HashRing MemoryWrites Hints ChunkStore Membership Http
begin

text \<open>
  The replicated key-value store of \<open>internal/node/replication.go\<close> and \<open>version.go\<close>, with the
  internal handlers of \<open>handler.go\<close> it talks to.  A cluster maps addresses to nodes.  A
  request to another node is one step of that node; the network may lose the request or the
  reply.  The requests of one operation run in any order, an argument of the operation.  The
  locks \<open>configMu\<close> and the HTTP client have no state here, and the object store is two functions
  of the node.
\<close>

record Node =
  addr :: string
  ring :: Ring
  store :: Memory
  replicas :: int
  writeQuorum :: int
  readQuorum :: int
  version :: u64
  nodeHints :: hintStore
  chunks :: chunkStore
  ringVirtualNodes :: int
  configVersion :: u64
  detector :: failureDetector

type_synonym cluster = "string \<rightharpoonup> Node"

datatype rpc = Delivered | RequestLost | ReplyLost

datatype nodeError =
    NotEnoughReplicas
  | VersionQuorum
  | NoReplicas
  | ReadQuorum
  | WriteQuorum

subsection \<open>Requests\<close>

text \<open>
  \<open>fmt.Sprintf\<close> puts the key into the address as it is: the server sees what is left of it
  behind the parser of addresses.  A key with \<open>/\<close> or dots may make the router redirect, which
  is not modelled.
\<close>

fun unescape :: "string \<Rightarrow> string option" where
  "unescape [] = Some []"
| "unescape (c # r) =
     (if c \<noteq> CHR ''%'' then map_option (\<lambda>s. c # s) (unescape r)
      else case r of
        a # b # t \<Rightarrow>
          (case (hexVal (of_char a), hexVal (of_char b)) of
             (Some x, Some y) \<Rightarrow> map_option (\<lambda>s. char_of (16 * x + y) # s) (unescape t)
           | _ \<Rightarrow> None)
      | _ \<Rightarrow> None)"

definition isControl :: "char \<Rightarrow> bool" where
  "isControl c \<longleftrightarrow> (of_char c :: nat) < 32 \<or> (of_char c :: nat) = 127"

definition requestKey :: "string \<Rightarrow> string option" where
  "requestKey key =
     (let path = takeWhile (\<lambda>c. c \<noteq> CHR ''#'') key; fragment = dropWhile (\<lambda>c. c \<noteq> CHR ''#'') key
      in if list_ex isControl path \<or> unescape fragment = None then None
         else unescape (takeWhile (\<lambda>c. c \<noteq> CHR ''?'') path))"

text \<open>A \<open>Decoder\<close> reads the first value of its input and leaves the rest.\<close>

definition decodeStream :: "(json \<Rightarrow> 'a \<Rightarrow> 'a option) \<Rightarrow> bytes \<Rightarrow> 'a \<Rightarrow> 'a option" where
  "decodeStream dec bs s =
     (case parseValue (2 * length bs + 1) bs of None \<Rightarrow> None | Some (j, _) \<Rightarrow> dec j s)"

definition marshalValue :: "Value \<Rightarrow> bytes" where
  "marshalValue v = printJson (encodeValue v)"

definition handleInternalPut :: "string \<Rightarrow> bytes \<Rightarrow> Node \<Rightarrow> Node \<times> response" where
  "handleInternalPut key body n =
     (case decodeStream decodeValue body zeroValue of
        None \<Rightarrow> (n, httpError ''invalid value'' 400)
      | Some v \<Rightarrow>
          (case Set key v (store n) of
             (m, Some _) \<Rightarrow> (n\<lparr>store := m\<rparr>, httpError ''store value failed'' 500)
           | (m, None) \<Rightarrow> (n\<lparr>store := m\<rparr>, noContent)))"

definition handleInternalGet :: "string \<Rightarrow> Node \<Rightarrow> response" where
  "handleInternalGet key n =
     (case MemGet key (store n) of
        (v, ok) \<Rightarrow> if \<not> ok then httpError ''not found'' 404 else (200, marshalValue v @ [10]))"

text \<open>\<open>handleInternalKV\<close> for the two methods the nodes use.\<close>

definition internalPut :: "string \<Rightarrow> bytes \<Rightarrow> Node \<Rightarrow> Node \<times> response" where
  "internalPut key body n = (if key = [] then (n, httpError ''empty key,'' 400) else handleInternalPut key body n)"

definition internalGet :: "string \<Rightarrow> Node \<Rightarrow> response" where
  "internalGet key n = (if key = [] then httpError ''empty key,'' 400 else handleInternalGet key n)"

definition putReplica :: "rpc \<Rightarrow> string \<Rightarrow> string \<Rightarrow> string \<Rightarrow> Value \<Rightarrow> cluster \<Rightarrow> cluster \<times> bool" where
  "putReplica net me replica key v c =
     (if replica = me then
        (case c me of
           None \<Rightarrow> (c, False)
         | Some n \<Rightarrow> (case Set key v (store n) of (m, e) \<Rightarrow> (c(me \<mapsto> n\<lparr>store := m\<rparr>), e = None)))
      else case requestKey key of
        None \<Rightarrow> (c, False)
      | Some k \<Rightarrow>
          (case (net, c replica) of
             (RequestLost, _) \<Rightarrow> (c, False)
           | (_, None) \<Rightarrow> (c, False)
           | (_, Some n) \<Rightarrow>
               (case internalPut k (marshalValue v) n of
                  (n', status, body) \<Rightarrow> (c(replica \<mapsto> n'), net = Delivered \<and> status < 300))))"

text \<open>An error is \<open>None\<close>; the flag says whether the key was there.\<close>

definition getReplica :: "rpc \<Rightarrow> string \<Rightarrow> string \<Rightarrow> string \<Rightarrow> cluster \<Rightarrow> (Value \<times> bool) option" where
  "getReplica net me replica key c =
     (if replica = me then map_option (\<lambda>n. MemGet key (store n)) (c me)
      else case requestKey key of
        None \<Rightarrow> None
      | Some k \<Rightarrow>
          (case (net, c replica) of
             (Delivered, Some n) \<Rightarrow>
               (case internalGet k n of
                  (status, body) \<Rightarrow>
                    if status = 404 then Some (zeroValue, False)
                    else if status > 300 then None
                    else map_option (\<lambda>v. (v, True)) (decodeStream decodeValue body zeroValue))
           | _ \<Rightarrow> None))"

subsection \<open>Operations of the coordinator\<close>

definition replicasFor :: "string \<Rightarrow> Node \<Rightarrow> string list option" where
  "replicasFor key n = GetN key (replicas n) (ring n)"

definition addHint :: "string \<Rightarrow> string \<Rightarrow> string \<Rightarrow> Value \<Rightarrow> cluster \<Rightarrow> cluster" where
  "addHint me replica key v c =
     (case c me of None \<Rightarrow> c | Some n \<Rightarrow> c(me \<mapsto> n\<lparr>nodeHints := hintAdd replica key v (nodeHints n)\<rparr>))"

fun writeLoop ::
  "(string \<Rightarrow> rpc) \<Rightarrow> string \<Rightarrow> string \<Rightarrow> Value \<Rightarrow> string list \<Rightarrow> cluster \<Rightarrow> int \<Rightarrow> cluster \<times> int" where
  "writeLoop net me key v [] c success = (c, success)"
| "writeLoop net me key v (r # rs) c success =
     (case putReplica (net r) me r key v c of
        (c1, ok) \<Rightarrow>
          if \<not> ok then writeLoop net me key v rs (addHint me r key v c1) success
          else writeLoop net me key v rs c1 (success + 1))"

text \<open>\<open>arrive\<close> is the order in which the requests take effect.\<close>

definition replicateValue ::
  "(string list \<Rightarrow> string list) \<Rightarrow> (string \<Rightarrow> rpc) \<Rightarrow> string \<Rightarrow> string \<Rightarrow> Value \<Rightarrow> Node \<Rightarrow> string list \<Rightarrow> cluster
     \<Rightarrow> cluster \<times> bool" where
  "replicateValue arrive net me key v n rs c =
     (case writeLoop net me key v (arrive rs) c 0 of (c', success) \<Rightarrow> (c', success \<ge> writeQuorum n))"

text \<open>The reads of a quorum: the successful ones, in the order in which they arrive.\<close>

definition readAll ::
  "(string \<Rightarrow> rpc) \<Rightarrow> string \<Rightarrow> string \<Rightarrow> string list \<Rightarrow> cluster \<Rightarrow> (string \<times> Value \<times> bool) list" where
  "readAll net me key rs c =
     List.map_filter (\<lambda>r. map_option (\<lambda>vf. (r, vf)) (getReplica (net r) me r key c)) rs"

definition latestOf :: "(string \<times> Value \<times> bool) list \<Rightarrow> Value option" where
  "latestOf results =
     foldl (\<lambda>latest (r, v, found).
       if \<not> found then latest
       else case latest of None \<Rightarrow> Some v | Some l \<Rightarrow> if newer v l then Some v else latest) None results"

definition maxCounterOf :: "(string \<times> Value \<times> bool) list \<Rightarrow> u64" where
  "maxCounterOf results =
     foldl (\<lambda>m (r, v, found). if found \<and> Counter (VersionOf v) > m then Counter (VersionOf v) else m) 0 results"

definition nextVersion ::
  "(string list \<Rightarrow> string list) \<Rightarrow> (string \<Rightarrow> rpc) \<Rightarrow> string \<Rightarrow> string \<Rightarrow> Node \<Rightarrow> string list \<Rightarrow> cluster
     \<Rightarrow> cluster \<times> (nodeError + Version)" where
  "nextVersion arrive net me key n rs c =
     (if int (length rs) < readQuorum n then (c, Inl NotEnoughReplicas)
      else let results = readAll net me key (arrive rs) c
           in if int (length results) < readQuorum n then (c, Inl VersionQuorum)
              else let base = (if version n > maxCounterOf results then version n else maxCounterOf results);
                       next' = base + 1
                   in (c(me \<mapsto> n\<lparr>version := next'\<rparr>), Inr \<lparr>Counter = next', NodeID = addr n\<rparr>))"

text \<open>
  \<open>writeVersioned\<close> is the common part of \<open>Put\<close> and \<open>Delete\<close>.  The value \<open>None\<close> stands for a
  lookup in the ring that does not return, or for an address without a node.
\<close>

definition writeVersioned ::
  "(string list \<Rightarrow> string list) \<Rightarrow> (string \<Rightarrow> rpc) \<Rightarrow> (string \<Rightarrow> rpc) \<Rightarrow> string \<Rightarrow> string
     \<Rightarrow> (Version \<Rightarrow> Value) \<Rightarrow> cluster \<Rightarrow> (cluster \<times> nodeError option) option" where
  "writeVersioned arrive net1 net2 me key mk c =
     (case c me of
        None \<Rightarrow> None
      | Some n \<Rightarrow>
          case replicasFor key n of
            None \<Rightarrow> None
          | Some rs \<Rightarrow>
              (case nextVersion arrive net1 me key n rs c of
                 (c1, Inl e) \<Rightarrow> Some (c1, Some e)
               | (c1, Inr v) \<Rightarrow>
                   (case replicateValue arrive net2 me key (mk v) n rs c1 of
                      (c2, ok) \<Rightarrow> Some (c2, if ok then None else Some WriteQuorum))))"

definition NodePut ::
  "(string list \<Rightarrow> string list) \<Rightarrow> (string \<Rightarrow> rpc) \<Rightarrow> (string \<Rightarrow> rpc) \<Rightarrow> string \<Rightarrow> string \<Rightarrow> bytes option \<Rightarrow> cluster
     \<Rightarrow> (cluster \<times> nodeError option) option" where
  "NodePut arrive net1 net2 me key data c =
     writeVersioned arrive net1 net2 me key (\<lambda>v. \<lparr>Data = data, VersionOf = v, Deleted = False\<rparr>) c"

definition NodeDelete ::
  "(string list \<Rightarrow> string list) \<Rightarrow> (string \<Rightarrow> rpc) \<Rightarrow> (string \<Rightarrow> rpc) \<Rightarrow> string \<Rightarrow> string \<Rightarrow> cluster
     \<Rightarrow> (cluster \<times> nodeError option) option" where
  "NodeDelete arrive net1 net2 me key c =
     writeVersioned arrive net1 net2 me key (\<lambda>v. \<lparr>Data = None, VersionOf = v, Deleted = True\<rparr>) c"

definition repairReplica :: "rpc \<Rightarrow> string \<Rightarrow> string \<Rightarrow> string \<Rightarrow> Value \<Rightarrow> cluster \<Rightarrow> cluster" where
  [simp]: "repairReplica net me replica key v c = fst (putReplica net me replica key v c)"

fun repairLoop ::
  "(string \<Rightarrow> rpc) \<Rightarrow> string \<Rightarrow> string \<Rightarrow> Value \<Rightarrow> (string \<times> Value \<times> bool) list \<Rightarrow> cluster \<Rightarrow> cluster" where
  "repairLoop net me key latest [] c = c"
| "repairLoop net me key latest ((r, v, found) # rs) c =
     (if \<not> found \<or> newer latest v
      then repairLoop net me key latest rs (repairReplica (net r) me r key latest c)
      else repairLoop net me key latest rs c)"

definition NodeGet ::
  "(string list \<Rightarrow> string list) \<Rightarrow> (string \<Rightarrow> rpc) \<Rightarrow> (string \<Rightarrow> rpc) \<Rightarrow> string \<Rightarrow> string \<Rightarrow> cluster
     \<Rightarrow> (cluster \<times> (nodeError + bytes option \<times> bool)) option" where
  "NodeGet arrive net1 net2 me key c =
     (case c me of
        None \<Rightarrow> None
      | Some n \<Rightarrow>
          case replicasFor key n of
            None \<Rightarrow> None
          | Some rs \<Rightarrow>
              if length rs = 0 then Some (c, Inl NoReplicas)
              else let successful = readAll net1 me key (arrive rs) c
                   in if int (length successful) < readQuorum n then Some (c, Inl ReadQuorum)
                      else case latestOf successful of
                        None \<Rightarrow> Some (c, Inr (None, False))
                      | Some latest \<Rightarrow>
                          let c' = repairLoop net2 me key latest successful c
                          in if Deleted latest then Some (c', Inr (None, False))
                             else Some (c', Inr (Data latest, True)))"

end
