(* ===== verification/Quorum.thy ===== *)
theory Quorum
  imports Replication "HOL-Library.Multiset"
begin

text \<open>
  Quorums: what a write that was acknowledged leaves at the replicas, what reads see of it, the
  versions that are issued, and the hints that stand for the replicas that were missed.
\<close>

subsection \<open>Keys and values on the wire\<close>

definition plainKey :: "string \<Rightarrow> bool" where
  "plainKey key \<longleftrightarrow> key \<noteq> [] \<and> list_all (\<lambda>c. \<not> isControl c \<and> c \<notin> set ''%?#/.'') key"

lemma unescape_plain: "CHR ''%'' \<notin> set s \<Longrightarrow> unescape s = Some s"
  by (induction s) auto

lemma requestKey_plain: "plainKey key \<Longrightarrow> requestKey key = Some key"
proof -
  assume p: "plainKey key"
  have c: "CHR ''%'' \<notin> set key" "CHR ''?'' \<notin> set key" "CHR ''#'' \<notin> set key" "\<not> list_ex isControl key"
    using p by (auto simp: plainKey_def list_all_iff list_ex_iff)
  have f: "takeWhile (\<lambda>c. c \<noteq> CHR ''#'') key = key" "dropWhile (\<lambda>c. c \<noteq> CHR ''#'') key = []"
      "takeWhile (\<lambda>c. c \<noteq> CHR ''?'') key = key"
    using c by (auto simp: takeWhile_eq_all_conv dropWhile_eq_Nil_conv)
  show ?thesis
    unfolding requestKey_def Let_def f by (simp add: c unescape_plain)
qed

lemma decodeStream_value:
  assumes "goodValue v" "stops rest"
  shows "decodeStream decodeValue (marshalValue v @ rest) w = Some v"
proof -
  have "reads (encodeValue v)" "fuelFor (encodeValue v) \<le> 2 * length (printJson (encodeValue v))"
    by (simp_all add: reads_all fuelFor_length)
  with assms show ?thesis
    by (simp add: decodeStream_def marshalValue_def reads_def)
qed

subsection \<open>What a node holds\<close>

definition valueAt :: "cluster \<Rightarrow> string \<Rightarrow> string \<Rightarrow> Value option" where
  "valueAt c r key = (case c r of None \<Rightarrow> None | Some n \<Rightarrow> memData (store n) key)"

definition holds :: "cluster \<Rightarrow> string \<Rightarrow> string \<Rightarrow> Version \<Rightarrow> bool" where
  "holds c r key x \<longleftrightarrow> (\<exists>v. valueAt c r key = Some v \<and> x \<le> VersionOf v)"

definition grows :: "cluster \<Rightarrow> cluster \<Rightarrow> bool" where
  "grows c c' \<longleftrightarrow> (\<forall>r key v. valueAt c r key = Some v \<longrightarrow> (\<exists>w. valueAt c' r key = Some w \<and> VersionOf v \<le> VersionOf w))"

lemma grows_refl [simp]: "grows c c"
  by (simp add: grows_def)

lemma grows_trans: "grows c d \<Longrightarrow> grows d e \<Longrightarrow> grows c e"
  unfolding grows_def by (meson order_trans)

lemma holds_grows: "holds c r key x \<Longrightarrow> grows c c' \<Longrightarrow> holds c' r key x"
  unfolding holds_def grows_def by (meson order_trans)

text \<open>One node's store goes through \<open>Set\<close>.\<close>

lemma Set_grows:
  assumes "Set key v (store n) = (m, e)" "c r = Some n" "store n' = m"
  shows "grows c (c(r \<mapsto> n'))"
proof -
  have "\<exists>w. memData m k = Some w \<and> VersionOf x \<le> VersionOf w" if "memData (store n) k = Some x" for k x
    using mem.versions_grow [OF TrueI TrueI assms(1) that] .
  with assms(2,3) show ?thesis
    by (auto simp: grows_def valueAt_def)
qed

lemma grows_node: "c r = Some n \<Longrightarrow> store n' = store n \<Longrightarrow> grows c (c(r \<mapsto> n'))"
  by (auto simp: grows_def valueAt_def)

lemma internalPut_store:
  assumes "internalPut k body n = (n', status, answer)"
  shows "store n' = store n \<or> (\<exists>v e. Set k v (store n) = (store n', e))"
    and "status < 300 \<Longrightarrow> \<exists>v. decodeStream decodeValue body zeroValue = Some v \<and> Set k v (store n) = (store n', None)"
  using assms
  by (auto simp: internalPut_def handleInternalPut_def answers split: if_splits option.splits prod.splits)

lemma putReplica_grows: "putReplica net me r key v c = (c', ok) \<Longrightarrow> grows c c'"
  by (auto simp: putReplica_def split: if_splits option.splits prod.splits rpc.splits
      intro: Set_grows grows_node dest!: internalPut_store(1))

lemma Set_holds: "Set key v (store n) = (m, None) \<Longrightarrow> \<exists>w. memData m key = Some w \<and> VersionOf v \<le> VersionOf w"
  by (cases "memData (store n) key") (auto dest!: Set_ok)

lemma putReplica_holds:
  assumes "putReplica net me r key v c = (c', True)" "plainKey key" "goodValue v"
  shows "holds c' r key (VersionOf v)"
proof (cases "r = me")
  case True
  with assms(1) Set_holds show ?thesis
    by (auto simp: putReplica_def holds_def valueAt_def split: option.splits prod.splits)
next
  case False
  with assms(1) requestKey_plain [OF assms(2)] obtain n n' status answer where n: "c r = Some n"
      "internalPut key (marshalValue v) n = (n', status, answer)" "status < 300" "c' = c(r \<mapsto> n')"
    by (auto simp: putReplica_def split: option.splits prod.splits rpc.splits)
  obtain x where x: "decodeStream decodeValue (marshalValue v) zeroValue = Some x"
      "Set key x (store n) = (store n', None)"
    using internalPut_store(2) [OF n(2,3)] by blast
  with decodeStream_value [OF assms(3), of "[]" zeroValue] have "x = v"
    by simp
  with Set_holds [OF x(2)] n show ?thesis
    by (auto simp: holds_def valueAt_def)
qed

subsection \<open>Writes\<close>

lemma addHint_facts: "grows c (addHint me r key v c)" "valueAt (addHint me r key v c) q k = valueAt c q k"
  by (auto simp: addHint_def grows_def valueAt_def split: option.splits)

lemma writeLoop_grows: "writeLoop net me key v rs c s = (c', s') \<Longrightarrow> grows c c' \<and> s \<le> s'"
proof (induction rs arbitrary: c s)
  case (Cons r rs)
  obtain c1 ok where p: "putReplica (net r) me r key v c = (c1, ok)"
    by fastforce
  have g: "grows c c1"
    by (rule putReplica_grows [OF p])
  show ?case
  proof (cases ok)
    case True
    with Cons.prems p have "writeLoop net me key v rs c1 (s + 1) = (c', s')"
      by simp
    from Cons.IH [OF this] g show ?thesis
      using grows_trans by auto
  next
    case False
    with Cons.prems p have "writeLoop net me key v rs (addHint me r key v c1) s = (c', s')"
      by simp
    from Cons.IH [OF this] g show ?thesis
      using grows_trans addHint_facts(1) by blast
  qed
qed simp

lemma writeLoop_acks:
  assumes "writeLoop net me key v rs c s = (c', s')" "distinct rs" "plainKey key" "goodValue v"
  shows "s' - s \<le> int (card {r \<in> set rs. holds c' r key (VersionOf v)})"
  using assms
proof (induction rs arbitrary: c s)
  case (Cons r rs)
  let ?H = "\<lambda>rs. {r \<in> set rs. holds c' r key (VersionOf v)}"
  obtain c1 ok where p: "putReplica (net r) me r key v c = (c1, ok)"
    by fastforce
  show ?case
  proof (cases ok)
    case True
    with Cons.prems p have w: "writeLoop net me key v rs c1 (s + 1) = (c', s')"
      by simp
    have "putReplica (net r) me r key v c = (c1, True)"
      using p True by simp
    from holds_grows [OF putReplica_holds [OF this Cons.prems(3,4)]] writeLoop_grows [OF w]
    have "holds c' r key (VersionOf v)"
      by simp
    then have "?H (r # rs) = insert r (?H rs)"
      by auto
    with Cons.IH [OF w] Cons.prems show ?thesis
      by simp
  next
    case False
    with Cons.prems p have w: "writeLoop net me key v rs (addHint me r key v c1) s = (c', s')"
      by simp
    have "card (?H rs) \<le> card (?H (r # rs))"
      by (rule card_mono) auto
    with Cons.IH [OF w] Cons.prems show ?thesis
      by simp
  qed
qed simp

text \<open>A coordinator's hint for a replica.\<close>

definition hinted :: "cluster \<Rightarrow> string \<Rightarrow> string \<Rightarrow> string \<Rightarrow> Version \<Rightarrow> bool" where
  "hinted c me r key x \<longleftrightarrow>
     (\<exists>n v. c me = Some n \<and> hintGet (nodeHints n) (r, key) = Some v \<and> x \<le> VersionOf v)"

lemma putReplica_hints:
  assumes "putReplica net me r key v c = (c', ok)"
  shows "map_option nodeHints (c' q) = map_option nodeHints (c q)"
  using assms
  by (auto simp: putReplica_def internalPut_def handleInternalPut_def answers split: if_splits option.splits prod.splits rpc.splits)

lemma hinted_put:
  assumes "hinted c me r key x" "putReplica net me q k v c = (c', ok)"
  shows "hinted c' me r key x"
  using assms(1) putReplica_hints [OF assms(2), of me] by (auto simp: hinted_def)

lemma hinted_add:
  assumes "hinted c me r key x" "CHR ''|'' \<notin> set r" "CHR ''|'' \<notin> set q"
  shows "hinted (addHint me q k v c) me r key x"
proof -
  from assms(1) obtain n w where n: "c me = Some n" "hintGet (nodeHints n) (r, key) = Some w" "x \<le> VersionOf w"
    by (auto simp: hinted_def)
  from hint.versions_grow [of "(q, k)" "(r, key)" v "nodeHints n", OF _ _ refl n(2)] assms(2,3)
  obtain w' where "hintGet (hintAdd q k v (nodeHints n)) (r, key) = Some w'" "VersionOf w \<le> VersionOf w'"
    by auto
  with n show ?thesis
    by (auto simp: hinted_def addHint_def intro: order_trans)
qed

lemma hinted_added:
  assumes "c me \<noteq> None" "CHR ''|'' \<notin> set r"
  shows "hinted (addHint me r key v c) me r key (VersionOf v)"
proof -
  from assms(1) obtain n where n: "c me = Some n"
    by auto
  from hint.put_ok [of "(r, key)" "(r, key)" v "nodeHints n", OF _ _ refl] assms(2)
  have "hintGet (hintAdd r key v (nodeHints n)) (r, key) = Some (newest (hintGet (nodeHints n) (r, key)) v)"
    by simp
  with n show ?thesis
    by (cases "hintGet (nodeHints n) (r, key)") (auto simp: hinted_def addHint_def not_less)
qed

lemma putReplica_alive: "putReplica net me r key v c = (c', ok) \<Longrightarrow> c q \<noteq> None \<Longrightarrow> c' q \<noteq> None"
  using putReplica_hints by (metis map_option_is_None)

lemma addHint_alive: "c q \<noteq> None \<Longrightarrow> addHint me r key v c q \<noteq> None"
  by (auto simp: addHint_def split: option.splits)

lemma writeLoop_hinted:
  assumes "writeLoop net me key v rs c s = (c', s')" "hinted c me r key x" "CHR ''|'' \<notin> set r"
    and "\<forall>q \<in> set rs. CHR ''|'' \<notin> set q"
  shows "hinted c' me r key x"
  using assms
proof (induction rs arbitrary: c s)
  case (Cons q rs)
  obtain c1 ok where p: "putReplica (net q) me q key v c = (c1, ok)"
    by fastforce
  have "hinted c1 me r key x"
    by (rule hinted_put [OF Cons.prems(2) p])
  with Cons p show ?case
    by (cases ok) (auto simp: hinted_add)
qed simp

lemma writeLoop_covers:
  assumes "writeLoop net me key v rs c s = (c', s')" "c me \<noteq> None" "plainKey key" "goodValue v"
    and "\<forall>q \<in> set rs. CHR ''|'' \<notin> set q"
  shows "\<forall>r \<in> set rs. holds c' r key (VersionOf v) \<or> hinted c' me r key (VersionOf v)"
  using assms
proof (induction rs arbitrary: c s)
  case (Cons q rs)
  obtain c1 ok where p: "putReplica (net q) me q key v c = (c1, ok)"
    by fastforce
  have a: "c1 me \<noteq> None"
    using putReplica_alive [OF p Cons.prems(2)] .
  show ?case
  proof (cases ok)
    case True
    with Cons.prems p have w: "writeLoop net me key v rs c1 (s + 1) = (c', s')"
      by simp
    have "putReplica (net q) me q key v c = (c1, True)"
      using p True by simp
    from holds_grows [OF putReplica_holds [OF this Cons.prems(3,4)]] writeLoop_grows [OF w]
    have "holds c' q key (VersionOf v)"
      by simp
    with Cons.IH [OF w a] Cons.prems show ?thesis
      by simp
  next
    case False
    with Cons.prems p have w: "writeLoop net me key v rs (addHint me q key v c1) s = (c', s')"
      by simp
    have "hinted (addHint me q key v c1) me q key (VersionOf v)"
      using hinted_added [where c = c1 and me = me, OF a] Cons.prems(5) by simp
    then have "hinted c' me q key (VersionOf v)"
      using writeLoop_hinted [OF w] Cons.prems(5) by simp
    with Cons.IH [OF w addHint_alive [where q = me and c = c1, OF a]] Cons.prems show ?thesis
      by simp
  qed
qed simp

subsection \<open>Reads\<close>

definition goodAt :: "cluster \<Rightarrow> string \<Rightarrow> bool" where
  "goodAt c key \<longleftrightarrow> (\<forall>r v. valueAt c r key = Some v \<longrightarrow> goodValue v)"

lemma getReplica_value:
  assumes "getReplica net me r key c = Some (v, found)" "plainKey key" "goodAt c key"
  shows "if found then valueAt c r key = Some v else valueAt c r key = None"
proof (cases "r = me")
  case True
  with assms(1) show ?thesis
    by (auto simp: getReplica_def MemGet_def valueAt_def split: option.splits)
next
  case False
  with assms(1) requestKey_plain [OF assms(2)] obtain n status body where n: "net = Delivered" "c r = Some n"
      "internalGet key n = (status, body)"
      "status = 404 \<and> \<not> found \<or> status \<noteq> 404 \<and> \<not> status > 300 \<and> found \<and> decodeStream decodeValue body zeroValue = Some v"
    by (auto simp: getReplica_def split: option.splits prod.splits rpc.splits if_splits)
  have "key \<noteq> []"
    using assms(2) by (simp add: plainKey_def)
  then show ?thesis
  proof (cases "memData (store n) key")
    case None
    with n \<open>key \<noteq> []\<close> show ?thesis
      by (auto simp: internalGet_def handleInternalGet_def answers MemGet_def valueAt_def)
  next
    case (Some x)
    then have "valueAt c r key = Some x"
      using n(2) by (simp add: valueAt_def)
    then have "goodValue x"
      using assms(3) by (auto simp: goodAt_def)
    from decodeStream_value [OF this, of "[10]" zeroValue] n \<open>key \<noteq> []\<close> Some show ?thesis
      by (auto simp: internalGet_def handleInternalGet_def answers MemGet_def valueAt_def stops_def)
  qed
qed

lemma readAll_entries:
  assumes "(r, v, found) \<in> set (readAll net me key rs c)"
  shows "r \<in> set rs \<and> getReplica (net r) me r key c = Some (v, found)"
  using assms by (auto simp: readAll_def List.map_filter_def)

lemma readAll_replicas:
  "distinct rs \<Longrightarrow> distinct (map fst (readAll net me key rs c))"
  "set (map fst (readAll net me key rs c)) \<subseteq> set rs"
proof -
  have "map fst (readAll net me key rs c) = filter (\<lambda>r. getReplica (net r) me r key c \<noteq> None) rs"
    by (induction rs) (auto simp: readAll_def List.map_filter_simps split: option.splits)
  then show "distinct rs \<Longrightarrow> distinct (map fst (readAll net me key rs c))"
      "set (map fst (readAll net me key rs c)) \<subseteq> set rs"
    by auto
qed

lemma latestOf_snoc:
  "latestOf (xs @ [(r, v, found)]) =
     (if \<not> found then latestOf xs
      else case latestOf xs of None \<Rightarrow> Some v | Some l \<Rightarrow> if newer v l then Some v else latestOf xs)"
  by (simp add: latestOf_def split: option.split)

lemma latestOf_max:
  "(case latestOf xs of
      None \<Rightarrow> \<forall>(r, v, found) \<in> set xs. \<not> found
    | Some l \<Rightarrow> (\<exists>r. (r, l, True) \<in> set xs) \<and> (\<forall>(r, v, found) \<in> set xs. found \<longrightarrow> VersionOf v \<le> VersionOf l))"
proof (induction xs rule: rev_induct)
  case (snoc x xs)
  obtain r v found where x: "x = (r, v, found)"
    by (cases x)
  show ?case
  proof (cases "latestOf xs")
    case None
    with snoc show ?thesis
      by (cases found) (auto simp: x latestOf_snoc)
  next
    case (Some l)
    with snoc show ?thesis
      by (cases found) (fastforce simp: x latestOf_snoc newer_def not_less)+
  qed
qed (simp add: latestOf_def)

lemma maxCounterOf_max:
  "\<forall>(r, v, found) \<in> set xs. found \<longrightarrow> Counter (VersionOf v) \<le> maxCounterOf xs"
proof (induction xs rule: rev_induct)
  case (snoc x xs)
  obtain r v found where x: "x = (r, v, found)"
    by (cases x)
  have m: "maxCounterOf (xs @ [x]) =
      (if found \<and> Counter (VersionOf v) > maxCounterOf xs then Counter (VersionOf v) else maxCounterOf xs)"
    by (simp add: maxCounterOf_def x)
  show ?case
    unfolding m using snoc by (auto simp: x dest: order_trans [OF _ less_imp_le])
qed (simp add: maxCounterOf_def)

text \<open>Two majorities of one replica set meet.\<close>

lemma quorums_meet:
  assumes "A \<subseteq> S" "B \<subseteq> S" "finite S" "card A + card B > card S"
  shows "\<exists>r. r \<in> A \<and> r \<in> B"
proof (rule ccontr)
  assume "\<not> ?thesis"
  then have "A \<inter> B = {}" by auto
  with assms have "card (A \<union> B) = card A + card B"
    by (meson card_Un_disjoint finite_subset)
  moreover have "card (A \<union> B) \<le> card S"
    using assms by (intro card_mono) auto
  ultimately show False
    using assms(4) by simp
qed

lemma getReplica_present: "getReplica net me r key c = Some x \<Longrightarrow> c r \<noteq> None"
  by (auto simp: getReplica_def split: if_splits option.splits rpc.splits)

text \<open>A replica that is down does not count against the read: it answers nothing.\<close>

lemma read_meets_present:
  assumes "W \<le> card {r \<in> set rs. c r \<noteq> None \<longrightarrow> holds c r key x}" "distinct rs" "mset order = mset rs"
    and "length rs < W + length (readAll net me key order c)" "plainKey key" "goodAt c key"
  shows "\<exists>r v. (r, v, True) \<in> set (readAll net me key order c) \<and> valueAt c r key = Some v \<and> x \<le> VersionOf v"
proof -
  let ?res = "readAll net me key order c"
  have o: "distinct order" "set order = set rs"
    using assms(2,3) by (metis mset_eq_imp_distinct_iff, metis mset_eq_setD)
  have "card (set (map fst ?res)) = length ?res"
    using readAll_replicas(1) [OF o(1)] by (metis distinct_card length_map)
  moreover have "card (set rs) = length rs"
    using assms(2) by (rule distinct_card)
  ultimately obtain r where r: "c r \<noteq> None \<longrightarrow> holds c r key x" "r \<in> set (map fst ?res)"
    using quorums_meet [of "{r \<in> set rs. c r \<noteq> None \<longrightarrow> holds c r key x}" "set rs" "set (map fst ?res)"] assms(1,4)
      readAll_replicas(2) [of net me key order c] o(2) by auto
  then obtain v found where e: "(r, v, found) \<in> set ?res"
    by auto
  with getReplica_present readAll_entries [OF e] r(1) have "holds c r key x"
    by blast
  then obtain w where w: "valueAt c r key = Some w" "x \<le> VersionOf w"
    by (auto simp: holds_def)
  with getReplica_value [OF _ assms(5,6)] readAll_entries [OF e] have "found" "v = w"
    by (force split: if_splits)+
  with e w show ?thesis
    by auto
qed

lemma read_meets_write:
  assumes "W \<le> card {r \<in> set rs. holds c r key x}" "distinct rs" "mset order = mset rs"
    and "length rs < W + length (readAll net me key order c)" "plainKey key" "goodAt c key"
  shows "\<exists>r v. (r, v, True) \<in> set (readAll net me key order c) \<and> valueAt c r key = Some v \<and> x \<le> VersionOf v"
proof (rule read_meets_present [OF _ assms(2-6)])
  have "card {r \<in> set rs. holds c r key x} \<le> card {r \<in> set rs. c r \<noteq> None \<longrightarrow> holds c r key x}"
    by (rule card_mono) auto
  with assms(1) show "W \<le> card {r \<in> set rs. c r \<noteq> None \<longrightarrow> holds c r key x}"
    by simp
qed

end
