(* ===== verification/QuorumProps.thy ===== *)
theory QuorumProps
  imports Quorum RingChange
begin

text \<open>
  The properties of the replicated store: a read sees what was acknowledged, versions go up,
  what is not at a replica is in a hint, hints do not vanish, and keys the address syntax cuts.
\<close>

subsection \<open>Replica sets\<close>

lemma getNLoop_shape:
  assumes "getNLoop r n idx seen result = Some y"
    and "distinct result" "set result = seen" "int (length result) \<le> n"
  shows "distinct y \<and> int (length y) \<le> n"
proof -
  let ?P = "\<lambda>r n idx seen result y.
    distinct result \<longrightarrow> set result = seen \<longrightarrow> int (length result) \<le> n \<longrightarrow> distinct y \<and> int (length y) \<le> n"
  have "?P r n idx seen result y"
  proof (rule getNLoop.raw_induct [where P = ?P, OF _ assms(1)])
    fix loop r n idx seen result y
    assume IH: "\<And>r n idx seen result y. loop r n idx seen result = Some y \<Longrightarrow> ?P r n idx seen result y"
      and eq: "(if int (length result) < n \<and> card seen < card (dom (nodes r))
        then loop r n (if idx + 1 = length (hashes r) then 0 else idx + 1)
               (insert (mapGet (nodes r) (hashes r ! idx)) seen)
               (if mapGet (nodes r) (hashes r ! idx) \<in> seen then result
                else result @ [mapGet (nodes r) (hashes r ! idx)])
        else Some result) = Some y"
    show "?P r n idx seen result y"
    proof (cases "int (length result) < n \<and> card seen < card (dom (nodes r))")
      case True
      with eq IH [of r n "if idx + 1 = length (hashes r) then 0 else idx + 1"
          "insert (mapGet (nodes r) (hashes r ! idx)) seen"
          "if mapGet (nodes r) (hashes r ! idx) \<in> seen then result else result @ [mapGet (nodes r) (hashes r ! idx)]" y]
      show ?thesis
        by (cases "mapGet (nodes r) (hashes r ! idx) \<in> seen") auto
    next
      case False
      with eq show ?thesis by simp
    qed
  qed
  with assms show ?thesis by blast
qed

lemma replicasFor_shape:
  assumes "replicasFor key n = Some rs"
  shows "distinct rs \<and> (rs \<noteq> [] \<longrightarrow> int (length rs) \<le> replicas n)"
proof (cases "length (hashes (ring n)) = 0 \<or> replicas n \<le> 0")
  case True
  with assms show ?thesis
    by (auto simp: replicasFor_def GetN_def)
next
  case False
  with assms getNLoop_shape [of "ring n" _ _ "{}" "[]" rs] show ?thesis
    by (fastforce simp: replicasFor_def GetN_def split: if_splits)
qed

lemma word_less_plus_one: "a + 1 \<noteq> 0 \<Longrightarrow> a < a + (1 :: u64)"
  by (simp add: word_less_nat_alt unatSuc add.commute)

subsection \<open>Issued versions and acknowledged writes\<close>

text \<open>The cluster a write of the version it issued leaves behind.\<close>

lemma writeVersioned_cases:
  assumes "writeVersioned arrive net1 net2 me key mk c = Some (c', e)"
  obtains (noVersion) n rs x where "c me = Some n" "replicasFor key n = Some rs" "c' = c" "e = Some x"
      "x \<noteq> WriteQuorum"
  | (written) n rs v c1 s where "c me = Some n" "replicasFor key n = Some rs"
      "nextVersion arrive net1 me key n rs c = (c1, Inr v)"
      "writeLoop net2 me key (mk v) (arrive rs) c1 0 = (c', s)"
      "e = (if s \<ge> writeQuorum n then None else Some WriteQuorum)"
  using assms
  by (auto simp: writeVersioned_def replicateValue_def nextVersion_def Let_def
      split: option.splits prod.splits sum.splits if_splits)

lemma nextVersion_result:
  assumes "nextVersion arrive net me key n rs c = (c1, Inr v)" "c me = Some n"
  shows "NodeID v = addr n" "grows c c1" "\<exists>n'. c1 = c(me \<mapsto> n') \<and> version n' = Counter v \<and> store n' = store n"
    and "int (length rs) \<ge> readQuorum n" "int (length (readAll net me key (arrive rs) c)) \<ge> readQuorum n"
    and "Counter v = max (version n) (maxCounterOf (readAll net me key (arrive rs) c)) + 1"
  using assms
  by (auto simp: nextVersion_def Let_def max_def intro: grows_node split: if_splits)

lemma putReplica_version: "putReplica net me r key v c = (c', ok) \<Longrightarrow>
    map_option version (c' q) = map_option version (c q)"
  by (auto simp: putReplica_def internalPut_def handleInternalPut_def answers split: if_splits option.splits prod.splits rpc.splits)

lemma writeLoop_version:
  "writeLoop net me key v rs c s = (c', s') \<Longrightarrow> map_option version (c' q) = map_option version (c q)"
proof (induction rs arbitrary: c s)
  case (Cons r rs)
  obtain c1 ok where p: "putReplica (net r) me r key v c = (c1, ok)"
    by fastforce
  have "map_option version (addHint me r key v c1 q) = map_option version (c1 q)"
    by (auto simp: addHint_def split: option.splits)
  with Cons p putReplica_version [OF p, of q] show ?case
    by (cases ok) auto
qed simp

text \<open>What both writes are: a value of the issued version, acknowledged by a quorum.\<close>

definition isWrite ::
  "(string list \<Rightarrow> string list) \<Rightarrow> (string \<Rightarrow> rpc) \<Rightarrow> (string \<Rightarrow> rpc) \<Rightarrow> string \<Rightarrow> string
     \<Rightarrow> cluster \<Rightarrow> cluster \<Rightarrow> nodeError option \<Rightarrow> bool" where
  "isWrite arrive net1 net2 me key c c1 e \<longleftrightarrow>
     (\<exists>data. NodePut arrive net1 net2 me key data c = Some (c1, e))
     \<or> NodeDelete arrive net1 net2 me key c = Some (c1, e)"

lemma isWrite_mk:
  assumes "isWrite arrive net1 net2 me key c c1 e"
  obtains mk where "writeVersioned arrive net1 net2 me key mk c = Some (c1, e)" "\<And>v. VersionOf (mk v) = v"
proof -
  consider data where "NodePut arrive net1 net2 me key data c = Some (c1, e)"
    | "NodeDelete arrive net1 net2 me key c = Some (c1, e)"
    using assms by (auto simp: isWrite_def)
  then show ?thesis
  proof cases
    case (1 data)
    then show ?thesis
      by (intro that [of "\<lambda>v. \<lparr>Data = data, VersionOf = v, Deleted = False\<rparr>"]) (simp_all add: NodePut_def)
  next
    case 2
    then show ?thesis
      by (intro that [of "\<lambda>v. \<lparr>Data = None, VersionOf = v, Deleted = True\<rparr>"]) (simp_all add: NodeDelete_def)
  qed
qed

lemma write_result:
  assumes "isWrite arrive net1 net2 me key c c1 e" "e = None \<or> e = Some WriteQuorum"
    and "plainKey key" "\<And>xs. mset (arrive xs) = mset xs" "c me = Some n" "goodString (addr n)"
    and "replicasFor key n = Some rs" "c1 me = Some n1"
  defines "v \<equiv> \<lparr>Counter = version n1, NodeID = addr n\<rparr>"
  shows "e = None \<longrightarrow> writeQuorum n \<le> int (card {r \<in> set rs. holds c1 r key v})"
    and "(\<forall>q \<in> set rs. CHR ''|'' \<notin> set q) \<longrightarrow> (\<forall>r \<in> set rs. holds c1 r key v \<or> hinted c1 me r key v)"
    and "grows c c1"
proof -
  obtain mk where mk: "writeVersioned arrive net1 net2 me key mk c = Some (c1, e)" "\<And>v. VersionOf (mk v) = v"
    using isWrite_mk [OF assms(1)] by blast
  obtain x c2 s where w: "nextVersion arrive net1 me key n rs c = (c2, Inr x)"
      "writeLoop net2 me key (mk x) (arrive rs) c2 0 = (c1, s)"
      "e = (if s \<ge> writeQuorum n then None else Some WriteQuorum)"
    by (rule writeVersioned_cases [OF mk(1)]) (use assms(2,5,7) in auto)
  note nv = nextVersion_result [OF w(1) assms(5)]
  obtain n' where n': "c2 = c(me \<mapsto> n')" "version n' = Counter x"
    using nv(3) by blast
  then have x: "x = v"
    using writeLoop_version [OF w(2), of me] nv(1) assms(8) by (simp add: v_def)
  have good: "goodValue (mk x)"
    using assms(6) nv(1) mk(2) by (simp add: goodValue_def goodVersion_def)
  have arr: "distinct (arrive rs)" "set (arrive rs) = set rs"
    using replicasFor_shape [OF assms(7)] assms(4) mset_eq_imp_distinct_iff mset_eq_setD by (metis, metis)
  show "e = None \<longrightarrow> writeQuorum n \<le> int (card {r \<in> set rs. holds c1 r key v})"
    using writeLoop_acks [OF w(2) arr(1) assms(3) good] w(3) mk(2) x arr(2) by (auto split: if_splits)
  show "(\<forall>q \<in> set rs. CHR ''|'' \<notin> set q) \<longrightarrow> (\<forall>r \<in> set rs. holds c1 r key v \<or> hinted c1 me r key v)"
    using writeLoop_covers [OF w(2) _ assms(3) good] mk(2) x arr(2) n' by auto
  show "grows c c1"
    using writeLoop_grows [OF w(2)] nv(2) grows_trans by blast
qed

text \<open>A read that reaches its quorum meets every version that enough of the replicas hold.\<close>

lemma read_sees:
  assumes "W \<le> card {r \<in> set rs. c r \<noteq> None \<longrightarrow> holds c r key x}"
    and "c me = Some n" "replicasFor key n = Some rs" "int (length rs) < int W + readQuorum n"
    and "\<And>xs. mset (arrive xs) = mset xs" "plainKey key" "goodAt c key"
    and "NodeGet arrive net1 net2 me key c = Some (c', Inr (d, found))"
  shows "\<exists>r y. valueAt c r key = Some y \<and> x \<le> VersionOf y
    \<and> (d, found) = (if Deleted y then (None, False) else (Data y, True))"
proof -
  let ?res = "readAll net1 me key (arrive rs) c"
  have R: "int (length ?res) \<ge> readQuorum n"
    using assms(2,3,8) by (auto simp: NodeGet_def Let_def split: if_splits option.splits)
  have "distinct rs"
    using replicasFor_shape assms(3) by blast
  moreover have "length rs < W + length ?res"
    using assms(4) R by linarith
  ultimately obtain r y where ry: "(r, y, True) \<in> set ?res" "x \<le> VersionOf y"
    using read_meets_present [OF assms(1) _ assms(5) _ assms(6,7)] by blast
  then obtain l where l: "latestOf ?res = Some l" "VersionOf y \<le> VersionOf l" "\<exists>q. (q, l, True) \<in> set ?res"
    using latestOf_max [of ?res] by (cases "latestOf ?res") fastforce+
  from l(3) obtain q where "getReplica (net1 q) me q key c = Some (l, True)"
    using readAll_entries by blast
  from getReplica_value [OF this assms(6,7)] have "valueAt c q key = Some l"
    by simp
  moreover have "(d, found) = (if Deleted l then (None, False) else (Data l, True))"
    using assms(2,3,8) l(1) R by (auto simp: NodeGet_def Let_def split: if_splits)
  ultimately show ?thesis
    using ry(2) l(2) order_trans by blast
qed

text \<open>A read sees what was acknowledged: after a \<open>Put\<close> or \<open>Delete\<close> that returned without an
  error, and whatever further writes and repairs the replicas took, a \<open>Get\<close> by any node with the
  same replica set that reaches its quorum answers a value stored at a replica whose version is not
  older than the acknowledged one, provided the two quorums together exceed the replicas.\<close>
theorem acknowledged_write_is_read:
  assumes "isWrite arrive net1 net2 me key c c1 None" "plainKey key" "\<And>xs. mset (arrive xs) = mset xs"
    and "c me = Some n" "goodString (addr n)" "replicasFor key n = Some rs" "c1 me = Some n1"
    and "grows c1 c2" "goodAt c2 key"
    and "c2 me2 = Some n2" "replicasFor key n2 = Some rs2" "set rs2 = set rs"
    and "writeQuorum n + readQuorum n2 > int (length rs)" "\<And>xs. mset (arrive' xs) = mset xs"
    and "NodeGet arrive' net1' net2' me2 key c2 = Some (c3, Inr (d, found))"
  shows "\<exists>r x. valueAt c2 r key = Some x \<and> \<lparr>Counter = version n1, NodeID = addr n\<rparr> \<le> VersionOf x
    \<and> (d, found) = (if Deleted x then (None, False) else (Data x, True))"
proof -
  let ?v = "\<lparr>Counter = version n1, NodeID = addr n\<rparr>"
  let ?W = "card {r \<in> set rs2. c2 r \<noteq> None \<longrightarrow> holds c2 r key ?v}"
  have "writeQuorum n \<le> int (card {r \<in> set rs. holds c1 r key ?v})"
    using write_result(1) [OF assms(1) _ assms(2-7)] by simp
  also have "\<dots> \<le> int ?W"
    using assms(8,12) holds_grows by (intro of_nat_mono card_mono) auto
  finally have W: "writeQuorum n \<le> int ?W" .
  have "length rs2 = length rs"
    using replicasFor_shape assms(6,11,12) by (metis distinct_card)
  with assms(13) W have "int (length rs2) < int ?W + readQuorum n2"
    by linarith
  from read_sees [OF order_refl assms(10,11) this assms(14,2,9,15)] show ?thesis .
qed

text \<open>Versions go up: the version a node issues after a quorum of reads is larger, by its
  counter, than that of every write acknowledged before for the key at the same replica set, as
  long as no counter has reached the largest number, after which it wraps to 0.\<close>
theorem issued_version_exceeds:
  assumes "isWrite arrive net1 net2 me key c c1 None" "plainKey key" "\<And>xs. mset (arrive xs) = mset xs"
    and "c me = Some n" "goodString (addr n)" "replicasFor key n = Some rs" "c1 me = Some n1"
    and "grows c1 c2" "goodAt c2 key"
    and "c2 me2 = Some n2" "replicasFor key n2 = Some rs2" "set rs2 = set rs"
    and "writeQuorum n + readQuorum n2 > int (length rs)" "\<And>xs. mset (arrive' xs) = mset xs"
    and "nextVersion arrive' net me2 key n2 rs2 c2 = (c3, Inr v2)" "Counter v2 \<noteq> 0"
  shows "version n1 < Counter v2"
proof -
  let ?v = "\<lparr>Counter = version n1, NodeID = addr n\<rparr>"
  let ?res = "readAll net me2 key (arrive' rs2) c2"
  note nv = nextVersion_result [OF assms(15,10)]
  have "writeQuorum n \<le> int (card {r \<in> set rs. holds c1 r key ?v})"
    using write_result(1) [OF assms(1) _ assms(2-7)] by simp
  also have "\<dots> \<le> int (card {r \<in> set rs2. holds c2 r key ?v})"
    using assms(8,12) holds_grows by (intro of_nat_mono card_mono) auto
  finally have W: "nat (writeQuorum n) \<le> card {r \<in> set rs2. holds c2 r key ?v}"
    by simp
  have ds: "distinct rs" "distinct rs2"
    using replicasFor_shape assms(6,11) by blast+
  then have len: "length rs2 = length rs"
    using assms(12) by (metis distinct_card)
  have "length rs2 < nat (writeQuorum n) + length ?res"
    using assms(13) nv(5) len by linarith
  from read_meets_write [OF W ds(2) assms(14) this assms(2,9)]
  obtain r x where rx: "(r, x, True) \<in> set ?res" "?v \<le> VersionOf x"
    by blast
  have "version n1 \<le> Counter (VersionOf x)"
    using rx(2) by (auto simp: less_eq_Version_ext_def)
  also have "\<dots> \<le> maxCounterOf ?res"
    using maxCounterOf_max [of ?res] rx(1) by fastforce
  also have "\<dots> \<le> max (version n2) (maxCounterOf ?res)"
    by simp
  also have "\<dots> < Counter v2"
    using assms(16) unfolding nv(6) by (rule word_less_plus_one)
  finally show ?thesis .
qed

subsection \<open>A concrete cluster\<close>

text \<open>Two nodes with two replicas for each key; a write needs one of them, a read both.\<close>

definition nodeAt :: "string \<Rightarrow> Node" where
  "nodeAt a = \<lparr>addr = a, ring = ring_ab, store = plainMemory, replicas = 2, writeQuorum = 1, readQuorum = 2,
     version = 0, nodeHints = newHintStore, chunks = \<lparr>chunkFiles = Map.empty, chunkCalls = []\<rparr>,
     ringVirtualNodes = 1, configVersion = 0, detector = newFailureDetector [''a'', ''b''] a 0 1\<rparr>"

definition clusterAB :: cluster where
  "clusterAB = [''a'' \<mapsto> nodeAt ''a'', ''b'' \<mapsto> nodeAt ''b'']"

lemma nodeAt_facts [simp]:
  "addr (nodeAt a) = a" "store (nodeAt a) = plainMemory" "writeQuorum (nodeAt a) = 1" "readQuorum (nodeAt a) = 2"
  "version (nodeAt a) = 0" "nodeHints (nodeAt a) = newHintStore" "ring (nodeAt a) = ring_ab" "replicas (nodeAt a) = 2"
  by (simp_all add: nodeAt_def)

lemma replicas_ab: 
  assumes "ring n = ring_ab" "replicas n = 2"
  shows "replicasFor ''k'' n = Some [''b'', ''a'']"
proof -
  have o: "owners ''k'' ring_ab = [''b'', ''a'']" by code_simp
  have "GetN ''k'' 2 ring_ab = Some (take (nat (quota 2 ring_ab)) (owners ''k'' ring_ab))"
    by (rule GetN_enough [OF ring_ab_facts(4) ring_ab_hashes]) (simp_all add: o quota_def ring_ab_facts)
  with assms show ?thesis
    by (simp add: replicasFor_def o quota_def ring_ab_facts)
qed

lemma plain_facts [simp]: "memData plainMemory = Map.empty" "wal plainMemory = None" "maxVersionCounter plainMemory = 0"
  by (simp_all add: plainMemory_def NewMemory_def)

lemma plain_k: "plainKey ''k''" "requestKey ''k'' = Some ''k''"
proof -
  show "plainKey ''k''" by code_simp
  then show "requestKey ''k'' = Some ''k''" by (rule requestKey_plain)
qed

lemmas ab_run = clusterAB_def replicas_ab nextVersion_def readAll_def List.map_filter_simps getReplica_def MemGet_def
  plain_k internalGet_def handleInternalGet_def answers Let_def maxCounterOf_def latestOf_def

definition valueK :: Value where
  "valueK = \<lparr>Data = Some [1], VersionOf = \<lparr>Counter = 1, NodeID = ''a''\<rparr>, Deleted = False\<rparr>"

lemma putAB: "\<exists>c1 n1. NodePut id (\<lambda>_. Delivered) (\<lambda>_. RequestLost) ''a'' ''k'' (Some [1]) clusterAB = Some (c1, None)
  \<and> c1 ''a'' = Some n1 \<and> version n1 = 1 \<and> c1 ''b'' = Some (nodeAt ''b'') \<and> (\<forall>r. r \<noteq> ''a'' \<longrightarrow> c1 r = clusterAB r)
  \<and> ring n1 = ring_ab \<and> replicas n1 = 2 \<and> readQuorum n1 = 2 \<and> memData (store n1) = [''k'' \<mapsto> valueK]"
  by (simp add: NodePut_def writeVersioned_def ab_run valueK_def all_bool_eq ex_bool_eq
    replicateValue_def putReplica_def addHint_def Set_def setLocked_def logEntry_def MaybeSnapshot_def ForceSet_def)

lemma getAB:
  assumes "c1 ''a'' = Some n1" "c1 ''b'' = Some (nodeAt ''b'')" "ring n1 = ring_ab" "replicas n1 = 2" "readQuorum n1 = 2"
    "memData (store n1) = [''k'' \<mapsto> valueK]"
  shows "\<exists>c2. NodeGet id (\<lambda>_. Delivered) (\<lambda>_. RequestLost) ''a'' ''k'' c1 = Some (c2, Inr (Some [1], True))"
  using assms by (auto simp: NodeGet_def ab_run valueK_def)

lemma AB_facts: "clusterAB ''a'' = Some (nodeAt ''a'')" "goodString ''a''"
  by (simp add: clusterAB_def) code_simp

lemma goodAt_AB:
  assumes "\<forall>r. r \<noteq> ''a'' \<longrightarrow> c1 r = clusterAB r" "c1 ''a'' = Some n1" "memData (store n1) = [''k'' \<mapsto> valueK]"
  shows "goodAt c1 ''k''"
  unfolding goodAt_def
proof (intro allI impI)
  fix r v
  assume v: "valueAt c1 r ''k'' = Some v"
  have "valueAt clusterAB r ''k'' = None"
    by (simp add: valueAt_def clusterAB_def)
  then have "r = ''a''"
    using v assms(1) by (cases "r = ''a''") (simp_all add: valueAt_def)
  with v assms(2,3) have "v = valueK"
    by (simp add: valueAt_def)
  then show "goodValue v"
    using AB_facts(2) by (simp add: valueK_def goodValue_def goodVersion_def)
qed

lemma acknowledged_write_is_read_witness:
  "\<exists>c1 r x. NodePut id (\<lambda>_. Delivered) (\<lambda>_. RequestLost) ''a'' ''k'' (Some [1]) clusterAB = Some (c1, None)
    \<and> valueAt c1 r ''k'' = Some x \<and> \<lparr>Counter = 1, NodeID = ''a''\<rparr> \<le> VersionOf x \<and> Data x = Some [1]"
proof -
  obtain c1 n1 where p: "NodePut id (\<lambda>_. Delivered) (\<lambda>_. RequestLost) ''a'' ''k'' (Some [1]) clusterAB = Some (c1, None)"
      "c1 ''a'' = Some n1" "version n1 = 1" "c1 ''b'' = Some (nodeAt ''b'')" "\<forall>r. r \<noteq> ''a'' \<longrightarrow> c1 r = clusterAB r"
      "ring n1 = ring_ab" "replicas n1 = 2" "readQuorum n1 = 2" "memData (store n1) = [''k'' \<mapsto> valueK]"
    using putAB by blast
  obtain c2 where g: "NodeGet id (\<lambda>_. Delivered) (\<lambda>_. RequestLost) ''a'' ''k'' c1 = Some (c2, Inr (Some [1], True))"
    using getAB [OF p(2,4,6-9)] by blast
  have w: "isWrite id (\<lambda>_. Delivered) (\<lambda>_. RequestLost) ''a'' ''k'' clusterAB c1 None"
    using p(1) by (auto simp: isWrite_def)
  have "\<exists>r x. valueAt c1 r ''k'' = Some x \<and> \<lparr>Counter = version n1, NodeID = addr (nodeAt ''a'')\<rparr> \<le> VersionOf x
      \<and> (Some [1], True) = (if Deleted x then (None, False) else (Data x, True))"
    by (rule acknowledged_write_is_read [OF w plain_k(1) _ AB_facts(1) _ replicas_ab p(2) grows_refl
          goodAt_AB [OF p(5,2,9)] p(2) replicas_ab [OF p(6,7)] _ _ _ g])
      (simp_all add: AB_facts p)
  then obtain r x where "valueAt c1 r ''k'' = Some x" "\<lparr>Counter = 1, NodeID = ''a''\<rparr> \<le> VersionOf x" "Data x = Some [1]"
    using p(3) by (force split: if_splits)
  with p(1) show ?thesis
    by blast
qed

lemma issued_version_exceeds_witness:
  "\<exists>c1 n1 c2 v. NodePut id (\<lambda>_. Delivered) (\<lambda>_. RequestLost) ''a'' ''k'' (Some [1]) clusterAB = Some (c1, None)
    \<and> nextVersion id (\<lambda>_. Delivered) ''a'' ''k'' n1 [''b'', ''a''] c1 = (c2, Inr v) \<and> 1 < Counter v"
proof -
  obtain c1 n1 where p: "NodePut id (\<lambda>_. Delivered) (\<lambda>_. RequestLost) ''a'' ''k'' (Some [1]) clusterAB = Some (c1, None)"
      "c1 ''a'' = Some n1" "version n1 = 1" "c1 ''b'' = Some (nodeAt ''b'')" "\<forall>r. r \<noteq> ''a'' \<longrightarrow> c1 r = clusterAB r"
      "ring n1 = ring_ab" "replicas n1 = 2" "readQuorum n1 = 2" "memData (store n1) = [''k'' \<mapsto> valueK]"
    using putAB by blast
  obtain c2 v where v: "nextVersion id (\<lambda>_. Delivered) ''a'' ''k'' n1 [''b'', ''a''] c1 = (c2, Inr v)" "Counter v = 2"
    using p by (auto simp: ab_run valueK_def)
  have w: "isWrite id (\<lambda>_. Delivered) (\<lambda>_. RequestLost) ''a'' ''k'' clusterAB c1 None"
    using p(1) by (auto simp: isWrite_def)
  have "version n1 < Counter v"
    by (rule issued_version_exceeds [OF w plain_k(1) _ AB_facts(1) _ replicas_ab p(2) grows_refl
          goodAt_AB [OF p(5,2,9)] p(2) replicas_ab [OF p(6,7)] _ _ _ v(1)])
      (simp_all add: AB_facts p v)
  with p(1,3) v show ?thesis
    by metis
qed

end
