(* ===== verification/HandOff.thy ===== *)
theory HandOff
  imports QuorumProps Transition
begin

text \<open>
  Hinted hand-off over the cluster: \<open>flushHints\<close> of \<open>internal/node/hint.go\<close> with \<open>putReplica\<close>
  as its way to write, in one pass and interleaved with other work, and the keys that the
  address syntax cuts.
\<close>

text \<open>The interface of the hand-off on the model's own \<open>putReplica\<close>.\<close>

interpretation handoff: delivery
  "\<lambda>r k v c. putReplica (net r k) me r k v c"
  "\<lambda>r k v c. holds c r k (VersionOf v)"
  "\<lambda>k v. plainKey k \<and> goodValue v" for net me
  by unfold_locales (auto intro: putReplica_holds holds_grows putReplica_grows)

definition NodeFlush :: "(string \<Rightarrow> string \<Rightarrow> rpc) \<Rightarrow> string list \<Rightarrow> string \<Rightarrow> cluster \<Rightarrow> cluster" where
  "NodeFlush net order me c =
     (case c me of
        None \<Rightarrow> c
      | Some n \<Rightarrow>
          (case flushHints (\<lambda>r k v c. putReplica (net r k) me r k v c) order (nodeHints n) c of
             (h, c') \<Rightarrow> c'(me := map_option (\<lambda>n'. n'\<lparr>nodeHints := h\<rparr>) (c' me))))"

subsection \<open>A pass in which every replica answers\<close>

lemma Set_succeeds:
  assumes "recorded m" "record_fits (marshalEntry (setEntry k v))"
  shows "\<exists>m'. Set k v m = (m', None)"
proof -
  obtain w where w: "wal m = Some w" "faults (wfile w) = []"
    using assms(1) by (auto simp: recorded_def logHolds_def)
  then have "\<exists>m1. logEntry (setEntry k v) m = (m1, None)"
    using assms(2) by (simp add: logEntry_def Append_fine)
  then show ?thesis
    by (auto simp: Set_def setLocked_def split: option.splits)
qed

definition calm :: "cluster \<Rightarrow> bool" where
  "calm c \<longleftrightarrow> (\<forall>r n. c r = Some n \<longrightarrow> recorded (store n))"

lemma recorded_Set: "recorded m \<Longrightarrow> goodString k \<Longrightarrow> goodValue v \<Longrightarrow> recorded (fst (Set k v m))"
  by (rule store.step_inv) (auto intro: StepSet)

lemma putReplica_succeeds:
  assumes "calm c" "r \<in> dom c" "plainKey k" "goodString k" "goodValue v" "record_fits (marshalEntry (setEntry k v))"
  shows "\<exists>c'. putReplica Delivered me r k v c = (c', True) \<and> calm c' \<and> dom c' = dom c"
proof -
  obtain n where n: "c r = Some n" "recorded (store n)"
    using assms(1,2) by (auto simp: calm_def)
  obtain m where m: "Set k v (store n) = (m, None)"
    using Set_succeeds [OF n(2) assms(6)] by blast
  have "recorded m"
    using recorded_Set [OF n(2) assms(4,5)] m by simp
  then have "calm (c(r \<mapsto> n\<lparr>store := m\<rparr>))" "dom (c(r \<mapsto> n\<lparr>store := m\<rparr>)) = dom c"
    using assms(1) n(1) by (auto simp: calm_def)
  moreover have "putReplica Delivered me r k v c = (c(r \<mapsto> n\<lparr>store := m\<rparr>), True)"
  proof -
    have "internalPut k (marshalValue v) n = (n\<lparr>store := m\<rparr>, noContent)"
      using decodeStream_value [OF assms(5), of "[]" zeroValue] m assms(3)
      by (simp add: internalPut_def handleInternalPut_def answers plainKey_def stops_def)
    then show ?thesis
      using n(1) m requestKey_plain [OF assms(3)] by (auto simp: putReplica_def noContent_def)
  qed
  ultimately show ?thesis
    by blast
qed

definition deliverable :: "cluster \<Rightarrow> hint \<Rightarrow> bool" where
  "deliverable c x \<longleftrightarrow> Replica x \<in> dom c \<and> plainKey (HintKey x) \<and> goodString (HintKey x)
     \<and> goodValue (HintValue x) \<and> record_fits (marshalEntry (setEntry (HintKey x) (HintValue x)))"

lemma RemoveIfMatch_le: "hints (RemoveIfMatch r k x h) i = Some z \<Longrightarrow> hints h i = Some z"
  by (auto simp: RemoveIfMatch_def Let_def split: option.splits if_splits)

lemma RemoveIfMatch_dom:
  assumes "\<And>y. hints h (hintKey r k) = Some y \<Longrightarrow> VersionOf (HintValue y) = x"
  shows "dom (hints (RemoveIfMatch r k x h)) = dom (hints h) - {hintKey r k}"
  using assms by (auto simp: RemoveIfMatch_def Let_def split: option.splits)

abbreviation hintIndex :: "hint \<Rightarrow> string" where
  "hintIndex x \<equiv> hintKey (Replica x) (HintKey x)"

lemma flushLoop_delivers:
  assumes "calm c" "\<forall>x \<in> set xs. deliverable c x"
    and "\<forall>x \<in> set xs. \<forall>y. hints h (hintIndex x) = Some y \<longrightarrow> y = x"
    and "flushLoop (\<lambda>r k v c. putReplica Delivered me r k v c) xs h c = (h', c')"
  shows "dom (hints h') = dom (hints h) - hintIndex ` set xs
    \<and> (\<forall>x \<in> set xs. holds c' (Replica x) (HintKey x) (VersionOf (HintValue x))) \<and> dom c' = dom c"
  using assms
proof (induction xs arbitrary: h c)
  case (Cons x xs)
  from Cons.prems(2) have x: "Replica x \<in> dom c" "plainKey (HintKey x)" "goodString (HintKey x)"
      "goodValue (HintValue x)" "record_fits (marshalEntry (setEntry (HintKey x) (HintValue x)))"
    by (simp_all add: deliverable_def)
  obtain c1 where p: "putReplica Delivered me (Replica x) (HintKey x) (HintValue x) c = (c1, True)"
      "calm c1" "dom c1 = dom c"
    using putReplica_succeeds [OF Cons.prems(1) x] by blast
  let ?h = "RemoveIfMatch (Replica x) (HintKey x) (VersionOf (HintValue x)) h"
  have d1: "\<forall>y \<in> set xs. deliverable c1 y"
    using Cons.prems(2) p(3) by (simp add: deliverable_def)
  have d2: "\<forall>y \<in> set xs. \<forall>z. hints ?h (hintIndex y) = Some z \<longrightarrow> z = y"
    using Cons.prems(3) by (auto dest: RemoveIfMatch_le)
  have fl: "flushLoop (\<lambda>r k v c. putReplica Delivered me r k v c) xs ?h c1 = (h', c')"
    using Cons.prems(4) p(1) by simp
  have IH: "dom (hints h') = dom (hints ?h) - hintIndex ` set xs
      \<and> (\<forall>x \<in> set xs. holds c' (Replica x) (HintKey x) (VersionOf (HintValue x))) \<and> dom c' = dom c1"
    by (rule Cons.IH [OF p(2) d1 d2 fl])
  have "dom (hints ?h) = dom (hints h) - {hintIndex x}"
  proof (rule RemoveIfMatch_dom)
    fix y
    assume "hints h (hintIndex x) = Some y"
    then have "y = x"
      using Cons.prems(3) by simp
    then show "VersionOf (HintValue y) = VersionOf (HintValue x)"
      by (rule arg_cong)
  qed
  moreover have "holds c' (Replica x) (HintKey x) (VersionOf (HintValue x))"
    using handoff.flushLoop_keeps [OF fl] putReplica_holds [OF p(1) x(2,4)] by blast
  ultimately show ?case
    using IH p(3) by auto
qed simp

text \<open>The list that is handed over has every hint once, by its index.\<close>

lemma hintList_hints:
  assumes "hints_ok h" "set order = dom (hints h)"
  shows "x \<in> set (hintList order h) \<longleftrightarrow> hints h (hintIndex x) = Some x"
    and "hints h k = Some x \<Longrightarrow> x \<in> set (hintList order h)"
    and "hintIndex ` set (hintList order h) = dom (hints h)"
proof -
  have ix: "hints h k = Some x \<Longrightarrow> k = hintIndex x" for k x
    using assms(1) unfolding hints_ok_def by blast
  show sub: "hints h k = Some x \<Longrightarrow> x \<in> set (hintList order h)" for k x
    using assms(2) by (auto simp: hintList_def dom_def intro!: rev_image_eqI [where x = k])
  show sup: "x \<in> set (hintList order h) \<longleftrightarrow> hints h (hintIndex x) = Some x" for x
  proof
    assume "x \<in> set (hintList order h)"
    then obtain k where "hints h k = Some x"
      using assms(2) by (auto simp: hintList_def)
    with ix show "hints h (hintIndex x) = Some x" by metis
  qed (rule sub)
  show "hintIndex ` set (hintList order h) = dom (hints h)"
  proof (intro subset_antisym subsetI)
    show "k \<in> dom (hints h)" if "k \<in> hintIndex ` set (hintList order h)" for k
      using that sup by auto
    show "k \<in> hintIndex ` set (hintList order h)" if k: "k \<in> dom (hints h)" for k
    proof -
      obtain x where "hints h k = Some x"
        using k by blast
      from ix [OF this] sub [OF this] show ?thesis
        by (rule image_eqI)
    qed
  qed
qed

text \<open>C20. When the replicas of all hints are up, the network delivers, the logs take the entries, and the
  hinted keys are plain and UTF-8 (\<open>deliverable\<close>), one pass of the hand-off empties the hint store,
  and every hinted value, or a newer one, is at its replica.\<close>
theorem flush_delivers_all:
  assumes "c me = Some n" "calm c" "hints_ok (nodeHints n)" "set order = dom (hints (nodeHints n))"
    and "\<forall>k x. hints (nodeHints n) k = Some x \<longrightarrow> deliverable c x"
  shows "\<exists>n'. NodeFlush (\<lambda>_ _. Delivered) order me c me = Some n' \<and> hints (nodeHints n') = Map.empty
    \<and> (\<forall>k x. hints (nodeHints n) k = Some x \<longrightarrow>
        holds (NodeFlush (\<lambda>_ _. Delivered) order me c) (Replica x) (HintKey x) (VersionOf (HintValue x)))"
proof -
  let ?h = "nodeHints n" and ?xs = "hintList order (nodeHints n)"
  obtain h' c' where fl: "flushLoop (\<lambda>r k v c. putReplica Delivered me r k v c) ?xs ?h c = (h', c')"
    by fastforce
  note listed = hintList_hints [OF assms(3,4)]
  have del: "\<forall>x \<in> set ?xs. deliverable c x" "\<forall>x \<in> set ?xs. \<forall>y. hints ?h (hintIndex x) = Some y \<longrightarrow> y = x"
    using listed(1) assms(5) by auto
  note d = flushLoop_delivers [OF assms(2) del fl]
  then have e: "hints h' = Map.empty"
    by (simp add: listed(3))
  obtain n' where n': "c' me = Some n'"
    using d assms(1) by (metis domD domI)
  have f: "NodeFlush (\<lambda>_ _. Delivered) order me c = c'(me \<mapsto> n'\<lparr>nodeHints := h'\<rparr>)"
    using fl assms(1) n' by (simp add: NodeFlush_def flushHints_def)
  have same: "holds (c'(me \<mapsto> n'\<lparr>nodeHints := h'\<rparr>)) r k v = holds c' r k v" for r k v
    using n' by (simp add: holds_def valueAt_def)
  show ?thesis
    unfolding f same using d e listed(2) by auto
qed

subsection \<open>Hand-off between other work\<close>

text \<open>
  Between the steps of a hand-off the node may add hints and the replicas may take other writes.
  A step of the hand-off works on a hint that was listed at some time before.
\<close>

definition handOne :: "rpc \<Rightarrow> string \<Rightarrow> hint \<Rightarrow> cluster \<Rightarrow> cluster" where
  "handOne net me x c =
     (case putReplica net me (Replica x) (HintKey x) (HintValue x) c of
        (c1, ok) \<Rightarrow>
          if \<not> ok then c1
          else (case c1 me of
                  None \<Rightarrow> c1
                | Some n \<Rightarrow> c1(me \<mapsto> n\<lparr>nodeHints :=
                    RemoveIfMatch (Replica x) (HintKey x) (VersionOf (HintValue x)) (nodeHints n)\<rparr>)))"

definition sound_hint :: "hint \<Rightarrow> bool" where
  "sound_hint x \<longleftrightarrow> CHR ''|'' \<notin> set (Replica x) \<and> plainKey (HintKey x) \<and> goodValue (HintValue x)"

inductive handStep :: "string \<Rightarrow> cluster \<Rightarrow> cluster \<Rightarrow> bool" for me where
  Missed: "CHR ''|'' \<notin> set r \<Longrightarrow> handStep me c (addHint me r k v c)"
| HandOne: "sound_hint x \<Longrightarrow> handStep me c (handOne net me x c)"
| OtherWork: "grows c c' \<Longrightarrow> map_option nodeHints (c' me) = map_option nodeHints (c me) \<Longrightarrow> handStep me c c'"

definition covered_by :: "string \<Rightarrow> string \<Rightarrow> string \<Rightarrow> Version \<Rightarrow> cluster \<Rightarrow> bool" where
  "covered_by me r k x c \<longleftrightarrow> hinted c me r k x \<or> holds c r k x"

lemma holds_same_store: "c q = Some n \<Longrightarrow> store n' = store n \<Longrightarrow> holds (c(q \<mapsto> n')) r k x = holds c r k x"
  by (simp add: holds_def valueAt_def)

lemma handOne_covers:
  assumes "covered_by me r k x c" "sound_hint y" "CHR ''|'' \<notin> set r"
  shows "covered_by me r k x (handOne net me y c)"
proof -
  obtain c1 ok where p: "putReplica net me (Replica y) (HintKey y) (HintValue y) c = (c1, ok)"
    by fastforce
  have c1: "covered_by me r k x c1"
    using assms(1) hinted_put [OF _ p] holds_grows putReplica_grows [OF p] by (auto simp: covered_by_def)
  show ?thesis
  proof (cases "ok \<and> c1 me \<noteq> None")
    case False
    with c1 p show ?thesis
      by (auto simp: handOne_def split: option.splits)
  next
    case True
    then obtain n where n: "c1 me = Some n" "ok"
      by auto
    let ?h = "RemoveIfMatch (Replica y) (HintKey y) (VersionOf (HintValue y)) (nodeHints n)"
    let ?c = "c1(me \<mapsto> n\<lparr>nodeHints := ?h\<rparr>)"
    have h: "handOne net me y c = ?c"
      using p n by (simp add: handOne_def)
    have H: "holds ?c q l z = holds c1 q l z" for q l z
      using n(1) by (simp add: holds_same_store)
    have arrived: "holds c1 (Replica y) (HintKey y) (VersionOf (HintValue y))"
      using putReplica_holds [of net me "Replica y" "HintKey y" "HintValue y" c c1] p n(2) assms(2)
      by (simp add: sound_hint_def)
    show ?thesis
    proof (cases "holds c1 r k x")
      case True
      with H h show ?thesis
        by (simp add: covered_by_def)
    next
      case False
      with c1 n(1) obtain z where z: "hints (nodeHints n) (hintKey r k) = Some z" "x \<le> VersionOf (HintValue z)"
        by (auto simp: covered_by_def hinted_def hintGet_def)
      show ?thesis
      proof (cases "hints ?h (hintKey r k) = Some z")
        case True
        with z(2) h show ?thesis
          by (auto simp: covered_by_def hinted_def hintGet_def)
      next
        case False
        then have "hintKey (Replica y) (HintKey y) = hintKey r k" "VersionOf (HintValue z) = VersionOf (HintValue y)"
          using z(1) by (auto simp: RemoveIfMatch_def Let_def split: option.splits if_splits)
        then have "Replica y = r" "HintKey y = k"
          using hintKey_inject [of "Replica y" r "HintKey y" k] assms(2,3) by (simp_all add: sound_hint_def)
        with arrived z(2) \<open>VersionOf (HintValue z) = VersionOf (HintValue y)\<close> have "holds c1 r k x"
          by (auto simp: holds_def intro: order_trans)
        with H h show ?thesis
          by (simp add: covered_by_def)
      qed
    qed
  qed
qed

lemma handStep_covers:
  assumes "CHR ''|'' \<notin> set r" "covered_by me r k x c" "handStep me c c'"
  shows "covered_by me r k x c'"
  using assms(3)
proof cases
  case (Missed q l v)
  with assms(1,2) hinted_add holds_grows addHint_facts(1) show ?thesis
    by (auto simp: covered_by_def)
next
  case (HandOne y net)
  with assms(1,2) handOne_covers show ?thesis
    by simp
next
  case OtherWork
  with assms(2) holds_grows show ?thesis
    by (auto simp: covered_by_def hinted_def)
qed

interpretation handoffs: inductive_invariant
  "\<lambda>c. CHR ''|'' \<notin> set r \<and> covered_by me r k x c" "handStep me"
  "\<lambda>c. CHR ''|'' \<notin> set r \<and> covered_by me r k x c" for me r k x
  by unfold_locales (auto intro: handStep_covers)

text \<open>C19. No hint vanishes before its value has arrived: whatever hand-off steps of hints listed at any
  time, new hints and other writes follow each other, the node keeps a hint of at least that
  version for the replica and key, or the replica holds at least that version.  The hints that are
  handed off are of plain keys, with addresses without a bar and UTF-8 names (\<open>sound_hint\<close>), and the
  other work loses no stored version and leaves the hints of the node to it.\<close>
theorem hints_not_lost:
  assumes "hinted c me r k x" "CHR ''|'' \<notin> set r" "run (handStep me) c c'"
  shows "hinted c' me r k x \<or> holds c' r k x"
  using handoffs.run_inv [OF assms(3), of r k x] assms(1,2) by (simp add: covered_by_def)

text \<open>C18. A write of a plain key leaves nothing out: when \<open>Put\<close> or \<open>Delete\<close> got its version, whether the
  quorum was reached or not, every replica of the key holds that version or a newer one, or the
  coordinator has a hint of it for the replica.  Addresses have no bar, which separates address and
  key in the index of a hint; a key that the address cuts is lost, see \<open>question_mark_cuts_key\<close>.\<close>
theorem written_or_hinted:
  assumes "isWrite arrive net1 net2 me key c c1 e" "e = None \<or> e = Some WriteQuorum"
    and "plainKey key" "\<And>xs. mset (arrive xs) = mset xs" "c me = Some n" "goodString (addr n)"
    and "replicasFor key n = Some rs" "c1 me = Some n1" "\<forall>q \<in> set rs. CHR ''|'' \<notin> set q" "r \<in> set rs"
  shows "holds c1 r key \<lparr>Counter = version n1, NodeID = addr n\<rparr>
    \<or> hinted c1 me r key \<lparr>Counter = version n1, NodeID = addr n\<rparr>"
  using write_result(2) [OF assms(1-8)] assms(9,10) by blast

subsection \<open>Keys in addresses\<close>

lemma requestKey_cut:
  assumes "plainKey k" "CHR ''#'' \<notin> set rest" "\<not> list_ex isControl rest"
  shows "requestKey (k @ ''?'' @ rest) = Some k"
proof -
  have c: "CHR ''%'' \<notin> set k" "CHR ''?'' \<notin> set k" "CHR ''#'' \<notin> set k" "\<not> list_ex isControl k"
    using assms(1) by (auto simp: plainKey_def list_all_iff list_ex_iff)
  have f: "takeWhile (\<lambda>c. c \<noteq> CHR ''#'') (k @ ''?'' @ rest) = k @ ''?'' @ rest"
      "dropWhile (\<lambda>c. c \<noteq> CHR ''#'') (k @ ''?'' @ rest) = []"
    using c(3) assms(2) by (auto simp: takeWhile_eq_all_conv dropWhile_eq_Nil_conv)
  have g: "takeWhile (\<lambda>c. c \<noteq> CHR ''?'') (k @ ''?'' @ rest) = k"
  proof -
    have "\<forall>c \<in> set k. c \<noteq> CHR ''?''"
      using c(2) by auto
    then show ?thesis
      by (simp add: takeWhile_append2)
  qed
  have "\<not> list_ex isControl (k @ ''?'' @ rest)"
    using c(4) assms(3) by (simp add: isControl_def)
  then show ?thesis
    unfolding requestKey_def Let_def f g by (simp add: c unescape_plain)
qed

lemma Set_other: "Set k v m = (m', None) \<Longrightarrow> l \<noteq> k \<Longrightarrow> memData m' l = memData m l"
  by (simp add: Set_ok)

text \<open>The key goes into the address without being escaped: a replica asked to store a key with a
  question mark in it acknowledges, but stores the value under the part of the key before the
  mark and leaves the key itself as it was.\<close>
theorem question_mark_cuts_key:
  assumes "putReplica Delivered me r (k @ ''?'' @ rest) v c = (c', True)" "r \<noteq> me"
    and "plainKey k" "CHR ''#'' \<notin> set rest" "\<not> list_ex isControl rest" "goodValue v"
  shows "holds c' r k (VersionOf v) \<and> valueAt c' r (k @ ''?'' @ rest) = valueAt c r (k @ ''?'' @ rest)"
proof -
  have same: "putReplica Delivered me r (k @ ''?'' @ rest) v c = putReplica Delivered me r k v c"
    using requestKey_cut [OF assms(3-5)] requestKey_plain [OF assms(3)] assms(2) by (simp add: putReplica_def)
  have "valueAt c' r l = valueAt c r l" if "l \<noteq> k" for l
    using assms(1,2) requestKey_plain [OF assms(3)] that unfolding same
    by (auto simp: putReplica_def internalPut_def handleInternalPut_def answers valueAt_def
        split: option.splits if_splits prod.splits) (erule (1) Set_other)
  with putReplica_holds [of Delivered me r k v c c'] assms(1,3,6) same show ?thesis
    by simp
qed

subsection \<open>Concrete instances\<close>

definition hintedA :: hintStore where
  "hintedA = hintAdd ''b'' ''k'' valueA newHintStore"

definition clusterHinted :: cluster where
  "clusterHinted = [''a'' \<mapsto> (nodeAt ''a'')\<lparr>store := openedMemory, nodeHints := hintedA\<rparr>,
     ''b'' \<mapsto> (nodeAt ''b'')\<lparr>store := openedMemory\<rparr>]"

lemma hintedA_hints: "hints hintedA = [''b|k'' \<mapsto> \<lparr>Replica = ''b'', HintKey = ''k'', HintValue = valueA\<rparr>]"
  by (simp add: hintedA_def hintAdd_def newHintStore_def hintKey_def Let_def)

lemma flush_delivers_all_witness:
  "holds (NodeFlush (\<lambda>_ _. Delivered) [''b|k''] ''a'' clusterHinted) ''b'' ''k'' (VersionOf valueA)"
proof -
  let ?n = "(nodeAt ''a'')\<lparr>store := openedMemory, nodeHints := hintedA\<rparr>"
  have rec: "recorded openedMemory"
    by (rule store.init_inv) (use OpenMemory_new openedMemory_init in simp)
  have d: "\<forall>k x. hints (nodeHints ?n) k = Some x \<longrightarrow> deliverable clusterHinted x"
    using plain_k(1) valueA_good length_entryA
    by (auto simp: hintedA_hints deliverable_def clusterHinted_def record_fits_def entryA_def maxWALRecordSize_def)
  have ok: "hints_ok (nodeHints ?n)"
    using hints_ok_operations by (simp add: hintedA_def)
  have c: "clusterHinted ''a'' = Some ?n" "calm clusterHinted"
    using rec by (auto simp: clusterHinted_def calm_def split: if_splits)
  have o: "set [''b|k''] = dom (hints (nodeHints ?n))"
    by (simp add: hintedA_hints)
  from flush_delivers_all [OF c ok o d] obtain n' where
    "\<forall>k x. hints (nodeHints ?n) k = Some x \<longrightarrow>
      holds (NodeFlush (\<lambda>_ _. Delivered) [''b|k''] ''a'' clusterHinted) (Replica x) (HintKey x) (VersionOf (HintValue x))"
    by blast
  from this [rule_format, of "''b|k''" "\<lparr>Replica = ''b'', HintKey = ''k'', HintValue = valueA\<rparr>"] show ?thesis
    by (simp add: hintedA_hints)
qed

lemma hints_not_lost_witness:
  "hinted (handOne RequestLost ''a'' \<lparr>Replica = ''b'', HintKey = ''k'', HintValue = valueA\<rparr> clusterHinted) ''a'' ''b'' ''k''
      (VersionOf valueA)
   \<or> holds (handOne RequestLost ''a'' \<lparr>Replica = ''b'', HintKey = ''k'', HintValue = valueA\<rparr> clusterHinted) ''b'' ''k''
      (VersionOf valueA)"
proof -
  let ?x = "\<lparr>Replica = ''b'', HintKey = ''k'', HintValue = valueA\<rparr>"
  have "hinted clusterHinted ''a'' ''b'' ''k'' (VersionOf valueA)"
    by (simp add: hinted_def clusterHinted_def hintGet_def hintKey_def hintedA_hints)
  moreover have "sound_hint ?x"
    using plain_k(1) valueA_good(1) by (simp add: sound_hint_def)
  then have "run (handStep ''a'') clusterHinted (handOne RequestLost ''a'' ?x clusterHinted)"
    by (intro run_step [OF run_refl] HandOne)
  ultimately show ?thesis
    by (intro hints_not_lost) simp_all
qed

lemma written_or_hinted_witness:
  "\<exists>c1. NodePut id (\<lambda>_. Delivered) (\<lambda>_. RequestLost) ''a'' ''k'' (Some [1]) clusterAB = Some (c1, None)
    \<and> (holds c1 ''b'' ''k'' \<lparr>Counter = 1, NodeID = ''a''\<rparr> \<or> hinted c1 ''a'' ''b'' ''k'' \<lparr>Counter = 1, NodeID = ''a''\<rparr>)"
proof -
  obtain c1 n1 where p: "NodePut id (\<lambda>_. Delivered) (\<lambda>_. RequestLost) ''a'' ''k'' (Some [1]) clusterAB = Some (c1, None)"
      "c1 ''a'' = Some n1" "version n1 = 1"
    using putAB by blast
  then have "isWrite id (\<lambda>_. Delivered) (\<lambda>_. RequestLost) ''a'' ''k'' clusterAB c1 None"
    by (auto simp: isWrite_def)
  from written_or_hinted [OF this _ plain_k(1) _ AB_facts(1) _ replicas_ab p(2), of "''b''"] AB_facts(2) p
  show ?thesis
    by simp
qed

lemma question_mark_cuts_key_witness:
  "\<exists>c'. putReplica Delivered ''a'' ''b'' ''k?v=1'' valueA clusterHinted = (c', True)
    \<and> holds c' ''b'' ''k'' (VersionOf valueA) \<and> valueAt c' ''b'' ''k?v=1'' = None"
proof -
  have rest: "\<not> list_ex isControl ''v=1''"
    by code_simp
  obtain m where m: "Set ''k'' valueA openedMemory = (m, None)"
    using Set_valueA by blast
  have k: "requestKey ''k?v=1'' = Some ''k''"
    using requestKey_cut [OF plain_k(1) _ rest] by simp
  have "internalPut ''k'' (marshalValue valueA) ((nodeAt ''b'')\<lparr>store := openedMemory\<rparr>) =
      ((nodeAt ''b'')\<lparr>store := m\<rparr>, noContent)"
    using decodeStream_value [OF valueA_good(1), of "[]" zeroValue] m
    by (simp add: internalPut_def handleInternalPut_def answers stops_def)
  then have p: "putReplica Delivered ''a'' ''b'' ''k?v=1'' valueA clusterHinted =
      (clusterHinted(''b'' \<mapsto> (nodeAt ''b'')\<lparr>store := m\<rparr>), True)"
    using k by (simp add: putReplica_def clusterHinted_def noContent_def)
  have "valueAt clusterHinted ''b'' ''k?v=1'' = None"
    by (simp add: valueAt_def clusterHinted_def openedMemory_def)
  with question_mark_cuts_key [of "''a''" "''b''" "''k''" "''v=1''", OF _ _ plain_k(1) _ rest valueA_good(1)] p
  show ?thesis
    by auto
qed

end
