(* ===== verification/Chunker.thy ===== *)
theory Chunker
  imports ChunkStore
begin

text \<open>
  Cutting a stream into chunks: \<open>io.ReadFull\<close> on a reader, and \<open>WriteFromReader\<close> of
  \<open>internal/chunk/chunker.go\<close>.  A reader is what it will still deliver and whether it then
  fails instead of ending.
\<close>

record reader =
  pending :: bytes
  breaks :: bool

record ChunkInfo =
  InfoID :: string
  InfoSize :: int

definition DefaultChunkSize :: int where
  "DefaultChunkSize = 4 * 1024 * 1024"

text \<open>\<open>ReadFull\<close> answers what it read together with its error.\<close>

definition readUpTo :: "nat \<Rightarrow> reader \<Rightarrow> reader \<times> bytes \<times> ioError option" where
  "readUpTo n r =
     (if n \<le> length (pending r) then (r\<lparr>pending := drop n (pending r)\<rparr>, take n (pending r), None)
      else (r\<lparr>pending := []\<rparr>, pending r,
            Some (if breaks r then OSError else if pending r = [] then EOF else UnexpectedEOF)))"

datatype writeError = InvalidChunkSize int | ReadFailed ioError | StoreFailed chunkError

text \<open>
  The error of \<open>Put\<close> takes the place of that of the read, so a short read does not leave the loop
  by itself; the next read finds the end.  The buffer is not empty, see the guard of the caller.
\<close>

function readerLoop ::
  "nat \<Rightarrow> (nat \<Rightarrow> string) \<Rightarrow> (nat \<Rightarrow> int) \<Rightarrow> reader \<Rightarrow> ChunkInfo list \<Rightarrow> chunkStore
     \<Rightarrow> chunkStore \<times> (writeError + ChunkInfo list)" where
  "readerLoop buf random now r infos s =
     (if buf = 0 then (s, Inr infos)
      else case readUpTo buf r of
        (r', data, err) \<Rightarrow>
          if err = Some EOF then (s, Inr infos)
          else if err \<noteq> None \<and> err \<noteq> Some UnexpectedEOF then (s, Inl (ReadFailed (the err)))
          else case chunkPut (random (length infos)) (now (length infos)) data s of
            (s', Inl e) \<Rightarrow> (s', Inl (StoreFailed e))
          | (s', Inr cid) \<Rightarrow>
              readerLoop buf random now r' (infos @ [\<lparr>InfoID = cid, InfoSize = int (length data)\<rparr>]) s')"
  by pat_completeness auto
termination
  by (relation "measure (\<lambda>(buf, random, now, r, infos, s). length (pending r))")
    (auto simp: readUpTo_def split: if_splits)

declare readerLoop.simps [simp del]

definition WriteFromReader ::
  "reader \<Rightarrow> int \<Rightarrow> (nat \<Rightarrow> string) \<Rightarrow> (nat \<Rightarrow> int) \<Rightarrow> chunkStore
     \<Rightarrow> chunkStore \<times> (writeError + ChunkInfo list)" where
  "WriteFromReader r chunkSize random now s =
     (if chunkSize \<le> 0 then (s, Inl (InvalidChunkSize chunkSize))
      else readerLoop (nat chunkSize) random now r [] s)"

subsection \<open>The pieces of a stream\<close>

fun pieces :: "nat \<Rightarrow> bytes \<Rightarrow> bytes list" where
  "pieces n bs = (if n = 0 \<or> bs = [] then [] else take n bs # pieces n (drop n bs))"

declare pieces.simps [simp del]

lemma concat_pieces: "0 < n \<Longrightarrow> concat (pieces n bs) = bs"
  by (induction n bs rule: pieces.induct) (subst pieces.simps, auto)

lemma pieces_lengths: "p \<in> set (pieces n bs) \<Longrightarrow> p \<noteq> [] \<and> length p \<le> n"
  by (induction n bs rule: pieces.induct) (subst (asm) (2) pieces.simps, auto split: if_splits)

end
