(* ===== verification/ChunkProps.thy ===== *)
theory ChunkProps
  imports Chunker Transition
begin

text \<open>
  The chunk store: what its files hold in every state, what \<open>Put\<close> leaves, what \<open>Sweep\<close> removes, and
  the pieces of a stream.
\<close>

subsection \<open>Paths and names\<close>

definition validName :: "string \<Rightarrow> bool" where
  "validName cid \<longleftrightarrow> validateID cid = None"

lemma validName_ID [simp]: "validName (ID data)"
  using hexEncode_isHex [of "sha256 data"] by (simp add: validName_def validateID_def ID_def)

lemma temp_not_valid [simp]: "\<not> validName (''.chunk-'' @ random)"
  by (simp add: validName_def validateID_def isHex_def hexTable_def)

lemma last_paths [simp]:
  "last (chunkPath cid) = cid" "last (tempPath cid random) = ''.chunk-'' @ random @ ''.tmp''"
  by (simp_all add: chunkPath_def tempPath_def)

lemma chunkPath_inject [simp]: "chunkPath a = chunkPath b \<longleftrightarrow> a = b"
  by (metis last_paths(1))

lemma temp_not_chunk: "validName cid \<Longrightarrow> tempPath x random \<noteq> chunkPath cid"
  by (metis append_assoc last_paths temp_not_valid)

subsection \<open>What the calls change\<close>

lemma chunkCall_cases:
  obtains o' s' where "chunkCall s = (o', s')" "chunkFiles s' = chunkFiles s"
  by (cases "chunkCalls s") (auto simp: chunkCall_def)

lemma plainCall_files: "plainCall s = (s', r) \<Longrightarrow> chunkFiles s' = chunkFiles s"
  by (rule chunkCall_cases [of s]) (auto simp: plainCall_def split: fault.splits)

lemma readFile_files: "readFile p s = (s', r) \<Longrightarrow> chunkFiles s' = chunkFiles s"
  by (rule chunkCall_cases [of s]) (auto simp: readFile_def split: fault.splits)

lemma readFile_result:
  "readFile p s = (s', Inr d) \<Longrightarrow> \<exists>f. chunkFiles s p = Some f \<and> chunkBytes f = d"
  by (rule chunkCall_cases [of s]) (auto simp: readFile_def split: fault.splits option.splits)

lemma readFile_error: "readFile p s = (s', Inl e) \<Longrightarrow> e = ChunkIo \<or> e = ChunkNotFound"
  by (rule chunkCall_cases [of s]) (auto simp: readFile_def split: fault.splits option.splits)

lemma removeFile_files:
  "removeFile p s = (s', r) \<Longrightarrow> chunkFiles s' = chunkFiles s \<or> chunkFiles s' = (chunkFiles s)(p := None)"
  "removeFile p s = (s', None) \<Longrightarrow> chunkFiles s' = (chunkFiles s)(p := None)"
  by (rule chunkCall_cases [of s]; auto simp: removeFile_def split: fault.splits if_splits)+

text \<open>
  A write of a chunk: other paths than the temporary one and, when it succeeded, the one of the
  chunk stay as they are.
\<close>

lemma writeChunk_files:
  assumes "writeChunk random now cid data s = (s', e)" "validName cid"
  shows "e = None \<Longrightarrow> chunkFiles s' (chunkPath cid) = Some \<lparr>chunkBytes = data, modTime = now\<rparr>"
    and "\<And>p. p \<noteq> tempPath cid random \<Longrightarrow> p \<noteq> chunkPath cid \<Longrightarrow> chunkFiles s' p = chunkFiles s p"
    and "e \<noteq> None \<Longrightarrow> chunkFiles s' (chunkPath cid) = chunkFiles s (chunkPath cid)"
proof -
  let ?t = "tempPath cid random" and ?p = "chunkPath cid"
  have ne: "?t \<noteq> ?p" "?p \<noteq> ?t"
    using temp_not_chunk [OF assms(2)] by metis+
  have "(e = None \<longrightarrow> chunkFiles s' ?p = Some \<lparr>chunkBytes = data, modTime = now\<rparr>)
    \<and> (\<forall>p. p \<noteq> ?t \<longrightarrow> p \<noteq> ?p \<longrightarrow> chunkFiles s' p = chunkFiles s p)
    \<and> (e \<noteq> None \<longrightarrow> chunkFiles s' ?p = chunkFiles s ?p)"
  proof -
    obtain s1 e1 where c: "thenCall (plainCall s) (createTemp ?t now) = (s1, e1)"
      by fastforce
    have f1: "p \<noteq> ?t \<longrightarrow> chunkFiles s1 p = chunkFiles s p" for p
    proof -
      obtain s0 e0 where p0: "plainCall s = (s0, e0)"
        by fastforce
      obtain o' t where "chunkCall s0 = (o', t)" "chunkFiles t = chunkFiles s0"
        by (rule chunkCall_cases)
      with c p0 plainCall_files [OF p0] show ?thesis
        by (auto simp: thenCall_def createTemp_def split: option.splits fault.splits if_splits)
    qed
    show ?thesis
    proof (cases e1)
      case (Some x)
      with assms(1) c f1 ne show ?thesis
        by (auto simp: writeChunk_def Let_def)
    next
      case None
      obtain s2 e2 where w: "writeTemp ?t data now s1 = (s2, e2)"
        by fastforce
      obtain o1 t1 where t1: "chunkCall s1 = (o1, t1)" "chunkFiles t1 = chunkFiles s1"
        by (rule chunkCall_cases)
      have f2: "p \<noteq> ?t \<longrightarrow> chunkFiles s2 p = chunkFiles s1 p"
          "e2 = None \<longrightarrow> chunkFiles s2 ?t = Some \<lparr>chunkBytes = data, modTime = now\<rparr>" for p
        using w t1 by (auto simp: writeTemp_def split: fault.splits)
      obtain s4 e4 where p: "thenCall (thenCall (s2, e2) plainCall) plainCall = (s4, e4)"
        by fastforce
      have f4: "chunkFiles s4 = chunkFiles s2" "e4 = None \<Longrightarrow> e2 = None"
        using p by (auto simp: thenCall_def split: option.splits prod.splits dest!: plainCall_files)
      obtain s5 e5 where r: "thenCall (s4, e4) (renameFile ?t ?p) = (s5, e5)"
        by fastforce
      obtain o4 t4 where t4: "chunkCall s4 = (o4, t4)" "chunkFiles t4 = chunkFiles s4"
        by (rule chunkCall_cases)
      have f5: "e5 = None \<longrightarrow> e4 = None \<and> chunkFiles s5 = (chunkFiles s4)(?t := None, ?p := chunkFiles s4 ?t)"
          "e5 \<noteq> None \<longrightarrow> chunkFiles s5 = chunkFiles s4"
        using r t4 by (auto simp: thenCall_def renameFile_def split: option.splits fault.splits)
      have "s' = fst (removeFile ?t s5)" "e = e5"
        using assms(1) c None w p r by (simp_all add: writeChunk_def Let_def)
      moreover obtain x where "removeFile ?t s5 = (s', x)"
        using \<open>s' = fst (removeFile ?t s5)\<close> by (cases "removeFile ?t s5") auto
      ultimately have "\<forall>p. p \<noteq> ?t \<longrightarrow> chunkFiles s' p = chunkFiles s5 p" "e = e5"
        using removeFile_files(1) by fastforce+
      with f1 f2 f4 f5 ne show ?thesis
        by auto
    qed
  qed
  then show "e = None \<Longrightarrow> chunkFiles s' (chunkPath cid) = Some \<lparr>chunkBytes = data, modTime = now\<rparr>"
      "\<And>p. p \<noteq> tempPath cid random \<Longrightarrow> p \<noteq> chunkPath cid \<Longrightarrow> chunkFiles s' p = chunkFiles s p"
      "e \<noteq> None \<Longrightarrow> chunkFiles s' (chunkPath cid) = chunkFiles s (chunkPath cid)"
    by blast+
qed

lemma chtimes_files:
  "chtimes p now s = (s', None) \<Longrightarrow>
     chunkFiles s' = (chunkFiles s)(p := map_option (\<lambda>f. f\<lparr>modTime := now\<rparr>) (chunkFiles s p))"
  "chtimes p now s = (s', Some e) \<Longrightarrow> chunkFiles s' = chunkFiles s"
  by (rule chunkCall_cases [of s]; auto simp: chtimes_def split: fault.splits)+

text \<open>What \<open>Put\<close> leaves: on success a file with the right hash and the time of the call.\<close>

lemma chunkPut_files:
  assumes "chunkPut random now data s = (s', r)"
  shows "r = Inr cid \<Longrightarrow> cid = ID data
      \<and> (\<exists>f. chunkFiles s' (chunkPath (ID data)) = Some f \<and> ID (chunkBytes f) = ID data \<and> modTime f = now)"
    and "\<And>p. p \<noteq> tempPath (ID data) random \<Longrightarrow> p \<noteq> chunkPath (ID data) \<Longrightarrow> chunkFiles s' p = chunkFiles s p"
    and "(\<exists>e. r = Inl e) \<Longrightarrow> chunkFiles s' (chunkPath (ID data)) = chunkFiles s (chunkPath (ID data))"
proof -
  let ?p = "chunkPath (ID data)" and ?t = "tempPath (ID data) random"
  let ?Q = "\<lambda>s'. (\<forall>cid. r = Inr cid \<longrightarrow> cid = ID data
        \<and> (\<exists>f. chunkFiles s' ?p = Some f \<and> ID (chunkBytes f) = ID data \<and> modTime f = now))
      \<and> (\<forall>p. p \<noteq> ?t \<longrightarrow> p \<noteq> ?p \<longrightarrow> chunkFiles s' p = chunkFiles s p)
      \<and> (\<forall>e. r = Inl e \<longrightarrow> chunkFiles s' ?p = chunkFiles s ?p)"
  obtain s1 x where rd: "readFile ?p s = (s1, x)"
    by fastforce
  note f1 = readFile_files [OF rd]
  have written: "?Q s'" if "(case writeChunk random now (ID data) data s1 of
      (t, Some e) \<Rightarrow> (t, Inl e) | (t, None) \<Rightarrow> (t, Inr (ID data))) = (s', r)"
  proof -
    obtain t e where w: "writeChunk random now (ID data) data s1 = (t, e)"
      by fastforce
    with writeChunk_files [OF w validName_ID] that f1 show ?thesis
      by (cases e) auto
  qed
  have "?Q s'"
  proof (cases x)
    case (Inl e)
    show ?thesis
    proof (cases "e = ChunkNotFound")
      case True
      show ?thesis
        by (rule written) (use assms rd Inl True in \<open>simp add: chunkPut_def Let_def\<close>)
    next
      case False
      with assms rd Inl have "s' = s1" "r = Inl e"
        by (cases e; simp add: chunkPut_def Let_def)+
      with f1 show ?thesis
        by simp
    qed
  next
    case (Inr existing)
    then obtain f where f: "chunkFiles s ?p = Some f" "chunkBytes f = existing"
      using readFile_result rd by blast
    show ?thesis
    proof (cases "ID existing = ID data")
      case False
      show ?thesis
        by (rule written) (use assms rd Inr False in \<open>simp add: chunkPut_def Let_def\<close>)
    next
      case True
      obtain t e where c: "chtimes ?p now s1 = (t, e)"
        by fastforce
      with chtimes_files assms rd Inr True f f1 show ?thesis
        by (cases e) (auto simp: chunkPut_def Let_def)
    qed
  qed
  then show "r = Inr cid \<Longrightarrow> cid = ID data
      \<and> (\<exists>f. chunkFiles s' ?p = Some f \<and> ID (chunkBytes f) = ID data \<and> modTime f = now)"
    "\<And>p. p \<noteq> ?t \<Longrightarrow> p \<noteq> ?p \<Longrightarrow> chunkFiles s' p = chunkFiles s p"
    "(\<exists>e. r = Inl e) \<Longrightarrow> chunkFiles s' ?p = chunkFiles s ?p"
    by blast+
qed

lemma chunkGet_files: "chunkGet cid s = (s', r) \<Longrightarrow> chunkFiles s' = chunkFiles s"
  by (auto simp: chunkGet_def split: option.splits prod.splits sum.splits dest: readFile_files)

lemma chunkGet_result:
  "chunkGet cid s = (s', Inr data) \<Longrightarrow>
     ID data = cid \<and> (\<exists>f. chunkFiles s (chunkPath cid) = Some f \<and> chunkBytes f = data)"
  by (auto simp: chunkGet_def split: option.splits prod.splits sum.splits if_splits dest: readFile_result)

lemma chunkDelete_files:
  "chunkDelete cid s = (s', r) \<Longrightarrow> chunkFiles s' = chunkFiles s
     \<or> validName cid \<and> chunkFiles s' = (chunkFiles s)(chunkPath cid := None)"
  by (auto simp: chunkDelete_def validName_def split: option.splits prod.splits chunkError.splits dest!: removeFile_files(1))

subsection \<open>Sweeping\<close>

definition garbage :: "string set \<Rightarrow> int \<Rightarrow> chunkStore \<Rightarrow> string list \<Rightarrow> bool" where
  "garbage live cutoff s p \<longleftrightarrow> validName (last p) \<and> last p \<notin> live
     \<and> (case chunkFiles s p of None \<Rightarrow> False | Some f \<Rightarrow> modTime f < cutoff)"

lemma garbage_same: "chunkFiles s p = chunkFiles t p \<Longrightarrow> garbage live cutoff s p = garbage live cutoff t p"
  by (simp add: garbage_def)

text \<open>One visit: the walk goes on with the file removed or kept, or stops with an error.\<close>

lemma sweep_visit:
  assumes "sweepLoop live cutoff (p # ps) res s = (s', r)" "chunkFiles s p \<noteq> None"
  obtains (stopped) e where "r = Inl e"
      "chunkFiles s' = chunkFiles s \<or> garbage live cutoff s p \<and> chunkFiles s' = (chunkFiles s)(p := None)"
  | (goes) t res' where "sweepLoop live cutoff ps res' t = (s', r)"
      "chunkFiles t = (if garbage live cutoff s p then (chunkFiles s)(p := None) else chunkFiles s)"
      "Scanned res' = Scanned res + (if validName (last p) then 1 else 0)"
      "DeletedCount res' = DeletedCount res + (if garbage live cutoff s p then 1 else 0)"
      "Kept res' = Kept res + (if validName (last p) \<and> \<not> garbage live cutoff s p then 1 else 0)"
proof -
  obtain f where f: "chunkFiles s p = Some f"
    using assms(2) by auto
  obtain s1 e1 where c1: "plainCall s = (s1, e1)"
    by fastforce
  note f1 = plainCall_files [OF c1]
  obtain s2 e2 where c2: "plainCall s1 = (s2, e2)"
    by fastforce
  note f2 = plainCall_files [OF c2]
  obtain s3 e3 where c3: "removeFile p s2 = (s3, e3)"
    by fastforce
  note f3 = removeFile_files(1) [OF c3]
  have f4: "e3 = None \<Longrightarrow> chunkFiles s3 = (chunkFiles s2)(p := None)"
    using removeFile_files(2) c3 by simp
  consider "e1 \<noteq> None" | "e1 = None" "\<not> validName (last p)" | "e1 = None" "validName (last p)" "last p \<in> live"
    | "e1 = None" "validName (last p)" "last p \<notin> live" "e2 \<noteq> None"
    | "e1 = None" "validName (last p)" "last p \<notin> live" "e2 = None" "\<not> modTime f < cutoff"
    | "e1 = None" "validName (last p)" "last p \<notin> live" "e2 = None" "modTime f < cutoff" "e3 \<noteq> None"
    | "e1 = None" "validName (last p)" "last p \<notin> live" "e2 = None" "modTime f < cutoff" "e3 = None"
    by blast
  then show ?thesis
  proof cases
    case 1
    with assms(1) c1 f1 stopped show ?thesis by auto
  next
    case 2
    with assms(1) c1 f1 show ?thesis
      by (intro goes [of res s1]) (auto simp: validName_def garbage_def)
  next
    case 3
    with assms(1) c1 f1 show ?thesis
      by (intro goes [of "res\<lparr>Scanned := Scanned res + 1, Kept := Kept res + 1\<rparr>" s1])
        (auto simp: validName_def garbage_def Let_def)
  next
    case 4
    with assms(1) c1 f1 c2 f2 stopped show ?thesis by (auto simp: validName_def Let_def)
  next
    case 5
    with assms(1) c1 f1 c2 f2 f show ?thesis
      by (intro goes [of "res\<lparr>Scanned := Scanned res + 1, Kept := Kept res + 1\<rparr>" s2])
        (auto simp: validName_def garbage_def Let_def)
  next
    case 6
    then have "garbage live cutoff s p"
      using f by (simp add: garbage_def)
    with 6 assms(1) c1 f1 c2 f2 c3 f3 f stopped show ?thesis
      by (auto simp: validName_def Let_def)
  next
    case 7
    then have g: "garbage live cutoff s p"
      using f by (simp add: garbage_def)
    with 7 assms(1) c1 f1 c2 f2 c3 f4 f show ?thesis
      by (intro goes [of "res\<lparr>Scanned := Scanned res + 1, DeletedCount := DeletedCount res + 1\<rparr>" s3])
        (auto simp: validName_def Let_def)
  qed
qed

lemma sweepLoop_files:
  assumes "sweepLoop live cutoff ps res s = (s', r)" "distinct ps" "\<forall>p \<in> set ps. chunkFiles s p \<noteq> None"
  shows "(\<forall>p. chunkFiles s' p = chunkFiles s p \<or> p \<in> set ps \<and> garbage live cutoff s p \<and> chunkFiles s' p = None)
    \<and> (\<forall>res'. r = Inr res' \<longrightarrow>
        (\<forall>p \<in> set ps. garbage live cutoff s p \<longrightarrow> chunkFiles s' p = None)
        \<and> Scanned res' = Scanned res + int (length (filter (\<lambda>p. validName (last p)) ps))
        \<and> DeletedCount res' = DeletedCount res + int (length (filter (garbage live cutoff s) ps))
        \<and> Scanned res' - Scanned res = (DeletedCount res' - DeletedCount res) + (Kept res' - Kept res))"
  using assms
proof (induction ps arbitrary: s res)
  case (Cons p ps)
  from Cons.prems(1) have "chunkFiles s p \<noteq> None"
    using Cons.prems(3) by simp
  from Cons.prems(1) this show ?case
  proof (cases rule: sweep_visit)
    case (stopped e)
    then show ?thesis by (auto split: if_splits)
  next
    case (goes t res1)
    have other: "chunkFiles t q = chunkFiles s q" if "q \<noteq> p" for q
      using goes(2) that by simp
    have "p \<notin> set ps"
      using Cons.prems(2) by simp
    then have g: "garbage live cutoff t q = garbage live cutoff s q" if "q \<in> set ps" for q
      using other [of q] that by (intro garbage_same) auto
    have "\<forall>q \<in> set ps. chunkFiles t q \<noteq> None"
    proof
      fix q
      assume q: "q \<in> set ps"
      then have "q \<noteq> p"
        using Cons.prems(2) by auto
      with q Cons.prems(3) other [of q] show "chunkFiles t q \<noteq> None"
        by simp
    qed
    note IH = Cons.IH [OF goes(1) _ this]
    have fg: "filter (garbage live cutoff t) ps = filter (garbage live cutoff s) ps"
      using g by (intro filter_cong) auto
    have keep: "chunkFiles s' q = chunkFiles t q \<or> q \<in> set ps \<and> garbage live cutoff t q \<and> chunkFiles s' q = None" for q
      using IH Cons.prems(2) by simp
    have a: "chunkFiles s' q = chunkFiles s q \<or> q \<in> set (p # ps) \<and> garbage live cutoff s q \<and> chunkFiles s' q = None" for q
    proof (cases "q = p")
      case True
      with keep [of p] \<open>p \<notin> set ps\<close> goes(2) show ?thesis
        by (auto split: if_splits)
    next
      case False
      with keep [of q] g other show ?thesis
        by auto
    qed
    have b: "garbage live cutoff s p \<Longrightarrow> chunkFiles s' p = None"
      using keep [of p] \<open>p \<notin> set ps\<close> goes(2) by simp
    have c: "(\<forall>q \<in> set (p # ps). garbage live cutoff s q \<longrightarrow> chunkFiles s' q = None)
        \<and> Scanned res' = Scanned res + int (length (filter (\<lambda>p. validName (last p)) (p # ps)))
        \<and> DeletedCount res' = DeletedCount res + int (length (filter (garbage live cutoff s) (p # ps)))
        \<and> Scanned res' - Scanned res = (DeletedCount res' - DeletedCount res) + (Kept res' - Kept res)"
      if "r = Inr res'" for res'
    proof -
      from IH Cons.prems(2) that have i: "\<forall>q \<in> set ps. garbage live cutoff t q \<longrightarrow> chunkFiles s' q = None"
          "Scanned res' = Scanned res1 + int (length (filter (\<lambda>p. validName (last p)) ps))"
          "DeletedCount res' = DeletedCount res1 + int (length (filter (garbage live cutoff t) ps))"
          "Scanned res' - Scanned res1 = (DeletedCount res' - DeletedCount res1) + (Kept res' - Kept res1)"
        by simp_all
      have "\<forall>q \<in> set (p # ps). garbage live cutoff s q \<longrightarrow> chunkFiles s' q = None"
        using i(1) g b by simp
      moreover have "garbage live cutoff s p \<Longrightarrow> validName (last p)"
        by (simp add: garbage_def)
      ultimately show ?thesis
        using i(2-4) goes(3-5) by (cases "validName (last p)"; cases "garbage live cutoff s p") (simp_all add: fg)
    qed
    show ?thesis
      using a c by (intro conjI allI impI) metis+
  qed
qed auto

lemma Sweep_files:
  assumes "Sweep live cutoff s = (s', r)" "finite (dom (chunkFiles s))"
  shows "chunkFiles s' p = chunkFiles s p \<or> garbage live cutoff s p \<and> chunkFiles s' p = None"
    and "r = Inr res \<Longrightarrow> chunkFiles s' = (\<lambda>p. if garbage live cutoff s p then None else chunkFiles s p)
      \<and> Scanned res = int (card {p \<in> dom (chunkFiles s). validName (last p)})
      \<and> DeletedCount res = int (card {p. garbage live cutoff s p})
      \<and> Scanned res = DeletedCount res + Kept res"
proof -
  let ?ps = "walkOrder s"
  have ps: "distinct ?ps" "set ?ps = dom (chunkFiles s)"
    using assms(2) by (simp_all add: walkOrder_def)
  have "\<forall>p \<in> set ?ps. chunkFiles s p \<noteq> None"
    using ps(2) by auto
  note L = sweepLoop_files [OF assms(1) [unfolded Sweep_def] ps(1) this]
  show "chunkFiles s' p = chunkFiles s p \<or> garbage live cutoff s p \<and> chunkFiles s' p = None"
    using L by blast
  have sub: "garbage live cutoff s p \<Longrightarrow> p \<in> dom (chunkFiles s)" for p
    by (auto simp: garbage_def split: option.splits)
  have count: "length (filter P ?ps) = card {p \<in> dom (chunkFiles s). P p}" for P
  proof -
    have "{p \<in> dom (chunkFiles s). P p} = set (filter P ?ps)"
      by (simp add: ps(2))
    then show ?thesis
      using distinct_card [of "filter P ?ps"] ps(1) by simp
  qed
  have "{p \<in> dom (chunkFiles s). garbage live cutoff s p} = {p. garbage live cutoff s p}"
    using sub by blast
  moreover assume "r = Inr res"
  then have "\<forall>p. garbage live cutoff s p \<longrightarrow> chunkFiles s' p = None"
      "Scanned res = int (length (filter (\<lambda>p. validName (last p)) ?ps))"
      "DeletedCount res = int (length (filter (garbage live cutoff s) ?ps))" "Scanned res = DeletedCount res + Kept res"
    using L sub ps(2) by auto
  moreover then have "chunkFiles s' = (\<lambda>p. if garbage live cutoff s p then None else chunkFiles s p)"
    using L by (auto simp: fun_eq_iff)
  ultimately show "chunkFiles s' = (\<lambda>p. if garbage live cutoff s p then None else chunkFiles s p)
      \<and> Scanned res = int (card {p \<in> dom (chunkFiles s). validName (last p)})
      \<and> DeletedCount res = int (card {p. garbage live cutoff s p})
      \<and> Scanned res = DeletedCount res + Kept res"
    by (simp add: count)
qed

subsection \<open>Every file is where its content says\<close>

definition well_named :: "chunkStore \<Rightarrow> bool" where
  "well_named s \<longleftrightarrow> finite (dom (chunkFiles s))
     \<and> (\<forall>p f. chunkFiles s p = Some f \<longrightarrow> validName (last p) \<longrightarrow> p = chunkPath (last p) \<and> ID (chunkBytes f) = last p)"

inductive chunkStep :: "chunkStore \<Rightarrow> chunkStore \<Rightarrow> bool" where
  StepPut: "chunkStep s (fst (chunkPut random now data s))"
| StepGet: "chunkStep s (fst (chunkGet cid s))"
| StepDrop: "chunkStep s (fst (chunkDelete cid s))"
| StepExists: "chunkStep s (fst (chunkExists cid s))"
| StepIDs: "chunkStep s (fst (chunkIDs s))"
| StepSweep: "chunkStep s (fst (Sweep live cutoff s))"
| StepCalls: "chunkStep s (s\<lparr>chunkCalls := cs\<rparr>)"

lemma well_named_cong: "chunkFiles t = chunkFiles s \<Longrightarrow> well_named s \<Longrightarrow> well_named t"
  by (simp add: well_named_def)

lemma well_named_less:
  assumes "well_named s" "\<And>p. chunkFiles t p = chunkFiles s p \<or> chunkFiles t p = None"
  shows "well_named t"
proof -
  have "dom (chunkFiles t) \<subseteq> dom (chunkFiles s)"
    using assms(2) by (metis domIff subsetI)
  moreover have "chunkFiles t p = Some f \<Longrightarrow> chunkFiles s p = Some f" for p f
    using assms(2) [of p] by simp
  ultimately show ?thesis
    using assms(1) by (auto simp: well_named_def intro: finite_subset)
qed

lemma well_named_Put:
  assumes "well_named s"
  shows "well_named (fst (chunkPut random now data s))"
proof -
  obtain s' r where p: "chunkPut random now data s = (s', r)"
    by fastforce
  let ?p = "chunkPath (ID data)" and ?t = "tempPath (ID data) random"
  have other: "q \<noteq> ?t \<Longrightarrow> q \<noteq> ?p \<Longrightarrow> chunkFiles s' q = chunkFiles s q" for q
    using chunkPut_files(2) [OF p] by blast
  have "dom (chunkFiles s') \<subseteq> insert ?t (insert ?p (dom (chunkFiles s)))"
    using other by (metis domIff insertCI subsetI)
  then have "finite (dom (chunkFiles s'))"
    using assms by (auto simp: well_named_def intro: finite_subset)
  moreover have "q = chunkPath (last q) \<and> ID (chunkBytes f) = last q"
    if "chunkFiles s' q = Some f" "validName (last q)" for q f
  proof (cases "q = ?p")
    case True
    show ?thesis
    proof (cases r)
      case (Inl e)
      with chunkPut_files(3) [OF p] that True assms show ?thesis
        by (auto simp: well_named_def)
    next
      case (Inr cid)
      with chunkPut_files(1) [OF p Inr] that True show ?thesis
        by auto
    qed
  next
    case False
    moreover have "q \<noteq> ?t"
      using that(2) temp_not_valid by auto
    ultimately show ?thesis
      using other [of q] that assms unfolding well_named_def by metis
  qed
  ultimately show ?thesis
    by (simp add: p well_named_def)
qed

lemma idsLoop_files: "idsLoop ps ids s = (s', r) \<Longrightarrow> chunkFiles s' = chunkFiles s"
  by (induction ps arbitrary: ids s) (auto split: prod.splits option.splits dest: plainCall_files)

lemma chunkExists_files: "chunkExists cid s = (s', r) \<Longrightarrow> chunkFiles s' = chunkFiles s"
  by (rule chunkCall_cases [of s]) (auto simp: chunkExists_def split: option.splits prod.splits fault.splits)

lemma chunkStep_well_named:
  assumes "well_named s" "chunkStep s t"
  shows "well_named t"
  using assms(2)
proof cases
  case (StepPut random now data)
  with well_named_Put assms(1) show ?thesis by simp
next
  case (StepGet cid)
  with chunkGet_files [of cid s] well_named_cong [OF _ assms(1)] show ?thesis
    by (metis prod.collapse)
next
  case (StepDrop cid)
  with chunkDelete_files [of cid s] show ?thesis
    by (intro well_named_less [OF assms(1)]) (metis fun_upd_apply prod.collapse)
next
  case (StepExists cid)
  with chunkExists_files [of cid s] well_named_cong [OF _ assms(1)] show ?thesis
    by (metis prod.collapse)
next
  case StepIDs
  obtain s1 r where "idsLoop (walkOrder s) [] s = (s1, r)"
    by fastforce
  with StepIDs idsLoop_files well_named_cong [OF _ assms(1)] show ?thesis
    by (cases r) (auto simp: chunkIDs_def)
next
  case (StepSweep live cutoff)
  have "finite (dom (chunkFiles s))"
    using assms(1) by (simp add: well_named_def)
  with StepSweep Sweep_files(1) [of live cutoff s] show ?thesis
    by (intro well_named_less [OF assms(1)]) (metis prod.collapse)
next
  case (StepCalls cs)
  with well_named_cong [OF _ assms(1)] show ?thesis by simp
qed

interpretation disk: inductive_invariant "\<lambda>s. chunkFiles s = Map.empty" chunkStep well_named
  by unfold_locales (simp add: well_named_def, rule chunkStep_well_named)

text \<open>A file with the name of a chunk lies on the path of that name and its content has that hash,
  in every state the operations reach from an empty store whatever system calls fail; so without
  damage from outside \<open>Get\<close> never meets a checksum that is wrong.\<close>
theorem chunk_files_named:
  assumes "reachable (\<lambda>s. chunkFiles s = Map.empty) chunkStep s"
  shows "(chunkFiles s p = Some f \<longrightarrow> validateID (last p) = None \<longrightarrow> p = chunkPath (last p) \<and> ID (chunkBytes f) = last p)
    \<and> snd (chunkGet cid s) \<noteq> Inl (ChunkMismatch cid)"
proof -
  have w: "well_named s"
    by (rule disk.reachable_inv [OF assms])
  have "snd (chunkGet cid s) \<noteq> Inl (ChunkMismatch cid)"
  proof (cases "validateID cid")
    case (Some e)
    then show ?thesis
      by (auto simp: chunkGet_def validateID_def split: if_splits)
  next
    case None
    obtain s1 x where rd: "readFile (chunkPath cid) s = (s1, x)"
      by fastforce
    show ?thesis
    proof (cases x)
      case (Inl e)
      then have "e = ChunkIo \<or> e = ChunkNotFound"
        using readFile_error rd by blast
      with None rd Inl show ?thesis
        by (auto simp: chunkGet_def)
    next
      case (Inr d)
      then obtain g where "chunkFiles s (chunkPath cid) = Some g" "chunkBytes g = d"
        using readFile_result rd by blast
      with w None have "ID d = cid"
        by (metis last_paths(1) validName_def well_named_def)
      with None rd Inr show ?thesis
        by (simp add: chunkGet_def)
    qed
  qed
  with w show ?thesis
    by (simp add: well_named_def validName_def)
qed

text \<open>\<open>Sweep\<close> removes chunks that are not live and older than the cutoff, and nothing else, whatever
  calls fail; when it succeeds it removed all of them, and its counters say how many files with a
  chunk's name there were, how many it removed and how many it kept.\<close>
theorem Sweep_exact:
  assumes "Sweep live cutoff s = (s', r)" "finite (dom (chunkFiles s))"
  shows "(chunkFiles s' p \<noteq> chunkFiles s p \<longrightarrow> chunkFiles s' p = None \<and> validateID (last p) = None \<and> last p \<notin> live
        \<and> (\<exists>f. chunkFiles s p = Some f \<and> modTime f < cutoff))
    \<and> (\<forall>res. r = Inr res \<longrightarrow>
        chunkFiles s' = (\<lambda>p. if garbage live cutoff s p then None else chunkFiles s p)
        \<and> Scanned res = int (card {p \<in> dom (chunkFiles s). validateID (last p) = None})
        \<and> DeletedCount res = int (card {p. garbage live cutoff s p})
        \<and> Scanned res = DeletedCount res + Kept res)"
proof (intro conjI [OF _ allI])
  show "chunkFiles s' p \<noteq> chunkFiles s p \<longrightarrow> chunkFiles s' p = None \<and> validateID (last p) = None \<and> last p \<notin> live
      \<and> (\<exists>f. chunkFiles s p = Some f \<and> modTime f < cutoff)"
    using Sweep_files(1) [OF assms, of p] by (auto simp: garbage_def validName_def split: option.splits)
  fix res
  show "r = Inr res \<longrightarrow>
        chunkFiles s' = (\<lambda>p. if garbage live cutoff s p then None else chunkFiles s p)
        \<and> Scanned res = int (card {p \<in> dom (chunkFiles s). validateID (last p) = None})
        \<and> DeletedCount res = int (card {p. garbage live cutoff s p})
        \<and> Scanned res = DeletedCount res + Kept res"
    by (rule impI) (rule Sweep_files(2) [OF assms, unfolded validName_def])
qed

subsection \<open>Streams\<close>

lemma readUpTo_simps:
  assumes "0 < n"
  shows "n \<le> length (pending r) \<Longrightarrow> readUpTo n r = (r\<lparr>pending := drop n (pending r)\<rparr>, take n (pending r), None)"
    "length (pending r) < n \<Longrightarrow> pending r = [] \<Longrightarrow> \<not> breaks r \<Longrightarrow> readUpTo n r = (r, [], Some EOF)"
    "length (pending r) < n \<Longrightarrow> pending r \<noteq> [] \<Longrightarrow> \<not> breaks r \<Longrightarrow>
       readUpTo n r = (r\<lparr>pending := []\<rparr>, pending r, Some UnexpectedEOF)"
    "length (pending r) < n \<Longrightarrow> breaks r \<Longrightarrow> readUpTo n r = (r\<lparr>pending := []\<rparr>, pending r, Some OSError)"
  using assms by (auto simp: readUpTo_def)

definition infoOf :: "bytes \<Rightarrow> ChunkInfo" where
  "infoOf data = \<lparr>InfoID = ID data, InfoSize = int (length data)\<rparr>"

lemma readerLoop_pieces:
  assumes "readerLoop n random now r infos s = (s', Inr out)" "0 < n"
  shows "out = infos @ map infoOf (pieces n (pending r)) \<and> \<not> breaks r"
  using assms
proof (induction n random now r infos s rule: readerLoop.induct)
  case (1 n random now r infos s)
  have going: ?case if rd: "readUpTo n r = (r', data, err)" and e: "err = None \<or> err = Some UnexpectedEOF"
    and p: "pieces n (pending r) = data # pieces n (pending r')" "breaks r' = breaks r" for r' data err
  proof -
    obtain t x where put: "chunkPut (random (length infos)) (now (length infos)) data s = (t, x)"
      by fastforce
    have loop: "readerLoop n random now r infos s = (case x of
        Inl e \<Rightarrow> (t, Inl (StoreFailed e))
      | Inr cid \<Rightarrow> readerLoop n random now r' (infos @ [\<lparr>InfoID = cid, InfoSize = int (length data)\<rparr>]) t)"
      using rd e put 1(3) by (subst readerLoop.simps) (auto split: sum.splits)
    then obtain cid where x: "x = Inr cid"
      using 1(2) by (cases x) auto
    have "cid = ID data"
      using chunkPut_files(1) [OF put x] by blast
    then have "out = (infos @ [infoOf data]) @ map infoOf (pieces n (pending r')) \<and> \<not> breaks r'"
      using 1(1) [of r' "(data, err)" data err t x cid] 1(2,3) rd e put loop x by (auto simp: infoOf_def)
    with p show ?thesis
      by simp
  qed
  consider (full) "n \<le> length (pending r)" | (ended) "length (pending r) < n" "pending r = []" "\<not> breaks r"
    | (short) "length (pending r) < n" "pending r \<noteq> []" "\<not> breaks r" | (broken) "length (pending r) < n" "breaks r"
    by fastforce
  then show ?case
  proof cases
    case full
    then have "pieces n (pending r) = take n (pending r) # pieces n (drop n (pending r))"
      using 1(3) by (subst pieces.simps) auto
    with full 1(3) show ?thesis
      by (intro going [OF readUpTo_simps(1)]) auto
  next
    case ended
    with 1(2,3) show ?thesis
      by (simp add: readerLoop.simps [of n] pieces.simps [of n] readUpTo_simps)
  next
    case short
    then have "pieces n (pending r) = pending r # pieces n []"
      by (subst pieces.simps) auto
    with short 1(3) show ?thesis
      by (intro going [OF readUpTo_simps(3)]) auto
  next
    case broken
    with 1(2,3) show ?thesis
      by (simp add: readerLoop.simps [of n] readUpTo_simps)
  qed
qed

lemma pieces_sizes: "0 < n \<Longrightarrow> (\<Sum>p \<leftarrow> pieces n bs. int (length p)) = int (length bs)"
proof (induction n bs rule: pieces.induct)
  case (1 n bs)
  then show ?case
    by (cases "bs = []") (subst pieces.simps, simp add: min_def)+
qed

text \<open>C24. What cutting a stream gives: when \<open>WriteFromReader\<close> succeeds the stream ended without an
  error, and the chunks are its consecutive pieces of the chunk size, none empty, none larger, the
  last possibly smaller, with their hashes and sizes.\<close>
theorem WriteFromReader_pieces:
  assumes "WriteFromReader r chunkSize random now s = (s', Inr infos)"
  shows "0 < chunkSize \<and> \<not> breaks r \<and> infos = map infoOf (pieces (nat chunkSize) (pending r))
    \<and> concat (pieces (nat chunkSize) (pending r)) = pending r
    \<and> (\<forall>info \<in> set infos. 0 < InfoSize info \<and> InfoSize info \<le> chunkSize)
    \<and> (\<Sum>info \<leftarrow> infos. InfoSize info) = int (length (pending r))"
proof -
  have c: "0 < chunkSize" "readerLoop (nat chunkSize) random now r [] s = (s', Inr infos)"
    using assms by (auto simp: WriteFromReader_def split: if_splits)
  have i: "infos = map infoOf (pieces (nat chunkSize) (pending r))" "\<not> breaks r"
    using readerLoop_pieces [OF c(2)] c(1) by auto
  have "0 < InfoSize info \<and> InfoSize info \<le> chunkSize" if "info \<in> set infos" for info
    using that pieces_lengths [of _ "nat chunkSize" "pending r"] c(1) by (fastforce simp: i(1) infoOf_def)
  moreover have "(\<Sum>info \<leftarrow> infos. InfoSize info) = int (length (pending r))"
    using pieces_sizes [of "nat chunkSize" "pending r"] c(1) by (simp add: i(1) infoOf_def comp_def)
  ultimately show ?thesis
    using c(1) i concat_pieces [of "nat chunkSize" "pending r"] by simp
qed

subsection \<open>Concrete stores\<close>

definition emptyChunks :: chunkStore where
  "emptyChunks = \<lparr>chunkFiles = Map.empty, chunkCalls = []\<rparr>"

lemma emptyChunks_simps [simp]: "chunkFiles emptyChunks = Map.empty" "chunkCalls emptyChunks = []"
  by (simp_all add: emptyChunks_def)

lemma chunkPut_fresh:
  assumes "chunkFiles s (chunkPath (ID d)) = None" "chunkFiles s (tempPath (ID d) random) = None" "chunkCalls s = []"
  shows "chunkPut random now d s =
    (s\<lparr>chunkFiles := (chunkFiles s)(chunkPath (ID d) \<mapsto> \<lparr>chunkBytes = d, modTime = now\<rparr>)\<rparr>, Inr (ID d))"
proof -
  have ne: "tempPath (ID d) random \<noteq> chunkPath (ID d)" "chunkPath (ID d) \<noteq> tempPath (ID d) random"
    using temp_not_chunk [OF validName_ID] by metis+
  have same: "(chunkFiles s)(tempPath (ID d) random := None) = chunkFiles s"
    using assms(2) by auto
  show ?thesis
    using assms ne same
    by (simp add: chunkPut_def readFile_def chunkCall_def writeChunk_def plainCall_def createTemp_def writeTemp_def
        renameFile_def removeFile_def thenCall_def Let_def fun_upd_twist)
qed

lemma WriteFromReader_pieces_witness:
  "\<exists>s'. WriteFromReader \<lparr>pending = [1, 2], breaks = False\<rparr> 4 (\<lambda>_. ''7'') (\<lambda>_. 0) emptyChunks
      = (s', Inr [\<lparr>InfoID = ID [1, 2], InfoSize = 2\<rparr>])
    \<and> (\<Sum>info \<leftarrow> [\<lparr>InfoID = ID [1, 2], InfoSize = 2\<rparr>]. InfoSize info) = int (length [1::u8, 2])"
proof -
  let ?r = "\<lparr>pending = [1, 2], breaks = False\<rparr>"
  have "\<exists>s'. WriteFromReader ?r 4 (\<lambda>_. ''7'') (\<lambda>_. 0) emptyChunks = (s', Inr [\<lparr>InfoID = ID [1, 2], InfoSize = 2\<rparr>])"
    by (simp add: WriteFromReader_def readerLoop.simps readUpTo_def chunkPut_fresh)
  then obtain s' where "WriteFromReader ?r 4 (\<lambda>_. ''7'') (\<lambda>_. 0) emptyChunks = (s', Inr [\<lparr>InfoID = ID [1, 2], InfoSize = 2\<rparr>])"
    by blast
  with WriteFromReader_pieces [OF this] show ?thesis
    by (auto simp: infoOf_def)
qed

definition oneChunk :: chunkStore where
  "oneChunk = fst (chunkPut ''7'' 5 [1, 2] emptyChunks)"

lemma oneChunk_files: "chunkFiles oneChunk = [chunkPath (ID [1, 2]) \<mapsto> \<lparr>chunkBytes = [1, 2], modTime = 5\<rparr>]"
    "chunkCalls oneChunk = []"
  by (simp_all add: oneChunk_def chunkPut_fresh)

lemma chunk_files_named_witness:
  "ID [1, 2] = last (chunkPath (ID [1, 2])) \<and> snd (chunkGet (ID [1, 2]) oneChunk) \<noteq> Inl (ChunkMismatch (ID [1, 2]))"
proof -
  have "reachable (\<lambda>s. chunkFiles s = Map.empty) chunkStep oneChunk"
    unfolding oneChunk_def by (rule reach_step [where s = emptyChunks], rule reach_init) (simp, rule StepPut)
  from chunk_files_named [OF this, where p = "chunkPath (ID [1, 2])" and cid = "ID [1, 2]"] oneChunk_files show ?thesis
    using validName_ID [of "[1, 2]"] by (simp add: validName_def)
qed

lemma Sweep_exact_witness:
  "\<exists>s' res. Sweep {} 6 oneChunk = (s', Inr res) \<and> chunkFiles s' = Map.empty \<and> DeletedCount res = 1 \<and> Kept res = 0"
proof -
  let ?p = "chunkPath (ID [1, 2])"
  have w: "walkOrder oneChunk = [?p]"
    by (simp add: walkOrder_def oneChunk_files)
  have v: "validateID (ID [1, 2]) = None"
    using validName_ID by (simp add: validName_def)
  obtain s' res where s: "Sweep {} 6 oneChunk = (s', Inr res)"
    by (simp add: Sweep_def w v plainCall_def chunkCall_def oneChunk_files removeFile_def)
  have g: "garbage {} 6 oneChunk = (\<lambda>p. p = ?p)"
    using v by (auto simp: garbage_def oneChunk_files fun_eq_iff validName_def)
  have d: "{p \<in> dom (chunkFiles oneChunk). validateID (last p) = None} = {?p}"
    using v by (auto simp: oneChunk_files split: if_splits)
  show ?thesis
    using Sweep_exact [OF s, where p = ?p] s unfolding g d by (simp add: oneChunk_files fun_eq_iff)
qed

end
