(* ===== verification/ObjectStore.thy ===== *)
theory ObjectStore
  imports StoreCodec ChunkProps
begin

text \<open>
  Objects, \<open>internal/object\<close>: the metadata of an object with its JSON text, and the operations of
  the object store over the two interfaces it is built on, \<open>ChunkStore\<close> and \<open>MetadataStore\<close>.  The
  interfaces are arguments of the operations, which thread the world behind them.  Metadata sizes
  are Go's signed 64 bit integers; no stream is long enough for their sum to wrap.
\<close>

definition MetadataKeyPrefix :: string where
  "MetadataKeyPrefix = ''object:meta:''"

record Metadata =
  MetaName :: string
  MetaSize :: int
  MetaChunkSize :: int
  MetaChunks :: "ChunkInfo list"

subsection \<open>JSON\<close>

definition encodeInt :: "int \<Rightarrow> json" where
  "encodeInt n =
     JNum (if n < 0 then 0x2D # bytesOf (decimal (nat (- n))) else bytesOf (decimal (nat n)))"

definition parseInt64 :: "bytes \<Rightarrow> int option" where
  "parseInt64 l =
     (case l of
        [] \<Rightarrow> None
      | c # r \<Rightarrow>
          if c = 0x2D
          then (if r \<noteq> [] \<and> list_all isDigit r \<and> digitsVal r \<le> 2 ^ 63 then Some (- int (digitsVal r)) else None)
          else (if list_all isDigit l \<and> digitsVal l < 2 ^ 63 then Some (int (digitsVal l)) else None))"

definition decodeInt :: "json \<Rightarrow> int \<Rightarrow> int option" where
  "decodeInt j n = (case j of JNull \<Rightarrow> Some n | JNum l \<Rightarrow> parseInt64 l | _ \<Rightarrow> None)"

text \<open>An array is decoded over the elements the slice has.\<close>

fun decodeElems :: "(json \<Rightarrow> 'a \<Rightarrow> 'a option) \<Rightarrow> 'a \<Rightarrow> json list \<Rightarrow> 'a list \<Rightarrow> 'a list option" where
  "decodeElems dec zero [] old = Some []"
| "decodeElems dec zero (j # js) old =
     (case dec j (case old of [] \<Rightarrow> zero | x # _ \<Rightarrow> x) of
        None \<Rightarrow> None
      | Some y \<Rightarrow> map_option (\<lambda>ys. y # ys) (decodeElems dec zero js (tl old)))"

definition decodeSlice :: "(json \<Rightarrow> 'a \<Rightarrow> 'a option) \<Rightarrow> 'a \<Rightarrow> json \<Rightarrow> 'a list \<Rightarrow> 'a list option" where
  "decodeSlice dec zero j old =
     (case j of JNull \<Rightarrow> Some [] | JArr xs \<Rightarrow> decodeElems dec zero xs old | _ \<Rightarrow> None)"

definition encodeSlice :: "('a \<Rightarrow> json) \<Rightarrow> 'a list \<Rightarrow> json" where
  "encodeSlice enc xs = (if xs = [] then JNull else JArr (map enc xs))"

definition encodeInfo :: "ChunkInfo \<Rightarrow> json" where
  "encodeInfo i = JObj [(bytesOf ''id'', encodeString (InfoID i)), (bytesOf ''size'', encodeInt (InfoSize i))]"

definition encodeMetadata :: "Metadata \<Rightarrow> json" where
  "encodeMetadata m =
     JObj [(bytesOf ''name'', encodeString (MetaName m)), (bytesOf ''size'', encodeInt (MetaSize m)),
           (bytesOf ''chunk_size'', encodeInt (MetaChunkSize m)),
           (bytesOf ''chunks'', encodeSlice encodeInfo (MetaChunks m))]"

definition zeroInfo :: ChunkInfo where
  "zeroInfo = \<lparr>InfoID = [], InfoSize = 0\<rparr>"

definition zeroMetadata :: Metadata where
  "zeroMetadata = \<lparr>MetaName = [], MetaSize = 0, MetaChunkSize = 0, MetaChunks = []\<rparr>"

definition decodeInfo :: "json \<Rightarrow> ChunkInfo \<Rightarrow> ChunkInfo option" where
  "decodeInfo = decodeStruct
     [(''id'', onField InfoID InfoID_update decodeString), (''size'', onField InfoSize InfoSize_update decodeInt)]"

definition decodeMetadata :: "json \<Rightarrow> Metadata \<Rightarrow> Metadata option" where
  "decodeMetadata = decodeStruct
     [(''name'', onField MetaName MetaName_update decodeString),
      (''size'', onField MetaSize MetaSize_update decodeInt),
      (''chunk_size'', onField MetaChunkSize MetaChunkSize_update decodeInt),
      (''chunks'', onField MetaChunks MetaChunks_update (decodeSlice decodeInfo zeroInfo))]"

definition marshalMetadata :: "Metadata \<Rightarrow> bytes" where
  "marshalMetadata m = printJson (encodeMetadata m)"

definition unmarshalMetadata :: "bytes \<Rightarrow> Metadata option" where
  "unmarshalMetadata bs = unmarshal decodeMetadata bs zeroMetadata"

subsection \<open>Operations\<close>

datatype 'e objectError =
    ObjectNameEmpty
  | ObjectChunkSize int
  | ObjectRead ioError
  | ObjectBackend 'e
  | ObjectDecode
  | ObjectChunkSizeMismatch string
  | ObjectSizeMismatch int int
  | ObjectWriter

definition metadataKey :: "string \<Rightarrow> string" where
  "metadataKey name = MetadataKeyPrefix @ hexEncode (sha256 (bytesOf name))"

text \<open>The buffer is not empty, see the guard of \<open>writeChunks\<close>.\<close>

function objectLoop ::
  "(bytes \<Rightarrow> 'w \<Rightarrow> 'w \<times> ('e + string)) \<Rightarrow> nat \<Rightarrow> reader \<Rightarrow> ChunkInfo list \<Rightarrow> 'w
     \<Rightarrow> 'w \<times> ('e objectError + ChunkInfo list)" where
  "objectLoop putChunk buf r infos w =
     (if buf = 0 then (w, Inr infos)
      else case readUpTo buf r of
        (r', data, readErr) \<Rightarrow>
          if readErr = Some EOF then (w, Inr infos)
          else if readErr \<noteq> None \<and> readErr \<noteq> Some UnexpectedEOF then (w, Inl (ObjectRead (the readErr)))
          else case putChunk data w of
            (w', Inl e) \<Rightarrow> (w', Inl (ObjectBackend e))
          | (w', Inr cid) \<Rightarrow>
              let infos' = infos @ [\<lparr>InfoID = cid, InfoSize = int (length data)\<rparr>]
              in if readErr = Some UnexpectedEOF then (w', Inr infos')
                 else objectLoop putChunk buf r' infos' w')"
  by pat_completeness auto
termination
  by (relation "measure (\<lambda>(putChunk, buf, r, infos, w). length (pending r))")
    (auto simp: readUpTo_def split: if_splits)

declare objectLoop.simps [simp del]

definition writeChunks ::
  "(bytes \<Rightarrow> 'w \<Rightarrow> 'w \<times> ('e + string)) \<Rightarrow> reader \<Rightarrow> int \<Rightarrow> 'w \<Rightarrow> 'w \<times> ('e objectError + ChunkInfo list)" where
  "writeChunks putChunk r chunkSize w =
     (if chunkSize \<le> 0 then (w, Inl (ObjectChunkSize chunkSize))
      else objectLoop putChunk (nat chunkSize) r [] w)"

definition ObjectPut ::
  "(bytes \<Rightarrow> 'w \<Rightarrow> 'w \<times> ('e + string)) \<Rightarrow> (string \<Rightarrow> bytes \<Rightarrow> 'w \<Rightarrow> 'w \<times> 'e option)
     \<Rightarrow> string \<Rightarrow> reader \<Rightarrow> int \<Rightarrow> 'w \<Rightarrow> 'w \<times> ('e objectError + Metadata)" where
  "ObjectPut putChunk metaPut name r chunkSize w =
     (if name = [] then (w, Inl ObjectNameEmpty)
      else case writeChunks putChunk r chunkSize w of
        (w1, Inl e) \<Rightarrow> (w1, Inl e)
      | (w1, Inr infos) \<Rightarrow>
          let metadata = \<lparr>MetaName = name, MetaSize = foldl (\<lambda>size info. size + InfoSize info) 0 infos,
                MetaChunkSize = chunkSize, MetaChunks = infos\<rparr>
          in case metaPut (metadataKey name) (marshalMetadata metadata) w1 of
               (w2, Some e) \<Rightarrow> (w2, Inl (ObjectBackend e))
             | (w2, None) \<Rightarrow> (w2, Inr metadata))"

text \<open>A writer: what it took, whether anything was written, and the outcomes of the writes to come.\<close>

record sink =
  taken :: bytes
  begun :: bool
  sinkFaults :: "fault list"

definition sinkWrite :: "bytes \<Rightarrow> sink \<Rightarrow> sink \<times> bool" where
  "sinkWrite data k =
     (case sinkFaults k of
        Fails n # fs \<Rightarrow> (k\<lparr>taken := taken k @ take n data, begun := True, sinkFaults := fs\<rparr>, False)
      | _ \<Rightarrow> (k\<lparr>taken := taken k @ data, begun := True, sinkFaults := tl (sinkFaults k)\<rparr>, True))"

fun objectWriteLoop ::
  "(string \<Rightarrow> 'w \<Rightarrow> 'w \<times> ('e + bytes)) \<Rightarrow> ChunkInfo list \<Rightarrow> int \<Rightarrow> sink \<Rightarrow> 'w
     \<Rightarrow> 'w \<times> sink \<times> ('e objectError + int)" where
  "objectWriteLoop getChunk [] written k w = (w, k, Inr written)"
| "objectWriteLoop getChunk (info # infos) written k w =
     (case getChunk (InfoID info) w of
        (w', Inl e) \<Rightarrow> (w', k, Inl (ObjectBackend e))
      | (w', Inr data) \<Rightarrow>
          if int (length data) \<noteq> InfoSize info then (w', k, Inl (ObjectChunkSizeMismatch (InfoID info)))
          else case sinkWrite data k of
            (k', ok) \<Rightarrow>
              if \<not> ok then (w', k', Inl ObjectWriter)
              else objectWriteLoop getChunk infos (written + int (length data)) k' w')"

definition WriteTo ::
  "(string \<Rightarrow> 'w \<Rightarrow> 'w \<times> ('e + bytes)) \<Rightarrow> Metadata \<Rightarrow> sink \<Rightarrow> 'w \<Rightarrow> 'w \<times> sink \<times> 'e objectError option" where
  "WriteTo getChunk metadata k w =
     (case objectWriteLoop getChunk (MetaChunks metadata) 0 k w of
        (w', k', Inl e) \<Rightarrow> (w', k', Some e)
      | (w', k', Inr written) \<Rightarrow>
          (w', k', if written \<noteq> MetaSize metadata then Some (ObjectSizeMismatch (MetaSize metadata) written) else None))"

definition ObjectMetadata ::
  "(string \<Rightarrow> 'w \<Rightarrow> 'w \<times> ('e + bytes option \<times> bool)) \<Rightarrow> string \<Rightarrow> 'w
     \<Rightarrow> 'w \<times> ('e objectError + Metadata \<times> bool)" where
  "ObjectMetadata metaGet name w =
     (case metaGet (metadataKey name) w of
        (w', Inl e) \<Rightarrow> (w', Inl (ObjectBackend e))
      | (w', Inr (data, found)) \<Rightarrow>
          if \<not> found then (w', Inr (zeroMetadata, False))
          else (w', case unmarshalMetadata (case data of None \<Rightarrow> [] | Some d \<Rightarrow> d) of
                      None \<Rightarrow> Inl ObjectDecode | Some m \<Rightarrow> Inr (m, True)))"

definition ObjectGet ::
  "(string \<Rightarrow> 'w \<Rightarrow> 'w \<times> ('e + bytes option \<times> bool)) \<Rightarrow> (string \<Rightarrow> 'w \<Rightarrow> 'w \<times> ('e + bytes))
     \<Rightarrow> string \<Rightarrow> sink \<Rightarrow> 'w \<Rightarrow> 'w \<times> sink \<times> ('e objectError + bool)" where
  "ObjectGet metaGet getChunk name k w =
     (case ObjectMetadata metaGet name w of
        (w1, Inl e) \<Rightarrow> (w1, k, Inl e)
      | (w1, Inr (metadata, found)) \<Rightarrow>
          if \<not> found then (w1, k, Inr False)
          else case WriteTo getChunk metadata k w1 of
            (w2, k', Some e) \<Rightarrow> (w2, k', Inl e)
          | (w2, k', None) \<Rightarrow> (w2, k', Inr True))"

definition ObjectDelete ::
  "(string \<Rightarrow> 'w \<Rightarrow> 'w \<times> 'e option) \<Rightarrow> string \<Rightarrow> 'w \<Rightarrow> 'w \<times> 'e objectError option" where
  "ObjectDelete metaDelete name w =
     (if name = [] then (w, Some ObjectNameEmpty)
      else case metaDelete (metadataKey name) w of (w', e) \<Rightarrow> (w', map_option ObjectBackend e))"

subsection \<open>Metadata text\<close>

lemma object_names [simp]:
  "foldName (bytesOf ''id'') = bytesOf ''ID''" "foldName (bytesOf ''size'') = bytesOf ''SIZE''"
  "foldName (bytesOf ''name'') = bytesOf ''NAME''" "foldName (bytesOf ''chunk_size'') = bytesOf ''CHUNK_SIZE''"
  "foldName (bytesOf ''chunks'') = bytesOf ''CHUNKS''"
  "goodString ''id''" "goodString ''size''" "goodString ''name''" "goodString ''chunk_size''" "goodString ''chunks''"
  by code_simp+

lemma decimalLit_decimal: "decimalLit (bytesOf (decimal n))"
proof (cases "n = 0")
  case True
  then show ?thesis
    using digit_byte [of 0] by (subst decimal.simps) (simp add: bytesOf_digit decimalLit_def)
next
  case False
  then show ?thesis
    using decimal_digits [of n] by (simp add: decimalLit_def)
qed

definition goodInt :: "int \<Rightarrow> bool" where
  "goodInt n \<longleftrightarrow> 0 \<le> n \<and> n < 2 ^ 63"

lemma parseInt64_decimal: "goodInt n \<Longrightarrow> parseInt64 (bytesOf (decimal (nat n))) = Some n"
proof -
  assume n: "goodInt n"
  obtain c r where l: "bytesOf (decimal (nat n)) = c # r"
    using decimal_digits [of "nat n"] by (cases "bytesOf (decimal (nat n))") auto
  have d: "list_all isDigit (c # r)" "digitsVal (c # r) = nat n"
    using decimal_digits [of "nat n"] by (simp_all only: l)
  then have "c \<noteq> 0x2D"
    by (auto simp: isDigit_def)
  moreover have "nat n < 2 ^ 63"
    using n by (simp add: goodInt_def nat_less_iff)
  ultimately show ?thesis
    using d n unfolding l parseInt64_def by (simp add: goodInt_def)
qed

lemma encodeInt_simps [simp]:
  "goodInt n \<Longrightarrow> wfJson (encodeInt n)" "cleanJson (encodeInt n) = encodeInt n"
  "goodInt n \<Longrightarrow> decodeInt (encodeInt n) m = Some n"
  by (auto simp: encodeInt_def decodeInt_def parseInt64_decimal decimalLit_decimal goodInt_def)

definition goodInfo :: "ChunkInfo \<Rightarrow> bool" where
  "goodInfo i \<longleftrightarrow> goodString (InfoID i) \<and> goodInt (InfoSize i)"

definition goodMetadata :: "Metadata \<Rightarrow> bool" where
  "goodMetadata m \<longleftrightarrow> goodString (MetaName m) \<and> goodInt (MetaSize m) \<and> goodInt (MetaChunkSize m)
     \<and> list_all goodInfo (MetaChunks m)"

lemma decodeInfo_encode: "goodInfo i \<Longrightarrow> decodeInfo (cleanJson (encodeInfo i)) x = Some i"
  by (simp add: decodeInfo_def encodeInfo_def goodInfo_def decodeStruct_def onField_def)

lemma decodeSlice_encode:
  assumes "list_all (\<lambda>x. \<forall>y. dec (cleanJson (enc x)) y = Some x) xs"
  shows "decodeSlice dec zero (cleanJson (encodeSlice enc xs)) old = Some xs"
proof -
  have "decodeElems dec zero (map cleanJson (map enc xs)) old = Some xs"
    using assms by (induction xs arbitrary: old) (auto simp: comp_def)
  then show ?thesis
    by (simp add: decodeSlice_def encodeSlice_def)
qed

lemma unmarshalMetadata_marshal:
  assumes "goodMetadata m"
  shows "unmarshalMetadata (marshalMetadata m) = Some m"
  unfolding unmarshalMetadata_def marshalMetadata_def
proof (rule unmarshal_print)
  have w: "goodInfo i \<Longrightarrow> wfJson (encodeInfo i)" for i
    by (simp add: encodeInfo_def goodInfo_def)
  then show "wfJson (encodeMetadata m)"
    using assms by (auto simp: encodeMetadata_def goodMetadata_def encodeSlice_def list_all_iff)
  have "decodeSlice decodeInfo zeroInfo (cleanJson (encodeSlice encodeInfo (MetaChunks m))) [] = Some (MetaChunks m)"
    using assms by (intro decodeSlice_encode) (auto simp: goodMetadata_def list_all_iff decodeInfo_encode)
  then show "decodeMetadata (cleanJson (encodeMetadata m)) zeroMetadata = Some m"
    using assms
    by (simp add: decodeMetadata_def encodeMetadata_def goodMetadata_def decodeStruct_def onField_def zeroMetadata_def)
qed

end
