(* ===== verification/NodeChunks.thy ===== *)
theory NodeChunks
  imports QuorumProps ChunkProps
begin

text \<open>
  Distributed chunks, \<open>internal/node/chunk.go\<close>: the handlers of a node's chunk store, \<open>PutChunk\<close>
  on the replicas of the chunk's hash, \<open>GetChunk\<close> that tries them one after the other, and the
  repair that runs behind it.  For each replica a request has its fate in the network, the clock
  of the replica and the name its temporary file takes.
\<close>

type_synonym chunkEnv = "string \<Rightarrow> rpc \<times> int \<times> string"

subsection \<open>Handlers\<close>

definition handleInternalChunkPut :: "int \<Rightarrow> string \<Rightarrow> string \<Rightarrow> bytes \<Rightarrow> Node \<Rightarrow> Node \<times> response" where
  "handleInternalChunkPut now random cid data n =
     (if ID data \<noteq> cid then (n, httpError ''chunk checksum mismatch'' 400)
      else case chunkPut random now data (chunks n) of
        (s, Inl _) \<Rightarrow> (n\<lparr>chunks := s\<rparr>, httpError ''store chunk failed'' 500)
      | (s, Inr storedID) \<Rightarrow>
          (n\<lparr>chunks := s\<rparr>, if storedID \<noteq> cid then httpError ''chunk id mismatch'' 500 else noContent))"

text \<open>The text of an error of the operating system is left out.\<close>

definition handleInternalChunkGet :: "string \<Rightarrow> Node \<Rightarrow> Node \<times> response" where
  "handleInternalChunkGet cid n =
     (case chunkGet cid (chunks n) of
        (s, Inl ChunkNotFound) \<Rightarrow> (n\<lparr>chunks := s\<rparr>, httpError ''not found'' 404)
      | (s, Inl _) \<Rightarrow> (n\<lparr>chunks := s\<rparr>, 500, [])
      | (s, Inr data) \<Rightarrow> (n\<lparr>chunks := s\<rparr>, 200, data))"

text \<open>\<open>handleInternalChunk\<close> for the two methods.\<close>

definition internalChunkPut :: "int \<Rightarrow> string \<Rightarrow> string \<Rightarrow> bytes \<Rightarrow> Node \<Rightarrow> Node \<times> response" where
  "internalChunkPut now random cid data n =
     (if cid = [] then (n, httpError ''empty chunk id'' 400) else handleInternalChunkPut now random cid data n)"

definition internalChunkGet :: "string \<Rightarrow> Node \<Rightarrow> Node \<times> response" where
  "internalChunkGet cid n = (if cid = [] then (n, httpError ''empty chunk id'' 400) else handleInternalChunkGet cid n)"

subsection \<open>Requests\<close>

definition putChunkReplica :: "rpc \<times> int \<times> string \<Rightarrow> string \<Rightarrow> string \<Rightarrow> string \<Rightarrow> bytes \<Rightarrow> cluster \<Rightarrow> cluster \<times> bool" where
  "putChunkReplica env me replica cid data c =
     (case env of (net, now, random) \<Rightarrow>
        if replica = me then
          (case c me of
             None \<Rightarrow> (c, False)
           | Some n \<Rightarrow>
               (case chunkPut random now data (chunks n) of
                  (s, r) \<Rightarrow> (c(me \<mapsto> n\<lparr>chunks := s\<rparr>), case r of Inl _ \<Rightarrow> False | Inr storedID \<Rightarrow> storedID = cid)))
        else case requestKey cid of
          None \<Rightarrow> (c, False)
        | Some k \<Rightarrow>
            (case (net, c replica) of
               (RequestLost, _) \<Rightarrow> (c, False)
             | (_, None) \<Rightarrow> (c, False)
             | (_, Some n) \<Rightarrow>
                 (case internalChunkPut now random k data n of
                    (n', status, body) \<Rightarrow> (c(replica \<mapsto> n'), net = Delivered \<and> status < 300))))"

definition getChunkReplica :: "rpc \<Rightarrow> string \<Rightarrow> string \<Rightarrow> string \<Rightarrow> cluster \<Rightarrow> cluster \<times> bytes option" where
  "getChunkReplica net me replica cid c =
     (if replica = me then
        (case c me of
           None \<Rightarrow> (c, None)
         | Some n \<Rightarrow>
             (case chunkGet cid (chunks n) of
                (s, r) \<Rightarrow> (c(me \<mapsto> n\<lparr>chunks := s\<rparr>), case r of Inl _ \<Rightarrow> None | Inr data \<Rightarrow> Some data)))
      else case requestKey cid of
        None \<Rightarrow> (c, None)
      | Some k \<Rightarrow>
          (case (net, c replica) of
             (RequestLost, _) \<Rightarrow> (c, None)
           | (_, None) \<Rightarrow> (c, None)
           | (_, Some n) \<Rightarrow>
               (case internalChunkGet k n of
                  (n', status, body) \<Rightarrow>
                    (c(replica \<mapsto> n'),
                     if net \<noteq> Delivered \<or> status = 404 \<or> status \<ge> 300 \<or> ID body \<noteq> cid then None else Some body))))"

subsection \<open>Operations of the coordinator\<close>

fun putChunkLoop ::
  "chunkEnv \<Rightarrow> string \<Rightarrow> string \<Rightarrow> bytes \<Rightarrow> string list \<Rightarrow> cluster \<Rightarrow> int \<Rightarrow> cluster \<times> int" where
  "putChunkLoop env me cid data [] c success = (c, success)"
| "putChunkLoop env me cid data (r # rs) c success =
     (case putChunkReplica (env r) me r cid data c of
        (c1, ok) \<Rightarrow> putChunkLoop env me cid data rs c1 (if ok then success + 1 else success))"

definition PutChunk ::
  "(string list \<Rightarrow> string list) \<Rightarrow> chunkEnv \<Rightarrow> string \<Rightarrow> bytes \<Rightarrow> cluster \<Rightarrow> (cluster \<times> (nodeError + string)) option" where
  "PutChunk arrive env me data c =
     (let cid = ID data
      in case c me of
        None \<Rightarrow> None
      | Some n \<Rightarrow>
          case replicasFor cid n of
            None \<Rightarrow> None
          | Some rs \<Rightarrow>
              if length rs = 0 then Some (c, Inl NoReplicas)
              else (case putChunkLoop env me cid data (arrive rs) c 0 of
                      (c', success) \<Rightarrow>
                        Some (c', if success < writeQuorum n then Inl WriteQuorum else Inr cid)))"

text \<open>The chunk comes with the replica that had it, for the repair.\<close>

fun getChunkLoop :: "(string \<Rightarrow> rpc) \<Rightarrow> string \<Rightarrow> string \<Rightarrow> string list \<Rightarrow> cluster \<Rightarrow> cluster \<times> (bytes \<times> string) option" where
  "getChunkLoop net me cid [] c = (c, None)"
| "getChunkLoop net me cid (r # rs) c =
     (case getChunkReplica (net r) me r cid c of
        (c1, None) \<Rightarrow> getChunkLoop net me cid rs c1
      | (c1, Some data) \<Rightarrow>
          if ID data \<noteq> cid then getChunkLoop net me cid rs c1 else (c1, Some (data, r)))"

definition GetChunk ::
  "(string \<Rightarrow> rpc) \<Rightarrow> string \<Rightarrow> string \<Rightarrow> cluster \<Rightarrow> (cluster \<times> (nodeError + bytes \<times> string)) option" where
  "GetChunk net me cid c =
     (case c me of
        None \<Rightarrow> None
      | Some n \<Rightarrow>
          case replicasFor cid n of
            None \<Rightarrow> None
          | Some rs \<Rightarrow>
              if length rs = 0 then Some (c, Inl NoReplicas)
              else (case getChunkLoop net me cid rs c of
                      (c', None) \<Rightarrow> Some (c', Inl ReadQuorum)
                    | (c', Some x) \<Rightarrow> Some (c', Inr x)))"

text \<open>The repair runs on its own, at some time after the answer.\<close>

fun repairChunk ::
  "(string \<Rightarrow> rpc) \<Rightarrow> chunkEnv \<Rightarrow> string \<Rightarrow> string \<Rightarrow> bytes \<Rightarrow> string \<Rightarrow> string list \<Rightarrow> cluster \<Rightarrow> cluster" where
  "repairChunk net env me cid data source [] c = c"
| "repairChunk net env me cid data source (r # rs) c =
     (if r = source then repairChunk net env me cid data source rs c
      else case getChunkReplica (net r) me r cid c of
        (c1, Some _) \<Rightarrow> repairChunk net env me cid data source rs c1
      | (c1, None) \<Rightarrow>
          repairChunk net env me cid data source rs (fst (putChunkReplica (env r) me r cid data c1)))"

subsection \<open>What a node has of a chunk\<close>

definition chunkAt :: "cluster \<Rightarrow> string \<Rightarrow> string \<Rightarrow> chunkFile option" where
  "chunkAt c r cid = (case c r of None \<Rightarrow> None | Some n \<Rightarrow> chunkFiles (chunks n) (chunkPath cid))"

text \<open>An intact copy, not older than a time.\<close>

definition hasChunk :: "cluster \<Rightarrow> string \<Rightarrow> string \<Rightarrow> bool" where
  "hasChunk c r cid \<longleftrightarrow> (\<exists>f. chunkAt c r cid = Some f \<and> ID (chunkBytes f) = cid)"

definition chunksKept :: "cluster \<Rightarrow> cluster \<Rightarrow> bool" where
  "chunksKept c c' \<longleftrightarrow> (\<forall>r cid. validName cid \<longrightarrow> hasChunk c r cid \<longrightarrow> hasChunk c' r cid)"

lemma chunksKept_refl [simp]: "chunksKept c c"
  by (simp add: chunksKept_def)

lemma chunksKept_trans: "chunksKept c d \<Longrightarrow> chunksKept d e \<Longrightarrow> chunksKept c e"
  by (simp add: chunksKept_def)

lemma chunksKept_node:
  assumes "c r = Some n"
    and "\<And>cid f. validName cid \<Longrightarrow> chunkFiles (chunks n) (chunkPath cid) = Some f \<Longrightarrow> ID (chunkBytes f) = cid \<Longrightarrow>
      \<exists>g. chunkFiles (chunks n') (chunkPath cid) = Some g \<and> ID (chunkBytes g) = cid"
  shows "chunksKept c (c(r \<mapsto> n'))"
  using assms by (auto simp: chunksKept_def hasChunk_def chunkAt_def)

lemma chunkPut_keeps:
  assumes "chunkPut random now data s = (s', x)" "validName cid"
    and "chunkFiles s (chunkPath cid) = Some f" "ID (chunkBytes f) = cid"
  shows "\<exists>g. chunkFiles s' (chunkPath cid) = Some g \<and> ID (chunkBytes g) = cid"
proof (cases "cid = ID data")
  case True
  then show ?thesis
    using chunkPut_files(1,3) [OF assms(1)] assms(3,4) by (cases x) auto
next
  case False
  with chunkPut_files(2) [OF assms(1), of "chunkPath cid"] assms(2-4) temp_not_chunk show ?thesis
    by (metis chunkPath_inject)
qed

lemma chunkPut_node: "c r = Some n \<Longrightarrow> chunkPut random now data (chunks n) = (s, x) \<Longrightarrow> chunksKept c (c(r \<mapsto> n\<lparr>chunks := s\<rparr>))"
  by (rule chunksKept_node) (auto intro: chunkPut_keeps)

lemma chunkGet_node: "c r = Some n \<Longrightarrow> chunkGet cid (chunks n) = (s, x) \<Longrightarrow> chunksKept c (c(r \<mapsto> n\<lparr>chunks := s\<rparr>))"
  by (rule chunksKept_node) (auto dest: chunkGet_files)

lemma internalChunkPut_kept:
  "c r = Some n \<Longrightarrow> internalChunkPut now random k data n = (n', st) \<Longrightarrow> chunksKept c (c(r \<mapsto> n'))"
  by (auto simp: internalChunkPut_def handleInternalChunkPut_def answers fun_upd_idem split: if_splits prod.splits sum.splits
      intro: chunkPut_node)

lemma internalChunkGet_kept:
  "c r = Some n \<Longrightarrow> internalChunkGet k n = (n', st, b) \<Longrightarrow> chunksKept c (c(r \<mapsto> n'))"
  by (auto simp: internalChunkGet_def handleInternalChunkGet_def answers fun_upd_idem
      split: if_splits prod.splits sum.splits chunkError.splits intro: chunkGet_node)

lemma putChunkReplica_kept: "putChunkReplica env me r cid data c = (c', ok) \<Longrightarrow> chunksKept c c'"
  by (auto simp: putChunkReplica_def split: prod.splits option.splits if_splits rpc.splits
      intro: chunkPut_node internalChunkPut_kept)

lemma getChunkReplica_kept: "getChunkReplica net me r cid c = (c', x) \<Longrightarrow> chunksKept c c'"
  by (auto simp: getChunkReplica_def split: prod.splits option.splits if_splits rpc.splits
      intro: chunkGet_node internalChunkGet_kept)


lemma putChunkLoop_kept: "putChunkLoop env me cid data rs c k = (c', k') \<Longrightarrow> chunksKept c c'"
proof (induction rs arbitrary: c k)
  case (Cons r rs)
  obtain c1 ok where p: "putChunkReplica (env r) me r cid data c = (c1, ok)"
    by fastforce
  then have "putChunkLoop env me cid data rs c1 (if ok then k + 1 else k) = (c', k')"
    using Cons.prems by simp
  from chunksKept_trans [OF putChunkReplica_kept [OF p] Cons.IH [OF this]] show ?case .
qed simp

subsection \<open>Acknowledged and answered\<close>

lemma plainKey_ID: "plainKey (ID data)"
proof -
  have "list_all (\<lambda>c. \<not> isControl c \<and> c \<notin> set ''%?#/.'') hexTable"
    by code_simp
  then have "list_all (\<lambda>c. \<not> isControl c \<and> c \<notin> set ''%?#/.'') (ID data)"
    using hexEncode_hex [of "sha256 data"] unfolding list_all_iff ID_def by blast
  moreover have "length (ID data) = 64"
    by (simp add: ID_def)
  ultimately show ?thesis
    unfolding plainKey_def by (metis list.size(3) zero_neq_numeral)
qed

lemma chunkPut_stored:
  "chunkPut random now data s = (s', Inr cid) \<Longrightarrow>
     cid = ID data \<and> (\<exists>f. chunkFiles s' (chunkPath (ID data)) = Some f \<and> ID (chunkBytes f) = ID data \<and> modTime f = now)"
  using chunkPut_files(1) by blast

lemma putChunkReplica_has:
  assumes "putChunkReplica env me r (ID data) data c = (c', True)"
  shows "hasChunk c' r (ID data)"
proof -
  obtain net now random where e: "env = (net, now, random)"
    by (cases env)
  show ?thesis
  proof (cases "r = me")
    case True
    with assms e show ?thesis
      by (auto simp: putChunkReplica_def hasChunk_def chunkAt_def split: option.splits prod.splits sum.splits
          dest!: chunkPut_stored)
  next
    case False
    with assms e requestKey_plain [OF plainKey_ID [of data]] plainKey_ID [of data] show ?thesis
      by (auto simp: putChunkReplica_def internalChunkPut_def handleInternalChunkPut_def answers hasChunk_def chunkAt_def
          split: option.splits prod.splits sum.splits rpc.splits if_splits dest!: chunkPut_stored)
  qed
qed

lemma hasChunk_kept: "chunksKept c c' \<Longrightarrow> validName cid \<Longrightarrow> hasChunk c r cid \<Longrightarrow> hasChunk c' r cid"
  by (simp add: chunksKept_def)

lemma putChunkLoop_acks:
  assumes "putChunkLoop env me (ID data) data rs c k = (c', k')" "distinct rs"
  shows "k' - k \<le> int (card {r \<in> set rs. hasChunk c' r (ID data)})"
  using assms
proof (induction rs arbitrary: c k)
  case (Cons r rs)
  let ?H = "\<lambda>rs. {r \<in> set rs. hasChunk c' r (ID data)}"
  obtain c1 ok where p: "putChunkReplica (env r) me r (ID data) data c = (c1, ok)"
    by fastforce
  have l: "putChunkLoop env me (ID data) data rs c1 (if ok then k + 1 else k) = (c', k')"
    using Cons.prems(1) p by simp
  have le: "k' - (if ok then k + 1 else k) \<le> int (card (?H rs))"
    using Cons.IH [OF l] Cons.prems(2) by simp
  show ?case
  proof (cases ok)
    case True
    have "hasChunk c' r (ID data)"
      using hasChunk_kept [OF putChunkLoop_kept [OF l]] putChunkReplica_has [of "env r" me r data c c1] p True by simp
    then have "?H (r # rs) = insert r (?H rs)"
      by auto
    with le True Cons.prems(2) show ?thesis
      by simp
  next
    case False
    have "card (?H rs) \<le> card (?H (r # rs))"
      by (rule card_mono) auto
    with le False show ?thesis
      by simp
  qed
qed simp

definition quiet :: "cluster \<Rightarrow> string \<Rightarrow> bool" where
  "quiet c r \<longleftrightarrow> (\<exists>n. c r = Some n \<and> chunkCalls (chunks n) = [])"

lemma chunkGet_quiet: "chunkCalls s = [] \<Longrightarrow> chunkGet cid s = (s', x) \<Longrightarrow> s' = s"
  by (auto simp: chunkGet_def readFile_def chunkCall_def split: option.splits prod.splits sum.splits if_splits)

lemma internalChunkGet_quiet:
  assumes "chunkCalls (chunks n) = []" "internalChunkGet k n = (n', st, b)"
  shows "n' = n"
proof -
  obtain s x where "chunkGet k (chunks n) = (s, x)"
    by fastforce
  with chunkGet_quiet [OF assms(1) this] assms(2) show ?thesis
    by (auto simp: internalChunkGet_def handleInternalChunkGet_def answers split: if_splits sum.splits chunkError.splits)
qed

lemma getChunkReplica_quiet:
  assumes "getChunkReplica net me r cid c = (c', x)" "quiet c q"
  shows "quiet c' q"
proof -
  have "c' q = c q \<or> q = r"
    using assms(1) by (auto simp: getChunkReplica_def split: option.splits prod.splits rpc.splits if_splits)
  moreover have "c' r = c r" if "quiet c r"
  proof -
    obtain n where n: "c r = Some n" "chunkCalls (chunks n) = []"
      using \<open>quiet c r\<close> by (auto simp: quiet_def)
    obtain s y where g: "chunkGet cid (chunks n) = (s, y)"
      by fastforce
    show ?thesis
      using assms(1) n chunkGet_quiet [OF n(2) g] g internalChunkGet_quiet [OF n(2)]
      by (auto simp: getChunkReplica_def split: option.splits prod.splits rpc.splits if_splits)
  qed
  ultimately show ?thesis
    using assms(2) by (auto simp: quiet_def)
qed

lemma chunkGet_has:
  assumes "chunkCalls s = []" "validName cid" "chunkFiles s (chunkPath cid) = Some f" "ID (chunkBytes f) = cid"
  shows "chunkGet cid s = (s, Inr (chunkBytes f))"
  using assms by (simp add: chunkGet_def readFile_def chunkCall_def validName_def)

lemma getChunkReplica_answers:
  assumes "hasChunk c r cid" "quiet c r" "validName cid" "plainKey cid"
  shows "\<exists>d. snd (getChunkReplica Delivered me r cid c) = Some d \<and> ID d = cid"
proof -
  obtain n f where n: "c r = Some n" "chunkCalls (chunks n) = []" "chunkFiles (chunks n) (chunkPath cid) = Some f"
      "ID (chunkBytes f) = cid"
    using assms(1,2) by (auto simp: hasChunk_def chunkAt_def quiet_def)
  have g: "chunkGet cid (chunks n) = (chunks n, Inr (chunkBytes f))"
    by (rule chunkGet_has) (use n assms(3) in auto)
  have "cid \<noteq> []"
    using assms(4) by (simp add: plainKey_def)
  with n g requestKey_plain [OF assms(4)] show ?thesis
    by (auto simp: getChunkReplica_def internalChunkGet_def handleInternalChunkGet_def answers)
qed

lemma getChunkLoop_finds:
  assumes "r \<in> set rs" "hasChunk c r cid" "quiet c r" "net r = Delivered" "validName cid" "plainKey cid"
  shows "\<exists>d q. snd (getChunkLoop net me cid rs c) = Some (d, q) \<and> ID d = cid"
  using assms
proof (induction rs arbitrary: c)
  case (Cons q rs)
  obtain c1 x where g: "getChunkReplica (net q) me q cid c = (c1, x)"
    by fastforce
  show ?case
  proof (cases "\<exists>d. x = Some d \<and> ID d = cid")
    case True
    with g show ?thesis by auto
  next
    case False
    have "r \<noteq> q"
    proof
      assume "r = q"
      with getChunkReplica_answers [OF Cons.prems(2,3,5,6), of me] g Cons.prems(4) False show False
        by auto
    qed
    with Cons.prems(1) have "r \<in> set rs"
      by simp
    moreover have "hasChunk c1 r cid" "quiet c1 r"
      using hasChunk_kept [OF getChunkReplica_kept [OF g] Cons.prems(5,2)] getChunkReplica_quiet [OF g Cons.prems(3)] .
    ultimately show ?thesis
      using Cons.IH [of c1] Cons.prems(4-6) False g by (cases x) auto
  qed
qed simp

lemma getChunkLoop_hash: "getChunkLoop net me cid rs c = (c', Some (d, q)) \<Longrightarrow> ID d = cid \<and> q \<in> set rs"
  by (induction rs arbitrary: c) (auto split: prod.splits option.splits if_splits)


lemma PutChunk_result:
  assumes "PutChunk arrive env me data c = Some (c1, Inr cid)" "\<And>xs. mset (arrive xs) = mset xs"
    and "c me = Some n" "replicasFor (ID data) n = Some rs"
  shows "cid = ID data \<and> writeQuorum n \<le> int (card {r \<in> set rs. hasChunk c1 r (ID data)}) \<and> chunksKept c c1"
proof -
  obtain k where l: "putChunkLoop env me (ID data) data (arrive rs) c 0 = (c1, k)" "writeQuorum n \<le> k" "cid = ID data"
    using assms(1,3,4) by (auto simp: PutChunk_def Let_def split: if_splits prod.splits)
  have arr: "distinct (arrive rs)" "set (arrive rs) = set rs"
    using replicasFor_shape [OF assms(4)] assms(2) mset_eq_imp_distinct_iff mset_eq_setD by (metis, metis)
  from putChunkLoop_acks [OF l(1) arr(1)] l(2,3) arr(2) putChunkLoop_kept [OF l(1)] show ?thesis
    by simp
qed

text \<open>C23. Chunks are there when they are needed.  After an acknowledged \<open>PutChunk\<close> under a positive
  write quorum, and whatever happens to the cluster then, \<open>GetChunk\<close> by any node with the same
  replicas returns bytes of the chunk's hash, as long as the replicas that are out of service are
  fewer than the write quorum: those that lost the intact copy that they had at the
  acknowledgement, that cannot be reached, or whose disk has failures ahead.  Further puts, reads
  and repairs lose no intact copy (\<open>PutChunk_kept\<close>, \<open>GetChunk_kept\<close>, \<open>repairChunk_kept\<close>).\<close>
theorem chunk_write_then_read:
  assumes "PutChunk arrive env me data c = Some (c1, Inr cid)" "\<And>xs. mset (arrive xs) = mset xs"
    and "c me = Some n" "replicasFor (ID data) n = Some rs"
    and "c2 me2 = Some n2" "replicasFor (ID data) n2 = Some rs2" "set rs2 = set rs" "0 < writeQuorum n"
    and "int (card {r \<in> set rs. net r \<noteq> Delivered \<or> \<not> quiet c2 r
      \<or> (hasChunk c1 r (ID data) \<and> \<not> hasChunk c2 r (ID data))}) < writeQuorum n"
  shows "\<exists>c3 d r. GetChunk net me2 cid c2 = Some (c3, Inr (d, r)) \<and> ID d = ID data \<and> r \<in> set rs"
proof -
  note p = PutChunk_result [OF assms(1-4)]
  let ?H = "{r \<in> set rs. hasChunk c1 r (ID data)}" and ?F = "{r \<in> set rs. net r \<noteq> Delivered \<or> \<not> quiet c2 r
      \<or> (hasChunk c1 r (ID data) \<and> \<not> hasChunk c2 r (ID data))}"
  have "card ?F < card ?H"
    using p assms(9) by linarith
  then have "\<not> ?H \<subseteq> ?F"
    using card_mono [of ?F ?H] by (auto simp: not_le [symmetric])
  then obtain r where r: "r \<in> set rs" "hasChunk c2 r (ID data)" "net r = Delivered" "quiet c2 r"
    by auto
  from getChunkLoop_finds [where net = net and r = r and rs = rs2 and me = me2, OF _ r(2,4,3)
      validName_ID [of data] plainKey_ID [of data]] r(1) assms(7)
  obtain c3 d q where g: "getChunkLoop net me2 (ID data) rs2 c2 = (c3, Some (d, q))"
    by (cases "getChunkLoop net me2 (ID data) rs2 c2") auto
  have "rs2 \<noteq> []"
    using r(1) assms(7) by auto
  with g getChunkLoop_hash [OF g] p assms(5-7) show ?thesis
    by (auto simp: GetChunk_def)
qed

text \<open>Reads and repairs keep every intact copy.\<close>

lemma getChunkLoop_kept: "getChunkLoop net me cid rs c = (c', x) \<Longrightarrow> chunksKept c c'"
proof (induction rs arbitrary: c)
  case (Cons r rs)
  obtain c1 y where g: "getChunkReplica (net r) me r cid c = (c1, y)"
    by fastforce
  note k = getChunkReplica_kept [OF g]
  show ?case
    using Cons.prems g Cons.IH [of c1] k chunksKept_trans [OF k] by (auto split: option.splits if_splits)
qed simp

lemma repairChunk_kept: "chunksKept c (repairChunk net env me cid data source rs c)"
proof (induction rs arbitrary: c)
  case (Cons r rs)
  obtain c1 y where g: "getChunkReplica (net r) me r cid c = (c1, y)"
    by fastforce
  obtain c2 ok where p: "putChunkReplica (env r) me r cid data c1 = (c2, ok)"
    by fastforce
  note k = getChunkReplica_kept [OF g] putChunkReplica_kept [OF p]
  show ?case
    using g p Cons.IH chunksKept_trans k by (auto split: option.splits)
qed simp

lemma GetChunk_kept: "GetChunk net me cid c = Some (c', x) \<Longrightarrow> chunksKept c c'"
  by (auto simp: GetChunk_def split: option.splits if_splits prod.splits intro: getChunkLoop_kept)

lemma PutChunk_kept: "PutChunk arrive env me data c = Some (c', x) \<Longrightarrow> chunksKept c c'"
  by (auto simp: PutChunk_def Let_def split: option.splits if_splits prod.splits intro: putChunkLoop_kept)

subsection \<open>A concrete cluster\<close>

definition nodeTwo :: "string \<Rightarrow> Node" where
  "nodeTwo a = (nodeAt a)\<lparr>writeQuorum := 2\<rparr>"

definition clusterTwo :: cluster where
  "clusterTwo = [''a'' \<mapsto> nodeTwo ''a'', ''b'' \<mapsto> nodeTwo ''b'']"

lemma replicas_two:
  assumes "ring n = ring_ab" "replicas n = 2"
  obtains "replicasFor key n = Some [''a'', ''b'']" | "replicasFor key n = Some [''b'', ''a'']"
proof -
  obtain ns where ns: "GetN key 2 ring_ab = Some ns" "length ns = 2" "distinct ns" "set ns \<subseteq> {''a'', ''b''}"
    using GetN_covered [OF ring_ab_facts(4) ring_ab_covered, of 2 key] by (auto simp: ring_ab_facts(1))
  then obtain x y where "ns = [x, y]"
    by (metis One_nat_def Suc_1 length_0_conv length_Suc_conv)
  with ns have "ns = [''a'', ''b''] \<or> ns = [''b'', ''a'']"
    by auto
  with ns(1) assms that show ?thesis
    by (auto simp: replicasFor_def)
qed

lemma nodeTwo_facts [simp]:
  "addr (nodeTwo a) = a" "writeQuorum (nodeTwo a) = 2" "ring (nodeTwo a) = ring_ab" "replicas (nodeTwo a) = 2"
  "chunkFiles (chunks (nodeTwo a)) = Map.empty" "chunkCalls (chunks (nodeTwo a)) = []"
  by (simp_all add: nodeTwo_def nodeAt_def)

lemma PutChunk_two:
  assumes "env ''a'' = (Delivered, t, x)" "env ''b'' = (Delivered, u, y)"
  shows "\<exists>c1 n1. PutChunk id env ''a'' d clusterTwo = Some (c1, Inr (ID d)) \<and> c1 ''a'' = Some n1
    \<and> ring n1 = ring_ab \<and> replicas n1 = 2 \<and> writeQuorum n1 = 2 \<and> chunkCalls (chunks n1) = []
    \<and> chunkFiles (chunks n1) = [chunkPath (ID d) \<mapsto> \<lparr>chunkBytes = d, modTime = t\<rparr>]"
proof -
  have ne: "ID d \<noteq> []"
    using plainKey_ID [of d] by (simp add: plainKey_def)
  note run = PutChunk_def clusterTwo_def putChunkReplica_def chunkPut_fresh assms requestKey_plain [OF plainKey_ID]
    internalChunkPut_def handleInternalChunkPut_def answers ne Let_def
  show ?thesis
    by (rule replicas_two [of "nodeTwo ''a''" "ID d"]) (simp_all add: run)
qed

lemma chunk_write_then_read_witness:
  "\<exists>c1 c3 d r. PutChunk id (\<lambda>_. (Delivered, 5, ''7'')) ''a'' [1, 2] clusterTwo = Some (c1, Inr (ID [1, 2]))
    \<and> GetChunk (\<lambda>q. if q = ''a'' then Delivered else RequestLost) ''a'' (ID [1, 2]) c1 = Some (c3, Inr (d, r))
    \<and> ID d = ID [1, 2]"
proof -
  obtain c1 n1 where p: "PutChunk id (\<lambda>_. (Delivered, 5, ''7'')) ''a'' [1, 2] clusterTwo = Some (c1, Inr (ID [1, 2]))"
      "c1 ''a'' = Some n1" "ring n1 = ring_ab" "replicas n1 = 2" "writeQuorum n1 = 2" "chunkCalls (chunks n1) = []"
    using PutChunk_two [of "\<lambda>_. (Delivered, 5, ''7'')"] by metis
  obtain rs where rs: "replicasFor (ID [1, 2]) (nodeTwo ''a'') = Some rs" "set rs = {''a'', ''b''}"
      "replicasFor (ID [1, 2]) n1 = Some rs"
    by (rule replicas_two [of "nodeTwo ''a''" "ID [1, 2]"]) (use p(3,4) in \<open>auto simp: replicasFor_def\<close>)
  let ?net = "\<lambda>q. if q = ''a'' then Delivered else RequestLost"
  have "quiet c1 ''a''"
    using p(2,6) by (simp add: quiet_def)
  let ?F = "{r \<in> set rs. ?net r \<noteq> Delivered \<or> \<not> quiet c1 r
      \<or> (hasChunk c1 r (ID [1, 2]) \<and> \<not> hasChunk c1 r (ID [1, 2]))}"
  have "?F \<subseteq> {''b''}"
    using rs(2) \<open>quiet c1 ''a''\<close> by auto
  then have "card ?F \<le> card {''b''}"
    by (rule card_mono [rotated]) simp
  then have "int (card ?F) < writeQuorum (nodeTwo ''a'')"
    by simp
  from chunk_write_then_read [OF p(1) _ _ rs(1) p(2) rs(3) refl _ this] p(1)
  show ?thesis
    by (auto simp: clusterTwo_def)
qed

end
