(* ===== verification/ObjectProps.thy ===== *)
theory ObjectProps
  imports ObjectStore NodeChunks Http
begin

text \<open>
  The object store on the node: the interfaces of \<open>internal/object\<close> as a contract, met by
  \<open>PutChunk\<close> and \<open>GetChunk\<close> of the node, what an object gives back, and the HTTP handlers for
  objects of \<open>internal/node/handler.go\<close>.
\<close>

subsection \<open>The loops\<close>

lemma objectLoop_pieces:
  assumes "objectLoop putChunk n r infos w = (w', Inr out)" "0 < n"
    and "\<forall>d w w' cid. putChunk d w = (w', Inr cid) \<longrightarrow> cid = ID d"
  shows "out = infos @ map infoOf (pieces n (pending r)) \<and> \<not> breaks r"
  using assms
proof (induction putChunk n r infos w rule: objectLoop.induct)
  case (1 putChunk n r infos w)
  have stored: "\<exists>t. putChunk data w = (t, Inr (ID data)) \<and>
      (if err = Some UnexpectedEOF then w' = t \<and> out = infos @ [infoOf data]
       else objectLoop putChunk n r' (infos @ [infoOf data]) t = (w', Inr out))"
    if rd: "readUpTo n r = (r', data, err)" and e: "err = None \<or> err = Some UnexpectedEOF" for r' data err
  proof -
    obtain t x where put: "putChunk data w = (t, x)"
      by fastforce
    with 1(2,3) rd e obtain cid where x: "x = Inr cid"
      by (cases x) (auto simp: objectLoop.simps [of putChunk n])
    with 1(4) put have "cid = ID data"
      by blast
    with 1(2,3) rd e put x show ?thesis
      by (auto simp: objectLoop.simps [of putChunk n] infoOf_def Let_def split: if_splits)
  qed
  consider (full) "n \<le> length (pending r)" | (ended) "length (pending r) < n" "pending r = []" "\<not> breaks r"
    | (short) "length (pending r) < n" "pending r \<noteq> []" "\<not> breaks r" | (broken) "length (pending r) < n" "breaks r"
    by fastforce
  then show ?case
  proof cases
    case full
    then have p: "pieces n (pending r) = take n (pending r) # pieces n (drop n (pending r))"
      using 1(3) by (subst pieces.simps) auto
    note rd = readUpTo_simps(1) [OF 1(3) full]
    obtain t where t: "putChunk (take n (pending r)) w = (t, Inr (ID (take n (pending r))))"
        "objectLoop putChunk n (r\<lparr>pending := drop n (pending r)\<rparr>) (infos @ [infoOf (take n (pending r))]) t = (w', Inr out)"
      using stored [OF rd disjI1 [OF refl]] by auto
    let ?r = "r\<lparr>pending := drop n (pending r)\<rparr>" and ?d = "take n (pending r)"
    have "out = (infos @ [infoOf ?d]) @ map infoOf (pieces n (pending ?r)) \<and> \<not> breaks ?r"
    proof (rule 1(1) [where y = "(?d, None)" and xa = ?d and ya = None and yb = "Inr (ID ?d)" and b = "ID ?d"])
      show "n \<noteq> 0" "0 < n"
        using 1(3) by simp_all
      show "(?r, ?d, None) = readUpTo n r"
        by (rule rd [symmetric])
      show "(t, Inr (ID ?d)) = putChunk ?d w" "objectLoop putChunk n ?r (infos @ [infoOf ?d]) t = (w', Inr out)"
        using t by simp_all
      show "infos @ [infoOf ?d] = infos @ [\<lparr>InfoID = ID ?d, InfoSize = int (length ?d)\<rparr>]"
        by (simp add: infoOf_def)
    qed (use 1(4) in simp_all)
    with p show ?thesis
      by simp
  next
    case ended
    with 1(2,3) show ?thesis
      by (simp add: objectLoop.simps [of putChunk n] pieces.simps [of n] readUpTo_simps)
  next
    case short
    then have "pieces n (pending r) = [pending r]"
      using 1(3) by (subst pieces.simps, subst pieces.simps) auto
    with stored [OF readUpTo_simps(3) [OF 1(3) short] disjI2 [OF refl]] short show ?thesis
      by auto
  next
    case broken
    with 1(2,3) show ?thesis
      by (simp add: objectLoop.simps [of putChunk n] readUpTo_simps)
  qed
qed

subsection \<open>The contract of a chunk store\<close>

text \<open>What the object store relies on: a chunk is named by its hash, in both directions.\<close>

locale chunk_backend =
  fixes putChunk :: "bytes \<Rightarrow> 'w \<Rightarrow> 'w \<times> ('e + string)"
    and getChunk :: "string \<Rightarrow> 'w \<Rightarrow> 'w \<times> ('e + bytes)"
  assumes put_id: "putChunk d w = (w', Inr cid) \<Longrightarrow> cid = ID d"
    and get_id: "getChunk cid w = (w', Inr d) \<Longrightarrow> ID d = cid"
begin

lemma objectWriteLoop_output:
  assumes "objectWriteLoop getChunk infos z k w = (w', k', Inr size1)"
  shows "\<exists>ds. map ID ds = map InfoID infos \<and> map (\<lambda>d. int (length d)) ds = map InfoSize infos
    \<and> taken k' = taken k @ concat ds \<and> size1 = z + (\<Sum>i \<leftarrow> infos. InfoSize i)"
  using assms
proof (induction infos arbitrary: z k w)
  case (Cons i infos)
  obtain w1 x where g: "getChunk (InfoID i) w = (w1, x)"
    by fastforce
  from Cons.prems g obtain d where d: "x = Inr d" "int (length d) = InfoSize i"
    by (cases x) (auto split: if_splits)
  obtain k1 ok where s: "sinkWrite d k = (k1, ok)"
    by fastforce
  with Cons.prems g d have ok: "ok" "objectWriteLoop getChunk infos (z + int (length d)) k1 w1 = (w', k', Inr size1)"
    by (auto split: if_splits)
  with s have "taken k1 = taken k @ d"
    by (auto simp: sinkWrite_def split: list.splits fault.splits)
  moreover obtain ds where "map ID ds = map InfoID infos" "map (\<lambda>d. int (length d)) ds = map InfoSize infos"
      "taken k' = taken k1 @ concat ds" "size1 = z + int (length d) + (\<Sum>i \<leftarrow> infos. InfoSize i)"
    using Cons.IH [OF ok(2)] by blast
  moreover have "ID d = InfoID i"
    using get_id g d(1) by blast
  ultimately show ?case
    using d(2) by (intro exI [of _ "d # ds"]) simp
qed simp

end


subsection \<open>The node behind the interfaces\<close>

text \<open>
  \<open>object.New(n, n)\<close> takes the node for both stores.  A schedule says what the network and the
  clocks do in each of the calls, which are counted; a lookup in the ring that never returns is the
  error \<open>LookupHangs\<close> here.
\<close>

datatype serviceError = LookupHangs | Service nodeError

record world =
  clu :: cluster
  tick :: nat

record schedule =
  arrival :: "nat \<Rightarrow> string list \<Rightarrow> string list"
  chunkReq :: "nat \<Rightarrow> chunkEnv"
  readReq :: "nat \<Rightarrow> string \<Rightarrow> rpc"
  writeReq :: "nat \<Rightarrow> string \<Rightarrow> rpc"

definition later :: "cluster \<Rightarrow> world \<Rightarrow> world" where
  "later c w = \<lparr>clu = c, tick = tick w + 1\<rparr>"

definition answer :: "(cluster \<times> (nodeError + 'a)) option \<Rightarrow> world \<Rightarrow> world \<times> (serviceError + 'a)" where
  "answer x w =
     (case x of
        None \<Rightarrow> (w, Inl LookupHangs)
      | Some (c, Inl e) \<Rightarrow> (later c w, Inl (Service e))
      | Some (c, Inr y) \<Rightarrow> (later c w, Inr y))"

definition acknowledge :: "(cluster \<times> nodeError option) option \<Rightarrow> world \<Rightarrow> world \<times> serviceError option" where
  "acknowledge x w =
     (case x of
        None \<Rightarrow> (w, Some LookupHangs)
      | Some (c, e) \<Rightarrow> (later c w, map_option Service e))"

definition nodePutChunk :: "schedule \<Rightarrow> string \<Rightarrow> bytes \<Rightarrow> world \<Rightarrow> world \<times> (serviceError + string)" where
  "nodePutChunk s me data w = answer (PutChunk (arrival s (tick w)) (chunkReq s (tick w)) me data (clu w)) w"

definition nodeGetChunk :: "schedule \<Rightarrow> string \<Rightarrow> string \<Rightarrow> world \<Rightarrow> world \<times> (serviceError + bytes)" where
  "nodeGetChunk s me cid w =
     (case answer (GetChunk (readReq s (tick w)) me cid (clu w)) w of
        (w', Inl e) \<Rightarrow> (w', Inl e) | (w', Inr (data, source)) \<Rightarrow> (w', Inr data))"

definition nodeMetaPut :: "schedule \<Rightarrow> string \<Rightarrow> string \<Rightarrow> bytes \<Rightarrow> world \<Rightarrow> world \<times> serviceError option" where
  "nodeMetaPut s me key data w =
     acknowledge (NodePut (arrival s (tick w)) (readReq s (tick w)) (writeReq s (tick w)) me key (Some data) (clu w)) w"

definition nodeMetaGet :: "schedule \<Rightarrow> string \<Rightarrow> string \<Rightarrow> world \<Rightarrow> world \<times> (serviceError + bytes option \<times> bool)" where
  "nodeMetaGet s me key w =
     answer (NodeGet (arrival s (tick w)) (readReq s (tick w)) (writeReq s (tick w)) me key (clu w)) w"

definition nodeMetaDelete :: "schedule \<Rightarrow> string \<Rightarrow> string \<Rightarrow> world \<Rightarrow> world \<times> serviceError option" where
  "nodeMetaDelete s me key w =
     acknowledge (NodeDelete (arrival s (tick w)) (readReq s (tick w)) (writeReq s (tick w)) me key (clu w)) w"

lemma nodePutChunk_id: "nodePutChunk s me d w = (w', Inr cid) \<Longrightarrow> cid = ID d"
  by (auto simp: nodePutChunk_def answer_def PutChunk_def Let_def split: option.splits prod.splits sum.splits if_splits)

lemma nodeGetChunk_id: "nodeGetChunk s me cid w = (w', Inr d) \<Longrightarrow> ID d = cid"
  by (auto simp: nodeGetChunk_def answer_def GetChunk_def split: option.splits prod.splits sum.splits if_splits
      dest: getChunkLoop_hash)

interpretation node_chunks: chunk_backend "nodePutChunk s me" "nodeGetChunk s2 me2" for s me s2 me2
  by unfold_locales (auto intro: nodePutChunk_id nodeGetChunk_id)

subsection \<open>Objects\<close>

lemma foldl_sizes: "foldl (\<lambda>size info. size + InfoSize info) z infos = z + (\<Sum>info \<leftarrow> infos. InfoSize info)"
  by (induction infos arbitrary: z) simp_all

lemma same_pieces:
  assumes "map ID ds = map ID ps" "\<forall>d \<in> set ds. \<forall>p \<in> set ps. ID d = ID p \<longrightarrow> d = p"
  shows "ds = ps"
proof (rule nth_equalityI)
  show l: "length ds = length ps"
    using assms(1) map_eq_imp_length_eq by blast
  show "ds ! i = ps ! i" if "i < length ds" for i
    using assms l that nth_map [of i ds ID] nth_map [of i ps ID] by (metis nth_mem)
qed

text \<open>C22. An object comes back as it went in: when \<open>Put\<close> stored a stream and a later \<open>Get\<close>, by any node
  and whatever happened in between, finds the metadata of that \<open>Put\<close> and reports success, it wrote
  pieces with the hashes and the lengths of those of the stream, in their order; unless two of
  these pieces have the same SHA-256 these are the bytes of the stream.\<close>
theorem object_roundtrip:
  assumes "ObjectPut (nodePutChunk s me) (nodeMetaPut s me) name r chunkSize w = (w1, Inr m)"
    and "ObjectGet (nodeMetaGet s2 me2) (nodeGetChunk s2 me2) name k w2 = (w3, k', Inr True)"
    and "nodeMetaGet s2 me2 (metadataKey name) w2 = (w2', Inr (Some (marshalMetadata m), True))"
    and "goodMetadata m"
  shows "\<exists>ds. taken k' = taken k @ concat ds
    \<and> map ID ds = map ID (pieces (nat chunkSize) (pending r))
    \<and> map length ds = map length (pieces (nat chunkSize) (pending r))
    \<and> ((\<forall>d \<in> set ds. \<forall>p \<in> set (pieces (nat chunkSize) (pending r)). ID d = ID p \<longrightarrow> d = p) \<longrightarrow>
        taken k' = taken k @ pending r)"
proof -
  let ?ps = "pieces (nat chunkSize) (pending r)"
  obtain wa infos where l: "objectLoop (nodePutChunk s me) (nat chunkSize) r [] w = (wa, Inr infos)" "0 < chunkSize"
      "MetaChunks m = infos"
    using assms(1) by (auto simp: ObjectPut_def writeChunks_def Let_def split: if_splits prod.splits sum.splits option.splits)
  have infos: "infos = map infoOf ?ps"
    using objectLoop_pieces [OF l(1)] l(2) nodePutChunk_id by auto
  obtain wb size1 where g: "objectWriteLoop (nodeGetChunk s2 me2) infos 0 k w2' = (wb, k', Inr size1)"
    using assms(2,3) unmarshalMetadata_marshal [OF assms(4)] l(3)
    by (auto simp: ObjectGet_def ObjectMetadata_def WriteTo_def split: prod.splits sum.splits option.splits if_splits)
  obtain ds where ds: "map ID ds = map InfoID infos" "map (\<lambda>d. int (length d)) ds = map InfoSize infos"
      "taken k' = taken k @ concat ds"
    using node_chunks.objectWriteLoop_output [OF g] by blast
  have i: "map ID ds = map ID ?ps"
    using ds(1) by (simp add: infos infoOf_def comp_def)
  have "map int (map length ds) = map int (map length ?ps)"
    using ds(2) by (simp add: infos infoOf_def comp_def)
  then have "map length ds = map length ?ps"
    by (rule map_injective) simp
  with i ds(3) same_pieces [OF i] concat_pieces [of "nat chunkSize" "pending r"] l(2) show ?thesis
    by (intro exI [of _ ds]) auto
qed


subsection \<open>HTTP\<close>

text \<open>
  The handlers for objects.  The first write of a body sends the status 200 ahead of it, so an
  error after it can only add its text to the body.
\<close>

definition handleObjectPut ::
  "schedule \<Rightarrow> string \<Rightarrow> (serviceError objectError \<Rightarrow> string) \<Rightarrow> reader \<Rightarrow> string \<Rightarrow> world \<Rightarrow> world \<times> response" where
  "handleObjectPut s me err r name w =
     (case ObjectPut (nodePutChunk s me) (nodeMetaPut s me) name r DefaultChunkSize w of
        (w', Inl e) \<Rightarrow> (w', httpError (err e) 500)
      | (w', Inr metadata) \<Rightarrow> (w', (200, marshalMetadata metadata @ [10])))"

definition handleObjectGet ::
  "schedule \<Rightarrow> string \<Rightarrow> (serviceError objectError \<Rightarrow> string) \<Rightarrow> fault list \<Rightarrow> string \<Rightarrow> world \<Rightarrow> world \<times> response" where
  "handleObjectGet s me err outcomes name w =
     (case ObjectGet (nodeMetaGet s me) (nodeGetChunk s me) name \<lparr>taken = [], begun = False, sinkFaults = outcomes\<rparr> w of
        (w', k, Inl e) \<Rightarrow>
          (w', if begun k then (200, taken k @ snd (httpError (err e) 500)) else httpError (err e) 500)
      | (w', k, Inr found) \<Rightarrow> (w', if \<not> found then httpError ''not found'' 404 else (200, taken k)))"

definition handleObjectDelete ::
  "schedule \<Rightarrow> string \<Rightarrow> (serviceError objectError \<Rightarrow> string) \<Rightarrow> string \<Rightarrow> world \<Rightarrow> world \<times> response" where
  "handleObjectDelete s me err name w =
     (case ObjectDelete (nodeMetaDelete s me) name w of
        (w', Some e) \<Rightarrow> (w', httpError (err e) 503) | (w', None) \<Rightarrow> (w', noContent))"

definition handleObject ::
  "schedule \<Rightarrow> string \<Rightarrow> (serviceError objectError \<Rightarrow> string) \<Rightarrow> fault list \<Rightarrow> httpMethod \<Rightarrow> string \<Rightarrow> reader \<Rightarrow> world
     \<Rightarrow> world \<times> response" where
  "handleObject s me err outcomes meth path r w =
     (let name = trimPrefix path ''/objects/''
      in if name = [] then (w, httpError ''empty object name'' 400)
         else case meth of
           MethodPut \<Rightarrow> handleObjectPut s me err r name w
         | MethodGet \<Rightarrow> handleObjectGet s me err outcomes name w
         | MethodDelete \<Rightarrow> handleObjectDelete s me err name w
         | _ \<Rightarrow> (w, httpError ''method not allowed'' 405))"

text \<open>Chunks that can be read and have their size, and what is wrong with one that cannot.\<close>

fun readChunks :: "(string \<Rightarrow> 'w \<Rightarrow> 'w \<times> ('e + bytes)) \<Rightarrow> ChunkInfo list \<Rightarrow> 'w \<Rightarrow> ('w \<times> bytes) option" where
  "readChunks getChunk [] w = Some (w, [])"
| "readChunks getChunk (i # pre) w =
     (case getChunk (InfoID i) w of
        (w', Inr d) \<Rightarrow>
          if int (length d) = InfoSize i then map_option (\<lambda>(u, b). (u, d @ b)) (readChunks getChunk pre w') else None
      | _ \<Rightarrow> None)"

definition chunkProblem :: "ChunkInfo \<Rightarrow> 'e + bytes \<Rightarrow> 'e objectError option" where
  "chunkProblem i x =
     (case x of
        Inl e \<Rightarrow> Some (ObjectBackend e)
      | Inr d \<Rightarrow> if int (length d) \<noteq> InfoSize i then Some (ObjectChunkSizeMismatch (InfoID i)) else None)"

lemma objectWriteLoop_broken:
  assumes "readChunks getChunk pre w = Some (w2, b)" "getChunk (InfoID i) w2 = (w3, x)" "chunkProblem i x = Some e"
    and "sinkFaults k = []"
  shows "objectWriteLoop getChunk (pre @ i # rest) n k w =
    (w3, if pre = [] then k else k\<lparr>taken := taken k @ b, begun := True\<rparr>, Inl e)"
  using assms(1,4)
proof (induction pre arbitrary: w n k b)
  case Nil
  with assms(2,3) show ?case
    by (cases x) (auto simp: chunkProblem_def split: if_splits)
next
  case (Cons a pre)
  then obtain u d b' where g: "getChunk (InfoID a) w = (u, Inr d)" "int (length d) = InfoSize a"
      "readChunks getChunk pre u = Some (w2, b')" "b = d @ b'"
    by (auto split: prod.splits sum.splits if_splits)
  let ?k = "k\<lparr>taken := taken k @ d, begun := True, sinkFaults := []\<rparr>"
  have "sinkWrite d k = (?k, True)"
    using Cons.prems(2) by (simp add: sinkWrite_def)
  with g Cons.IH [OF g(3), of ?k] Cons.prems(2) show ?case
    by (auto simp: readChunks.simps(1) intro!: sink.equality dest: sym)
qed

text \<open>C25. A broken object is answered as a good one.  When a chunk of an object, at any place, cannot be
  read or has the wrong size, and the chunks before it can be read and the writes to the client
  succeed, then the client gets the status 200 with a body of all the chunks before it and the
  text of the error, which nothing tells from an object that was stored so; only when the first
  chunk is the broken one does the client get the status 500.\<close>
theorem broken_object_answers_200:
  assumes "nodeMetaGet s me (metadataKey name) w = (w1, Inr (Some (marshalMetadata m), True))" "goodMetadata m"
    and "MetaChunks m = pre @ i # rest" "name \<noteq> []"
    and "readChunks (nodeGetChunk s me) pre w1 = Some (w2, b)"
    and "nodeGetChunk s me (InfoID i) w2 = (w3, x)" "chunkProblem i x = Some e"
  shows "handleObject s me err [] MethodGet (''/objects/'' @ name) r w =
    (w3, if pre = [] then (500, bytesOf (err e) @ [10]) else (200, b @ bytesOf (err e) @ [10]))"
proof -
  have "trimPrefix (''/objects/'' @ name) ''/objects/'' = name"
    by (simp add: trimPrefix_def)
  then show ?thesis
    using assms(1,3,4) unmarshalMetadata_marshal [OF assms(2)] objectWriteLoop_broken [OF assms(5-7)]
    by (simp add: handleObject_def handleObjectGet_def ObjectGet_def ObjectMetadata_def WriteTo_def httpError_def)
qed


subsection \<open>A concrete node\<close>

text \<open>A node of a ring of two whose other member is down, with quorums of one.\<close>

definition loneNode :: "(string \<rightharpoonup> Value) \<Rightarrow> (string list \<rightharpoonup> chunkFile) \<Rightarrow> Node" where
  "loneNode m f = (nodeAt ''a'')\<lparr>readQuorum := 1, store := plainMemory\<lparr>memData := m\<rparr>,
     chunks := \<lparr>chunkFiles = f, chunkCalls = []\<rparr>\<rparr>"

definition lone :: "Node \<Rightarrow> cluster" where
  "lone n = [''a'' \<mapsto> n]"

definition plainSchedule :: schedule where
  "plainSchedule = \<lparr>arrival = \<lambda>_. id, chunkReq = \<lambda>_ _. (Delivered, 5, ''7''), readReq = \<lambda>_ _. Delivered,
     writeReq = \<lambda>_ _. Delivered\<rparr>"

definition lone_ok :: "Node \<Rightarrow> bool" where
  "lone_ok n \<longleftrightarrow> addr n = ''a'' \<and> ring n = ring_ab \<and> replicas n = 2 \<and> writeQuorum n = 1 \<and> readQuorum n = 1
     \<and> wal (store n) = None \<and> chunkCalls (chunks n) = []"

lemma lone_ok_node: "lone_ok (loneNode m f)"
  by (simp add: lone_ok_def loneNode_def)

lemma ID_plain: "requestKey (ID d) = Some (ID d)" "ID d \<noteq> []"
  using requestKey_plain [OF plainKey_ID] plainKey_ID [of d] by (simp_all add: plainKey_def)

lemma lone_PutChunk:
  assumes "lone_ok n" "chunkFiles (chunks n) = Map.empty"
  shows "nodePutChunk plainSchedule ''a'' d \<lparr>clu = lone n, tick = t\<rparr> =
    (\<lparr>clu = lone (n\<lparr>chunks := \<lparr>chunkFiles = [chunkPath (ID d) \<mapsto> \<lparr>chunkBytes = d, modTime = 5\<rparr>], chunkCalls = []\<rparr>\<rparr>),
       tick = t + 1\<rparr>, Inr (ID d))"
  by (rule replicas_two [of n "ID d"])
    (use assms in \<open>auto simp: lone_ok_def nodePutChunk_def answer_def later_def PutChunk_def plainSchedule_def
      lone_def putChunkReplica_def chunkPut_fresh ID_plain Let_def\<close>)

lemma lone_GetChunk:
  assumes "lone_ok n"
  shows "chunkFiles (chunks n) (chunkPath (ID d)) = Some \<lparr>chunkBytes = d, modTime = u\<rparr> \<Longrightarrow>
      nodeGetChunk plainSchedule ''a'' (ID d) \<lparr>clu = lone n, tick = t\<rparr> = (\<lparr>clu = lone n, tick = t + 1\<rparr>, Inr d)"
    and "chunkFiles (chunks n) (chunkPath (ID d)) = None \<Longrightarrow>
      nodeGetChunk plainSchedule ''a'' (ID d) \<lparr>clu = lone n, tick = t\<rparr> =
        (\<lparr>clu = lone n, tick = t + 1\<rparr>, Inl (Service ReadQuorum))"
proof -
  have v: "validateID (ID d) = None"
    using validName_ID by (simp add: validName_def)
  have n: "n\<lparr>chunks := \<lparr>chunkFiles = chunkFiles (chunks n), chunkCalls = []\<rparr>\<rparr> = n"
    using assms by (cases "chunks n") (simp add: lone_ok_def)
  have upd: "[''a'' \<mapsto> n, ''a'' \<mapsto> n] = [''a'' \<mapsto> n]"
    by simp
  note run = nodeGetChunk_def answer_def later_def GetChunk_def plainSchedule_def lone_def getChunkReplica_def
    chunkGet_def readFile_def chunkCall_def v ID_plain
  show "chunkFiles (chunks n) (chunkPath (ID d)) = Some \<lparr>chunkBytes = d, modTime = u\<rparr> \<Longrightarrow>
      nodeGetChunk plainSchedule ''a'' (ID d) \<lparr>clu = lone n, tick = t\<rparr> = (\<lparr>clu = lone n, tick = t + 1\<rparr>, Inr d)"
    by (rule replicas_two [of n "ID d"]) (use assms in \<open>auto simp: lone_ok_def run\<close>)
  show "chunkFiles (chunks n) (chunkPath (ID d)) = None \<Longrightarrow>
      nodeGetChunk plainSchedule ''a'' (ID d) \<lparr>clu = lone n, tick = t\<rparr> =
        (\<lparr>clu = lone n, tick = t + 1\<rparr>, Inl (Service ReadQuorum))"
    by (rule replicas_two [of n "ID d"]) (use assms in \<open>auto simp: lone_ok_def run\<close>)
qed

lemma metadataKey_plain: "plainKey (metadataKey name)"
proof -
  have "list_all (\<lambda>c. \<not> isControl c \<and> c \<notin> set ''%?#/.'') MetadataKeyPrefix" "MetadataKeyPrefix \<noteq> []"
    by code_simp+
  moreover have "list_all (\<lambda>c. \<not> isControl c \<and> c \<notin> set ''%?#/.'') (hexEncode (sha256 (bytesOf name)))"
    using plainKey_ID [of "bytesOf name"] by (simp add: plainKey_def ID_def)
  ultimately show ?thesis
    by (simp add: plainKey_def metadataKey_def)
qed

lemma lone_MetaGet:
  assumes "lone_ok n" "memData (store n) (metadataKey name) = Some v" "\<not> Deleted v"
  shows "nodeMetaGet plainSchedule ''a'' (metadataKey name) \<lparr>clu = lone n, tick = t\<rparr> =
    (\<lparr>clu = lone n, tick = t + 1\<rparr>, Inr (Data v, True))"
  by (rule replicas_two [of n "metadataKey name"])
    (use assms requestKey_plain [OF metadataKey_plain] in
      \<open>auto simp: lone_ok_def nodeMetaGet_def answer_def later_def NodeGet_def plainSchedule_def lone_def readAll_def
        List.map_filter_simps getReplica_def MemGet_def latestOf_def newer_def Let_def\<close>)

lemma lone_MetaPut:
  assumes "lone_ok n" "memData (store n) (metadataKey name) = None"
  shows "\<exists>n'. nodeMetaPut plainSchedule ''a'' (metadataKey name) d \<lparr>clu = lone n, tick = t\<rparr> =
      (\<lparr>clu = lone n', tick = t + 1\<rparr>, None)
    \<and> lone_ok n' \<and> chunks n' = chunks n
    \<and> (\<exists>v. memData (store n') (metadataKey name) = Some v \<and> \<not> Deleted v \<and> Data v = Some d)"
  by (rule replicas_two [of n "metadataKey name"])
    (use assms requestKey_plain [OF metadataKey_plain] in
      \<open>auto simp: lone_ok_def nodeMetaPut_def acknowledge_def later_def NodePut_def writeVersioned_def nextVersion_def
        replicateValue_def putReplica_def addHint_def Set_def setLocked_def logEntry_def MaybeSnapshot_def ForceSet_def
        plainSchedule_def lone_def readAll_def List.map_filter_simps getReplica_def MemGet_def maxCounterOf_def Let_def\<close>)


lemma goodString_ID: "goodString (ID d)"
proof -
  have "list_all (\<lambda>c. (of_char c :: u8) < 0x80) hexTable"
    by code_simp
  then have "list_all (\<lambda>c. (of_char c :: u8) < 0x80) (ID d)"
    using hexEncode_hex [of "sha256 d"] unfolding list_all_iff ID_def by blast
  then show ?thesis
    by (simp add: goodString_def validUTF8_def sanitize_ascii bytesOf_def list_all_iff)
qed

definition streamO :: reader where
  "streamO = \<lparr>pending = [1, 2], breaks = False\<rparr>"

lemma object_roundtrip_witness:
  "\<exists>w1 m w3 k. ObjectPut (nodePutChunk plainSchedule ''a'') (nodeMetaPut plainSchedule ''a'') ''o'' streamO 4
      \<lparr>clu = lone (loneNode Map.empty Map.empty), tick = 0\<rparr> = (w1, Inr m)
    \<and> ObjectGet (nodeMetaGet plainSchedule ''a'') (nodeGetChunk plainSchedule ''a'') ''o''
        \<lparr>taken = [], begun = False, sinkFaults = []\<rparr> w1 = (w3, k, Inr True)
    \<and> map ID (pieces 4 (taken k)) = map ID (pieces 4 [1, 2])"
proof -
  let ?s = plainSchedule and ?n = "loneNode Map.empty Map.empty" and ?k = "\<lparr>taken = [], begun = False, sinkFaults = []\<rparr>"
  let ?n1 = "?n\<lparr>chunks := \<lparr>chunkFiles = [chunkPath (ID [1, 2]) \<mapsto> \<lparr>chunkBytes = [1, 2], modTime = 5\<rparr>], chunkCalls = []\<rparr>\<rparr>"
  let ?m = "\<lparr>MetaName = ''o'', MetaSize = 2, MetaChunkSize = 4, MetaChunks = [infoOf [1, 2]]\<rparr>"
  have c: "nodePutChunk ?s ''a'' [1, 2] \<lparr>clu = lone ?n, tick = 0\<rparr> = (\<lparr>clu = lone ?n1, tick = 1\<rparr>, Inr (ID [1, 2]))"
    using lone_PutChunk [OF lone_ok_node, of Map.empty Map.empty "[1, 2]" 0] by (simp add: loneNode_def)
  have ok1: "lone_ok ?n1" "memData (store ?n1) (metadataKey ''o'') = None"
    by (simp_all add: lone_ok_def loneNode_def)
  obtain n2 v where p: "nodeMetaPut ?s ''a'' (metadataKey ''o'') (marshalMetadata ?m) \<lparr>clu = lone ?n1, tick = 1\<rparr> =
      (\<lparr>clu = lone n2, tick = 1 + 1\<rparr>, None)" "lone_ok n2" "chunks n2 = chunks ?n1"
      "memData (store n2) (metadataKey ''o'') = Some v" "\<not> Deleted v" "Data v = Some (marshalMetadata ?m)"
    using lone_MetaPut [OF ok1] by metis
  have put: "ObjectPut (nodePutChunk ?s ''a'') (nodeMetaPut ?s ''a'') ''o'' streamO 4 \<lparr>clu = lone ?n, tick = 0\<rparr> =
      (\<lparr>clu = lone n2, tick = 2\<rparr>, Inr ?m)"
    using c p(1) by (simp add: ObjectPut_def writeChunks_def objectLoop.simps streamO_def readUpTo_def Let_def infoOf_def)
  have good: "goodMetadata ?m"
    using goodString_ID by (simp add: goodMetadata_def goodInfo_def infoOf_def goodInt_def) code_simp
  note mg = lone_MetaGet [OF p(2,4,5), of 2]
  have f: "chunkFiles (chunks n2) (chunkPath (ID [1, 2])) = Some \<lparr>chunkBytes = [1, 2], modTime = 5\<rparr>"
    by (simp add: p(3))
  have get: "ObjectGet (nodeMetaGet ?s ''a'') (nodeGetChunk ?s ''a'') ''o'' ?k \<lparr>clu = lone n2, tick = 2\<rparr> =
      (\<lparr>clu = lone n2, tick = 4\<rparr>, \<lparr>taken = [1, 2], begun = True, sinkFaults = []\<rparr>, Inr True)"
    using mg lone_GetChunk(1) [OF p(2) f, of 3] unmarshalMetadata_marshal [OF good] p(6)
    by (simp add: ObjectGet_def ObjectMetadata_def WriteTo_def infoOf_def sinkWrite_def)
  from object_roundtrip [OF put get mg [unfolded p(6)] good] have
    "\<exists>ds. [1, 2] = concat ds \<and> map ID ds = map ID (pieces 4 (pending streamO))"
    by auto
  with put get show ?thesis
    by (intro exI [of _ "\<lparr>clu = lone n2, tick = 2\<rparr>"] exI [of _ ?m] exI [of _ "\<lparr>clu = lone n2, tick = 4\<rparr>"]
        exI [of _ "\<lparr>taken = [1, 2], begun = True, sinkFaults = []\<rparr>"]) simp
qed

lemma broken_object_answers_200_witness:
  "\<exists>m w. snd (handleObject plainSchedule ''a'' (\<lambda>_. ''chunk unavailable'') [] MethodGet ''/objects/o'' streamO
      \<lparr>clu = lone (loneNode [metadataKey ''o'' \<mapsto> \<lparr>Data = Some (marshalMetadata m), VersionOf = w, Deleted = False\<rparr>]
          [chunkPath (ID [7]) \<mapsto> \<lparr>chunkBytes = [7], modTime = 0\<rparr>]), tick = 0\<rparr>)
    = (200, [7] @ bytesOf ''chunk unavailable'' @ [10])"
proof -
  let ?m = "\<lparr>MetaName = ''o'', MetaSize = 2, MetaChunkSize = 1, MetaChunks = [infoOf [7], \<lparr>InfoID = ''lost'', InfoSize = 1\<rparr>]\<rparr>"
  let ?v = "\<lparr>Data = Some (marshalMetadata ?m), VersionOf = zeroVersion, Deleted = False\<rparr>"
  let ?n = "loneNode [metadataKey ''o'' \<mapsto> ?v] [chunkPath (ID [7]) \<mapsto> \<lparr>chunkBytes = [7], modTime = 0\<rparr>]"
  have good: "goodMetadata ?m"
    using goodString_ID by (simp add: goodMetadata_def goodInfo_def infoOf_def goodInt_def) code_simp
  have meta: "nodeMetaGet plainSchedule ''a'' (metadataKey ''o'') \<lparr>clu = lone ?n, tick = 0\<rparr> =
      (\<lparr>clu = lone ?n, tick = 1\<rparr>, Inr (Some (marshalMetadata ?m), True))"
    using lone_MetaGet [OF lone_ok_node [of "[metadataKey ''o'' \<mapsto> ?v]"
        "[chunkPath (ID [7]) \<mapsto> \<lparr>chunkBytes = [7], modTime = 0\<rparr>]"], where name = "''o''" and v = ?v and t = 0]
    by (simp add: loneNode_def)
  have first: "nodeGetChunk plainSchedule ''a'' (InfoID (infoOf [7])) \<lparr>clu = lone ?n, tick = 1\<rparr> =
      (\<lparr>clu = lone ?n, tick = 2\<rparr>, Inr [7])"
    using lone_GetChunk(1) [OF lone_ok_node [of "[metadataKey ''o'' \<mapsto> ?v]"
        "[chunkPath (ID [7]) \<mapsto> \<lparr>chunkBytes = [7], modTime = 0\<rparr>]"], where d = "[7]" and u = 0 and t = 1]
    by (simp add: loneNode_def infoOf_def)
  have lost: "requestKey ''lost'' = Some ''lost''" "validateID ''lost'' \<noteq> None"
    by (rule requestKey_plain) code_simp+
  then obtain e where e: "validateID ''lost'' = Some e"
    by blast
  have lost_chunk: "nodeGetChunk plainSchedule ''a'' (InfoID \<lparr>InfoID = ''lost'', InfoSize = 1\<rparr>) \<lparr>clu = lone ?n, tick = 2\<rparr> =
      (\<lparr>clu = lone ?n, tick = 3\<rparr>, Inl (Service ReadQuorum))"
    by (rule replicas_two [of ?n "''lost''"])
      (use lost(1) e in \<open>auto simp: loneNode_def nodeGetChunk_def answer_def later_def GetChunk_def plainSchedule_def
        lone_def getChunkReplica_def chunkGet_def\<close>)
  have "handleObject plainSchedule ''a'' (\<lambda>_. ''chunk unavailable'') [] MethodGet (''/objects/'' @ ''o'') streamO
      \<lparr>clu = lone ?n, tick = 0\<rparr> =
      (\<lparr>clu = lone ?n, tick = 3\<rparr>, (200, [7] @ bytesOf ''chunk unavailable'' @ [10]))"
    using broken_object_answers_200 [where r = streamO and err = "\<lambda>_. ''chunk unavailable''"
        and pre = "[infoOf [7]]" and rest = "[]" and name = "''o''" and b = "[7]", OF meta good _ _ _ lost_chunk] first
    by (simp add: infoOf_def chunkProblem_def)
  then show ?thesis
    by (intro exI [of _ ?m] exI [of _ zeroVersion]) simp
qed

end
