(* ===== verification/GC.thy ===== *)
theory GC
  imports ObjectProps
begin

text \<open>
  Garbage collection of chunks, \<open>internal/node/gc.go\<close> with its handlers: every member marks the
  chunks that the object metadata in its store refers to, and when all have answered for one
  version of the configuration, every member sweeps what is unmarked and older than the grace
  period.  The bodies of these requests are passed as records: their strings come out of JSON
  texts and their times are instants, so that JSON gives back what it is given.
\<close>

record gcMarkResponse =
  MarkVersion :: u64
  MarkLive :: "string list"

record gcSweepRequest =
  SweepVersion :: u64
  SweepLive :: "string list"
  SweepCutoff :: int

record gcResult =
  GCVersion :: u64
  GCLive :: int
  GCNodes :: int
  GCScanned :: int
  GCDeleted :: int
  GCKept :: int

datatype gcError =
    GCNegativeGrace
  | GCNoMembers
  | GCMarkFailed string
  | GCVersionMismatch string u64 u64
  | GCConfigChanged
  | GCSweepFailed string

text \<open>Ten minutes, in nanoseconds.\<close>

definition defaultGCGracePeriod :: int where
  "defaultGCGracePeriod = 10 * 60 * 1000000000"

subsection \<open>Mark\<close>

definition hasPrefix :: "string \<Rightarrow> string \<Rightarrow> bool" where
  "hasPrefix s p \<longleftrightarrow> take (length p) s = p"

text \<open>The map is gone through in some order, which only decides which of several errors is met.\<close>

fun markLoop :: "(string \<rightharpoonup> Value) \<Rightarrow> string list \<Rightarrow> string set \<Rightarrow> string + string set" where
  "markLoop snap [] live = Inr live"
| "markLoop snap (key # keys) live =
     (let value = the (snap key)
      in if \<not> hasPrefix key MetadataKeyPrefix then markLoop snap keys live
         else if Deleted value then markLoop snap keys live
         else case unmarshalMetadata (case Data value of None \<Rightarrow> [] | Some d \<Rightarrow> d) of
           None \<Rightarrow> Inl key
         | Some metadata \<Rightarrow> markLoop snap keys (live \<union> InfoID ` set (MetaChunks metadata)))"

definition markLiveChunks :: "Node \<Rightarrow> string + string set" where
  "markLiveChunks n =
     (let snap = memSnapshot (store n) in markLoop snap (sorted_list_of_set (dom snap)) {})"

definition localGCMark :: "Node \<Rightarrow> string + gcMarkResponse" where
  "localGCMark n =
     (case markLiveChunks n of
        Inl key \<Rightarrow> Inl key
      | Inr live \<Rightarrow> Inr \<lparr>MarkVersion = configVersion n, MarkLive = sorted_list_of_set live\<rparr>)"

definition handleGCMark :: "httpMethod \<Rightarrow> Node \<Rightarrow> nat \<times> gcMarkResponse option" where
  "handleGCMark meth n =
     (if meth \<noteq> MethodGet then (405, None)
      else case localGCMark n of Inl _ \<Rightarrow> (500, None) | Inr result \<Rightarrow> (200, Some result))"

definition requestGCMark :: "rpc \<Rightarrow> string \<Rightarrow> string \<Rightarrow> cluster \<Rightarrow> gcMarkResponse option" where
  "requestGCMark net me target c =
     (case c target of
        None \<Rightarrow> None
      | Some n \<Rightarrow>
          if target = me then (case localGCMark n of Inl _ \<Rightarrow> None | Inr result \<Rightarrow> Some result)
          else (case handleGCMark MethodGet n of
                  (status, body) \<Rightarrow> if net \<noteq> Delivered \<or> status \<ge> 300 then None else body))"

subsection \<open>Sweep\<close>

datatype sweepError = ConfigVersionChanged | SweepFailed chunkError

definition localGCSweep :: "gcSweepRequest \<Rightarrow> Node \<Rightarrow> Node \<times> (sweepError + SweepResult)" where
  "localGCSweep req n =
     (if configVersion n \<noteq> SweepVersion req then (n, Inl ConfigVersionChanged)
      else case Sweep (set (SweepLive req)) (SweepCutoff req) (chunks n) of
        (s, Inl e) \<Rightarrow> (n\<lparr>chunks := s\<rparr>, Inl (SweepFailed e))
      | (s, Inr result) \<Rightarrow> (n\<lparr>chunks := s\<rparr>, Inr result))"

definition handleGCSweep :: "httpMethod \<Rightarrow> gcSweepRequest \<Rightarrow> Node \<Rightarrow> Node \<times> nat \<times> SweepResult option" where
  "handleGCSweep meth req n =
     (if meth \<noteq> MethodPost then (n, 405, None)
      else case localGCSweep req n of
        (n', Inl ConfigVersionChanged) \<Rightarrow> (n', 409, None)
      | (n', Inl _) \<Rightarrow> (n', 500, None)
      | (n', Inr result) \<Rightarrow> (n', 200, Some result))"

definition requestGCSweep :: "rpc \<Rightarrow> string \<Rightarrow> string \<Rightarrow> gcSweepRequest \<Rightarrow> cluster \<Rightarrow> cluster \<times> SweepResult option" where
  "requestGCSweep net me target req c =
     (case c target of
        None \<Rightarrow> (c, None)
      | Some n \<Rightarrow>
          if target = me then
            (case localGCSweep req n of
               (n', r) \<Rightarrow> (c(target \<mapsto> n'), case r of Inl _ \<Rightarrow> None | Inr result \<Rightarrow> Some result))
          else if net = RequestLost then (c, None)
          else (case handleGCSweep MethodPost req n of
                  (n', status, body) \<Rightarrow>
                    (c(target \<mapsto> n'), if net \<noteq> Delivered \<or> status \<ge> 300 then None else body)))"

subsection \<open>The coordinator\<close>

text \<open>What the network does, and the other work before each request.\<close>

record gcRun =
  markNet :: "string \<Rightarrow> rpc"
  sweepNet :: "string \<Rightarrow> rpc"
  beforeMark :: "string \<Rightarrow> cluster \<Rightarrow> cluster"
  afterMarks :: "cluster \<Rightarrow> cluster"
  beforeSweep :: "string \<Rightarrow> cluster \<Rightarrow> cluster"

definition configOf :: "string \<Rightarrow> cluster \<Rightarrow> u64" where
  "configOf me c = (case c me of None \<Rightarrow> 0 | Some n \<Rightarrow> configVersion n)"

definition membersOf :: "string \<Rightarrow> cluster \<Rightarrow> string list" where
  "membersOf me c = (case c me of None \<Rightarrow> [] | Some n \<Rightarrow> Members (ring n))"

fun collectLoop ::
  "gcRun \<Rightarrow> string \<Rightarrow> u64 \<Rightarrow> string list \<Rightarrow> string set \<Rightarrow> cluster \<Rightarrow> cluster \<times> (gcError + string set)" where
  "collectLoop e me expected [] live c = (c, Inr live)"
| "collectLoop e me expected (m # ms) live c =
     (let c1 = beforeMark e m c
      in case requestGCMark (markNet e m) me m c1 of
           None \<Rightarrow> (c1, Inl (GCMarkFailed m))
         | Some result \<Rightarrow>
             if MarkVersion result \<noteq> expected then (c1, Inl (GCVersionMismatch m expected (MarkVersion result)))
             else collectLoop e me expected ms (live \<union> set (MarkLive result)) c1)"

definition collectLiveChunks :: "gcRun \<Rightarrow> string \<Rightarrow> cluster \<Rightarrow> cluster \<times> (gcError + string set \<times> u64)" where
  "collectLiveChunks e me c =
     (let expected = configOf me c; ms = membersOf me c
      in if length ms = 0 then (c, Inl GCNoMembers)
         else case collectLoop e me expected ms {} c of
           (c1, Inl err) \<Rightarrow> (c1, Inl err)
         | (c1, Inr live) \<Rightarrow>
             if configOf me c1 \<noteq> expected then (c1, Inl GCConfigChanged) else (c1, Inr (live, expected)))"

fun sweepMembers ::
  "gcRun \<Rightarrow> string \<Rightarrow> gcSweepRequest \<Rightarrow> string list \<Rightarrow> gcResult \<Rightarrow> cluster \<Rightarrow> cluster \<times> (gcError + gcResult)" where
  "sweepMembers e me req [] result c = (c, Inr result)"
| "sweepMembers e me req (m # ms) result c =
     (case requestGCSweep (sweepNet e m) me m req (beforeSweep e m c) of
        (c1, None) \<Rightarrow> (c1, Inl (GCSweepFailed m))
      | (c1, Some sw) \<Rightarrow>
          sweepMembers e me req ms
            (result\<lparr>GCScanned := GCScanned result + Scanned sw, GCDeleted := GCDeleted result + DeletedCount sw,
               GCKept := GCKept result + Kept sw\<rparr>) c1)"

definition RunGC :: "gcRun \<Rightarrow> string \<Rightarrow> int \<Rightarrow> int \<Rightarrow> cluster \<Rightarrow> cluster \<times> (gcError + gcResult)" where
  "RunGC e me gcStart gracePeriod c =
     (if gracePeriod < 0 then (c, Inl GCNegativeGrace)
      else case collectLiveChunks e me c of
        (c1, Inl err) \<Rightarrow> (c1, Inl err)
      | (c1, Inr (live, ver)) \<Rightarrow>
          let c2 = afterMarks e c1; ms = membersOf me c2
          in if length ms = 0 then (c2, Inl GCNoMembers)
             else if configOf me c2 \<noteq> ver then (c2, Inl GCConfigChanged)
             else let liveChunks = sorted_list_of_set live;
                      req = \<lparr>SweepVersion = ver, SweepLive = liveChunks, SweepCutoff = gcStart - gracePeriod\<rparr>
                  in sweepMembers e me req ms
                       \<lparr>GCVersion = ver, GCLive = int (length liveChunks), GCNodes = int (length ms),
                        GCScanned = 0, GCDeleted = 0, GCKept = 0\<rparr> c2)"

definition handleAdminGC :: "gcRun \<Rightarrow> string \<Rightarrow> int \<Rightarrow> httpMethod \<Rightarrow> cluster \<Rightarrow> cluster \<times> nat \<times> gcResult option" where
  "handleAdminGC e me now meth c =
     (if meth \<noteq> MethodPost then (c, 405, None)
      else case RunGC e me now defaultGCGracePeriod c of
        (c', Inl _) \<Rightarrow> (c', 503, None)
      | (c', Inr result) \<Rightarrow> (c', 200, Some result))"

end
