(* ===== verification/Rebalance.thy ===== *)
theory Rebalance
  imports ObjectStore NodeChunks HandOff Http
begin

text \<open>
  Moving data after a change of the ring: \<open>rebalance.go\<close>, which copies what a node has to the
  replicas of the current ring and clears what the node no longer has to keep, and \<open>drain.go\<close>,
  which copies all of it to the replicas of a future ring; with their handlers and the requests
  that start them on another node.
\<close>

record rebalanceResult =
  ReScanned :: int
  ReCopied :: int
  ReFailed :: int
  ReHinted :: int
  ReCleaned :: int
  ReChunkScanned :: int
  ReChunkCopied :: int
  ReChunkFailed :: int

text \<open>
  What the network, the clocks and the rest of the system do during a run.  \<open>meanwhile k r\<close> is
  the other work between the last request and the one for \<open>k\<close> at the replica \<open>r\<close>, the node's own
  address standing for its clean-up; \<open>keyOrder\<close> is the order in which Go goes through the map.
\<close>

record run =
  keyOrder :: "string list"
  requests :: "string \<Rightarrow> string \<Rightarrow> rpc"
  chunkRequests :: "string \<Rightarrow> chunkEnv"
  meanwhile :: "string \<Rightarrow> string \<Rightarrow> cluster \<Rightarrow> cluster"

definition zeroRebalance :: rebalanceResult where
  "zeroRebalance = \<lparr>ReScanned = 0, ReCopied = 0, ReFailed = 0, ReHinted = 0, ReCleaned = 0,
     ReChunkScanned = 0, ReChunkCopied = 0, ReChunkFailed = 0\<rparr>"

subsection \<open>Rebalance\<close>

fun copyLoop ::
  "run \<Rightarrow> string \<Rightarrow> string \<Rightarrow> Value \<Rightarrow> string list \<Rightarrow> cluster \<Rightarrow> rebalanceResult \<Rightarrow> bool
     \<Rightarrow> cluster \<times> rebalanceResult \<times> bool" where
  "copyLoop e me key v [] c res allCopied = (c, res, allCopied)"
| "copyLoop e me key v (r # rs) c res allCopied =
     (if r = me then copyLoop e me key v rs c res allCopied
      else case putReplica (requests e key r) me r key v (meanwhile e key r c) of
        (c1, ok) \<Rightarrow>
          if \<not> ok then
            copyLoop e me key v rs (addHint me r key v c1)
              (res\<lparr>ReFailed := ReFailed res + 1, ReHinted := ReHinted res + 1\<rparr>) False
          else copyLoop e me key v rs c1 (res\<lparr>ReCopied := ReCopied res + 1\<rparr>) allCopied)"

definition cleanLocal :: "string \<Rightarrow> string \<Rightarrow> Version \<Rightarrow> cluster \<Rightarrow> cluster \<times> bool \<times> memoryError option" where
  "cleanLocal me key ver c =
     (case c me of
        None \<Rightarrow> (c, False, None)
      | Some n \<Rightarrow>
          (case DeleteIfMatch key ver (store n) of (m, cleaned, e) \<Rightarrow> (c(me \<mapsto> n\<lparr>store := m\<rparr>), cleaned, e)))"

text \<open>\<open>None\<close> is a lookup in the ring that does not return.\<close>

fun rebalanceKeys ::
  "run \<Rightarrow> string \<Rightarrow> (string \<rightharpoonup> Value) \<Rightarrow> string list \<Rightarrow> cluster \<Rightarrow> rebalanceResult
     \<Rightarrow> (cluster \<times> rebalanceResult) option" where
  "rebalanceKeys e me snap [] c res = Some (c, res)"
| "rebalanceKeys e me snap (key # keys) c res =
     (case c me of
        None \<Rightarrow> None
      | Some n \<Rightarrow>
          case replicasFor key n of
            None \<Rightarrow> None
          | Some rs \<Rightarrow>
              let v = the (snap key)
              in case copyLoop e me key v rs c res True of
                (c1, res1, allCopied) \<Rightarrow>
                  if me \<in> set rs then rebalanceKeys e me snap keys c1 res1
                  else if \<not> allCopied then rebalanceKeys e me snap keys c1 res1
                  else (case cleanLocal me key (VersionOf v) (meanwhile e key me c1) of
                          (c2, cleaned, err) \<Rightarrow>
                            rebalanceKeys e me snap keys c2
                              (if err \<noteq> None then res1\<lparr>ReFailed := ReFailed res1 + 1\<rparr>
                               else if cleaned then res1\<lparr>ReCleaned := ReCleaned res1 + 1\<rparr> else res1)))"

fun copyChunkLoop ::
  "run \<Rightarrow> string \<Rightarrow> string \<Rightarrow> bytes \<Rightarrow> string list \<Rightarrow> cluster \<Rightarrow> int \<Rightarrow> int \<Rightarrow> cluster \<times> int \<times> int" where
  "copyChunkLoop e me cid data [] c copied failed = (c, copied, failed)"
| "copyChunkLoop e me cid data (r # rs) c copied failed =
     (if r = me then copyChunkLoop e me cid data rs c copied failed
      else case putChunkReplica (chunkRequests e cid r) me r cid data (meanwhile e cid r c) of
        (c1, ok) \<Rightarrow>
          if \<not> ok then copyChunkLoop e me cid data rs c1 copied (failed + 1)
          else copyChunkLoop e me cid data rs c1 (copied + 1) failed)"

fun rebalanceChunkIDs ::
  "run \<Rightarrow> string \<Rightarrow> string list \<Rightarrow> cluster \<Rightarrow> int \<Rightarrow> int \<Rightarrow> (cluster \<times> int \<times> int) option" where
  "rebalanceChunkIDs e me [] c copied failed = Some (c, copied, failed)"
| "rebalanceChunkIDs e me (cid # ids) c copied failed =
     (case c me of
        None \<Rightarrow> None
      | Some n \<Rightarrow>
          (case chunkGet cid (chunks n) of
             (s, Inl _) \<Rightarrow> rebalanceChunkIDs e me ids (c(me \<mapsto> n\<lparr>chunks := s\<rparr>)) copied (failed + 1)
           | (s, Inr data) \<Rightarrow>
               (case replicasFor cid n of
                  None \<Rightarrow> None
                | Some rs \<Rightarrow>
                    (case copyChunkLoop e me cid data rs (c(me \<mapsto> n\<lparr>chunks := s\<rparr>)) copied failed of
                       (c1, copied1, failed1) \<Rightarrow> rebalanceChunkIDs e me ids c1 copied1 failed1))))"

definition rebalanceChunks :: "run \<Rightarrow> string \<Rightarrow> cluster \<Rightarrow> (cluster \<times> int \<times> int \<times> int) option" where
  "rebalanceChunks e me c =
     (case c me of
        None \<Rightarrow> None
      | Some n \<Rightarrow>
          (case chunkIDs (chunks n) of
             (s, Inl _) \<Rightarrow> Some (c(me \<mapsto> n\<lparr>chunks := s\<rparr>), 0, 0, 1)
           | (s, Inr ids) \<Rightarrow>
               map_option (\<lambda>(c', copied, failed). (c', int (length ids), copied, failed))
                 (rebalanceChunkIDs e me ids (c(me \<mapsto> n\<lparr>chunks := s\<rparr>)) 0 0)))"

definition rebalance :: "run \<Rightarrow> string \<Rightarrow> cluster \<Rightarrow> (cluster \<times> rebalanceResult) option" where
  "rebalance e me c =
     (case c me of
        None \<Rightarrow> None
      | Some n \<Rightarrow>
          let snap = memSnapshot (store n)
          in case rebalanceKeys e me snap (keyOrder e) c (zeroRebalance\<lparr>ReScanned := int (card (dom snap))\<rparr>) of
               None \<Rightarrow> None
             | Some (c1, res) \<Rightarrow>
                 map_option (\<lambda>(c2, scanned, copied, failed).
                     (c2, res\<lparr>ReChunkScanned := scanned, ReChunkCopied := copied, ReChunkFailed := failed\<rparr>))
                   (rebalanceChunks e me c1))"

subsection \<open>Drain\<close>

datatype drainError =
    DrainCopyKey string string
  | DrainListChunks
  | DrainReadChunk string
  | DrainCopyChunk string string

fun drainKey :: "run \<Rightarrow> string \<Rightarrow> string \<Rightarrow> Value \<Rightarrow> string list \<Rightarrow> cluster \<Rightarrow> cluster \<times> drainError option" where
  "drainKey e me key v [] c = (c, None)"
| "drainKey e me key v (r # rs) c =
     (case putReplica (requests e key r) me r key v (meanwhile e key r c) of
        (c1, ok) \<Rightarrow> if \<not> ok then (c1, Some (DrainCopyKey key r)) else drainKey e me key v rs c1)"

definition replicasForRing :: "Ring \<Rightarrow> string \<Rightarrow> Node \<Rightarrow> string list option" where
  "replicasForRing r key n = GetN key (replicas n) r"

fun drainKeys ::
  "run \<Rightarrow> string \<Rightarrow> Ring \<Rightarrow> (string \<rightharpoonup> Value) \<Rightarrow> string list \<Rightarrow> cluster \<Rightarrow> (cluster \<times> drainError option) option" where
  "drainKeys e me future snap [] c = Some (c, None)"
| "drainKeys e me future snap (key # keys) c =
     (case c me of
        None \<Rightarrow> None
      | Some n \<Rightarrow>
          case replicasForRing future key n of
            None \<Rightarrow> None
          | Some rs \<Rightarrow>
              (case drainKey e me key (the (snap key)) rs c of
                 (c1, Some err) \<Rightarrow> Some (c1, Some err)
               | (c1, None) \<Rightarrow> drainKeys e me future snap keys c1))"

fun drainChunk :: "run \<Rightarrow> string \<Rightarrow> string \<Rightarrow> bytes \<Rightarrow> string list \<Rightarrow> cluster \<Rightarrow> cluster \<times> drainError option" where
  "drainChunk e me cid data [] c = (c, None)"
| "drainChunk e me cid data (r # rs) c =
     (case putChunkReplica (chunkRequests e cid r) me r cid data (meanwhile e cid r c) of
        (c1, ok) \<Rightarrow> if \<not> ok then (c1, Some (DrainCopyChunk cid r)) else drainChunk e me cid data rs c1)"

fun drainChunkIDs ::
  "run \<Rightarrow> string \<Rightarrow> Ring \<Rightarrow> string list \<Rightarrow> cluster \<Rightarrow> (cluster \<times> drainError option) option" where
  "drainChunkIDs e me future [] c = Some (c, None)"
| "drainChunkIDs e me future (cid # ids) c =
     (case c me of
        None \<Rightarrow> None
      | Some n \<Rightarrow>
          (case chunkGet cid (chunks n) of
             (s, Inl _) \<Rightarrow> Some (c(me \<mapsto> n\<lparr>chunks := s\<rparr>), Some (DrainReadChunk cid))
           | (s, Inr data) \<Rightarrow>
               (case replicasForRing future cid n of
                  None \<Rightarrow> None
                | Some rs \<Rightarrow>
                    (case drainChunk e me cid data rs (c(me \<mapsto> n\<lparr>chunks := s\<rparr>)) of
                       (c1, Some err) \<Rightarrow> Some (c1, Some err)
                     | (c1, None) \<Rightarrow> drainChunkIDs e me future ids c1))))"

definition drain :: "run \<Rightarrow> string \<Rightarrow> string list \<Rightarrow> cluster \<Rightarrow> (cluster \<times> drainError option) option" where
  "drain e me futureMembers c =
     (case c me of
        None \<Rightarrow> None
      | Some n \<Rightarrow>
          let futureRing = newRing futureMembers (ringVirtualNodes n); snap = memSnapshot (store n)
          in case drainKeys e me futureRing snap (keyOrder e) c of
               None \<Rightarrow> None
             | Some (c1, Some err) \<Rightarrow> Some (c1, Some err)
             | Some (c1, None) \<Rightarrow>
                 (case c1 me of
                    None \<Rightarrow> None
                  | Some n1 \<Rightarrow>
                      (case chunkIDs (chunks n1) of
                         (s, Inl _) \<Rightarrow> Some (c1(me \<mapsto> n1\<lparr>chunks := s\<rparr>), Some DrainListChunks)
                       | (s, Inr ids) \<Rightarrow> drainChunkIDs e me futureRing ids (c1(me \<mapsto> n1\<lparr>chunks := s\<rparr>)))))"

subsection \<open>Starting them on another node\<close>

definition encodeRebalance :: "rebalanceResult \<Rightarrow> json" where
  "encodeRebalance r =
     JObj [(bytesOf ''scanned'', encodeInt (ReScanned r)), (bytesOf ''copied'', encodeInt (ReCopied r)),
           (bytesOf ''failed'', encodeInt (ReFailed r)), (bytesOf ''hinted'', encodeInt (ReHinted r)),
           (bytesOf ''cleaned'', encodeInt (ReCleaned r)), (bytesOf ''chunk_scanned'', encodeInt (ReChunkScanned r)),
           (bytesOf ''chunk_copied'', encodeInt (ReChunkCopied r)), (bytesOf ''chunk_failed'', encodeInt (ReChunkFailed r))]"

definition decodeRebalance :: "json \<Rightarrow> rebalanceResult \<Rightarrow> rebalanceResult option" where
  "decodeRebalance = decodeStruct
     [(''scanned'', onField ReScanned ReScanned_update decodeInt), (''copied'', onField ReCopied ReCopied_update decodeInt),
      (''failed'', onField ReFailed ReFailed_update decodeInt), (''hinted'', onField ReHinted ReHinted_update decodeInt),
      (''cleaned'', onField ReCleaned ReCleaned_update decodeInt),
      (''chunk_scanned'', onField ReChunkScanned ReChunkScanned_update decodeInt),
      (''chunk_copied'', onField ReChunkCopied ReChunkCopied_update decodeInt),
      (''chunk_failed'', onField ReChunkFailed ReChunkFailed_update decodeInt)]"

definition handleRebalance :: "run \<Rightarrow> string \<Rightarrow> httpMethod \<Rightarrow> cluster \<Rightarrow> (cluster \<times> response) option" where
  "handleRebalance e me meth c =
     (if meth \<noteq> MethodPost then Some (c, httpError ''method not allowed'' 405)
      else map_option (\<lambda>(c', result). (c', (200, printJson (encodeRebalance result) @ [10]))) (rebalance e me c))"

definition sendRebalance :: "run \<Rightarrow> rpc \<Rightarrow> string \<Rightarrow> cluster \<Rightarrow> (cluster \<times> rebalanceResult option) option" where
  "sendRebalance e net target c =
     (if net = RequestLost \<or> c target = None then Some (c, None)
      else map_option (\<lambda>(c', status, body).
          (c', if net \<noteq> Delivered \<or> status \<ge> 300 then None else decodeStream decodeRebalance body zeroRebalance))
        (handleRebalance e target MethodPost c))"

definition encodeDrain :: "string list \<Rightarrow> json" where
  "encodeDrain ms = JObj [(bytesOf ''future_members'', encodeSlice encodeString ms)]"

definition decodeDrain :: "json \<Rightarrow> string list \<Rightarrow> string list option" where
  "decodeDrain = decodeStruct [(''future_members'', onField id (\<lambda>f. f) (decodeSlice decodeString []))]"

definition handleDrain ::
  "run \<Rightarrow> (drainError \<Rightarrow> string) \<Rightarrow> string \<Rightarrow> httpMethod \<Rightarrow> bytes \<Rightarrow> cluster \<Rightarrow> (cluster \<times> response) option" where
  "handleDrain e err me meth body c =
     (if meth \<noteq> MethodPost then Some (c, httpError ''method not allowed'' 405)
      else case decodeStream decodeDrain body [] of
        None \<Rightarrow> Some (c, httpError ''invalid drain request'' 400)
      | Some futureMembers \<Rightarrow>
          if length futureMembers = 0 then Some (c, httpError ''future members cannot be empty'' 400)
          else map_option (\<lambda>(c', r). (c', case r of Some x \<Rightarrow> httpError (err x) 502 | None \<Rightarrow> noContent))
                 (drain e me futureMembers c))"

definition sendDrain ::
  "run \<Rightarrow> (drainError \<Rightarrow> string) \<Rightarrow> rpc \<Rightarrow> string \<Rightarrow> string list \<Rightarrow> cluster \<Rightarrow> (cluster \<times> bool) option" where
  "sendDrain e err net target futureMembers c =
     (if net = RequestLost \<or> c target = None then Some (c, False)
      else map_option (\<lambda>(c', status, body). (c', net = Delivered \<and> status < 300))
        (handleDrain e err target MethodPost (printJson (encodeDrain futureMembers)) c))"

end
