(* ===== verification/RebalanceProps.thy ===== *)
theory RebalanceProps
  imports Rebalance
begin

text \<open>
  What moving data guarantees: a rebalance never clears what the replicas of the ring do not have,
  unless the ring is empty, and a drain that succeeds has brought everything to the replicas of
  the future ring.
\<close>

subsection \<open>Other work\<close>

text \<open>What the node's view of the ring is, and other work that only adds.\<close>

definition sameView :: "string \<Rightarrow> cluster \<Rightarrow> cluster \<Rightarrow> bool" where
  "sameView me c c' \<longleftrightarrow> map_option (\<lambda>n. (ring n, replicas n, configVersion n)) (c' me) = map_option (\<lambda>n. (ring n, replicas n, configVersion n)) (c me)"

definition orderly :: "cluster \<Rightarrow> bool" where
  "orderly c \<longleftrightarrow> (\<forall>r n. c r = Some n \<longrightarrow> well_named (chunks n))"

definition adds :: "string \<Rightarrow> cluster \<Rightarrow> cluster \<Rightarrow> bool" where
  "adds me c c' \<longleftrightarrow> grows c c' \<and> chunksKept c c' \<and> sameView me c c' \<and> (orderly c \<longrightarrow> orderly c')"

definition friendly :: "string \<Rightarrow> run \<Rightarrow> bool" where
  "friendly me e \<longleftrightarrow> (\<forall>k r c. adds me c (meanwhile e k r c))"

lemma adds_refl [simp]: "adds me c c"
  by (simp add: adds_def sameView_def)

lemma adds_trans: "adds me c d \<Longrightarrow> adds me d e \<Longrightarrow> adds me c e"
  by (auto simp: adds_def sameView_def intro: grows_trans chunksKept_trans)

lemma adds_holds: "adds me c c' \<Longrightarrow> holds c r key x \<Longrightarrow> holds c' r key x"
  by (auto simp: adds_def intro: holds_grows)

lemma adds_view: "adds me c c' \<Longrightarrow> c me = Some n \<Longrightarrow> \<exists>n'. c' me = Some n' \<and> ring n' = ring n \<and> replicas n' = replicas n \<and> configVersion n' = configVersion n"
  by (auto simp: adds_def sameView_def)

lemma chunksKept_same: "c r = Some n \<Longrightarrow> chunkFiles (chunks n') = chunkFiles (chunks n) \<Longrightarrow> chunksKept c (c(r \<mapsto> n'))"
  by (rule chunksKept_node) auto

lemma orderly_upd: "c r = Some n \<Longrightarrow> orderly c \<Longrightarrow> (well_named (chunks n) \<Longrightarrow> well_named (chunks n')) \<Longrightarrow> orderly (c(r \<mapsto> n'))"
  by (auto simp: orderly_def)

lemma putReplica_adds:
  assumes "putReplica net me r key v c = (c', ok)"
  shows "adds q c c'"
proof -
  have i: "internalPut k b n = (n', st) \<Longrightarrow> chunks n' = chunks n \<and> ring n' = ring n \<and> replicas n' = replicas n \<and> configVersion n' = configVersion n" for k b n n' st
    by (auto simp: internalPut_def handleInternalPut_def answers split: if_splits option.splits prod.splits)
  have "sameView q c c' \<and> chunksKept c c' \<and> (orderly c \<longrightarrow> orderly c')"
    using assms
    by (auto simp: sameView_def putReplica_def i split: if_splits option.splits prod.splits rpc.splits
        intro: chunksKept_same orderly_upd)
  with putReplica_grows [OF assms] show ?thesis
    by (simp add: adds_def)
qed

lemma addHint_adds: "adds q c (addHint me r key v c)"
proof -
  have "chunksKept c (addHint me r key v c)" "sameView q c (addHint me r key v c)"
      "orderly c \<Longrightarrow> orderly (addHint me r key v c)"
    by (auto simp: addHint_def sameView_def split: option.splits intro: chunksKept_same orderly_upd)
  then show ?thesis
    by (simp add: adds_def addHint_facts)
qed

lemma putChunkReplica_adds:
  assumes "putChunkReplica env me r cid data c = (c', ok)"
  shows "adds q c c'"
proof -
  have n: "internalChunkPut now random k data n = (n', st) \<Longrightarrow> store n' = store n \<and> ring n' = ring n \<and> replicas n' = replicas n
      \<and> configVersion n' = configVersion n"
    for now random k n n' st
    by (auto simp: internalChunkPut_def handleInternalChunkPut_def answers split: if_splits prod.splits sum.splits)
  have w: "chunkPut random now d s = (s', x) \<Longrightarrow> well_named s \<Longrightarrow> well_named s'" for random now d s s' x
    using well_named_Put by (metis fst_conv)
  have o1: "c r = Some n \<Longrightarrow> chunkPut random now d (chunks n) = (s', x) \<Longrightarrow> orderly c \<Longrightarrow> orderly (c(r \<mapsto> n\<lparr>chunks := s'\<rparr>))"
    for r n random now d s' x
    by (rule orderly_upd) (auto dest: w)
  have n2: "internalChunkPut now random k data n = (n', st) \<Longrightarrow> well_named (chunks n) \<Longrightarrow> well_named (chunks n')"
    for now random k n n' st
    by (auto simp: internalChunkPut_def handleInternalChunkPut_def answers split: if_splits prod.splits sum.splits intro: w)
  have "grows c c' \<and> sameView q c c'"
    using assms
    by (auto simp: sameView_def putChunkReplica_def n
        split: if_splits option.splits prod.splits rpc.splits intro: grows_node)
  moreover have "orderly c \<longrightarrow> orderly c'"
    using assms
    by (auto simp: putChunkReplica_def split: if_splits option.splits prod.splits rpc.splits
        intro: o1 orderly_upd n2)
  ultimately show ?thesis
    using putChunkReplica_kept [OF assms] by (simp add: adds_def)
qed

lemma adds_chunks:
  "c me = Some n \<Longrightarrow> chunkFiles s = chunkFiles (chunks n) \<Longrightarrow> adds q c (c(me \<mapsto> n\<lparr>chunks := s\<rparr>))"
  using well_named_cong [of s "chunks n"]
  by (auto simp: adds_def sameView_def intro: grows_node chunksKept_same orderly_upd)

lemma chunkIDs_files: "chunkIDs s = (s', r) \<Longrightarrow> chunkFiles s' = chunkFiles s"
  by (auto simp: chunkIDs_def split: prod.splits sum.splits dest!: idsLoop_files)

subsection \<open>Copies\<close>

lemma copyLoop_adds:
  assumes "copyLoop e me key v rs c res all = (c', res', all')" "friendly q e"
  shows "adds q c c'"
  using assms
proof (induction rs arbitrary: c res all)
  case (Cons r rs)
  show ?case
  proof (cases "r = me")
    case True
    with Cons show ?thesis by simp
  next
    case False
    obtain c1 ok where p: "putReplica (requests e key r) me r key v (meanwhile e key r c) = (c1, ok)"
      by fastforce
    have "adds q c c1"
      using Cons.prems(2) putReplica_adds [OF p] adds_trans unfolding friendly_def by blast
    then show ?thesis
      using Cons.prems Cons.IH adds_trans addHint_adds False p by (auto split: if_splits) (meson adds_trans addHint_adds)
  qed
qed simp

lemma copyLoop_copied:
  assumes "copyLoop e me key v rs c res all = (c', res', True)" "friendly me e" "plainKey key" "goodValue v"
  shows "all \<and> (\<forall>r \<in> set rs. r \<noteq> me \<longrightarrow> holds c' r key (VersionOf v))"
  using assms
proof (induction rs arbitrary: c res all)
  case (Cons r rs)
  show ?case
  proof (cases "r = me")
    case True
    with Cons.IH [of c res all] Cons.prems show ?thesis by auto
  next
    case False
    obtain c1 ok where p: "putReplica (requests e key r) me r key v (meanwhile e key r c) = (c1, ok)"
      by fastforce
    show ?thesis
    proof (cases ok)
      case True
      with Cons.prems False p have l: "copyLoop e me key v rs c1 (res\<lparr>ReCopied := ReCopied res + 1\<rparr>) all = (c', res', True)"
        by simp
      have "putReplica (requests e key r) me r key v (meanwhile e key r c) = (c1, True)"
        using p True by simp
      from putReplica_holds [OF this Cons.prems(3,4)] have "holds c' r key (VersionOf v)"
        using adds_holds [OF copyLoop_adds [OF l Cons.prems(2)]] by blast
      with Cons.IH [OF l] Cons.prems show ?thesis
        by simp
    next
      case not: False
      with Cons.prems False p
      have "copyLoop e me key v rs (addHint me r key v c1)
          (res\<lparr>ReFailed := ReFailed res + 1, ReHinted := ReHinted res + 1\<rparr>) False = (c', res', True)"
        by simp
      from Cons.IH [OF this] Cons.prems show ?thesis
        by simp
    qed
  qed
qed simp

lemma cleanLocal_frame:
  assumes "cleanLocal me key ver c = (c', cleaned, err)"
  shows "sameView q c c'"
    and "(r, k) \<noteq> (me, key) \<Longrightarrow> valueAt c' r k = valueAt c r k"
    and "valueAt c' me key = valueAt c me key \<or> (\<exists>w. valueAt c me key = Some w \<and> VersionOf w = ver)"
proof -
  have "sameView q c c' \<and> ((r, k) \<noteq> (me, key) \<longrightarrow> valueAt c' r k = valueAt c r k)
      \<and> (valueAt c' me key = valueAt c me key \<or> (\<exists>w. valueAt c me key = Some w \<and> VersionOf w = ver))"
  proof (cases "c me")
    case None
    with assms show ?thesis
      by (simp add: cleanLocal_def sameView_def)
  next
    case (Some n)
    obtain m d f where D: "DeleteIfMatch key ver (store n) = (m, d, f)"
      by (metis prod_cases3)
    with assms Some have c': "c' = c(me \<mapsto> n\<lparr>store := m\<rparr>)"
      by (simp add: cleanLocal_def)
    have "memData m k = memData (store n) k" if "k \<noteq> key" for k
      using DeleteIfMatch_frame [OF D] that by simp
    moreover have "memData m key = memData (store n) key \<or> (\<exists>w. memData (store n) key = Some w \<and> VersionOf w = ver)"
      using DeleteIfMatch_frame [OF D] by (cases d) auto
    ultimately show ?thesis
      using Some unfolding c' by (auto simp: sameView_def valueAt_def)
  qed
  then show "sameView q c c'" "(r, k) \<noteq> (me, key) \<Longrightarrow> valueAt c' r k = valueAt c r k"
      "valueAt c' me key = valueAt c me key \<or> (\<exists>w. valueAt c me key = Some w \<and> VersionOf w = ver)"
    by blast+
qed

subsection \<open>Nothing is lost\<close>

text \<open>The value is at the node, or at all of the replicas.\<close>

definition placed :: "string \<Rightarrow> string list \<Rightarrow> string \<Rightarrow> Version \<Rightarrow> cluster \<Rightarrow> bool" where
  "placed me rs k x c \<longleftrightarrow> holds c me k x \<or> (me \<notin> set rs \<and> (\<forall>r \<in> set rs. holds c r k x))"

lemma placed_adds: "adds me c c' \<Longrightarrow> placed me rs k x c \<Longrightarrow> placed me rs k x c'"
  by (auto simp: placed_def intro: adds_holds)

lemma placed_clean:
  assumes "placed me rs k x c" "cleanLocal me key (VersionOf v) c = (c', cleaned, err)"
    and "key = k \<Longrightarrow> me \<notin> set rs \<and> (\<forall>r \<in> set rs. holds c r k (VersionOf v))"
  shows "placed me rs k x c'"
proof -
  have keep: "holds c' r k x" if "holds c r k x" "(r, k) \<noteq> (me, key)" for r
    using that cleanLocal_frame(2) [OF assms(2) that(2)] by (simp add: holds_def)
  show ?thesis
  proof (cases "holds c me k x")
    case False
    with assms(1) keep show ?thesis
      by (auto simp: placed_def)
  next
    case held: True
    show ?thesis
    proof (cases "key = k \<and> valueAt c' me key \<noteq> valueAt c me key")
      case False
      with held keep [OF held] show ?thesis
        by (cases "key = k") (auto simp: placed_def holds_def)
    next
      case True
      with cleanLocal_frame(3) [OF assms(2)] obtain w where "valueAt c me k = Some w" "VersionOf w = VersionOf v"
        by auto
      with held have "x \<le> VersionOf v"
        by (simp add: holds_def)
      then have "\<forall>r \<in> set rs. holds c r k x"
        using assms(3) True unfolding holds_def by (meson order_trans)
      with assms(3) True keep show ?thesis
        by (auto simp: placed_def)
    qed
  qed
qed

lemma rebalanceKeys_placed:
  assumes "rebalanceKeys e me snap keys c res = Some (c', res')" "friendly me e"
    and "c me = Some n" "replicasFor k n = Some rs" "placed me rs k x c"
    and "plainKey k" "\<And>v. snap k = Some v \<Longrightarrow> goodValue v" "set keys \<subseteq> dom snap"
  shows "placed me rs k x c' \<and> (\<exists>n'. c' me = Some n')"
  using assms(1,3-5,8)
proof (induction keys arbitrary: c n res)
  case (Cons key keys)
  obtain qs c1 res1 all where l: "replicasFor key n = Some qs"
      "copyLoop e me key (the (snap key)) qs c res True = (c1, res1, all)"
    using Cons.prems(1,2) by (auto simp: Let_def split: option.splits prod.splits)
  note a = copyLoop_adds [OF l(2) assms(2)]
  obtain n1 where n1: "c1 me = Some n1" "ring n1 = ring n" "replicas n1 = replicas n"
    using adds_view [OF a Cons.prems(2)] by blast
  have r1: "replicasFor k n1 = Some rs" "placed me rs k x c1"
    using Cons.prems(3,4) n1 placed_adds [OF a] by (simp_all add: replicasFor_def)
  show ?case
  proof (cases "me \<in> set qs \<or> \<not> all")
    case True
    with Cons.prems(1,2) l have "rebalanceKeys e me snap keys c1 res1 = Some (c', res')"
      by (cases "me \<in> set qs") auto
    from Cons.IH [OF this n1(1) r1] Cons.prems(5) show ?thesis
      by simp
  next
    case False
    let ?m = "meanwhile e key me c1"
    obtain c2 cleaned err where cl: "cleanLocal me key (VersionOf (the (snap key))) ?m = (c2, cleaned, err)"
      by (metis prod_cases3)
    have m: "adds me c1 ?m"
      using assms(2) by (simp add: friendly_def)
    obtain res2 where rest: "rebalanceKeys e me snap keys c2 res2 = Some (c', res')"
      using Cons.prems(1,2) l cl False by (auto simp: Let_def)
    have p2: "placed me rs k x c2"
    proof (rule placed_clean [OF placed_adds [OF m r1(2)] cl])
      assume "key = k"
      with l(1) Cons.prems(3) have "qs = rs"
        by simp
      have "goodValue (the (snap key))"
        using assms(7) \<open>key = k\<close> Cons.prems(5) by auto
      moreover have "plainKey key"
        using assms(6) \<open>key = k\<close> by simp
      moreover have "copyLoop e me key (the (snap key)) qs c res True = (c1, res1, True)"
        using l(2) False by simp
      ultimately have "\<forall>r \<in> set qs. r \<noteq> me \<longrightarrow> holds c1 r key (VersionOf (the (snap key)))"
        using copyLoop_copied [where rs = qs and c = c and res = res and res' = res1] assms(2) by metis
      then show "me \<notin> set rs \<and> (\<forall>r \<in> set rs. holds ?m r k (VersionOf (the (snap key))))"
        using False \<open>qs = rs\<close> \<open>key = k\<close> adds_holds [OF m] by metis
    qed
    obtain n2 where n2: "c2 me = Some n2" "ring n2 = ring n1" "replicas n2 = replicas n1"
      using adds_view [OF m n1(1)] cleanLocal_frame(1) [OF cl, of me] by (auto simp: sameView_def)
    then have "replicasFor k n2 = Some rs"
      using r1(1) by (simp add: replicasFor_def)
    from Cons.IH [OF rest n2(1) this p2] Cons.prems(5) show ?thesis
      by simp
  qed
qed auto

lemma copyChunkLoop_adds:
  assumes "copyChunkLoop e me cid data rs c copied failed = (c', x)" "friendly q e"
  shows "adds q c c'"
  using assms
proof (induction rs arbitrary: c copied failed)
  case (Cons r rs)
  obtain c1 ok where p: "putChunkReplica (chunkRequests e cid r) me r cid data (meanwhile e cid r c) = (c1, ok)"
    by fastforce
  have "adds q c c1"
    using Cons.prems(2) putChunkReplica_adds [OF p] adds_trans unfolding friendly_def by blast
  with Cons p show ?case
    by (auto split: if_splits intro: adds_trans)
qed simp

lemma rebalanceChunkIDs_adds:
  assumes "rebalanceChunkIDs e me ids c copied failed = Some (c', x)" "friendly q e"
  shows "adds q c c'"
  using assms
proof (induction ids arbitrary: c copied failed)
  case (Cons cid ids)
  obtain n s y where n: "c me = Some n" "chunkGet cid (chunks n) = (s, y)"
    using Cons.prems(1) by (cases "c me") fastforce+
  note a = adds_chunks [where c = c and me = me and q = q and s = s, OF n(1) chunkGet_files [OF n(2)]]
  show ?case
  proof (cases y)
    case (Inl _)
    with Cons n a show ?thesis
      by (auto intro: adds_trans)
  next
    case (Inr data)
    obtain rs c1 k1 f1 where l: "copyChunkLoop e me cid data rs (c(me \<mapsto> n\<lparr>chunks := s\<rparr>)) copied failed = (c1, k1, f1)"
        "rebalanceChunkIDs e me ids c1 k1 f1 = Some (c', x)"
      using Cons.prems(1) n Inr by (auto split: option.splits prod.splits)
    from adds_trans [OF a adds_trans [OF copyChunkLoop_adds [OF l(1) Cons.prems(2)] Cons.IH [OF l(2) Cons.prems(2)]]]
    show ?thesis .
  qed
qed simp

lemma rebalanceChunks_adds:
  assumes "rebalanceChunks e me c = Some (c', x)" "friendly q e"
  shows "adds q c c'"
proof -
  obtain n s y where n: "c me = Some n" "chunkIDs (chunks n) = (s, y)"
    using assms(1) by (cases "c me") (fastforce simp: rebalanceChunks_def)+
  note a = adds_chunks [where c = c and me = me and q = q and s = s, OF n(1) chunkIDs_files [OF n(2)]]
  from assms n show ?thesis
    by (cases y) (auto simp: rebalanceChunks_def a intro: adds_trans [OF a] rebalanceChunkIDs_adds)
qed

text \<open>C26. A rebalance loses no value of a plain key, whatever requests fail: a version that the node held is
  afterwards, in it or a newer one, still at the node or at every replica of its key in the node's
  ring.  The work that runs beside it loses no stored version and leaves the ring of the node alone
  (\<open>friendly\<close>), and names in the versions of the key are UTF-8.\<close>
theorem rebalance_keeps_data:
  assumes "rebalance e me c = Some (c', res)" "friendly me e" "c me = Some n" "replicasFor k n = Some rs"
    and "set (keyOrder e) = dom (memData (store n))" "holds c me k x" "plainKey k" "goodAt c k"
  shows "holds c' me k x \<or> (me \<notin> set rs \<and> (\<forall>r \<in> set rs. holds c' r k x))"
proof -
  obtain c1 r1 y where r: "rebalanceKeys e me (memData (store n)) (keyOrder e) c
        (zeroRebalance\<lparr>ReScanned := int (card (dom (memData (store n))))\<rparr>) = Some (c1, r1)"
      "rebalanceChunks e me c1 = Some (c', y)"
    using assms(1,3) by (auto simp: rebalance_def memSnapshot_def Let_def split: option.splits)
  have p: "placed me rs k x c"
    using assms(6) by (simp add: placed_def)
  have g: "goodValue v" if "memData (store n) k = Some v" for v
  proof -
    have "valueAt c me k = Some v"
      using that assms(3) by (simp add: valueAt_def)
    with assms(8) show ?thesis
      unfolding goodAt_def by blast
  qed
  have "placed me rs k x c1"
    using rebalanceKeys_placed [OF r(1) assms(2-4) p assms(7) g] assms(5) by simp
  then have "placed me rs k x c'"
    by (rule placed_adds [OF rebalanceChunks_adds [OF r(2) assms(2)]])
  then show ?thesis
    by (simp add: placed_def)
qed

subsection \<open>Drain\<close>

lemma adds_has: "adds me c c' \<Longrightarrow> validName cid \<Longrightarrow> hasChunk c r cid \<Longrightarrow> hasChunk c' r cid"
  unfolding adds_def using hasChunk_kept by blast

lemma friendly_adds: "friendly me e \<Longrightarrow> adds me c (meanwhile e k r c)"
  by (simp add: friendly_def)

lemma drainKey_copies:
  assumes "drainKey e me key v rs c = (c', None)" "friendly me e"
  shows "adds me c c' \<and> (plainKey key \<longrightarrow> goodValue v \<longrightarrow> (\<forall>r \<in> set rs. holds c' r key (VersionOf v)))"
  using assms
proof (induction rs arbitrary: c)
  case (Cons r rs)
  obtain c1 where p: "putReplica (requests e key r) me r key v (meanwhile e key r c) = (c1, True)"
      "drainKey e me key v rs c1 = (c', None)"
    using Cons.prems(1) by (auto split: prod.splits if_splits)
  from Cons.IH [OF p(2) Cons.prems(2)] adds_trans [OF friendly_adds [OF Cons.prems(2)] putReplica_adds [OF p(1)]]
    putReplica_holds [OF p(1)] show ?case
    by (auto intro: adds_trans adds_holds)
qed simp

lemma drainKeys_copies:
  assumes "drainKeys e me future snap keys c = Some (c', None)" "friendly me e" "c me = Some n"
  shows "adds me c c' \<and> (\<forall>k \<in> set keys. \<exists>rs. GetN k (replicas n) future = Some rs
    \<and> (plainKey k \<longrightarrow> goodValue (the (snap k)) \<longrightarrow> (\<forall>r \<in> set rs. holds c' r k (VersionOf (the (snap k))))))"
  using assms
proof (induction keys arbitrary: c n)
  case (Cons key keys)
  obtain rs c1 where l: "GetN key (replicas n) future = Some rs" "drainKey e me key (the (snap key)) rs c = (c1, None)"
      "drainKeys e me future snap keys c1 = Some (c', None)"
    using Cons.prems(1,3) by (auto simp: replicasForRing_def split: option.splits prod.splits)
  note d = drainKey_copies [OF l(2) Cons.prems(2)]
  then obtain n1 where n1: "c1 me = Some n1" "replicas n1 = replicas n"
    using adds_view Cons.prems(3) by blast
  from Cons.IH [OF l(3) Cons.prems(2) n1(1)] d l(1) n1(2) show ?case
    by (auto intro: adds_trans adds_holds)
qed simp

lemma drainChunk_copies:
  assumes "drainChunk e me (ID data) data rs c = (c', None)" "friendly me e"
  shows "adds me c c' \<and> (\<forall>r \<in> set rs. hasChunk c' r (ID data))"
  using assms
proof (induction rs arbitrary: c)
  case (Cons r rs)
  obtain c1 where p: "putChunkReplica (chunkRequests e (ID data) r) me r (ID data) data (meanwhile e (ID data) r c) = (c1, True)"
      "drainChunk e me (ID data) data rs c1 = (c', None)"
    using Cons.prems(1) by (auto split: prod.splits if_splits)
  from Cons.IH [OF p(2) Cons.prems(2)] adds_trans [OF friendly_adds [OF Cons.prems(2)] putChunkReplica_adds [OF p(1)]]
    putChunkReplica_has [OF p(1)] show ?case
    by (auto intro: adds_trans adds_has [OF _ validName_ID])
qed simp

lemma drainChunkIDs_copies:
  assumes "drainChunkIDs e me future ids c = Some (c', None)" "friendly me e" "c me = Some n"
  shows "adds me c c' \<and> (\<forall>cid \<in> set ids. \<exists>rs. GetN cid (replicas n) future = Some rs \<and> (\<forall>r \<in> set rs. hasChunk c' r cid))"
  using assms
proof (induction ids arbitrary: c n)
  case (Cons cid ids)
  obtain s y where g: "chunkGet cid (chunks n) = (s, y)"
    by fastforce
  with Cons.prems(1,3) obtain data where y: "y = Inr data"
    by (cases y) auto
  have i: "ID data = cid"
    using chunkGet_result g y by blast
  let ?c = "c(me \<mapsto> n\<lparr>chunks := s\<rparr>)"
  obtain rs c1 where l: "GetN cid (replicas n) future = Some rs" "drainChunk e me cid data rs ?c = (c1, None)"
      "drainChunkIDs e me future ids c1 = Some (c', None)"
    using Cons.prems(1,3) g y by (auto simp: replicasForRing_def split: option.splits prod.splits)
  note a = adds_chunks [where c = c and me = me and q = me and s = s, OF Cons.prems(3) chunkGet_files [OF g]]
  have d: "adds me ?c c1" "\<forall>r \<in> set rs. hasChunk c1 r cid"
    using drainChunk_copies [of e me data rs ?c c1] l(2) i Cons.prems(2) by simp_all
  obtain n1 where n1: "c1 me = Some n1" "replicas n1 = replicas n"
    using adds_view [OF adds_trans [OF a d(1)] Cons.prems(3)] by blast
  have v: "validName cid"
    using validName_ID [of data] i by simp
  from Cons.IH [OF l(3) Cons.prems(2) n1(1)] d(2) l(1) n1(2) adds_trans [OF a d(1)] show ?case
    by (auto intro: adds_trans adds_has [OF _ v])
qed simp

lemma idsLoop_ids: "idsLoop ps ids s = (s', Inr out) \<Longrightarrow> set out = set ids \<union> {last p | p. p \<in> set ps \<and> validName (last p)}"
proof (induction ps arbitrary: ids s)
  case (Cons p ps)
  obtain s1 where "idsLoop ps (if validateID (last p) \<noteq> None then ids else ids @ [last p]) s1 = (s', Inr out)"
    using Cons.prems by (auto split: prod.splits option.splits)
  from Cons.IH [OF this] show ?case
    by (auto simp: validName_def split: if_splits)
qed simp

lemma chunkIDs_lists:
  assumes "chunkIDs s = (s', Inr ids)" "well_named s" "chunkFiles s (chunkPath cid) = Some f" "validName cid"
  shows "cid \<in> set ids"
proof -
  obtain out where o: "idsLoop (walkOrder s) [] s = (s', Inr out)" "set ids = set out"
    using assms(1) by (auto simp: chunkIDs_def split: prod.splits sum.splits)
  have "finite (dom (chunkFiles s))"
    using assms(2) by (simp add: well_named_def)
  then have "chunkPath cid \<in> set (walkOrder s)"
    using assms(3) by (auto simp: walkOrder_def)
  with idsLoop_ids [OF o(1)] o(2) assms(4) show ?thesis
    using last_paths(1) by (smt (verit, best) Un_iff mem_Collect_eq)
qed

text \<open>C27. A drain that reports success has brought everything over whose key the addresses keep: each value
  of a plain key, with a UTF-8 name in its version, and each chunk that the node had at its start
  is, in that version or a newer one, at every replica of the future ring.  The work beside it
  loses no stored version or chunk and leaves the ring of the node alone (\<open>friendly\<close>), and the
  chunk directories hold what the chunk store put there (\<open>orderly\<close>).\<close>
theorem drain_copies_all:
  assumes "drain e me futureMembers c = Some (c', None)" "friendly me e" "c me = Some n" "orderly c"
    and "set (keyOrder e) = dom (memData (store n))"
  defines "future \<equiv> newRing futureMembers (ringVirtualNodes n)"
  shows "(\<forall>k v. memData (store n) k = Some v \<longrightarrow> plainKey k \<longrightarrow> goodValue v \<longrightarrow>
      (\<exists>rs. GetN k (replicas n) future = Some rs \<and> (\<forall>r \<in> set rs. holds c' r k (VersionOf v))))
    \<and> (\<forall>cid. validName cid \<longrightarrow> hasChunk c me cid \<longrightarrow>
      (\<exists>rs. GetN cid (replicas n) future = Some rs \<and> (\<forall>r \<in> set rs. hasChunk c' r cid)))"
proof -
  obtain c1 n1 s ids where d: "drainKeys e me future (memData (store n)) (keyOrder e) c = Some (c1, None)"
      "c1 me = Some n1" "chunkIDs (chunks n1) = (s, Inr ids)"
      "drainChunkIDs e me future ids (c1(me \<mapsto> n1\<lparr>chunks := s\<rparr>)) = Some (c', None)"
    using assms(1,3) by (auto simp: drain_def memSnapshot_def Let_def future_def split: option.splits prod.splits sum.splits)
  note k = drainKeys_copies [OF d(1) assms(2,3)]
  note a = adds_chunks [where c = c1 and me = me and q = me and s = s, OF d(2) chunkIDs_files [OF d(3)]]
  have n1: "replicas n1 = replicas n"
    using k adds_view [of me c c1 n] assms(3) d(2) by auto
  note ch = drainChunkIDs_copies [OF d(4) assms(2), of "n1\<lparr>chunks := s\<rparr>"]
  have later: "adds me c1 c'"
    using ch adds_trans [OF a] by auto
  have "\<exists>rs. GetN key (replicas n) future = Some rs \<and> (\<forall>r \<in> set rs. holds c' r key (VersionOf v))"
    if "memData (store n) key = Some v" "plainKey key" "goodValue v" for key v
  proof -
    have "key \<in> set (keyOrder e)"
      using that(1) assms(5) by auto
    then obtain rs where "GetN key (replicas n) future = Some rs"
        "plainKey key \<longrightarrow> goodValue (the (memData (store n) key)) \<longrightarrow>
          (\<forall>r \<in> set rs. holds c1 r key (VersionOf (the (memData (store n) key))))"
      using k by blast
    with that adds_holds [OF later] show ?thesis
      by (intro exI [of _ rs]) simp
  qed
  moreover have "\<exists>rs. GetN cid (replicas n) future = Some rs \<and> (\<forall>r \<in> set rs. hasChunk c' r cid)"
    if cid: "validName cid" "hasChunk c me cid" for cid
  proof -
    have "well_named (chunks n1)"
      using k assms(4) d(2) by (auto simp: adds_def orderly_def)
    moreover obtain f where "chunkFiles (chunks n1) (chunkPath cid) = Some f"
      using adds_has [OF conjunct1 [OF k] cid] d(2) by (auto simp: hasChunk_def chunkAt_def)
    ultimately have "cid \<in> set ids"
      by (rule chunkIDs_lists [OF d(3) _ _ cid(1)])
    with ch n1 show ?thesis
      by auto
  qed
  ultimately show ?thesis
    by blast
qed

subsection \<open>Rings and configurations stay\<close>

lemma sameView_trans: "sameView q c d \<Longrightarrow> sameView q d e \<Longrightarrow> sameView q c e"
  by (simp add: sameView_def)

lemma adds_sameView: "adds q c c' \<Longrightarrow> sameView q c c'"
  by (simp add: adds_def)

lemma rebalanceKeys_view:
  assumes "rebalanceKeys e me snap keys c res = Some (c', res')" "friendly q e"
  shows "sameView q c c'"
  using assms(1)
proof (induction keys arbitrary: c res)
  case (Cons key keys)
  obtain n qs where n: "c me = Some n" "replicasFor key n = Some qs"
    using Cons.prems by (auto split: option.splits)
  obtain c1 res1 all where l: "copyLoop e me key (the (snap key)) qs c res True = (c1, res1, all)"
    by (metis prod_cases3)
  note v = adds_sameView [OF copyLoop_adds [OF l assms(2)]]
  show ?case
  proof (cases "me \<in> set qs \<or> \<not> all")
    case True
    with Cons.prems n l have "rebalanceKeys e me snap keys c1 res1 = Some (c', res')"
      by (cases "me \<in> set qs") auto
    from sameView_trans [OF v Cons.IH [OF this]] show ?thesis .
  next
    case False
    obtain c2 cleaned err where cl: "cleanLocal me key (VersionOf (the (snap key))) (meanwhile e key me c1) = (c2, cleaned, err)"
      by (metis prod_cases3)
    then obtain res2 where rest: "rebalanceKeys e me snap keys c2 res2 = Some (c', res')"
      using Cons.prems n l False by (auto simp: Let_def)
    have "sameView q c1 (meanwhile e key me c1)"
      using assms(2) by (simp add: friendly_def adds_sameView)
    from sameView_trans [OF v sameView_trans [OF this sameView_trans [OF cleanLocal_frame(1) [OF cl] Cons.IH [OF rest]]]]
    show ?thesis .
  qed
qed (simp add: sameView_def)

lemma rebalance_view:
  assumes "rebalance e me c = Some (c', res)" "friendly q e"
  shows "sameView q c c'"
proof -
  obtain snap c1 r0 r1 x where "rebalanceKeys e me snap (keyOrder e) c r0 = Some (c1, r1)" "rebalanceChunks e me c1 = Some (c', x)"
    using assms(1) by (auto simp: rebalance_def Let_def split: option.splits)
  with rebalanceKeys_view rebalanceChunks_adds assms(2) show ?thesis
    by (meson adds_sameView sameView_trans)
qed

lemma drainKey_adds: "drainKey e me key v rs c = (c', x) \<Longrightarrow> friendly q e \<Longrightarrow> adds q c c'"
proof (induction rs arbitrary: c)
  case (Cons r rs)
  obtain c1 ok where p: "putReplica (requests e key r) me r key v (meanwhile e key r c) = (c1, ok)"
    by fastforce
  note a = adds_trans [OF friendly_adds [OF Cons.prems(2)] putReplica_adds [OF p]]
  from Cons p a show ?case
    by (cases ok) (auto intro: adds_trans)
qed simp

lemma drainChunk_adds: "drainChunk e me cid data rs c = (c', x) \<Longrightarrow> friendly q e \<Longrightarrow> adds q c c'"
proof (induction rs arbitrary: c)
  case (Cons r rs)
  obtain c1 ok where p: "putChunkReplica (chunkRequests e cid r) me r cid data (meanwhile e cid r c) = (c1, ok)"
    by fastforce
  note a = adds_trans [OF friendly_adds [OF Cons.prems(2)] putChunkReplica_adds [OF p]]
  from Cons p a show ?case
    by (cases ok) (auto intro: adds_trans)
qed simp

lemma drainKeys_adds: "drainKeys e me future snap keys c = Some (c', x) \<Longrightarrow> friendly q e \<Longrightarrow> adds q c c'"
proof (induction keys arbitrary: c)
  case (Cons key keys)
  obtain rs c1 y where l: "drainKey e me key (the (snap key)) rs c = (c1, y)"
      "(case y of Some err \<Rightarrow> Some (c1, Some err) | None \<Rightarrow> drainKeys e me future snap keys c1) = Some (c', x)"
    using Cons.prems(1) by (auto split: option.splits prod.splits)
  from drainKey_adds [OF l(1) Cons.prems(2)] l(2) Cons.IH [of c1] Cons.prems(2) show ?case
    by (auto split: option.splits intro: adds_trans)
qed simp

lemma drainChunkIDs_adds: "drainChunkIDs e me future ids c = Some (c', x) \<Longrightarrow> friendly q e \<Longrightarrow> adds q c c'"
proof (induction ids arbitrary: c)
  case (Cons cid ids)
  obtain n s y where n: "c me = Some n" "chunkGet cid (chunks n) = (s, y)"
    using Cons.prems(1) by (cases "c me") fastforce+
  note a = adds_chunks [where c = c and me = me and q = q and s = s, OF n(1) chunkGet_files [OF n(2)]]
  show ?case
  proof (cases y)
    case (Inl _)
    with Cons.prems n a show ?thesis
      by simp
  next
    case (Inr data)
    obtain rs c1 z where l: "drainChunk e me cid data rs (c(me \<mapsto> n\<lparr>chunks := s\<rparr>)) = (c1, z)"
        "(case z of Some err \<Rightarrow> Some (c1, Some err) | None \<Rightarrow> drainChunkIDs e me future ids c1) = Some (c', x)"
      using Cons.prems(1) n Inr by (auto split: option.splits prod.splits)
    from adds_trans [OF a drainChunk_adds [OF l(1) Cons.prems(2)]] l(2) Cons.IH [of c1] Cons.prems(2) show ?thesis
      by (auto split: option.splits intro: adds_trans)
  qed
qed simp

lemma drain_adds:
  assumes "drain e me fs c = Some (c', x)" "friendly q e"
  shows "adds q c c'"
proof -
  obtain future snap c1 y where d: "drainKeys e me future snap (keyOrder e) c = Some (c1, y)"
      "y \<noteq> None \<longrightarrow> c' = c1"
      "y = None \<longrightarrow> (\<exists>n1. c1 me = Some n1 \<and> (case chunkIDs (chunks n1) of
          (s, Inl _) \<Rightarrow> Some (c1(me \<mapsto> n1\<lparr>chunks := s\<rparr>), Some DrainListChunks)
        | (s, Inr ids) \<Rightarrow> drainChunkIDs e me future ids (c1(me \<mapsto> n1\<lparr>chunks := s\<rparr>))) = Some (c', x))"
    using assms(1) by (auto simp: drain_def Let_def split: option.splits)
  note a = drainKeys_adds [OF d(1) assms(2)]
  show ?thesis
  proof (cases y)
    case (Some _)
    with a d(2) show ?thesis by simp
  next
    case None
    with d(3) obtain n1 s z where n1: "c1 me = Some n1" "chunkIDs (chunks n1) = (s, z)"
        "(case z of Inl _ \<Rightarrow> Some (c1(me \<mapsto> n1\<lparr>chunks := s\<rparr>), Some DrainListChunks)
          | Inr ids \<Rightarrow> drainChunkIDs e me future ids (c1(me \<mapsto> n1\<lparr>chunks := s\<rparr>))) = Some (c', x)"
      by (metis (no_types, lifting) old.prod.case surj_pair)
    note b = adds_trans [OF a adds_chunks [where c = c1 and me = me and q = q and s = s, OF n1(1) chunkIDs_files [OF n1(2)]]]
    show ?thesis
    proof (cases z)
      case (Inl _)
      with b n1(3) show ?thesis by simp
    next
      case (Inr ids)
      with n1(3) have "drainChunkIDs e me future ids (c1(me \<mapsto> n1\<lparr>chunks := s\<rparr>)) = Some (c', x)"
        by simp
      from adds_trans [OF b drainChunkIDs_adds [OF this assms(2)]] show ?thesis .
    qed
  qed
qed

subsection \<open>An empty ring\<close>

lemma replicasFor_empty: "hashes (ring n) = [] \<Longrightarrow> replicasFor k n = Some []"
  by (simp add: replicasFor_def GetN_def)

text \<open>The node keeps its ring, and its values only go.\<close>

definition loses :: "string \<Rightarrow> cluster \<Rightarrow> cluster \<Rightarrow> bool" where
  "loses me c c' \<longleftrightarrow> sameView me c c' \<and> (\<forall>k v. valueAt c' me k = Some v \<longrightarrow> valueAt c me k = Some v)"

lemma loses_refl [simp]: "loses me c c"
  by (simp add: loses_def sameView_def)

lemma loses_trans: "loses me c d \<Longrightarrow> loses me d e \<Longrightarrow> loses me c e"
  by (simp add: loses_def sameView_def)

lemma loses_none: "loses me c c' \<Longrightarrow> valueAt c me k = None \<Longrightarrow> valueAt c' me k = None"
  unfolding loses_def by (metis option.exhaust option.distinct(1))

lemma loses_cases: "loses me c c' \<Longrightarrow> valueAt c me k = Some v \<or> valueAt c me k = None \<Longrightarrow> valueAt c' me k = Some v \<or> valueAt c' me k = None"
  unfolding loses_def by (metis option.exhaust option.inject option.distinct(1))

lemma cleanLocal_loses:
  assumes "cleanLocal me key ver c = (c', cleaned, err)"
  shows "loses me c c'"
    and "err = None \<Longrightarrow> valueAt c me key = Some v \<Longrightarrow> VersionOf v = ver \<Longrightarrow> valueAt c' me key = None"
proof -
  show "loses me c c'"
  proof (cases "c me")
    case None
    with assms show ?thesis
      by (simp add: cleanLocal_def)
  next
    case (Some n)
    obtain m d f where D: "DeleteIfMatch key ver (store n) = (m, d, f)"
      by (metis prod_cases3)
    with assms Some DeleteIfMatch_frame [OF D] show ?thesis
      by (auto simp: cleanLocal_def loses_def sameView_def valueAt_def split: if_splits)
  qed
  show "valueAt c' me key = None" if "err = None" "valueAt c me key = Some v" "VersionOf v = ver"
  proof -
    note now = that
    obtain n where n: "c me = Some n" "memData (store n) key = Some v"
      using now(2) by (auto simp: valueAt_def split: option.splits)
    obtain m d f where D: "DeleteIfMatch key ver (store n) = (m, d, f)"
      by (metis prod_cases3)
    with assms n(1) have c': "c' = c(me \<mapsto> n\<lparr>store := m\<rparr>)" "f = err"
      by (auto simp: cleanLocal_def)
    from DeleteIfMatch_frame [OF D] now n(2) c'(2) have "memData m key = None"
      by simp
    then show ?thesis
      by (simp add: c'(1) valueAt_def)
  qed
qed

lemma loses_view: "loses me c c' \<Longrightarrow> c me = Some n \<Longrightarrow> \<exists>n'. c' me = Some n' \<and> ring n' = ring n"
  by (auto simp: loses_def sameView_def)

lemma rebalanceKeys_empty:
  assumes "c me = Some n" "hashes (ring n) = []" "\<And>k r d. meanwhile e k r d = d"
    and "\<forall>k \<in> set keys. \<exists>v. snap k = Some v \<and> (valueAt c me k = Some v \<or> valueAt c me k = None)"
  shows "\<exists>c' res'. rebalanceKeys e me snap keys c res = Some (c', res') \<and> loses me c c' \<and> ReCopied res' = ReCopied res
    \<and> ReFailed res \<le> ReFailed res' \<and> (ReFailed res' = ReFailed res \<longrightarrow> (\<forall>k \<in> set keys. valueAt c' me k = None))"
  using assms(1,2,4)
proof (induction keys arbitrary: c n res)
  case (Cons key keys)
  obtain v where v: "snap key = Some v" "valueAt c me key = Some v \<or> valueAt c me key = None"
    using Cons.prems(3) by auto
  obtain c2 cleaned err where cl: "cleanLocal me key (VersionOf v) c = (c2, cleaned, err)"
    by (metis prod_cases3)
  note l = cleanLocal_loses(1) [OF cl]
  obtain n2 where n2: "c2 me = Some n2" "ring n2 = ring n"
    using loses_view [OF l Cons.prems(1)] by blast
  let ?res = "if err \<noteq> None then res\<lparr>ReFailed := ReFailed res + 1\<rparr>
    else if cleaned then res\<lparr>ReCleaned := ReCleaned res + 1\<rparr> else res"
  have snap: "\<forall>k \<in> set keys. \<exists>v. snap k = Some v \<and> (valueAt c2 me k = Some v \<or> valueAt c2 me k = None)"
    using Cons.prems(3) loses_cases [OF l] by (metis list.set_intros(2))
  obtain c' res' where r: "rebalanceKeys e me snap keys c2 ?res = Some (c', res')" "loses me c2 c'"
      "ReCopied res' = ReCopied ?res" "ReFailed ?res \<le> ReFailed res'"
      "ReFailed res' = ReFailed ?res \<longrightarrow> (\<forall>k \<in> set keys. valueAt c' me k = None)"
    using Cons.IH [OF n2(1) _ snap, of ?res] Cons.prems(2) n2(2) by auto
  have step: "rebalanceKeys e me snap (key # keys) c res = Some (c', res')"
    using Cons.prems(1) replicasFor_empty [OF Cons.prems(2)] v(1) assms(3) cl r(1) by simp
  have gone: "valueAt c' me key = None" if "err = None"
  proof -
    have "valueAt c2 me key = None"
      using v(2) cleanLocal_loses(2) [OF cl that] loses_none [OF l] by auto
    then show ?thesis
      by (rule loses_none [OF r(2)])
  qed
  show ?case
    using step loses_trans [OF l r(2)] r(3-5) gone by (auto split: if_splits)
qed simp

lemma rebalanceChunks_empty:
  assumes "c me = Some n" "hashes (ring n) = []"
  shows "\<exists>c' x. rebalanceChunks e me c = Some (c', x) \<and> valueAt c' = valueAt c"
proof -
  have ids: "\<exists>c' x. rebalanceChunkIDs e me ids c k f = Some (c', x) \<and> valueAt c' = valueAt c"
    if "c me = Some n" "hashes (ring n) = []" for ids c n k f
    using that
  proof (induction ids arbitrary: c n k f)
    case (Cons cid ids)
    obtain s y where g: "chunkGet cid (chunks n) = (s, y)"
      by fastforce
    have "\<exists>c' x. rebalanceChunkIDs e me ids (c(me \<mapsto> n\<lparr>chunks := s\<rparr>)) k f = Some (c', x) \<and> valueAt c' = valueAt (c(me \<mapsto> n\<lparr>chunks := s\<rparr>))"
      for k f
      by (rule Cons.IH [of _ "n\<lparr>chunks := s\<rparr>"]) (use Cons.prems in simp_all)
    moreover have "valueAt (c(me \<mapsto> n\<lparr>chunks := s\<rparr>)) = valueAt c"
      using Cons.prems(1) by (auto simp: valueAt_def fun_eq_iff)
    ultimately show ?case
      using Cons.prems g replicasFor_empty by (cases y) auto
  qed simp
  obtain s y where g: "chunkIDs (chunks n) = (s, y)"
    by fastforce
  have v: "valueAt (c(me \<mapsto> n\<lparr>chunks := s\<rparr>)) = valueAt c"
    using assms(1) by (auto simp: valueAt_def fun_eq_iff)
  show ?thesis
  proof (cases y)
    case (Inr cids)
    obtain c' x where "rebalanceChunkIDs e me cids (c(me \<mapsto> n\<lparr>chunks := s\<rparr>)) 0 0 = Some (c', x)"
        "valueAt c' = valueAt (c(me \<mapsto> n\<lparr>chunks := s\<rparr>))"
      using ids [of "c(me \<mapsto> n\<lparr>chunks := s\<rparr>)" "n\<lparr>chunks := s\<rparr>" cids 0 0] assms(2) by auto
    with assms(1) g Inr v show ?thesis
      by (cases x) (auto simp: rebalanceChunks_def)
  qed (use assms(1) g v in \<open>auto simp: rebalanceChunks_def\<close>)
qed

lemma rebalance_empty_ring:
  assumes "c me = Some n" "hashes (ring n) = []" "\<And>k r d. meanwhile e k r d = d"
    and "set (keyOrder e) = dom (memData (store n))"
  shows "\<exists>c' res. rebalance e me c = Some (c', res) \<and> ReCopied res = 0
    \<and> (ReFailed res = 0 \<longrightarrow> (\<forall>k. valueAt c' me k = None))"
proof -
  have v: "valueAt c me = memData (store n)"
    using assms(1) by (simp add: valueAt_def fun_eq_iff)
  then have snap: "\<forall>k \<in> set (keyOrder e). \<exists>v. memData (store n) k = Some v \<and> (valueAt c me k = Some v \<or> valueAt c me k = None)"
    using assms(4) by auto
  let ?z = "zeroRebalance\<lparr>ReScanned := int (card (dom (memData (store n))))\<rparr>"
  obtain c1 res1 where r: "rebalanceKeys e me (memData (store n)) (keyOrder e) c ?z = Some (c1, res1)" "loses me c c1"
      "ReCopied res1 = ReCopied ?z" "ReFailed res1 = ReFailed ?z \<longrightarrow> (\<forall>k \<in> set (keyOrder e). valueAt c1 me k = None)"
    using rebalanceKeys_empty [where res = ?z, OF assms(1-3) snap] by blast
  obtain n1 where n1: "c1 me = Some n1" "ring n1 = ring n"
    using loses_view [OF r(2) assms(1)] by blast
  obtain c' s k f where ch: "rebalanceChunks e me c1 = Some (c', s, k, f)" "valueAt c' = valueAt c1"
    using rebalanceChunks_empty [of c1 me n1 e] n1 assms(2) by (metis prod_cases3)
  have "valueAt c1 me k = None" if "k \<notin> set (keyOrder e)" for k
  proof -
    have "valueAt c me k = None"
      using that assms(4) v by (auto simp: dom_def)
    then show ?thesis
      by (rule loses_none [OF r(2)])
  qed
  then show ?thesis
    using r(1,3,4) ch assms(1) by (auto simp: rebalance_def memSnapshot_def zeroRebalance_def)
qed

subsection \<open>A concrete move\<close>

text \<open>A node holds a key that belongs to the other node of the ring.\<close>

definition plainRun :: run where
  "plainRun = \<lparr>keyOrder = [''k''], requests = \<lambda>_ _. Delivered, chunkRequests = \<lambda>_ _. (Delivered, 5, ''7''),
     meanwhile = \<lambda>_ _ c. c\<rparr>"

definition moveNode :: Node where
  "moveNode = (nodeAt ''a'')\<lparr>replicas := 1, store := plainMemory\<lparr>memData := [''k'' \<mapsto> valueA]\<rparr>\<rparr>"

definition clusterMove :: cluster where
  "clusterMove = [''a'' \<mapsto> moveNode, ''b'' \<mapsto> nodeAt ''b'']"

lemma plainRun_simps [simp]:
  "keyOrder plainRun = [''k'']" "requests plainRun k r = Delivered" "meanwhile plainRun k r c = c" "friendly me plainRun"
  by (simp_all add: plainRun_def friendly_def)

lemma moveNode_simps [simp]:
  "ring moveNode = ring_ab" "replicas moveNode = 1" "memData (store moveNode) = [''k'' \<mapsto> valueA]" "addr moveNode = ''a''"
  "chunks moveNode = \<lparr>chunkFiles = Map.empty, chunkCalls = []\<rparr>" "ringVirtualNodes moveNode = 1" "wal (store moveNode) = None"
  by (simp_all add: moveNode_def nodeAt_def)

lemma GetN_one: "GetN ''k'' 1 ring_ab = Some [''b'']"
proof -
  have o: "owners ''k'' ring_ab = [''b'', ''a'']" by code_simp
  have "GetN ''k'' 1 ring_ab = Some (take (nat (quota 1 ring_ab)) (owners ''k'' ring_ab))"
    by (rule GetN_enough [OF ring_ab_facts(4) ring_ab_hashes]) (simp_all add: o quota_def ring_ab_facts)
  then show ?thesis
    by (simp add: o quota_def ring_ab_facts)
qed

lemma goodAt_move: "goodAt clusterMove ''k''"
  using valueA_good(1) by (auto simp: goodAt_def valueAt_def clusterMove_def split: if_splits option.splits)

lemma put_move:
  "\<exists>m. putReplica Delivered ''a'' ''b'' ''k'' valueA clusterMove =
      (clusterMove(''b'' \<mapsto> (nodeAt ''b'')\<lparr>store := m\<rparr>), True)"
proof -
  obtain m where m: "Set ''k'' valueA plainMemory = (m, None)"
    using Set_plain [OF plain_facts(2)] by blast
  have "internalPut ''k'' (marshalValue valueA) (nodeAt ''b'') = ((nodeAt ''b'')\<lparr>store := m\<rparr>, noContent)"
    using decodeStream_value [OF valueA_good(1), of "[]" zeroValue] m
    by (simp add: internalPut_def handleInternalPut_def answers stops_def)
  then show ?thesis
    using plain_k(2) by (intro exI [of _ m]) (simp add: putReplica_def noContent_def clusterMove_def)
qed

lemma rebalance_keeps_data_witness:
  "\<exists>c' res. rebalance plainRun ''a'' clusterMove = Some (c', res) \<and> ReCleaned res = 1
    \<and> (holds c' ''a'' ''k'' (VersionOf valueA) \<or> holds c' ''b'' ''k'' (VersionOf valueA))"
proof -
  obtain m where p: "putReplica Delivered ''a'' ''b'' ''k'' valueA clusterMove =
      (clusterMove(''b'' \<mapsto> (nodeAt ''b'')\<lparr>store := m\<rparr>), True)"
    using put_move by blast
  have c: "clusterMove ''a'' = Some moveNode" "replicasFor ''k'' moveNode = Some [''b'']"
    using GetN_one by (simp_all add: clusterMove_def replicasFor_def)
  obtain m' where d: "DeleteIfMatch ''k'' (VersionOf valueA) (store moveNode) = (m', True, None)"
    by (auto simp: DeleteIfMatch_def deleteLocked_def logEntry_def)
  have "\<exists>c' res. rebalance plainRun ''a'' clusterMove = Some (c', res) \<and> ReCleaned res = 1"
    by (simp add: rebalance_def memSnapshot_def c p d cleanLocal_def zeroRebalance_def rebalanceChunks_def chunkIDs_def
        walkOrder_def)
  then obtain c' res where r: "rebalance plainRun ''a'' clusterMove = Some (c', res)" "ReCleaned res = 1"
    by blast
  have "holds clusterMove ''a'' ''k'' (VersionOf valueA)"
    by (simp add: holds_def valueAt_def c)
  from rebalance_keeps_data [OF r(1) _ c _ this plain_k(1) goodAt_move] r show ?thesis
    by auto
qed

lemma drain_copies_all_witness:
  "\<exists>c'. drain plainRun ''a'' [''a'', ''b''] clusterMove = Some (c', None) \<and> holds c' ''b'' ''k'' (VersionOf valueA)"
proof -
  obtain m where p: "putReplica Delivered ''a'' ''b'' ''k'' valueA clusterMove =
      (clusterMove(''b'' \<mapsto> (nodeAt ''b'')\<lparr>store := m\<rparr>), True)"
    using put_move by blast
  have c: "clusterMove ''a'' = Some moveNode"
    by (simp add: clusterMove_def)
  have f: "newRing [''a'', ''b''] 1 = ring_ab"
    by (simp add: ring_ab_def)
  obtain c' where r: "drain plainRun ''a'' [''a'', ''b''] clusterMove = Some (c', None)"
    by (simp add: drain_def memSnapshot_def c p f replicasForRing_def GetN_one chunkIDs_def walkOrder_def Let_def)
  have "well_named (chunks moveNode)" "well_named (chunks (nodeAt ''b''))"
    by (simp_all add: well_named_def nodeAt_def)
  then have "orderly clusterMove"
    by (auto simp: orderly_def clusterMove_def split: if_splits)
  note all = conjunct1 [OF drain_copies_all [OF r _ c this], rule_format, of "''k''" valueA]
  have "holds c' ''b'' ''k'' (VersionOf valueA)"
    using all f GetN_one plain_k(1) valueA_good(1) by simp
  with r show ?thesis
    by blast
qed

end
