(* ===== verification/GCProps.thy ===== *)
theory GCProps
  imports GC RebalanceProps
begin

text \<open>
  What garbage collection keeps and what it reclaims, with any work of the cluster that keeps
  objects and chunks running beside it.
\<close>

subsection \<open>References\<close>

definition refs :: "Node \<Rightarrow> string set" where
  "refs n = {cid. \<exists>key v m. memData (store n) key = Some v \<and> hasPrefix key MetadataKeyPrefix \<and> \<not> Deleted v
     \<and> unmarshalMetadata (case Data v of None \<Rightarrow> [] | Some d \<Rightarrow> d) = Some m \<and> cid \<in> InfoID ` set (MetaChunks m)}"

definition refAt :: "cluster \<Rightarrow> string \<Rightarrow> string \<Rightarrow> bool" where
  "refAt c r cid \<longleftrightarrow> (\<exists>n. c r = Some n \<and> cid \<in> refs n)"

definition finiteStores :: "cluster \<Rightarrow> bool" where
  "finiteStores c \<longleftrightarrow> (\<forall>r n. c r = Some n \<longrightarrow> finite (dom (memData (store n))))"

lemma markLoop_live:
  assumes "markLoop snap keys live = Inr out" "set keys \<subseteq> dom snap"
  shows "out = live \<union> {cid. \<exists>key \<in> set keys. \<exists>v m. snap key = Some v \<and> hasPrefix key MetadataKeyPrefix \<and> \<not> Deleted v
      \<and> unmarshalMetadata (case Data v of None \<Rightarrow> [] | Some d \<Rightarrow> d) = Some m \<and> cid \<in> InfoID ` set (MetaChunks m)}
    \<and> (finite live \<longrightarrow> finite out)"
  using assms
proof (induction keys arbitrary: live)
  case (Cons key keys)
  obtain v where v: "snap key = Some v"
    using Cons.prems(2) by auto
  show ?case
  proof (cases "hasPrefix key MetadataKeyPrefix \<and> \<not> Deleted v")
    case True
    then obtain m where m: "unmarshalMetadata (case Data v of None \<Rightarrow> [] | Some d \<Rightarrow> d) = Some m"
      using Cons.prems(1) v by (auto simp: Let_def split: option.splits)
    with Cons.prems(1) v True have "markLoop snap keys (live \<union> InfoID ` set (MetaChunks m)) = Inr out"
      by (simp add: Let_def)
    from Cons.IH [OF this] Cons.prems(2) True v m show ?thesis
      by auto
  next
    case False
    with Cons.prems(1) v have "markLoop snap keys live = Inr out"
      by (auto simp: Let_def split: if_splits)
    from Cons.IH [OF this] Cons.prems(2) False v show ?thesis
      by auto
  qed
qed simp

lemma localGCMark_refs:
  assumes "localGCMark n = Inr r" "finite (dom (memData (store n)))"
  shows "set (MarkLive r) = refs n" "MarkVersion r = configVersion n"
proof -
  let ?d = "memData (store n)"
  obtain live where l: "markLoop ?d (sorted_list_of_set (dom ?d)) {} = Inr live" "r = \<lparr>MarkVersion = configVersion n, MarkLive = sorted_list_of_set live\<rparr>"
    using assms(1) by (auto simp: localGCMark_def markLiveChunks_def memSnapshot_def Let_def split: sum.splits)
  have "set (sorted_list_of_set (dom ?d)) = dom ?d"
    using assms(2) by simp
  note live = markLoop_live [OF l(1) equalityD1 [OF this]]
  have "finite live"
    using live by (metis finite.emptyI)
  moreover have "live = refs n"
    using conjunct1 [OF live] assms(2) by (auto simp: refs_def)
  ultimately show "set (MarkLive r) = refs n" "MarkVersion r = configVersion n"
    using l(2) by simp_all
qed

lemma requestGCMark_node: "requestGCMark net me t c = Some r \<Longrightarrow> \<exists>n. c t = Some n \<and> localGCMark n = Inr r"
  by (auto simp: requestGCMark_def handleGCMark_def split: option.splits if_splits sum.splits)

subsection \<open>Other work\<close>

text \<open>An intact chunk that is not older than a time.\<close>

definition recentChunk :: "int \<Rightarrow> cluster \<Rightarrow> string \<Rightarrow> string \<Rightarrow> bool" where
  "recentChunk cutoff c q cid \<longleftrightarrow> (\<exists>f. chunkAt c q cid = Some f \<and> ID (chunkBytes f) = cid \<and> cutoff \<le> modTime f)"

text \<open>Work that keeps objects and chunks, as all operations of a node do but deletes, overwrites and sweeps.\<close>

definition gentle :: "int \<Rightarrow> cluster \<Rightarrow> cluster \<Rightarrow> bool" where
  "gentle cutoff d d' \<longleftrightarrow> (\<forall>r cid. refAt d r cid \<longrightarrow> refAt d' r cid) \<and> chunksKept d d'
     \<and> (\<forall>q cid. validName cid \<longrightarrow> recentChunk cutoff d q cid \<longrightarrow> recentChunk cutoff d' q cid)
     \<and> (finiteStores d \<longrightarrow> finiteStores d') \<and> (orderly d \<longrightarrow> orderly d')"

definition gentleRun :: "int \<Rightarrow> gcRun \<Rightarrow> bool" where
  "gentleRun cutoff e \<longleftrightarrow> (\<forall>m d. gentle cutoff d (beforeMark e m d) \<and> gentle cutoff d (beforeSweep e m d))
     \<and> (\<forall>d. gentle cutoff d (afterMarks e d))"

lemma gentle_refl [simp]: "gentle cutoff d d"
  by (simp add: gentle_def)

lemma gentle_trans: "gentle cutoff d1 d2 \<Longrightarrow> gentle cutoff d2 d3 \<Longrightarrow> gentle cutoff d1 d3"
  by (auto simp: gentle_def intro: chunksKept_trans)

lemma gentleRunD:
  assumes "gentleRun cutoff e"
  shows "gentle cutoff d (beforeMark e m d)" "gentle cutoff d (beforeSweep e m d)" "gentle cutoff d (afterMarks e d)"
  using assms by (simp_all add: gentleRun_def)

lemma collectLoop_live:
  assumes "collectLoop e me expected ms live c = (c', r)" "gentleRun cutoff e" "finiteStores c"
  shows "gentle cutoff c c' \<and> (\<forall>out. r = Inr out \<longrightarrow> live \<subseteq> out \<and> (finite live \<longrightarrow> finite out)
    \<and> (\<forall>m \<in> set ms. \<forall>cid. refAt c m cid \<longrightarrow> cid \<in> out))"
  using assms(1,3)
proof (induction ms arbitrary: live c)
  case (Cons m ms)
  let ?c = "beforeMark e m c"
  note g = gentleRunD(1) [OF assms(2), of c m]
  have f: "finiteStores ?c"
    using g Cons.prems(2) by (simp add: gentle_def)
  show ?case
  proof (cases "requestGCMark (markNet e m) me m ?c")
    case None
    with Cons.prems(1) g show ?thesis
      by (auto simp: Let_def)
  next
    case (Some result)
    then obtain n where n: "?c m = Some n" "localGCMark n = Inr result"
      using requestGCMark_node by blast
    have "finite (dom (memData (store n)))"
      using f n(1) by (simp add: finiteStores_def)
    note mk = localGCMark_refs [OF n(2) this]
    show ?thesis
    proof (cases "MarkVersion result = expected")
      case False
      with Cons.prems(1) Some g show ?thesis
        by (auto simp: Let_def)
    next
      case True
      with Cons.prems(1) Some have "collectLoop e me expected ms (live \<union> set (MarkLive result)) ?c = (c', r)"
        by (simp add: Let_def)
      note IH = Cons.IH [OF this f]
      have "cid \<in> set (MarkLive result)" if "refAt c m cid" for cid
      proof -
        have "refAt ?c m cid"
          using that g by (simp add: gentle_def)
        then show ?thesis
          using n(1) mk(1) by (simp add: refAt_def)
      qed
      moreover have "refAt ?c x cid" if "refAt c x cid" for x cid
        using that g by (simp add: gentle_def)
      ultimately have moves: "cid \<in> set (MarkLive result) \<or> refAt ?c x cid \<and> x \<in> set ms"
        if "refAt c x cid" "x \<in> set (m # ms)" for x cid
        using that by auto
      have out: "live \<union> set (MarkLive result) \<subseteq> out \<and> (finite (live \<union> set (MarkLive result)) \<longrightarrow> finite out)
          \<and> (\<forall>m \<in> set ms. \<forall>cid. refAt ?c m cid \<longrightarrow> cid \<in> out)" if "r = Inr out" for out
        using conjunct2 [OF IH] that by simp
      have "live \<subseteq> out \<and> (finite live \<longrightarrow> finite out) \<and> (\<forall>m \<in> set (m # ms). \<forall>cid. refAt c m cid \<longrightarrow> cid \<in> out)"
        if "r = Inr out" for out
      proof (intro conjI ballI allI impI)
        show "live \<subseteq> out" "finite live \<Longrightarrow> finite out"
          using out [OF that] by simp_all
        show "cid \<in> out" if "x \<in> set (m # ms)" "refAt c x cid" for x cid
          using moves [OF that(2,1)] out [OF \<open>r = Inr out\<close>] by blast
      qed
      with gentle_trans [OF g conjunct1 [OF IH]] show ?thesis
        by simp
    qed
  qed
qed auto

lemma collectLiveChunks_live:
  assumes "collectLiveChunks e me c = (c', r)" "gentleRun cutoff e" "finiteStores c"
  shows "gentle cutoff c c' \<and> (\<forall>live v. r = Inr (live, v) \<longrightarrow> finite live
    \<and> (\<forall>m \<in> set (membersOf me c). \<forall>cid. refAt c m cid \<longrightarrow> cid \<in> live))"
proof -
  obtain c1 x where l: "collectLoop e me (configOf me c) (membersOf me c) {} c = (c1, x)"
    by fastforce
  from collectLoop_live [OF l assms(2,3)] l assms(1) show ?thesis
    by (auto simp: collectLiveChunks_def Let_def split: sum.splits if_splits)
qed

subsection \<open>Sweeps\<close>

text \<open>What is kept of the chunks: those in the live set and those that are not old.\<close>

lemma localGCSweep_node:
  assumes "localGCSweep req n = (n', r)" "well_named (chunks n)"
  shows "store n' = store n" "ring n' = ring n" "configVersion n' = configVersion n" "well_named (chunks n')"
    and "chunkFiles (chunks n') p = chunkFiles (chunks n) p
      \<or> configVersion n = SweepVersion req \<and> garbage (set (SweepLive req)) (SweepCutoff req) (chunks n) p \<and> chunkFiles (chunks n') p = None"
    and "r = Inr res \<Longrightarrow> configVersion n = SweepVersion req
      \<and> chunkFiles (chunks n') = (\<lambda>p. if garbage (set (SweepLive req)) (SweepCutoff req) (chunks n) p then None else chunkFiles (chunks n) p)"
proof -
  obtain s x where s: "Sweep (set (SweepLive req)) (SweepCutoff req) (chunks n) = (s, x)"
    by fastforce
  have fin: "finite (dom (chunkFiles (chunks n)))"
    using assms(2) by (simp add: well_named_def)
  note f = Sweep_files [OF s fin]
  have w: "well_named s"
  proof (rule well_named_less [OF assms(2)])
    show "chunkFiles s p = chunkFiles (chunks n) p \<or> chunkFiles s p = None" for p
      using f(1) [of p] by auto
  qed
  show "store n' = store n" "ring n' = ring n" "configVersion n' = configVersion n" "well_named (chunks n')"
    using assms s w by (auto simp: localGCSweep_def split: if_splits sum.splits)
  show "chunkFiles (chunks n') p = chunkFiles (chunks n) p
      \<or> configVersion n = SweepVersion req \<and> garbage (set (SweepLive req)) (SweepCutoff req) (chunks n) p \<and> chunkFiles (chunks n') p = None"
    using assms(1) s f(1) [of p] by (auto simp: localGCSweep_def split: if_splits sum.splits)
  show "r = Inr res \<Longrightarrow> configVersion n = SweepVersion req
      \<and> chunkFiles (chunks n') = (\<lambda>p. if garbage (set (SweepLive req)) (SweepCutoff req) (chunks n) p then None else chunkFiles (chunks n) p)"
    using assms(1) s f(2) by (auto simp: localGCSweep_def split: if_splits sum.splits)
qed

lemma requestGCSweep_node:
  assumes "requestGCSweep net me t req c = (c', r)"
  shows "c' = c \<and> r = None \<or> (\<exists>n n' x. c t = Some n \<and> localGCSweep req n = (n', x) \<and> c' = c(t \<mapsto> n')
    \<and> (\<forall>sw. r = Some sw \<longrightarrow> x = Inr sw))"
proof (cases "c t")
  case (Some n)
  obtain n' x where l: "localGCSweep req n = (n', x)"
    by fastforce
  have h: "handleGCSweep MethodPost req n = (case x of Inl ConfigVersionChanged \<Rightarrow> (n', 409, None) | Inl _ \<Rightarrow> (n', 500, None)
      | Inr result \<Rightarrow> (n', 200, Some result))"
    using l by (simp add: handleGCSweep_def)
  from assms Some l h show ?thesis
    by (auto simp: requestGCSweep_def split: if_splits sum.splits sweepError.splits)
qed (use assms in \<open>simp add: requestGCSweep_def\<close>)

text \<open>A chunk that no sweep of the round removes.\<close>

definition safeChunk :: "gcSweepRequest \<Rightarrow> string \<Rightarrow> chunkFile \<Rightarrow> bool" where
  "safeChunk req cid f \<longleftrightarrow> cid \<in> set (SweepLive req) \<or> SweepCutoff req \<le> modTime f"

lemma requestGCSweep_keeps:
  assumes "requestGCSweep net me t req c = (c', r)" "orderly c"
  shows "orderly c'" "finiteStores c \<Longrightarrow> finiteStores c'" "refAt c' q cid = refAt c q cid"
    and "chunkAt c q cid = Some f \<Longrightarrow> safeChunk req cid f \<Longrightarrow> chunkAt c' q cid = Some f"
proof -
  have "orderly c' \<and> (finiteStores c \<longrightarrow> finiteStores c') \<and> refAt c' q cid = refAt c q cid
      \<and> (chunkAt c q cid = Some f \<longrightarrow> safeChunk req cid f \<longrightarrow> chunkAt c' q cid = Some f)"
  proof (cases "c' = c")
    case False
    with requestGCSweep_node [OF assms(1)] obtain n n' x where
      n: "c t = Some n" "localGCSweep req n = (n', x)" "c' = c(t \<mapsto> n')"
      by blast
    have w: "well_named (chunks n)"
      using assms(2) n(1) by (simp add: orderly_def)
    note k = localGCSweep_node [OF n(2) w]
    have "chunkAt c' q cid = Some f" if "chunkAt c q cid = Some f" "safeChunk req cid f"
    proof (cases "q = t")
      case True
      with that n(1) have cf: "chunkFiles (chunks n) (chunkPath cid) = Some f"
        by (simp add: chunkAt_def)
      with that(2) have "\<not> garbage (set (SweepLive req)) (SweepCutoff req) (chunks n) (chunkPath cid)"
        by (auto simp: garbage_def safeChunk_def last_paths(1))
      with k(5) [of "chunkPath cid"] cf True show ?thesis
        by (simp add: n(3) chunkAt_def)
    qed (use that n(3) in \<open>simp add: chunkAt_def\<close>)
    moreover have "refAt c' q cid = refAt c q cid"
      using n k(1) by (auto simp: refAt_def refs_def)
    ultimately show ?thesis
      using n(1) k(1,4) assms(2) unfolding n(3) by (auto simp: orderly_def finiteStores_def)
  qed (use assms(2) in simp)
  then show "orderly c'" "finiteStores c \<Longrightarrow> finiteStores c'" "refAt c' q cid = refAt c q cid"
      "chunkAt c q cid = Some f \<Longrightarrow> safeChunk req cid f \<Longrightarrow> chunkAt c' q cid = Some f"
    by blast+
qed

lemma sweepMembers_keeps:
  assumes "sweepMembers e me req ms result c = (c', r)" "gentleRun (SweepCutoff req) e" "orderly c" "validName cid"
  shows "(cid \<in> set (SweepLive req) \<longrightarrow> hasChunk c q cid \<longrightarrow> hasChunk c' q cid)
    \<and> (recentChunk (SweepCutoff req) c q cid \<longrightarrow> recentChunk (SweepCutoff req) c' q cid)"
  using assms(1,3)
proof (induction ms arbitrary: result c)
  case (Cons m ms)
  let ?c = "beforeSweep e m c"
  note g = gentleRunD(2) [OF assms(2), of c m]
  obtain c1 x where s: "requestGCSweep (sweepNet e m) me m req ?c = (c1, x)"
    by fastforce
  have o: "orderly ?c"
    using g Cons.prems(2) by (simp add: gentle_def)
  note k = requestGCSweep_keeps [OF s o]
  have a: "hasChunk c q cid \<Longrightarrow> hasChunk ?c q cid" "recentChunk (SweepCutoff req) c q cid \<Longrightarrow> recentChunk (SweepCutoff req) ?c q cid"
    using g assms(4) by (auto simp: gentle_def intro: hasChunk_kept)
  have b: "cid \<in> set (SweepLive req) \<Longrightarrow> hasChunk ?c q cid \<Longrightarrow> hasChunk c1 q cid"
      "recentChunk (SweepCutoff req) ?c q cid \<Longrightarrow> recentChunk (SweepCutoff req) c1 q cid"
    using k(4) [of q cid] by (auto simp: hasChunk_def recentChunk_def safeChunk_def)
  show ?case
  proof (cases x)
    case None
    with Cons.prems(1) s have "c' = c1"
      by simp
    with a b show ?thesis
      by blast
  next
    case (Some sw)
    with Cons.prems(1) s obtain res1 where "sweepMembers e me req ms res1 c1 = (c', r)"
      by auto
    from Cons.IH [OF this k(1)] a b show ?thesis
      by blast
  qed
qed simp

subsection \<open>What is kept\<close>

text \<open>C32. Garbage collection never takes a chunk that an object needs or that is young: whatever requests
  fail and whatever writes run beside it, a chunk that the metadata at some member refers to, and
  any chunk written or touched within the grace period, is still where it was.\<close>
theorem GC_keeps_live:
  assumes "RunGC e me start grace c = (c', res)" "gentleRun (start - grace) e" "finiteStores c" "orderly c" "validName cid"
  shows "((\<exists>m \<in> set (membersOf me c). refAt c m cid) \<longrightarrow> hasChunk c q cid \<longrightarrow> hasChunk c' q cid)
    \<and> (recentChunk (start - grace) c q cid \<longrightarrow> recentChunk (start - grace) c' q cid)"
proof -
  obtain c1 x where l: "collectLiveChunks e me c = (c1, x)"
    by fastforce
  note live = collectLiveChunks_live [OF l assms(2,3)]
  let ?c2 = "afterMarks e c1"
  have g: "gentle (start - grace) c c1" "gentle (start - grace) c ?c2"
    using live gentle_trans [OF _ gentleRunD(3) [OF assms(2)]] by auto
  have early: ?thesis if "c' \<in> {c, c1, ?c2}"
    using that g assms(5) by (auto simp: gentle_def intro: hasChunk_kept)
  show ?thesis
  proof (cases "\<exists>lv v. grace \<ge> 0 \<and> x = Inr (lv, v) \<and> membersOf me ?c2 \<noteq> [] \<and> configOf me ?c2 = v")
    case False
    with assms(1) l have "c' \<in> {c, c1, ?c2}"
      by (auto simp: RunGC_def Let_def split: if_splits sum.splits prod.splits)
    then show ?thesis
      by (rule early)
  next
    case True
    then obtain lv v where x: "x = Inr (lv, v)" "grace \<ge> 0" "membersOf me ?c2 \<noteq> []" "configOf me ?c2 = v"
      by blast
    let ?req = "\<lparr>SweepVersion = v, SweepLive = sorted_list_of_set lv, SweepCutoff = start - grace\<rparr>"
    obtain r0 where s: "sweepMembers e me ?req (membersOf me ?c2) r0 ?c2 = (c', res)"
      using assms(1) l x by (auto simp: RunGC_def Let_def)
    have fin: "finite lv" "\<forall>m \<in> set (membersOf me c). \<forall>cid. refAt c m cid \<longrightarrow> cid \<in> lv"
      using live x(1) by auto
    have "orderly ?c2"
      using g(2) assms(4) by (simp add: gentle_def)
    from sweepMembers_keeps [OF s _ this assms(5), of q] assms(2) have
      k: "cid \<in> lv \<longrightarrow> hasChunk ?c2 q cid \<longrightarrow> hasChunk c' q cid"
        "recentChunk (start - grace) ?c2 q cid \<longrightarrow> recentChunk (start - grace) c' q cid"
      using fin(1) by simp_all
    have "hasChunk c q cid \<Longrightarrow> hasChunk ?c2 q cid" "recentChunk (start - grace) c q cid \<Longrightarrow> recentChunk (start - grace) ?c2 q cid"
      using g(2) assms(5) by (auto simp: gentle_def intro: hasChunk_kept)
    with k fin(2) show ?thesis
      by blast
  qed
qed

subsection \<open>What is reclaimed\<close>

text \<open>Nothing else runs.\<close>

definition alone :: "gcRun \<Rightarrow> bool" where
  "alone e \<longleftrightarrow> (\<forall>m d. beforeMark e m d = d \<and> beforeSweep e m d = d) \<and> (\<forall>d. afterMarks e d = d)"

lemma localGCMark_version: "localGCMark n = Inr r \<Longrightarrow> MarkVersion r = configVersion n"
  by (auto simp: localGCMark_def split: sum.splits)

lemma collectLoop_alone:
  assumes "collectLoop e me expected ms live c = (c', r)" "alone e"
  shows "c' = c \<and> (\<forall>out. r = Inr out \<longrightarrow> (\<forall>m \<in> set ms. \<exists>n. c m = Some n \<and> configVersion n = expected)
    \<and> (finiteStores c \<longrightarrow> out \<subseteq> live \<union> {cid. \<exists>m \<in> set ms. refAt c m cid}))"
  using assms(1)
proof (induction ms arbitrary: live)
  case (Cons m ms)
  have id: "beforeMark e m c = c"
    using assms(2) by (simp add: alone_def)
  show ?case
  proof (cases "requestGCMark (markNet e m) me m c")
    case None
    with Cons.prems id show ?thesis
      by (auto simp: Let_def)
  next
    case (Some result)
    then obtain n where n: "c m = Some n" "localGCMark n = Inr result"
      using requestGCMark_node by blast
    show ?thesis
    proof (cases "MarkVersion result = expected")
      case False
      with Cons.prems Some id show ?thesis
        by (auto simp: Let_def)
    next
      case True
      with Cons.prems Some id have l: "collectLoop e me expected ms (live \<union> set (MarkLive result)) c = (c', r)"
        by (simp add: Let_def)
      note IH = Cons.IH [OF l]
      have "set (MarkLive result) = refs n" if "finiteStores c"
        using localGCMark_refs(1) [OF n(2)] that n(1) by (simp add: finiteStores_def)
      then have "finiteStores c \<Longrightarrow> cid \<in> set (MarkLive result) \<Longrightarrow> refAt c m cid" for cid
        using n(1) by (simp add: refAt_def)
      with IH n(1) localGCMark_version [OF n(2)] True show ?thesis
        by fastforce
    qed
  qed
qed auto

text \<open>C2. No round sweeps across two configurations: when a member has another version of the
  configuration than the coordinator the round ends with an error and nothing has changed.\<close>
theorem GC_stops_on_mismatch:
  assumes "alone e" "m \<in> set (membersOf me c)" "c m = Some n" "configVersion n \<noteq> configOf me c"
  shows "\<exists>err. RunGC e me start grace c = (c, Inl err)"
proof -
  obtain c1 r where l: "collectLoop e me (configOf me c) (membersOf me c) {} c = (c1, r)"
    by fastforce
  note a = collectLoop_alone [OF l assms(1)]
  obtain err where "r = Inl err"
    using a assms(2-4) by (cases r) auto
  with l a assms(2) show ?thesis
    by (auto simp: RunGC_def collectLiveChunks_def Let_def)
qed

lemma sweep_only_removes:
  assumes "requestGCSweep net me t req c = (c', r)" "orderly c"
  shows "chunkAt c' q cid = chunkAt c q cid \<or> chunkAt c' q cid = None"
proof (cases "c' = c")
  case False
  with requestGCSweep_node [OF assms(1)] obtain n n' x where
    n: "c t = Some n" "localGCSweep req n = (n', x)" "c' = c(t \<mapsto> n')"
    by blast
  have "well_named (chunks n)"
    using assms(2) n(1) by (simp add: orderly_def)
  from localGCSweep_node(5) [OF n(2) this, of "chunkPath cid"] n show ?thesis
    by (auto simp: chunkAt_def)
qed simp

lemma sweepMembers_removes:
  assumes "sweepMembers e me req ms result c = (c', Inr res)" "alone e" "orderly c"
    and "chunkAt c m cid = Some f \<or> chunkAt c m cid = None" "validName cid" "cid \<notin> set (SweepLive req)" "modTime f < SweepCutoff req"
  shows "(chunkAt c m cid = None \<or> m \<in> set ms) \<longrightarrow> chunkAt c' m cid = None"
  using assms(1,3,4)
proof (induction ms arbitrary: result c)
  case (Cons t ms)
  have id: "beforeSweep e t c = c"
    using assms(2) by (simp add: alone_def)
  obtain c1 x where s: "requestGCSweep (sweepNet e t) me t req c = (c1, x)"
    by fastforce
  with Cons.prems(1) id obtain sw res1 where x: "x = Some sw" "sweepMembers e me req ms res1 c1 = (c', Inr res)"
    by (cases x) auto
  have o: "orderly c1"
    by (rule requestGCSweep_keeps(1) [OF s Cons.prems(2)])
  have only: "chunkAt c1 m cid = chunkAt c m cid \<or> chunkAt c1 m cid = None"
    by (rule sweep_only_removes [OF s Cons.prems(2)])
  have here: "chunkAt c1 m cid = None" if "t = m"
  proof -
    obtain n n' sw' where n: "c t = Some n" "localGCSweep req n = (n', Inr sw')" "c1 = c(t \<mapsto> n')"
      using requestGCSweep_node [OF s] x(1) by auto
    have "well_named (chunks n)"
      using Cons.prems(2) n(1) by (simp add: orderly_def)
    from localGCSweep_node(6) [OF n(2) this refl]
    have fl: "chunkFiles (chunks n') = (\<lambda>p. if garbage (set (SweepLive req)) (SweepCutoff req) (chunks n) p then None
        else chunkFiles (chunks n) p)"
      by blast
    have "chunkFiles (chunks n) (chunkPath cid) = Some f \<or> chunkFiles (chunks n) (chunkPath cid) = None"
      using Cons.prems(3) n(1) that by (simp add: chunkAt_def)
    then have "chunkFiles (chunks n') (chunkPath cid) = None"
      using fl assms(5-7) by (auto simp: garbage_def last_paths(1))
    with n(3) that show ?thesis
      by (simp add: chunkAt_def)
  qed
  have c1: "chunkAt c1 m cid = Some f \<or> chunkAt c1 m cid = None"
    using only Cons.prems(3) by auto
  have "(chunkAt c1 m cid = None \<or> m \<in> set ms) \<longrightarrow> chunkAt c' m cid = None"
    by (rule Cons.IH [OF x(2) o c1])
  with here only show ?case
    by (cases "t = m") auto
qed simp

text \<open>C33. Garbage goes: when a round succeeds, a chunk that no member's metadata refers to and that is
  older than the grace period is at no member any more.  An upload that takes longer than the grace
  period has such chunks before its metadata is written.\<close>
theorem GC_reclaims:
  assumes "RunGC e me start grace c = (c', Inr res)" "alone e" "finiteStores c" "orderly c" "validName cid"
    and "m \<in> set (membersOf me c)" "\<forall>x \<in> set (membersOf me c). \<not> refAt c x cid"
    and "chunkAt c m cid = Some f" "modTime f < start - grace"
  shows "chunkAt c' m cid = None"
proof -
  obtain c1 r where l: "collectLoop e me (configOf me c) (membersOf me c) {} c = (c1, r)"
    by fastforce
  note a = collectLoop_alone [OF l assms(2)]
  have am: "afterMarks e c = c"
    using assms(2) by (simp add: alone_def)
  obtain lv where r: "r = Inr lv"
    using assms(1) l by (auto simp: RunGC_def collectLiveChunks_def Let_def split: if_splits sum.splits)
  let ?req = "\<lparr>SweepVersion = configOf me c, SweepLive = sorted_list_of_set lv, SweepCutoff = start - grace\<rparr>"
  obtain r0 where s: "sweepMembers e me ?req (membersOf me c) r0 c = (c', Inr res)"
    using assms(1) l r a am by (auto simp: RunGC_def collectLiveChunks_def Let_def split: if_splits)
  have lv: "cid \<notin> lv"
    using a r assms(3,7) by auto
  have "set (SweepLive ?req) \<subseteq> lv"
    by (cases "finite lv") simp_all
  with lv have "cid \<notin> set (SweepLive ?req)"
    by blast
  from sweepMembers_removes [OF s assms(2,4) disjI1 [OF assms(8)] assms(5) this] assms(6,9) show ?thesis
    by simp
qed

subsection \<open>A concrete round\<close>

text \<open>Two nodes; the first has an object of one chunk and a chunk that no object refers to.\<close>

definition objectMeta :: Metadata where
  "objectMeta = \<lparr>MetaName = ''o'', MetaSize = 1, MetaChunkSize = 4, MetaChunks = [infoOf [1]]\<rparr>"

definition metaValue :: Value where
  "metaValue = \<lparr>Data = Some (marshalMetadata objectMeta), VersionOf = zeroVersion, Deleted = False\<rparr>"

definition gcNode :: "(string \<rightharpoonup> Value) \<Rightarrow> bytes \<Rightarrow> Node" where
  "gcNode m d = loneNode m [chunkPath (ID d) \<mapsto> \<lparr>chunkBytes = d, modTime = 0\<rparr>]"

definition gcCluster :: "(string \<rightharpoonup> Value) \<Rightarrow> bytes \<Rightarrow> cluster" where
  "gcCluster m d = [''a'' \<mapsto> gcNode m d, ''b'' \<mapsto> nodeAt ''b'']"

definition plainGC :: gcRun where
  "plainGC = \<lparr>markNet = \<lambda>_. Delivered, sweepNet = \<lambda>_. Delivered, beforeMark = \<lambda>_ d. d, afterMarks = \<lambda>d. d,
     beforeSweep = \<lambda>_ d. d\<rparr>"

lemma plainGC_simps [simp]:
  "markNet plainGC m = Delivered" "sweepNet plainGC m = Delivered" "beforeMark plainGC m d = d" "afterMarks plainGC d = d"
  "beforeSweep plainGC m d = d" "alone plainGC" "gentleRun t plainGC"
  by (simp_all add: plainGC_def alone_def gentleRun_def)

lemma gcCluster_facts:
  "membersOf ''a'' (gcCluster m d) = [''a'', ''b'']" "configOf ''a'' (gcCluster m d) = 0"
  "finite (dom m) \<Longrightarrow> finiteStores (gcCluster m d)" "orderly (gcCluster m d)"
  "chunkAt (gcCluster m d) ''a'' (ID d) = Some \<lparr>chunkBytes = d, modTime = 0\<rparr>"
proof -
  have mem: "Members ring_ab = [''a'', ''b'']"
    by (simp add: Members_def ring_ab_facts)
  show "membersOf ''a'' (gcCluster m d) = [''a'', ''b'']" "configOf ''a'' (gcCluster m d) = 0"
    by (simp_all add: membersOf_def configOf_def gcCluster_def gcNode_def loneNode_def nodeAt_def mem)
  show "finite (dom m) \<Longrightarrow> finiteStores (gcCluster m d)"
    by (auto simp: finiteStores_def gcCluster_def gcNode_def loneNode_def split: if_splits)
  have "well_named (chunks (gcNode m d))" "well_named (chunks (nodeAt ''b''))"
    using last_paths(1) by (auto simp: well_named_def gcNode_def loneNode_def nodeAt_def split: if_splits)
  then show "orderly (gcCluster m d)"
    by (auto simp: orderly_def gcCluster_def split: if_splits)
  show "chunkAt (gcCluster m d) ''a'' (ID d) = Some \<lparr>chunkBytes = d, modTime = 0\<rparr>"
    by (simp add: chunkAt_def gcCluster_def gcNode_def loneNode_def)
qed

lemma objectMeta_good: "goodMetadata objectMeta"
  using goodString_ID by (simp add: objectMeta_def goodMetadata_def goodInfo_def infoOf_def goodInt_def) code_simp

lemma GC_keeps_live_witness:
  "\<exists>c' res. RunGC plainGC ''a'' 100 10 (gcCluster [metadataKey ''o'' \<mapsto> metaValue] [1]) = (c', res) \<and> hasChunk c' ''a'' (ID [1])"
proof -
  let ?c = "gcCluster [metadataKey ''o'' \<mapsto> metaValue] [1]"
  obtain c' res where r: "RunGC plainGC ''a'' 100 10 ?c = (c', res)"
    by fastforce
  have "hasPrefix (metadataKey ''o'') MetadataKeyPrefix"
    by (simp add: hasPrefix_def metadataKey_def)
  then have "ID [1] \<in> refs (gcNode [metadataKey ''o'' \<mapsto> metaValue] [1])"
    using unmarshalMetadata_marshal [OF objectMeta_good]
    by (auto simp: refs_def gcNode_def loneNode_def metaValue_def objectMeta_def infoOf_def)
  then have "refAt ?c ''a'' (ID [1])"
    by (simp add: refAt_def gcCluster_def)
  moreover have "hasChunk ?c ''a'' (ID [1])"
    using gcCluster_facts(5) by (simp add: hasChunk_def)
  ultimately show ?thesis
    using GC_keeps_live [OF r _ gcCluster_facts(3,4) validName_ID [of "[1]"], of "''a''"] r
    by (auto simp: gcCluster_facts(1))
qed

lemma GC_stops_on_mismatch_witness:
  "\<exists>err. RunGC plainGC ''a'' 100 10 ((gcCluster Map.empty [1])(''b'' \<mapsto> (nodeAt ''b'')\<lparr>configVersion := 3\<rparr>)) =
    ((gcCluster Map.empty [1])(''b'' \<mapsto> (nodeAt ''b'')\<lparr>configVersion := 3\<rparr>), Inl err)"
proof -
  let ?n = "(nodeAt ''b'')\<lparr>configVersion := 3\<rparr>"
  let ?c = "(gcCluster Map.empty [1])(''b'' \<mapsto> ?n)"
  have v: "membersOf ''a'' ?c = [''a'', ''b'']" "configOf ''a'' ?c = 0"
    using gcCluster_facts(1,2) [of Map.empty "[1]"] by (simp_all add: membersOf_def configOf_def)
  show ?thesis
    by (rule GC_stops_on_mismatch [where m = "''b''" and n = ?n]) (simp_all add: v)
qed

lemma sweepLoop_ok:
  assumes "chunkCalls s = []" "distinct ps" "\<forall>p \<in> set ps. chunkFiles s p \<noteq> None"
  shows "\<exists>s' res'. sweepLoop live cutoff ps res s = (s', Inr res')"
  using assms
proof (induction ps arbitrary: s res)
  case (Cons p ps)
  have call: "plainCall s = (s, None)"
    using Cons.prems(1) by (simp add: plainCall_def chunkCall_def)
  obtain f where f: "chunkFiles s p = Some f"
    using Cons.prems(3) by auto
  have rm: "\<exists>t. removeFile p s = (t, None) \<and> chunkCalls t = [] \<and> (\<forall>q. q \<noteq> p \<longrightarrow> chunkFiles t q = chunkFiles s q)"
    using Cons.prems(1) f by (simp add: removeFile_def chunkCall_def)
  then obtain t where t: "removeFile p s = (t, None)" "chunkCalls t = []" "\<forall>q. q \<noteq> p \<longrightarrow> chunkFiles t q = chunkFiles s q"
    by blast
  have "\<forall>q \<in> set ps. chunkFiles t q \<noteq> None"
    using t(3) Cons.prems(2,3) by (metis distinct.simps(2) list.set_intros(2))
  with Cons t call show ?case
    by (auto simp: Let_def)
qed simp

lemma Sweep_ok: "chunkCalls s = [] \<Longrightarrow> finite (dom (chunkFiles s)) \<Longrightarrow> \<exists>s' res. Sweep live cutoff s = (s', Inr res)"
  unfolding Sweep_def by (rule sweepLoop_ok) (auto simp: walkOrder_def)

lemma requestGCSweep_ok:
  assumes "c t = Some n" "configVersion n = SweepVersion req" "chunkCalls (chunks n) = []" "finite (dom (chunkFiles (chunks n)))"
  shows "\<exists>n' sw. requestGCSweep Delivered me t req c = (c(t \<mapsto> n'), Some sw)"
proof -
  obtain s res where "Sweep (set (SweepLive req)) (SweepCutoff req) (chunks n) = (s, Inr res)"
    using Sweep_ok [OF assms(3,4)] by blast
  with assms show ?thesis
    by (auto simp: requestGCSweep_def handleGCSweep_def localGCSweep_def)
qed

lemma GC_reclaims_witness:
  "\<exists>c' res. RunGC plainGC ''a'' 100 10 (gcCluster Map.empty [1]) = (c', Inr res) \<and> chunkAt c' ''a'' (ID [1]) = None"
proof -
  let ?c = "gcCluster Map.empty [1]"
  have mk: "localGCMark (gcNode Map.empty [1]) = Inr \<lparr>MarkVersion = 0, MarkLive = []\<rparr>"
      "localGCMark (nodeAt ''b'') = Inr \<lparr>MarkVersion = 0, MarkLive = []\<rparr>"
    by (simp_all add: localGCMark_def markLiveChunks_def memSnapshot_def gcNode_def loneNode_def nodeAt_def
        plainMemory_def NewMemory_def)
  have c: "?c ''a'' = Some (gcNode Map.empty [1])" "?c ''b'' = Some (nodeAt ''b'')"
    by (simp_all add: gcCluster_def)
  let ?req = "\<lparr>SweepVersion = 0, SweepLive = [], SweepCutoff = 90\<rparr>"
  obtain n1 sw1 where s1: "requestGCSweep Delivered ''a'' ''a'' ?req ?c = (?c(''a'' \<mapsto> n1), Some sw1)"
    using requestGCSweep_ok [where c = ?c and t = "''a''" and n = "gcNode Map.empty [1]" and req = ?req and me = "''a''", OF c(1)] by (auto simp: gcNode_def loneNode_def nodeAt_def)
  have "(?c(''a'' \<mapsto> n1)) ''b'' = Some (nodeAt ''b'')"
    by (simp add: c(2))
  then obtain n2 sw2 where s2: "requestGCSweep Delivered ''a'' ''b'' ?req (?c(''a'' \<mapsto> n1)) = (?c(''a'' \<mapsto> n1, ''b'' \<mapsto> n2), Some sw2)"
    using requestGCSweep_ok [of "?c(''a'' \<mapsto> n1)" "''b''" "nodeAt ''b''" ?req "''a''"] by (auto simp: nodeAt_def)
  obtain c' res where r: "RunGC plainGC ''a'' 100 10 ?c = (c', Inr res)"
    using s1 s2 c mk
    by (simp add: RunGC_def collectLiveChunks_def gcCluster_facts(1,2) requestGCMark_def handleGCMark_def Let_def)
  have "\<not> refAt ?c x (ID [1])" for x
    by (auto simp: refAt_def refs_def gcCluster_def gcNode_def loneNode_def split: if_splits)
  then show ?thesis
    using GC_reclaims [OF r _ gcCluster_facts(3,4) validName_ID [of "[1]"] _ _ gcCluster_facts(5)] r
    by (auto simp: gcCluster_facts(1))
qed

end
