(* ===== verification/KvHandlers.thy ===== *)
theory KvHandlers
  imports Replication Http ObjectStore
begin

text \<open>
  The HTTP side of the key-value store: the handlers for clients of \<open>replication.go\<close> and
  \<open>handler.go\<close>, the ones between the nodes, and those for debugging of \<open>debug.go\<close>.  The texts of
  the errors of the coordinator are an argument.  A reader that breaks stands for a body whose
  reading fails.
\<close>

subsection \<open>Clients\<close>

definition readAllBody :: "reader \<Rightarrow> bytes option" where
  "readAllBody r = (if breaks r then None else Some (pending r))"

record kvRun =
  kvArrive :: "string list \<Rightarrow> string list"
  kvReads :: "string \<Rightarrow> rpc"
  kvWrites :: "string \<Rightarrow> rpc"

definition handleReplicatedGet ::
  "kvRun \<Rightarrow> (nodeError \<Rightarrow> string) \<Rightarrow> string \<Rightarrow> string \<Rightarrow> cluster \<Rightarrow> (cluster \<times> response) option" where
  "handleReplicatedGet e err me key c =
     map_option (\<lambda>(c', r).
         (c', case r of
                Inl x \<Rightarrow> httpError (err x) 503
              | Inr (data, found) \<Rightarrow>
                  if \<not> found then httpError ''not found'' 404
                  else (200, case data of None \<Rightarrow> [] | Some d \<Rightarrow> d)))
       (NodeGet (kvArrive e) (kvReads e) (kvWrites e) me key c)"

definition handleReplicatedPut ::
  "kvRun \<Rightarrow> (nodeError \<Rightarrow> string) \<Rightarrow> string \<Rightarrow> string \<Rightarrow> reader \<Rightarrow> cluster \<Rightarrow> (cluster \<times> response) option" where
  "handleReplicatedPut e err me key r c =
     (case readAllBody r of
        None \<Rightarrow> Some (c, httpError ''read body failed:'' 400)
      | Some data \<Rightarrow>
          map_option (\<lambda>(c', x). (c', case x of Some y \<Rightarrow> httpError (err y) 503 | None \<Rightarrow> noContent))
            (NodePut (kvArrive e) (kvReads e) (kvWrites e) me key (Some data) c))"

definition handleReplicatedDelete ::
  "kvRun \<Rightarrow> (nodeError \<Rightarrow> string) \<Rightarrow> string \<Rightarrow> string \<Rightarrow> cluster \<Rightarrow> (cluster \<times> response) option" where
  "handleReplicatedDelete e err me key c =
     map_option (\<lambda>(c', x). (c', case x of Some y \<Rightarrow> httpError (err y) 503 | None \<Rightarrow> noContent))
       (NodeDelete (kvArrive e) (kvReads e) (kvWrites e) me key c)"

definition handleKV ::
  "kvRun \<Rightarrow> (nodeError \<Rightarrow> string) \<Rightarrow> string \<Rightarrow> httpMethod \<Rightarrow> string \<Rightarrow> reader \<Rightarrow> cluster \<Rightarrow> (cluster \<times> response) option" where
  "handleKV e err me meth path r c =
     (let key = trimPrefix path ''/kv/''
      in if key = [] then Some (c, httpError ''empty key,'' 400)
         else case meth of
           MethodGet \<Rightarrow> handleReplicatedGet e err me key c
         | MethodPut \<Rightarrow> handleReplicatedPut e err me key r c
         | MethodDelete \<Rightarrow> handleReplicatedDelete e err me key c
         | _ \<Rightarrow> Some (c, httpError ''method not allowed'' 405))"

subsection \<open>Between the nodes\<close>

definition handleInternalKV :: "httpMethod \<Rightarrow> string \<Rightarrow> bytes \<Rightarrow> Node \<Rightarrow> Node \<times> response" where
  "handleInternalKV meth path body n =
     (let key = trimPrefix path ''/internal/kv/''
      in if key = [] then (n, httpError ''empty key,'' 400)
         else case meth of
           MethodPut \<Rightarrow> handleInternalPut key body n
         | MethodGet \<Rightarrow> (n, handleInternalGet key n)
         | _ \<Rightarrow> (n, httpError ''method not allowed'' 405))"

subsection \<open>Debugging\<close>

definition handleDebugGet :: "string \<Rightarrow> Node \<Rightarrow> response" where
  "handleDebugGet key n =
     (case MemGet key (store n) of
        (v, ok) \<Rightarrow> if \<not> ok then httpError ''not found'' 404 else (200, marshalValue v @ [10]))"

definition handleDebugPut :: "string \<Rightarrow> bytes \<Rightarrow> Node \<Rightarrow> Node \<times> response" where
  "handleDebugPut key body n =
     (case decodeStream decodeValue body zeroValue of
        None \<Rightarrow> (n, httpError ''invalid value'' 400)
      | Some v \<Rightarrow> (n\<lparr>store := ForceSet key v (store n)\<rparr>, noContent))"

definition handleDebugKV :: "httpMethod \<Rightarrow> string \<Rightarrow> bytes \<Rightarrow> Node \<Rightarrow> Node \<times> response" where
  "handleDebugKV meth path body n =
     (let key = trimPrefix path ''/internal/debug/kv/''
      in if key = [] then (n, httpError ''empty key'' 400)
         else case meth of
           MethodGet \<Rightarrow> (n, handleDebugGet key n)
         | MethodPut \<Rightarrow> handleDebugPut key body n
         | _ \<Rightarrow> (n, httpError ''method not allowed'' 405))"

definition encodeHint :: "hint \<Rightarrow> json" where
  "encodeHint h =
     JObj [(bytesOf ''replica'', encodeString (Replica h)), (bytesOf ''key'', encodeString (HintKey h)),
           (bytesOf ''value'', encodeValue (HintValue h))]"

definition handleDebugHints :: "string list \<Rightarrow> httpMethod \<Rightarrow> Node \<Rightarrow> response" where
  "handleDebugHints order meth n =
     (if meth \<noteq> MethodGet then httpError ''method not allowed'' 405
      else (200, printJson (encodeSlice encodeHint (hintList order (nodeHints n))) @ [10]))"

text \<open>The page of the members has times; it is passed as a record.\<close>

record memberDebugState =
  DebugNode :: string
  DebugStatus :: string
  DebugLastSuccess :: int
  DebugLastFailure :: int
  DebugFailureCount :: int
  DebugIncarnation :: u64
  DebugVersion :: u64

record membersDebugResponse =
  DebugConfigVersion :: u64
  DebugConfigMembers :: "string list"
  DebugHealth :: "memberDebugState list"

definition debugState :: "string \<Rightarrow> memberState \<Rightarrow> memberDebugState" where
  "debugState node s =
     \<lparr>DebugNode = node, DebugStatus = statusString (Status s), DebugLastSuccess = LastSuccess s,
      DebugLastFailure = LastFailure s, DebugFailureCount = FailureCount s,
      DebugIncarnation = Incarnation s, DebugVersion = StateVersion s\<rparr>"

definition fdSnapshot :: "string list \<Rightarrow> failureDetector \<Rightarrow> memberDebugState list" where
  "fdSnapshot order f = map (\<lambda>node. debugState node (stateOf f node)) order"

definition handleDebugMembers :: "string list \<Rightarrow> httpMethod \<Rightarrow> Node \<Rightarrow> nat \<times> membersDebugResponse option" where
  "handleDebugMembers order meth n =
     (if meth \<noteq> MethodGet then (405, None)
      else (200, Some \<lparr>DebugConfigVersion = configVersion n, DebugConfigMembers = Members (ring n),
                       DebugHealth = fdSnapshot order (detector n)\<rparr>))"

end
