(* ===== verification/ClusterConfig.thy ===== *)
theory ClusterConfig
  imports RebalanceProps
begin

text \<open>
  Changes of the membership, \<open>cluster_membership.go\<close> with its handler in \<open>handler.go\<close>:
  configurations with a version, how a node takes one over, and the coordinator that brings a
  configuration to all members, lets them rebalance and takes it back when something fails.
\<close>

record ClusterConfig =
  ConfVersion :: u64
  ConfMembers :: "string list"

definition zeroConfig :: ClusterConfig where
  "zeroConfig = \<lparr>ConfVersion = 0, ConfMembers = []\<rparr>"

definition encodeConfig :: "ClusterConfig \<Rightarrow> json" where
  "encodeConfig cfg =
     JObj [(bytesOf ''version'', encodeUint (ConfVersion cfg)), (bytesOf ''members'', encodeSlice encodeString (ConfMembers cfg))]"

definition decodeConfig :: "json \<Rightarrow> ClusterConfig \<Rightarrow> ClusterConfig option" where
  "decodeConfig = decodeStruct
     [(''version'', onField ConfVersion ConfVersion_update decodeUint),
      (''members'', onField ConfMembers ConfMembers_update (decodeSlice decodeString []))]"

subsection \<open>Taking a configuration over\<close>

definition dropMember :: "ClusterConfig \<Rightarrow> Node \<Rightarrow> string \<Rightarrow> Node" where
  "dropMember config n member =
     (if member \<notin> set (ConfMembers config)
      then n\<lparr>ring := Remove member (ring n), detector := UntrackMember member (detector n)\<rparr> else n)"

definition takeMember :: "int \<Rightarrow> Node \<Rightarrow> string \<Rightarrow> Node" where
  "takeMember now n member = n\<lparr>ring := Add member (ring n), detector := TrackMember member now (detector n)\<rparr>"

definition handleMembershipSync :: "int \<Rightarrow> httpMethod \<Rightarrow> bytes \<Rightarrow> Node \<Rightarrow> Node \<times> response" where
  "handleMembershipSync now meth body n =
     (if meth \<noteq> MethodPut then (n, httpError ''method not allowed'' 405)
      else case decodeStream decodeConfig body zeroConfig of
        None \<Rightarrow> (n, httpError ''invalid request'' 400)
      | Some config \<Rightarrow>
          if ConfVersion config = 0 then (n, httpError ''invalid config version'' 400)
          else if ConfVersion config \<le> configVersion n then (n, noContent)
          else let current = Members (ring n);
                   n1 = foldl (dropMember config) n current;
                   n2 = foldl (takeMember now) n1 (ConfMembers config)
               in (n2\<lparr>configVersion := ConfVersion config\<rparr>, noContent))"

text \<open>
  The handler takes no lock of its own: it is a row of calls of the ring, of the detector and of
  the atomic version, each for itself.  \<open>syncActs\<close> lists them for what the handler has decoded and
  for the members that it has listed.  \<open>handleMembershipSync\<close> is the handler whose calls no other
  work comes between; \<open>syncMove\<close> moves one request a single call on, from the check of the version
  to its store, for any number of requests that run at the same time.
\<close>

datatype syncAct =
    RingRemove string
  | Untrack string
  | RingAdd string
  | Track string
  | StoreVersion u64

fun syncCall :: "int \<Rightarrow> syncAct \<Rightarrow> Node \<Rightarrow> Node" where
  "syncCall now (RingRemove m) n = n\<lparr>ring := Remove m (ring n)\<rparr>"
| "syncCall now (Untrack m) n = n\<lparr>detector := UntrackMember m (detector n)\<rparr>"
| "syncCall now (RingAdd m) n = n\<lparr>ring := Add m (ring n)\<rparr>"
| "syncCall now (Track m) n = n\<lparr>detector := TrackMember m now (detector n)\<rparr>"
| "syncCall now (StoreVersion v) n = n\<lparr>configVersion := v\<rparr>"

definition syncActs :: "ClusterConfig \<Rightarrow> string list \<Rightarrow> syncAct list" where
  "syncActs config current =
     concat (map (\<lambda>m. if m \<notin> set (ConfMembers config) then [RingRemove m, Untrack m] else []) current)
     @ concat (map (\<lambda>m. [RingAdd m, Track m]) (ConfMembers config))
     @ [StoreVersion (ConfVersion config)]"

datatype syncRequest =
    Checking ClusterConfig
  | Listing ClusterConfig
  | Acting "syncAct list"

inductive syncMove :: "Node \<times> (nat \<Rightarrow> syncRequest) \<Rightarrow> Node \<times> (nat \<Rightarrow> syncRequest) \<Rightarrow> bool" where
  SyncIgnore: "rq i = Checking config \<Longrightarrow> ConfVersion config \<le> configVersion n \<Longrightarrow>
     syncMove (n, rq) (n, rq(i := Acting []))"
| SyncPass: "rq i = Checking config \<Longrightarrow> configVersion n < ConfVersion config \<Longrightarrow>
     syncMove (n, rq) (n, rq(i := Listing config))"
| SyncList: "rq i = Listing config \<Longrightarrow>
     syncMove (n, rq) (n, rq(i := Acting (syncActs config (Members (ring n)))))"
| SyncCall: "rq i = Acting (a # as) \<Longrightarrow>
     syncMove (n, rq) (syncCall now a n, rq(i := Acting as))"

definition sendMembershipSync :: "rpc \<Rightarrow> int \<Rightarrow> string \<Rightarrow> ClusterConfig \<Rightarrow> cluster \<Rightarrow> cluster \<times> bool" where
  "sendMembershipSync net now target config c =
     (case (net, c target) of
        (RequestLost, _) \<Rightarrow> (c, False)
      | (_, None) \<Rightarrow> (c, False)
      | (_, Some n) \<Rightarrow>
          (case handleMembershipSync now MethodPut (printJson (encodeConfig config)) n of
             (n', status, body) \<Rightarrow> (c(target \<mapsto> n'), net = Delivered \<and> status < 300)))"

text \<open>The whole handler is its row of calls.\<close>

lemma dropMember_acts:
  "foldl (\<lambda>x a. syncCall now a x) n
     (concat (map (\<lambda>m. if m \<notin> set (ConfMembers config) then [RingRemove m, Untrack m] else []) ms))
   = foldl (dropMember config) n ms"
  by (induction ms arbitrary: n) (simp_all add: dropMember_def)

lemma takeMember_acts:
  "foldl (\<lambda>x a. syncCall now a x) n (concat (map (\<lambda>m. [RingAdd m, Track m]) ms)) = foldl (takeMember now) n ms"
  by (induction ms arbitrary: n) (simp_all add: takeMember_def)

lemma handleMembershipSync_acts:
  "handleMembershipSync now meth body n =
     (if meth \<noteq> MethodPut then (n, httpError ''method not allowed'' 405)
      else case decodeStream decodeConfig body zeroConfig of
        None \<Rightarrow> (n, httpError ''invalid request'' 400)
      | Some config \<Rightarrow>
          if ConfVersion config = 0 then (n, httpError ''invalid config version'' 400)
          else if ConfVersion config \<le> configVersion n then (n, noContent)
          else (foldl (\<lambda>x a. syncCall now a x) n (syncActs config (Members (ring n))), noContent))"
  by (simp add: handleMembershipSync_def syncActs_def dropMember_acts takeMember_acts Let_def split: option.split)

subsection \<open>The coordinator\<close>

datatype configError =
    MemberNotFound string
  | LastMember
  | DrainFailed
  | SyncFailed string
  | RebalanceFailed string

text \<open>
  What the network, the clocks and the rest of the system do: \<open>besides t\<close> is the other work
  between the last request and the configuration for the target \<open>t\<close>, and \<open>undoBesides t\<close> that
  before the target \<open>t\<close> is sent the old configuration again, or before a coordinator \<open>t\<close> that is
  no target stores its version.
\<close>

record change =
  syncNet :: "string \<Rightarrow> rpc"
  undoNet :: "string \<Rightarrow> rpc"
  moveNet :: "string \<Rightarrow> rpc"
  moveRun :: "string \<Rightarrow> run"
  drainNet :: rpc
  drainRun :: run
  clock :: "string \<Rightarrow> int"
  besides :: "string \<Rightarrow> cluster \<Rightarrow> cluster"
  undoBesides :: "string \<Rightarrow> cluster \<Rightarrow> cluster"

fun undoLoop :: "change \<Rightarrow> ClusterConfig \<Rightarrow> string list \<Rightarrow> cluster \<Rightarrow> cluster" where
  "undoLoop e rollback [] c = c"
| "undoLoop e rollback (t # ts) c =
     undoLoop e rollback ts (fst (sendMembershipSync (undoNet e t) (clock e t) t rollback (undoBesides e t c)))"

definition compensateClusterConfig ::
  "change \<Rightarrow> string \<Rightarrow> string list \<Rightarrow> ClusterConfig \<Rightarrow> u64 \<Rightarrow> cluster \<Rightarrow> cluster" where
  "compensateClusterConfig e me targets previous ver c =
     (let rollback = \<lparr>ConfVersion = ver, ConfMembers = ConfMembers previous\<rparr>;
          c1 = undoLoop e rollback targets c
      in if me \<notin> set targets
         then let c2 = undoBesides e me c1 in c2(me := map_option (\<lambda>n. n\<lparr>configVersion := ver\<rparr>) (c2 me))
         else c1)"

fun syncLoop ::
  "change \<Rightarrow> ClusterConfig \<Rightarrow> string list \<Rightarrow> string list \<Rightarrow> cluster \<Rightarrow> cluster \<times> string list \<times> string option" where
  "syncLoop e config applied [] c = (c, applied, None)"
| "syncLoop e config applied (t # ts) c =
     (case sendMembershipSync (syncNet e t) (clock e t) t config (besides e t c) of
        (c1, ok) \<Rightarrow> if \<not> ok then (c1, applied, Some t) else syncLoop e config (applied @ [t]) ts c1)"

fun moveLoop :: "change \<Rightarrow> string list \<Rightarrow> cluster \<Rightarrow> (cluster \<times> string option) option" where
  "moveLoop e [] c = Some (c, None)"
| "moveLoop e (t # ts) c =
     (case sendRebalance (moveRun e t) (moveNet e t) t c of
        None \<Rightarrow> None
      | Some (c1, None) \<Rightarrow> Some (c1, Some t)
      | Some (c1, Some result) \<Rightarrow> moveLoop e ts c1)"

definition applyClusterConfig ::
  "change \<Rightarrow> string \<Rightarrow> string list \<Rightarrow> ClusterConfig \<Rightarrow> ClusterConfig \<Rightarrow> cluster \<Rightarrow> (cluster \<times> configError option) option" where
  "applyClusterConfig e me targets previous nextConfig c =
     (case syncLoop e nextConfig [] targets c of
        (c1, applied, Some t) \<Rightarrow>
          Some (compensateClusterConfig e me applied previous (ConfVersion nextConfig + 1) c1, Some (SyncFailed t))
      | (c1, applied, None) \<Rightarrow>
          (case moveLoop e targets c1 of
             None \<Rightarrow> None
           | Some (c2, Some t) \<Rightarrow>
               Some (compensateClusterConfig e me applied previous (ConfVersion nextConfig + 1) c2, Some (RebalanceFailed t))
           | Some (c2, None) \<Rightarrow> Some (c2, None)))"

definition AddMember :: "change \<Rightarrow> string \<Rightarrow> string \<Rightarrow> cluster \<Rightarrow> (cluster \<times> configError option) option" where
  "AddMember e me member c =
     (case c me of
        None \<Rightarrow> None
      | Some n \<Rightarrow>
          let current = Members (ring n)
          in if member \<in> set current then Some (c, None)
             else let allMembers = current @ [member];
                      previous = \<lparr>ConfVersion = configVersion n, ConfMembers = current\<rparr>;
                      nextConfig = \<lparr>ConfVersion = ConfVersion previous + 1, ConfMembers = allMembers\<rparr>
                  in applyClusterConfig e me allMembers previous nextConfig c)"

fun removeMember :: "string list \<Rightarrow> string \<Rightarrow> string list" where
  "removeMember [] member = []"
| "removeMember (current # ms) member = (if current \<noteq> member then current # removeMember ms member else removeMember ms member)"

definition RemoveMember :: "change \<Rightarrow> (drainError \<Rightarrow> string) \<Rightarrow> string \<Rightarrow> string \<Rightarrow> cluster \<Rightarrow> (cluster \<times> configError option) option" where
  "RemoveMember e err me member c =
     (case c me of
        None \<Rightarrow> None
      | Some n \<Rightarrow>
          let current = Members (ring n)
          in if member \<notin> set current then Some (c, Some (MemberNotFound member))
             else if length current \<le> 1 then Some (c, Some LastMember)
             else let futureMembers = removeMember current member
                  in case sendDrain (drainRun e) err (drainNet e) member futureMembers c of
                       None \<Rightarrow> None
                     | Some (c1, False) \<Rightarrow> Some (c1, Some DrainFailed)
                     | Some (c1, True) \<Rightarrow>
                         (case c1 me of
                            None \<Rightarrow> None
                          | Some n1 \<Rightarrow>
                              let previous = \<lparr>ConfVersion = configVersion n1, ConfMembers = current\<rparr>;
                                  nextConfig = \<lparr>ConfVersion = ConfVersion previous + 1, ConfMembers = futureMembers\<rparr>
                              in applyClusterConfig e me futureMembers previous nextConfig c1))"

subsection \<open>The body of a request\<close>

lemma decodeStream_print:
  assumes "wfJson j" "stops rest"
  shows "decodeStream dec (printJson j @ rest) s = dec (cleanJson j) s"
proof -
  from assms show ?thesis
    using reads_all [OF assms(1)] fuelFor_length [OF assms(1)]
    by (simp add: decodeStream_def reads_def del: parseValue.simps)
qed

lemma config_names [simp]:
  "foldName (bytesOf ''version'') = bytesOf ''VERSION''" "foldName (bytesOf ''members'') = bytesOf ''MEMBERS''"
  "goodString ''version''" "goodString ''members''"
  by code_simp+

lemma decodeConfig_print:
  assumes "list_all goodString (ConfMembers cfg)"
  shows "decodeStream decodeConfig (printJson (encodeConfig cfg)) zeroConfig = Some cfg"
proof -
  have w: "wfJson (encodeConfig cfg)"
    by (auto simp: encodeConfig_def encodeSlice_def list_all_iff)
  have "decodeSlice decodeString [] (cleanJson (encodeSlice encodeString (ConfMembers cfg))) [] = Some (ConfMembers cfg)"
    using assms by (intro decodeSlice_encode) (auto simp: list_all_iff)
  then have "decodeConfig (cleanJson (encodeConfig cfg)) zeroConfig = Some cfg"
    by (simp add: decodeConfig_def encodeConfig_def decodeStruct_def onField_def zeroConfig_def)
  with decodeStream_print [where rest = "[]" and dec = decodeConfig and s = zeroConfig, OF w] show ?thesis
    by (simp add: stops_def)
qed

end
