(* ===== verification/AdminHandlers.thy ===== *)
theory AdminHandlers
  imports ClusterConfig
begin

text \<open>
  The administrator's requests of \<open>handler.go\<close>: adding and removing a member.  The texts of the
  coordinator's errors are an argument.
\<close>

definition decodeAdmin :: "json \<Rightarrow> string \<Rightarrow> string option" where
  "decodeAdmin = decodeStruct [(''member'', onField id (\<lambda>f. f) decodeString)]"

definition handleAdminAddMember ::
  "change \<Rightarrow> (configError \<Rightarrow> string) \<Rightarrow> string \<Rightarrow> httpMethod \<Rightarrow> bytes \<Rightarrow> cluster \<Rightarrow> (cluster \<times> response) option" where
  "handleAdminAddMember e err me meth body c =
     (if meth \<noteq> MethodPost then Some (c, httpError ''method not allowed'' 405)
      else case decodeStream decodeAdmin body [] of
        None \<Rightarrow> Some (c, httpError ''invalid request body'' 400)
      | Some member \<Rightarrow>
          if member = [] then Some (c, httpError ''member is required'' 400)
          else map_option (\<lambda>(c', r). (c', case r of Some x \<Rightarrow> httpError (err x) 502 | None \<Rightarrow> noContent))
                 (AddMember e me member c))"

definition handleAdminRemoveMember ::
  "change \<Rightarrow> (drainError \<Rightarrow> string) \<Rightarrow> (configError \<Rightarrow> string) \<Rightarrow> string \<Rightarrow> bytes \<Rightarrow> cluster \<Rightarrow> (cluster \<times> response) option" where
  "handleAdminRemoveMember e drainErr err me body c =
     (case decodeStream decodeAdmin body [] of
        None \<Rightarrow> Some (c, httpError ''invalid request body'' 400)
      | Some member \<Rightarrow>
          if member = [] then Some (c, httpError ''member is required'' 400)
          else map_option (\<lambda>(c', r). (c', case r of Some x \<Rightarrow> httpError (err x) 502 | None \<Rightarrow> noContent))
                 (RemoveMember e drainErr me member c))"

definition handleAdminMember ::
  "change \<Rightarrow> (drainError \<Rightarrow> string) \<Rightarrow> (configError \<Rightarrow> string) \<Rightarrow> string \<Rightarrow> httpMethod \<Rightarrow> bytes \<Rightarrow> cluster
     \<Rightarrow> (cluster \<times> response) option" where
  "handleAdminMember e drainErr err me meth body c =
     (case meth of
        MethodPost \<Rightarrow> handleAdminAddMember e err me meth body c
      | MethodDelete \<Rightarrow> handleAdminRemoveMember e drainErr err me body c
      | _ \<Rightarrow> Some (c, httpError ''method not allowed'' 405))"

end
