(* ===== verification/Probe.thy ===== *)
theory Probe
  imports ObjectStore NodeChunks Http MembershipProps
begin

text \<open>
  The traffic of the failure detector: direct and indirect probes, \<open>internal/node/probe.go\<close>, the
  sending of gossip, \<open>gossip.go\<close>, and the handlers of \<open>handler.go\<close> that answer them.  A request
  to an address reaches the node of that address.  A probe changes nothing at the nodes that
  answer it.
\<close>

subsection \<open>Messages\<close>

definition encodePing :: "string \<Rightarrow> json" where
  "encodePing target = JObj [(bytesOf ''target'', encodeString target)]"

definition decodePing :: "json \<Rightarrow> string \<Rightarrow> string option" where
  "decodePing = decodeStruct [(''target'', onField id (\<lambda>f. f) decodeString)]"

definition encodeGossipMember :: "gossipMember \<Rightarrow> json" where
  "encodeGossipMember g =
     JObj [(bytesOf ''node'', encodeString (GNode g)), (bytesOf ''status'', encodeString (GStatus g)),
           (bytesOf ''version'', encodeUint (GVersion g)), (bytesOf ''incarnation'', encodeUint (GIncarnation g))]"

definition decodeGossipMember :: "json \<Rightarrow> gossipMember \<Rightarrow> gossipMember option" where
  "decodeGossipMember = decodeStruct
     [(''node'', onField GNode GNode_update decodeString), (''status'', onField GStatus GStatus_update decodeString),
      (''version'', onField GVersion GVersion_update decodeUint),
      (''incarnation'', onField GIncarnation GIncarnation_update decodeUint)]"

definition zeroGossip :: gossipMember where
  "zeroGossip = \<lparr>GNode = [], GStatus = [], GVersion = 0, GIncarnation = 0\<rparr>"

text \<open>A \<open>gossipRequest\<close> is its list of members.\<close>

definition encodeGossip :: "gossipMember list \<Rightarrow> json" where
  "encodeGossip gs = JObj [(bytesOf ''members'', encodeSlice encodeGossipMember gs)]"

definition decodeGossip :: "json \<Rightarrow> gossipMember list \<Rightarrow> gossipMember list option" where
  "decodeGossip = decodeStruct [(''members'', onField id (\<lambda>f. f) (decodeSlice decodeGossipMember zeroGossip))]"

subsection \<open>Direct and indirect pings\<close>

text \<open>What the network does with a ping, by sender and receiver.\<close>

type_synonym pings = "string \<Rightarrow> string \<Rightarrow> rpc"

definition handlePing :: "httpMethod \<Rightarrow> response" where
  "handlePing meth = (if meth \<noteq> MethodGet then httpError ''method not allowed'' 405 else noContent)"

definition pingNode :: "rpc \<Rightarrow> string \<Rightarrow> string \<Rightarrow> cluster \<Rightarrow> bool" where
  "pingNode net me target c =
     (if target = me then True
      else case (net, c target) of
        (Delivered, Some n) \<Rightarrow> (case handlePing MethodGet of (status, body) \<Rightarrow> \<not> status \<ge> 300)
      | _ \<Rightarrow> False)"

definition handlePingRequest :: "pings \<Rightarrow> httpMethod \<Rightarrow> bytes \<Rightarrow> string \<Rightarrow> cluster \<Rightarrow> response" where
  "handlePingRequest net meth body me c =
     (if meth \<noteq> MethodPost then httpError ''method not allowed'' 405
      else case decodeStream decodePing body [] of
        None \<Rightarrow> httpError ''invalid ping request'' 400
      | Some target \<Rightarrow>
          if target = [] then httpError ''empty target'' 400
          else if \<not> pingNode (net me target) me target c then httpError ''target unreachable'' 503
          else noContent)"

definition requestIndirectPing :: "pings \<Rightarrow> rpc \<Rightarrow> string \<Rightarrow> string \<Rightarrow> cluster \<Rightarrow> bool" where
  "requestIndirectPing net helpNet helper target c =
     (case (helpNet, c helper) of
        (Delivered, Some n) \<Rightarrow>
          (case handlePingRequest net MethodPost (printJson (encodePing target)) helper c of
             (status, body) \<Rightarrow> \<not> status \<ge> 300)
      | _ \<Rightarrow> False)"

subsection \<open>Choosing members\<close>

text \<open>\<open>shuffle\<close> lists a set in the order that the shuffle gave it.\<close>

definition randomMembers :: "(string set \<Rightarrow> string list) \<Rightarrow> nat \<Rightarrow> string list \<Rightarrow> Node \<Rightarrow> string list" where
  "randomMembers shuffle limit exclude n =
     (let excluded = insert (addr n) (set exclude);
          candidates = shuffle (fdList (detector n) - excluded)
      in if length candidates > limit then take limit candidates else candidates)"

definition indirectHelpers :: "(string set \<Rightarrow> string list) \<Rightarrow> string \<Rightarrow> nat \<Rightarrow> Node \<Rightarrow> string list" where
  "indirectHelpers shuffle target limit n = randomMembers shuffle limit [target] n"

definition randomProbeTarget :: "(string set \<Rightarrow> string list) \<Rightarrow> Node \<Rightarrow> string option" where
  "randomProbeTarget shuffle n =
     (case randomMembers shuffle 1 [] n of [] \<Rightarrow> None | t # ts \<Rightarrow> Some t)"

subsection \<open>One round of the prober\<close>

text \<open>
  The choices of a round: two shuffles, the network, and the other work that goes on beside it,
  \<open>pinging\<close> until the target gets the direct ping, \<open>asking\<close> until the helpers are chosen, \<open>helping h\<close>
  until the helper \<open>h\<close> has its request, and \<open>midway\<close> until the entry in the detector.
\<close>

record probeRun =
  pickTarget :: "string set \<Rightarrow> string list"
  pickHelpers :: "string set \<Rightarrow> string list"
  pingNet :: pings
  helpNet :: "string \<Rightarrow> rpc"
  pinging :: "cluster \<Rightarrow> cluster"
  asking :: "cluster \<Rightarrow> cluster"
  helping :: "string \<Rightarrow> cluster \<Rightarrow> cluster"
  midway :: "cluster \<Rightarrow> cluster"

text \<open>The answers are read until one is a success.\<close>

fun awaitHelpers :: "bool list \<Rightarrow> bool" where
  "awaitHelpers [] = False"
| "awaitHelpers (ok # oks) = (if ok then True else awaitHelpers oks)"

definition indirectProbe :: "probeRun \<Rightarrow> string \<Rightarrow> Node \<Rightarrow> cluster \<Rightarrow> bool" where
  "indirectProbe e target n c =
     (let helpers = indirectHelpers (pickHelpers e) target 2 n
      in if length helpers = 0 then False
         else awaitHelpers (map (\<lambda>h. requestIndirectPing (pingNet e) (helpNet e h) h target (helping e h c)) helpers))"

definition mark :: "(failureDetector \<Rightarrow> failureDetector) \<Rightarrow> string \<Rightarrow> cluster \<Rightarrow> cluster" where
  "mark f me c = c(me := map_option (\<lambda>n. n\<lparr>detector := f (detector n)\<rparr>) (c me))"

definition probeOnce :: "probeRun \<Rightarrow> int \<Rightarrow> string \<Rightarrow> cluster \<Rightarrow> cluster" where
  "probeOnce e now me c =
     (case c me of
        None \<Rightarrow> c
      | Some n \<Rightarrow>
          case randomProbeTarget (pickTarget e) n of
            None \<Rightarrow> c
          | Some target \<Rightarrow>
              let c1 = pinging e c
              in if pingNode (pingNet e (addr n) target) (addr n) target c1
                 then mark (MarkSuccess target now) me (midway e c1)
                 else let c2 = asking e c1
                      in case c2 me of
                           None \<Rightarrow> c2
                         | Some n2 \<Rightarrow>
                             if indirectProbe e target n2 c2
                             then mark (MarkSuccess target now) me (midway e c2)
                             else mark (MarkFailure target now) me (midway e c2))"

subsection \<open>Gossip\<close>

definition handleGossipRequest :: "int \<Rightarrow> httpMethod \<Rightarrow> bytes \<Rightarrow> Node \<Rightarrow> Node \<times> response" where
  "handleGossipRequest now meth body n =
     (if meth \<noteq> MethodPost then (n, httpError ''method not allowed'' 405)
      else case decodeStream decodeGossip body [] of
        None \<Rightarrow> (n, httpError ''invalid gossip request'' 400)
      | Some gs \<Rightarrow> (n\<lparr>detector := handleGossip (Members (ring n)) now gs (detector n)\<rparr>, noContent))"

text \<open>A node may be its own target: its request goes over the network like any other.\<close>

definition sendGossip :: "rpc \<Rightarrow> int \<Rightarrow> string list \<Rightarrow> string \<Rightarrow> string \<Rightarrow> cluster \<Rightarrow> cluster \<times> bool" where
  "sendGossip net now order me target c =
     (case c me of
        None \<Rightarrow> (c, False)
      | Some n \<Rightarrow>
          let payload = printJson (encodeGossip (GossipSnapshot order (detector n)))
          in case (net, c target) of
               (RequestLost, _) \<Rightarrow> (c, False)
             | (_, None) \<Rightarrow> (c, False)
             | (_, Some m) \<Rightarrow>
                 (case handleGossipRequest now MethodPost payload m of
                    (m', status, body) \<Rightarrow> (c(target \<mapsto> m'), net = Delivered \<and> \<not> status \<ge> 300)))"

definition gossipTargets :: "(string set \<Rightarrow> string list) \<Rightarrow> nat \<Rightarrow> Node \<Rightarrow> string list" where
  "gossipTargets shuffle limit n = randomMembers shuffle limit [] n"

record gossipRun =
  pickTargets :: "string set \<Rightarrow> string list"
  listing :: "string \<Rightarrow> string list"
  gossipNet :: "string \<Rightarrow> rpc"
  gossipClock :: "string \<Rightarrow> int"
  beforeSend :: "string \<Rightarrow> cluster \<Rightarrow> cluster"

fun gossipLoop :: "gossipRun \<Rightarrow> string \<Rightarrow> string list \<Rightarrow> cluster \<Rightarrow> cluster" where
  "gossipLoop e me [] c = c"
| "gossipLoop e me (t # ts) c =
     gossipLoop e me ts (fst (sendGossip (gossipNet e t) (gossipClock e t) (listing e t) me t (beforeSend e t c)))"

definition gossipOnce :: "gossipRun \<Rightarrow> string \<Rightarrow> cluster \<Rightarrow> cluster" where
  "gossipOnce e me c =
     (case c me of None \<Rightarrow> c | Some n \<Rightarrow> gossipLoop e me (gossipTargets (pickTargets e) 2 n) c)"

end
