(* ===== verification/Service.thy ===== *)
theory Service
  imports KvHandlers AdminHandlers GC Probe
begin

text \<open>
  The HTTP service of a node, \<open>Handler\<close> of \<open>internal/node/handler.go\<close>: the table of its routes, the
  choice of a handler as \<open>ServeMux\<close> makes it, and what a request does to the cluster.  Everything
  a handler depends on besides the request and the cluster is in the environment: what the
  network does with the requests it makes, clocks, orders, outcomes of writes, texts of errors.
\<close>

subsection \<open>Routes\<close>

datatype handlerName =
    HandleKV | HandleInternalKV | HandleDebugKV | HandleDebugHints | HandlePing | HandleDebugMembers
  | HandleGossip | HandlePingRequest | HandleMembershipSync | HandleRebalance | HandleAdminMember
  | HandleDrain | HandleObject | HandleInternalChunk | HandleGCMark | HandleGCSweep | HandleAdminGC

definition routes :: "(string \<times> handlerName) list" where
  "routes =
     [(''/kv/'', HandleKV),
      (''/internal/kv/'', HandleInternalKV),
      (''/internal/debug/kv/'', HandleDebugKV),
      (''/internal/debug/hints'', HandleDebugHints),
      (''/internal/ping'', HandlePing),
      (''/internal/debug/members'', HandleDebugMembers),
      (''/internal/gossip'', HandleGossip),
      (''/internal/ping-request'', HandlePingRequest),
      (''/internal/members/sync'', HandleMembershipSync),
      (''/internal/rebalance'', HandleRebalance),
      (''/admin/members'', HandleAdminMember),
      (''/internal/drain'', HandleDrain),
      (''/objects/'', HandleObject),
      (''/internal/chunks/'', HandleInternalChunk),
      (''/internal/gc/mark'', HandleGCMark),
      (''/internal/gc/sweep'', HandleGCSweep),
      (''/admin/gc'', HandleAdminGC)]"

text \<open>
  A pattern with a slash at its end stands for all paths below it, and the longest pattern wins.
  A path that is not in canonical form, or that only lacks the slash of a pattern, is redirected.
\<close>

fun splitSlash :: "string \<Rightarrow> string list" where
  "splitSlash [] = [[]]"
| "splitSlash (c # r) =
     (if c = CHR ''/'' then [] # splitSlash r
      else case splitSlash r of [] \<Rightarrow> [[c]] | s # ss \<Rightarrow> (c # s) # ss)"

definition canonical :: "string \<Rightarrow> bool" where
  "canonical path =
     (case splitSlash path of
        root # segments \<Rightarrow>
          root = [] \<and> segments \<noteq> [] \<and> list_all (\<lambda>s. s \<noteq> [] \<and> s \<noteq> ''.'' \<and> s \<noteq> ''..'') (butlast segments)
          \<and> last segments \<noteq> ''.'' \<and> last segments \<noteq> ''..''
      | [] \<Rightarrow> False)"

definition matches :: "string \<Rightarrow> string \<Rightarrow> bool" where
  "matches pattern path \<longleftrightarrow>
     pattern = path \<or> pattern \<noteq> [] \<and> last pattern = CHR ''/'' \<and> take (length pattern) path = pattern"

fun bestMatch :: "(string \<times> handlerName) list \<Rightarrow> string \<Rightarrow> (string \<times> handlerName) option" where
  "bestMatch [] path = None"
| "bestMatch ((p, h) # rs) path =
     (case bestMatch rs path of
        None \<Rightarrow> if matches p path then Some (p, h) else None
      | Some (q, g) \<Rightarrow> if matches p path \<and> length p \<ge> length q then Some (p, h) else Some (q, g))"

datatype routing = Handled handlerName | Redirected | NoRoute

definition route :: "string \<Rightarrow> routing" where
  "route path =
     (if \<not> canonical path then Redirected
      else case bestMatch routes path of
        Some (p, h) \<Rightarrow> Handled h
      | None \<Rightarrow> if path @ ''/'' \<in> fst ` set routes then Redirected else NoRoute)"

subsection \<open>Serving a request\<close>

text \<open>The body of a sweep has a time; it is passed as a record beside the bytes.\<close>

record request =
  reqMethod :: httpMethod
  reqPath :: string
  reqBody :: reader
  reqSweep :: gcSweepRequest

datatype reply =
    Reply response
  | MarkReply nat "gcMarkResponse option"
  | SweepReply nat "SweepResult option"
  | GCReply nat "gcResult option"
  | MembersReply nat "membersDebugResponse option"

record environment =
  envKv :: kvRun
  envKvText :: "nodeError \<Rightarrow> string"
  envSchedule :: schedule
  envObjectText :: "serviceError objectError \<Rightarrow> string"
  envWrites :: "fault list"
  envMove :: run
  envDrainText :: "drainError \<Rightarrow> string"
  envChange :: change
  envConfigText :: "configError \<Rightarrow> string"
  envGC :: gcRun
  envPings :: pings
  envNow :: int
  envRandom :: string
  envOrder :: "string list"

definition onNode :: "(Node \<Rightarrow> Node \<times> 'a) \<Rightarrow> string \<Rightarrow> cluster \<Rightarrow> (cluster \<times> 'a) option" where
  "onNode f me c =
     (case c me of None \<Rightarrow> None | Some n \<Rightarrow> (case f n of (n', x) \<Rightarrow> Some (c(me \<mapsto> n'), x)))"

definition handleInternalChunk :: "int \<Rightarrow> string \<Rightarrow> httpMethod \<Rightarrow> string \<Rightarrow> reader \<Rightarrow> Node \<Rightarrow> Node \<times> response" where
  "handleInternalChunk now random meth path body n =
     (let cid = trimPrefix path ''/internal/chunks/''
      in if cid = [] then (n, httpError ''empty chunk id'' 400)
         else case meth of
           MethodPut \<Rightarrow>
             (case readAllBody body of
                None \<Rightarrow> (n, httpError ''read chunk failed'' 400)
              | Some data \<Rightarrow> handleInternalChunkPut now random cid data n)
         | MethodGet \<Rightarrow> handleInternalChunkGet cid n
         | _ \<Rightarrow> (n, httpError ''method not allowed'' 405))"

definition handle :: "handlerName \<Rightarrow> environment \<Rightarrow> string \<Rightarrow> request \<Rightarrow> cluster \<Rightarrow> (cluster \<times> reply) option" where
  "handle h e me req c =
     (let meth = reqMethod req; path = reqPath req; body = pending (reqBody req);
          plain = map_option (\<lambda>(c', r). (c', Reply r))
      in case h of
           HandleKV \<Rightarrow> plain (handleKV (envKv e) (envKvText e) me meth path (reqBody req) c)
         | HandleInternalKV \<Rightarrow> plain (onNode (handleInternalKV meth path body) me c)
         | HandleDebugKV \<Rightarrow> plain (onNode (handleDebugKV meth path body) me c)
         | HandleDebugHints \<Rightarrow> plain (onNode (\<lambda>n. (n, handleDebugHints (envOrder e) meth n)) me c)
         | HandlePing \<Rightarrow> plain (Some (c, handlePing meth))
         | HandleDebugMembers \<Rightarrow>
             map_option (\<lambda>(c', status, r). (c', MembersReply status r))
               (onNode (\<lambda>n. (n, handleDebugMembers (envOrder e) meth n)) me c)
         | HandleGossip \<Rightarrow> plain (onNode (handleGossipRequest (envNow e) meth body) me c)
         | HandlePingRequest \<Rightarrow> plain (Some (c, handlePingRequest (envPings e) meth body me c))
         | HandleMembershipSync \<Rightarrow> plain (onNode (handleMembershipSync (envNow e) meth body) me c)
         | HandleRebalance \<Rightarrow> plain (handleRebalance (envMove e) me meth c)
         | HandleAdminMember \<Rightarrow> plain (handleAdminMember (envChange e) (envDrainText e) (envConfigText e) me meth body c)
         | HandleDrain \<Rightarrow> plain (handleDrain (envMove e) (envDrainText e) me meth body c)
         | HandleObject \<Rightarrow>
             (case handleObject (envSchedule e) me (envObjectText e) (envWrites e) meth path (reqBody req)
                     \<lparr>clu = c, tick = 0\<rparr> of
                (w, r) \<Rightarrow> Some (clu w, Reply r))
         | HandleInternalChunk \<Rightarrow> plain (onNode (handleInternalChunk (envNow e) (envRandom e) meth path (reqBody req)) me c)
         | HandleGCMark \<Rightarrow>
             map_option (\<lambda>(c', status, r). (c', MarkReply status r)) (onNode (\<lambda>n. (n, handleGCMark meth n)) me c)
         | HandleGCSweep \<Rightarrow>
             map_option (\<lambda>(c', status, r). (c', SweepReply status r)) (onNode (handleGCSweep meth (reqSweep req)) me c)
         | HandleAdminGC \<Rightarrow>
             (case handleAdminGC (envGC e) me (envNow e) meth c of (c', status, r) \<Rightarrow> Some (c', GCReply status r)))"

text \<open>A redirect changes nothing; its location is not modelled.\<close>

definition serve :: "environment \<Rightarrow> string \<Rightarrow> request \<Rightarrow> cluster \<Rightarrow> (cluster \<times> reply) option" where
  "serve e me req c =
     (case route (reqPath req) of
        Handled h \<Rightarrow> handle h e me req c
      | Redirected \<Rightarrow> Some (c, Reply (301, []))
      | NoRoute \<Rightarrow> Some (c, Reply (httpError ''404 page not found'' 404)))"

end
