(* ===== verification/Atomic.thy ===== *)
theory Atomic
  imports Service HandOff
begin

text \<open>
  The atomic steps of the cluster: what one node does under one of its locks.  Every request, every
  background task and every operation of a coordinator is a sequence of such steps, those of the
  other work beside it included.  An invariant of the nodes has to be shown for the steps alone.
\<close>

subsection \<open>Steps of a node\<close>

inductive nodeStep :: "Node \<Rightarrow> Node \<Rightarrow> bool" where
  NodeSet: "nodeStep n (n\<lparr>store := fst (Set key v (store n))\<rparr>)"
| NodeClean: "nodeStep n (n\<lparr>store := fst (DeleteIfMatch key ver (store n))\<rparr>)"
| NodeForce: "nodeStep n (n\<lparr>store := ForceSet key v (store n)\<rparr>)"
| NodeSave: "nodeStep n (n\<lparr>store := fst (SaveSnapshot (store n))\<rparr>)"
| NodeHint: "nodeStep n (n\<lparr>nodeHints := hintAdd replica key v (nodeHints n)\<rparr>)"
| NodeUnhint: "nodeStep n (n\<lparr>nodeHints := RemoveIfMatch replica key ver (nodeHints n)\<rparr>)"
| NodeIssue: "version n \<le> base \<Longrightarrow> nodeStep n (n\<lparr>version := base + 1\<rparr>)"
| NodeChunkPut: "nodeStep n (n\<lparr>chunks := fst (chunkPut random now data (chunks n))\<rparr>)"
| NodeChunkGet: "nodeStep n (n\<lparr>chunks := fst (chunkGet cid (chunks n))\<rparr>)"
| NodeChunkList: "nodeStep n (n\<lparr>chunks := fst (chunkIDs (chunks n))\<rparr>)"
| NodeSweep: "nodeStep n (n\<lparr>chunks := fst (Sweep live cutoff (chunks n))\<rparr>)"
| NodeRemove: "nodeStep n (n\<lparr>ring := Remove member (ring n)\<rparr>)"
| NodeUntrack: "nodeStep n (n\<lparr>detector := UntrackMember member (detector n)\<rparr>)"
| NodeAdd: "nodeStep n (n\<lparr>ring := Add member (ring n)\<rparr>)"
| NodeTrack: "nodeStep n (n\<lparr>detector := TrackMember member now (detector n)\<rparr>)"
| NodeConfig: "nodeStep n (n\<lparr>configVersion := ver\<rparr>)"
| NodeMark: "nodeStep n (n\<lparr>detector := MarkSuccess member now (detector n)\<rparr>)"
| NodeMiss: "nodeStep n (n\<lparr>detector := MarkFailure member now (detector n)\<rparr>)"
| NodeMerge: "nodeStep n (n\<lparr>detector := Merge now gs (detector n)\<rparr>)"

inductive clusterStep :: "(Node \<Rightarrow> Node \<Rightarrow> bool) \<Rightarrow> cluster \<Rightarrow> cluster \<Rightarrow> bool" for S where
  ClusterNode: "c r = Some n \<Longrightarrow> S n n' \<Longrightarrow> clusterStep S c (c(r \<mapsto> n'))"

abbreviation steps :: "cluster \<Rightarrow> cluster \<Rightarrow> bool" where
  "steps \<equiv> run (clusterStep nodeStep)"

lemma steps_refl [simp, intro]: "steps c c"
  by (rule run_refl)

lemma node_one: "c r = Some n \<Longrightarrow> S n n' \<Longrightarrow> run (clusterStep S) c (c(r \<mapsto> n'))"
  by (blast intro: run_one ClusterNode)

lemma node_runs: "run S n n' \<Longrightarrow> c r = Some n \<Longrightarrow> run (clusterStep S) c (c(r \<mapsto> n'))"
proof (induction rule: Transition.run.induct)
  case (run_refl n)
  then show ?case by (simp add: fun_upd_idem Transition.run.run_refl)
next
  case (run_step n n' n'')
  from ClusterNode [of "c(r \<mapsto> n')" r n' S n''] run_step(2) have "clusterStep S (c(r \<mapsto> n')) (c(r \<mapsto> n''))"
    by simp
  with run_step show ?case
    by (blast intro: Transition.run.run_step)
qed

lemmas steps_one = node_one [where S = nodeStep]

lemmas steps_node = node_runs [where S = nodeStep]

text \<open>Forms in which the model names the result of a call.\<close>

lemma nodeStep_results:
  "Set key v (store n) = (m, x) \<Longrightarrow> nodeStep n (n\<lparr>store := m\<rparr>)"
  "DeleteIfMatch key ver (store n) = (m, b, y) \<Longrightarrow> nodeStep n (n\<lparr>store := m\<rparr>)"
  "chunkPut random now data (chunks n) = (s, z) \<Longrightarrow> nodeStep n (n\<lparr>chunks := s\<rparr>)"
  "chunkGet cid (chunks n) = (s, w) \<Longrightarrow> nodeStep n (n\<lparr>chunks := s\<rparr>)"
  "chunkIDs (chunks n) = (s, ids) \<Longrightarrow> nodeStep n (n\<lparr>chunks := s\<rparr>)"
  "Sweep live cutoff (chunks n) = (s, res) \<Longrightarrow> nodeStep n (n\<lparr>chunks := s\<rparr>)"
  using NodeSet [of n key v] NodeClean [of n key ver] NodeChunkPut [of n random now data] NodeChunkGet [of n cid]
    NodeChunkList [of n] NodeSweep [of n live cutoff]
  by simp_all

lemma onNode_steps:
  assumes "onNode f me c = Some (c', x)" "\<And>n n' y. f n = (n', y) \<Longrightarrow> run nodeStep n n'"
  shows "steps c c'"
  using assms(1) assms(2) by (auto simp: onNode_def split: option.splits prod.splits intro: steps_node)

subsection \<open>Requests on one node\<close>

lemma internal_steps:
  "handleInternalPut key body n = (n', status) \<Longrightarrow> run nodeStep n n'"
  "handleInternalChunkPut now random cid data n = (n', status) \<Longrightarrow> run nodeStep n n'"
  "handleInternalChunkGet cid n = (n', r) \<Longrightarrow> run nodeStep n n'"
  by (auto simp: handleInternalPut_def handleInternalChunkPut_def handleInternalChunkGet_def answers run_refl
      split: option.splits prod.splits sum.splits if_splits chunkError.splits intro!: run_one dest: nodeStep_results)

lemma wrapped_steps:
  "internalPut key body n = (n', status) \<Longrightarrow> run nodeStep n n'"
  "internalChunkPut now random cid data n = (n', status) \<Longrightarrow> run nodeStep n n'"
  "internalChunkGet cid n = (n', r) \<Longrightarrow> run nodeStep n n'"
  by (auto simp: internalPut_def internalChunkPut_def internalChunkGet_def run_refl split: if_splits
      intro: internal_steps)

lemma handler_steps:
  "handleInternalKV meth path body n = (n', r) \<Longrightarrow> run nodeStep n n'"
  "handleInternalChunk now random meth path b n = (n', r) \<Longrightarrow> run nodeStep n n'"
  by (auto simp: handleInternalKV_def handleInternalChunk_def Let_def run_refl
      split: if_splits httpMethod.splits prod.splits option.splits intro: internal_steps)

lemma handleDebugKV_steps: "handleDebugKV meth path body n = (n', r) \<Longrightarrow> run nodeStep n n'"
  by (auto simp: handleDebugKV_def handleDebugPut_def Let_def run_refl
      split: if_splits httpMethod.splits option.splits intro: run_one NodeForce)

lemma handleGossipRequest_steps: "handleGossipRequest now meth body n = (n', r) \<Longrightarrow> run nodeStep n n'"
  by (auto simp: handleGossipRequest_def handleGossip_def run_refl split: if_splits option.splits
      intro: run_one NodeMerge)

lemma syncCall_step: "nodeStep n (syncCall now a n)"
  by (cases a) (auto intro: nodeStep.intros)

lemma syncActs_steps: "run nodeStep n (foldl (\<lambda>x a. syncCall now a x) n as)"
proof (induction as arbitrary: n)
  case (Cons a as)
  have "run nodeStep n (syncCall now a n)"
    by (rule run_one) (rule syncCall_step)
  with Cons show ?case
    by (auto intro: run_trans)
qed (simp add: run_refl)

lemma handleMembershipSync_steps: "handleMembershipSync now meth body n = (n', r) \<Longrightarrow> run nodeStep n n'"
  by (auto simp: handleMembershipSync_acts Let_def run_refl split: if_splits option.splits intro: syncActs_steps)

lemma handleGCSweep_steps: "handleGCSweep meth req n = (n', r) \<Longrightarrow> run nodeStep n n'"
  and localGCSweep_steps: "localGCSweep req n = (n', x) \<Longrightarrow> run nodeStep n n'"
proof -
  show l: "localGCSweep req n = (n', x) \<Longrightarrow> run nodeStep n n'" for n' x
    by (auto simp: localGCSweep_def run_refl split: if_splits prod.splits sum.splits
        intro!: run_one dest: nodeStep_results(6))
  show "handleGCSweep meth req n = (n', r) \<Longrightarrow> run nodeStep n n'"
    by (auto simp: handleGCSweep_def run_refl split: if_splits prod.splits sum.splits sweepError.splits dest: l)
qed

end
