(* ===== verification/AtomicWork.thy ===== *)
theory AtomicWork
  imports Atomic
begin

text \<open>
  The operations of the coordinators and the background tasks as sequences of atomic steps.
  The other work that an operation lets in between is assumed to be such a sequence itself.
\<close>

subsection \<open>Replicas of values\<close>

text \<open>
  What the operations on values need of the atomic steps: that the writes, hints and versions they
  are made of are steps, for the keys and values in question and for what arrives of them at
  another node.
\<close>

locale node_work =
  fixes step :: "Node \<Rightarrow> Node \<Rightarrow> bool" and key_ok :: "string \<Rightarrow> bool" and value_ok :: "Value \<Rightarrow> bool"
  assumes set_step: "key_ok key \<Longrightarrow> value_ok v \<Longrightarrow> step n (n\<lparr>store := fst (Set key v (store n))\<rparr>)"
    and hint_step: "key_ok key \<Longrightarrow> value_ok v \<Longrightarrow> step n (n\<lparr>nodeHints := hintAdd replica key v (nodeHints n)\<rparr>)"
    and issue_step: "version n \<le> base \<Longrightarrow> step n (n\<lparr>version := base + 1\<rparr>)"
    and sent_key: "key_ok key \<Longrightarrow> requestKey key = Some k \<Longrightarrow> key_ok k"
    and sent_value: "value_ok v \<Longrightarrow> decodeStream decodeValue (marshalValue v) zeroValue = Some w \<Longrightarrow> value_ok w"
begin

lemma set_result: "Set key v (store n) = (m, x) \<Longrightarrow> key_ok key \<Longrightarrow> value_ok v \<Longrightarrow> step n (n\<lparr>store := m\<rparr>)"
  using set_step [of key v n] by simp

lemma put_runs:
  assumes "internalPut k (marshalValue v) n = (n', out)" "key_ok k" "value_ok v"
  shows "run step n n'"
proof -
  have "run step n (n\<lparr>store := m\<rparr>)"
    if "Set k w (store n) = (m, e)" "decodeStream decodeValue (marshalValue v) zeroValue = Some w" for m e w
    by (rule run_one, rule set_result [OF that(1) assms(2) sent_value [OF assms(3) that(2)]])
  then show ?thesis
    using assms(1)
    by (auto simp: internalPut_def handleInternalPut_def run_refl split: if_splits option.splits prod.splits)
qed

lemma replica_runs:
  assumes "putReplica net me r key v c = (c', ok)" "key_ok key" "value_ok v"
  shows "run (clusterStep step) c c'"
  using assms
  by (auto simp: putReplica_def run_refl split: if_splits option.splits prod.splits rpc.splits
      intro: node_runs run_one dest: set_result put_runs sent_key)

lemma hint_runs: "key_ok key \<Longrightarrow> value_ok v \<Longrightarrow> run (clusterStep step) c (addHint me r key v c)"
  by (auto simp: addHint_def run_refl split: option.split intro!: node_one hint_step)

lemma write_runs:
  "writeLoop net me key v rs c s = (c', s') \<Longrightarrow> key_ok key \<Longrightarrow> value_ok v \<Longrightarrow> run (clusterStep step) c c'"
proof (induction rs arbitrary: c s)
  case (Cons r rs)
  obtain c1 ok where p: "putReplica (net r) me r key v c = (c1, ok)"
    by fastforce
  from replica_runs [OF p] hint_runs [of key v c1 me r] Cons.prems
  have s: "run (clusterStep step) c c1" "run (clusterStep step) c1 (addHint me r key v c1)"
    by blast+
  with Cons p show ?case
    by (cases ok) (auto intro: run_trans)
qed (simp add: run_refl)

lemma replicate_runs:
  "replicateValue arrive net me key v n rs c = (c', ok) \<Longrightarrow> key_ok key \<Longrightarrow> value_ok v \<Longrightarrow> run (clusterStep step) c c'"
  by (auto simp: replicateValue_def split: prod.splits dest: write_runs)

lemma version_runs:
  assumes "nextVersion arrive net me key n rs c = (c', x)" "c me = Some n"
  shows "run (clusterStep step) c c'" "x = Inr v \<Longrightarrow> NodeID v = addr n"
proof -
  let ?base = "if version n > maxCounterOf (readAll net me key (arrive rs) c) then version n
    else maxCounterOf (readAll net me key (arrive rs) c)"
  have "version n \<le> ?base"
    by (simp add: not_less)
  from node_one [where c = c and r = me and S = step, OF assms(2) issue_step [OF this]]
  have "run (clusterStep step) c (c(me \<mapsto> n\<lparr>version := ?base + 1\<rparr>))" .
  moreover have "c' = c \<or> c' = c(me \<mapsto> n\<lparr>version := ?base + 1\<rparr>)"
    using assms(1) unfolding nextVersion_def Let_def by (simp only: split: if_splits) auto
  ultimately show "run (clusterStep step) c c'"
    by (fastforce intro: run_refl)
  show "x = Inr v \<Longrightarrow> NodeID v = addr n"
    using assms(1) by (auto simp: nextVersion_def Let_def split: if_splits)
qed

lemma versioned_runs:
  assumes "writeVersioned arrive net1 net2 me key mk c = Some (c', x)" "key_ok key"
    and "\<And>n v. c me = Some n \<Longrightarrow> NodeID v = addr n \<Longrightarrow> value_ok (mk v)"
  shows "run (clusterStep step) c c'"
proof -
  from assms(1) obtain n rs c1 y where w: "c me = Some n" "nextVersion arrive net1 me key n rs c = (c1, y)"
      "c' = c \<or> c' = c1 \<or> (\<exists>v ok. y = Inr v \<and> replicateValue arrive net2 me key (mk v) n rs c1 = (c', ok))"
    by (auto simp: writeVersioned_def split: option.splits prod.splits sum.splits)
  note r = version_runs [OF w(2,1)]
  have "run (clusterStep step) c1 c'" if "y = Inr v" "replicateValue arrive net2 me key (mk v) n rs c1 = (c', ok)" for v ok
    using replicate_runs [OF that(2) assms(2)] assms(3) [OF w(1) r(2) [OF that(1)]] by blast
  with w(3) r(1) show ?thesis
    by (auto intro: run_trans run_refl)
qed

lemma repair_runs: "key_ok key \<Longrightarrow> value_ok latest \<Longrightarrow> run (clusterStep step) c (repairLoop net me key latest rs c)"
proof (induction net me key latest rs c rule: repairLoop.induct)
  case (2 net me key latest r v found rs c)
  have "run (clusterStep step) c (fst (putReplica (net r) me r key latest c))"
    using 2(3,4) by (rule replica_runs [OF prod.collapse [symmetric]])
  with 2 show ?case
    by (auto intro: run_trans)
qed (simp add: run_refl)

lemma get_runs:
  assumes "NodeGet arrive net1 net2 me key c = Some (c', x)" "key_ok key"
    and "\<And>q v. getReplica (net1 q) me q key c = Some (v, True) \<Longrightarrow> value_ok v"
  shows "run (clusterStep step) c c'"
proof -
  have "value_ok l" if "latestOf (readAll net1 me key rs c) = Some l" for l rs
  proof -
    from latestOf_max [of "readAll net1 me key rs c"] that
    obtain q where "(q, l, True) \<in> set (readAll net1 me key rs c)"
      by auto
    from readAll_entries [OF this] assms(3) show ?thesis
      by blast
  qed
  with assms(1,2) show ?thesis
    by (auto simp: NodeGet_def Let_def run_refl split: option.splits if_splits intro: repair_runs)
qed

end

text \<open>All keys and all values, with all atomic steps.\<close>

interpretation atomic: node_work nodeStep "\<lambda>_. True" "\<lambda>_. True"
  by unfold_locales (auto intro: nodeStep.intros)

lemmas putReplica_steps = atomic.replica_runs [OF _ TrueI TrueI]

lemmas addHint_steps = atomic.hint_runs [OF TrueI TrueI]

lemmas NodeGet_steps = atomic.get_runs [OF _ TrueI TrueI]

lemma NodeWrite_steps:
  "NodePut arrive net1 net2 me key data c = Some (c', x) \<Longrightarrow> steps c c'"
  "NodeDelete arrive net1 net2 me key c = Some (c', x) \<Longrightarrow> steps c c'"
  unfolding NodePut_def NodeDelete_def by (erule atomic.versioned_runs, simp_all)+

lemma handleKV_steps: "handleKV e err me meth path r c = Some (c', x) \<Longrightarrow> steps c c'"
  by (auto simp: handleKV_def handleReplicatedGet_def handleReplicatedPut_def handleReplicatedDelete_def Let_def
      split: if_splits httpMethod.splits option.splits intro: NodeGet_steps NodeWrite_steps)

subsection \<open>Chunks\<close>

lemma putChunkReplica_steps: "putChunkReplica env me r cid data c = (c', ok) \<Longrightarrow> steps c c'"
  by (auto simp: putChunkReplica_def split: if_splits option.splits prod.splits rpc.splits
      intro: steps_node run_one dest: nodeStep_results(3) wrapped_steps(2))

lemma getChunkReplica_steps: "getChunkReplica net me r cid c = (c', x) \<Longrightarrow> steps c c'"
  by (auto simp: getChunkReplica_def split: if_splits option.splits prod.splits rpc.splits
      intro: steps_node run_one dest: nodeStep_results(4) wrapped_steps(3))

lemma putChunkLoop_steps: "putChunkLoop env me cid data rs c s = (c', s') \<Longrightarrow> steps c c'"
proof (induction rs arbitrary: c s)
  case (Cons r rs)
  obtain c1 ok where p: "putChunkReplica (env r) me r cid data c = (c1, ok)"
    by fastforce
  with Cons show ?case
    by (auto intro: run_trans [OF putChunkReplica_steps [OF p]])
qed simp

lemma PutChunk_steps: "PutChunk arrive env me data c = Some (c', x) \<Longrightarrow> steps c c'"
  by (auto simp: PutChunk_def Let_def split: option.splits if_splits prod.splits dest: putChunkLoop_steps)

lemma getChunkLoop_steps: "getChunkLoop net me cid rs c = (c', x) \<Longrightarrow> steps c c'"
proof (induction rs arbitrary: c)
  case (Cons r rs)
  obtain c1 y where p: "getChunkReplica (net r) me r cid c = (c1, y)"
    by fastforce
  note s = getChunkReplica_steps [OF p]
  show ?case
  proof (cases y)
    case None
    with Cons p s show ?thesis by (auto intro: run_trans)
  next
    case (Some d)
    with Cons p s show ?thesis by (auto intro: run_trans split: if_splits)
  qed
qed simp

lemma GetChunk_steps: "GetChunk net me cid c = Some (c', x) \<Longrightarrow> steps c c'"
  by (auto simp: GetChunk_def split: option.splits if_splits prod.splits dest: getChunkLoop_steps)

lemma repairChunk_steps: "steps c (repairChunk net env me cid data source rs c)"
proof (induction rs arbitrary: c)
  case (Cons r rs)
  obtain c1 y where p: "getChunkReplica (net r) me r cid c = (c1, y)"
    by fastforce
  have "steps c1 (fst (putChunkReplica (env r) me r cid data c1))"
    by (rule putChunkReplica_steps [OF prod.collapse [symmetric]])
  with Cons getChunkReplica_steps [OF p] p show ?case
    by (auto split: option.split intro: run_trans)
qed simp

subsection \<open>Objects\<close>

text \<open>A call of an interface whose result lies steps ahead.\<close>

definition ahead :: "world \<Rightarrow> world \<Rightarrow> bool" where
  "ahead w w' \<longleftrightarrow> steps (clu w) (clu w')"

lemma ahead_refl [simp]: "ahead w w"
  by (simp add: ahead_def)

lemma ahead_trans: "ahead w x \<Longrightarrow> ahead x y \<Longrightarrow> ahead w y"
  by (auto simp: ahead_def intro: run_trans)

lemma node_ahead:
  "nodePutChunk s me d w = (w', x1) \<Longrightarrow> ahead w w'"
  "nodeGetChunk s me cid w = (w', x2) \<Longrightarrow> ahead w w'"
  "nodeMetaPut s me key d w = (w', x3) \<Longrightarrow> ahead w w'"
  "nodeMetaGet s me key w = (w', x4) \<Longrightarrow> ahead w w'"
  "nodeMetaDelete s me key w = (w', x5) \<Longrightarrow> ahead w w'"
  by (auto simp: nodePutChunk_def nodeGetChunk_def nodeMetaPut_def nodeMetaGet_def nodeMetaDelete_def answer_def
      acknowledge_def later_def ahead_def split: option.splits prod.splits sum.splits
      intro: PutChunk_steps GetChunk_steps NodeWrite_steps NodeGet_steps)

lemma objectLoop_ahead:
  assumes "objectLoop putChunk n r infos w = (w', x)" "\<forall>d w w' y. putChunk d w = (w', y) \<longrightarrow> ahead w w'"
  shows "ahead w w'"
  using assms
proof (induction putChunk n r infos w rule: objectLoop.induct)
  case (1 putChunk n r infos w)
  obtain r' data e where rd: "readUpTo n r = (r', data, e)"
    by (metis prod_cases3)
  obtain t y where p: "putChunk data w = (t, y)"
    by fastforce
  with 1(3) have a: "ahead w t"
    by blast
  show ?case
  proof (cases "n = 0 \<or> e = Some EOF \<or> e \<noteq> None \<and> e \<noteq> Some UnexpectedEOF")
    case True
    with 1(2) rd show ?thesis
      by (auto simp: objectLoop.simps [of putChunk n] split: if_splits)
  next
    case False
    show ?thesis
    proof (cases y)
      case (Inl z)
      with 1(2) rd p a False show ?thesis
        by (auto simp: objectLoop.simps [of putChunk n])
    next
      case (Inr cid)
      let ?infos = "infos @ [\<lparr>InfoID = cid, InfoSize = int (length data)\<rparr>]"
      show ?thesis
      proof (cases "e = Some UnexpectedEOF")
        case True
        with 1(2) rd p a False Inr show ?thesis
          by (auto simp: objectLoop.simps [of putChunk n])
      next
        case more: False
        with False have lo: "objectLoop putChunk n r' ?infos t = (w', x)"
          using 1(2) rd p Inr by (simp add: objectLoop.simps [of putChunk n] Let_def)
        have nf: "n \<noteq> 0" "e \<noteq> Some EOF" "\<not> (e \<noteq> None \<and> e \<noteq> Some UnexpectedEOF)"
          using False by auto
        from 1(1) [OF nf(1) rd [symmetric] refl nf(2,3) p [symmetric] Inr refl more lo 1(3)] a show ?thesis
          by (rule ahead_trans [rotated])
      qed
    qed
  qed
qed

lemma objectWriteLoop_ahead:
  assumes "objectWriteLoop getChunk infos z k w = (w', k', x)" "\<forall>cid w w' y. getChunk cid w = (w', y) \<longrightarrow> ahead w w'"
  shows "ahead w w'"
  using assms(1)
proof (induction infos arbitrary: z k w)
  case (Cons i infos)
  obtain w1 y where g: "getChunk (InfoID i) w = (w1, y)"
    by fastforce
  with assms(2) have a: "ahead w w1"
    by blast
  with Cons g show ?case
    by (auto split: sum.splits if_splits prod.splits intro: ahead_trans)
qed simp

lemma handleObject_ahead: "handleObject s me err outcomes meth path r w = (w', x) \<Longrightarrow> ahead w w'"
proof -
  have l: "objectLoop (nodePutChunk s me) n r is w = (w', y) \<Longrightarrow> ahead w w'" for n r "is" w w' y
    by (rule objectLoop_ahead) (auto dest: node_ahead(1))
  have g: "objectWriteLoop (nodeGetChunk s me) is z k w = (w', k', y) \<Longrightarrow> ahead w w'" for "is" z k w w' k' y
    by (rule objectWriteLoop_ahead) (auto dest: node_ahead(2))
  show "handleObject s me err outcomes meth path r w = (w', x) \<Longrightarrow> ahead w w'"
    by (auto simp: handleObject_def handleObjectPut_def handleObjectGet_def handleObjectDelete_def ObjectPut_def
        ObjectGet_def ObjectDelete_def ObjectMetadata_def WriteTo_def writeChunks_def Let_def
        split: if_splits httpMethod.splits prod.splits sum.splits option.splits
        intro: ahead_trans dest!: l g node_ahead(3-5))
qed

end
