(* ===== verification/AtomicService.thy ===== *)
theory AtomicService
  imports AtomicWork
begin

text \<open>
  Moves of data, changes of the membership, garbage collection, the background tasks and the
  service of a node as sequences of atomic steps.
\<close>

definition runWorks :: "run \<Rightarrow> bool" where
  "runWorks e \<longleftrightarrow> (\<forall>k r c. steps c (meanwhile e k r c))"

lemma runWorks_steps: "runWorks e \<Longrightarrow> steps c (meanwhile e k r c)"
  by (simp add: runWorks_def)

subsection \<open>Rebalance\<close>

lemma copyLoop_steps:
  "copyLoop e me key v rs c res ok = (c', out) \<Longrightarrow> runWorks e \<Longrightarrow> steps c c'"
proof (induction rs arbitrary: c res ok)
  case (Cons r rs)
  obtain c1 b where p: "putReplica (requests e key r) me r key v (meanwhile e key r c) = (c1, b)"
    by fastforce
  have s: "steps c c1"
    by (rule run_trans [OF runWorks_steps [OF Cons.prems(2)] putReplica_steps [OF p]])
  have "steps c (addHint me r key v c1)"
    by (rule run_trans [OF s addHint_steps])
  with Cons p s show ?case
    by (cases b) (auto split: if_splits intro: run_trans)
qed simp

lemma cleanLocal_steps: "cleanLocal me key ver c = (c', x) \<Longrightarrow> steps c c'"
  by (cases x) (auto simp: cleanLocal_def split: option.splits prod.splits intro: steps_one dest: nodeStep_results(2))

lemma rebalanceKeys_steps:
  "rebalanceKeys e me snap keys c res = Some (c', out) \<Longrightarrow> runWorks e \<Longrightarrow> steps c c'"
proof (induction keys arbitrary: c res)
  case (Cons key keys)
  from Cons.prems(1) obtain n rs where n: "c me = Some n" "replicasFor key n = Some rs"
    by (auto split: option.splits)
  obtain c1 res1 b where p: "copyLoop e me key (the (snap key)) rs c res True = (c1, res1, b)"
    by (metis prod_cases3)
  note s1 = copyLoop_steps [OF p Cons.prems(2)]
  obtain c2 cleaned err where q: "cleanLocal me key (VersionOf (the (snap key))) (meanwhile e key me c1) = (c2, cleaned, err)"
    by (metis prod_cases3)
  have s2: "steps c c2"
    by (rule run_trans [OF s1 run_trans [OF runWorks_steps [OF Cons.prems(2)] cleanLocal_steps [OF q]]])
  from Cons n p q s1 s2 show ?case
    by (auto simp: Let_def split: if_splits intro: run_trans)
qed simp

lemma copyChunkLoop_steps:
  "copyChunkLoop e me cid data rs c a b = (c', out) \<Longrightarrow> runWorks e \<Longrightarrow> steps c c'"
proof (induction rs arbitrary: c a b)
  case (Cons r rs)
  obtain c1 ok where p: "putChunkReplica (chunkRequests e cid r) me r cid data (meanwhile e cid r c) = (c1, ok)"
    by fastforce
  have "steps c c1"
    by (rule run_trans [OF runWorks_steps [OF Cons.prems(2)] putChunkReplica_steps [OF p]])
  with Cons p show ?case
    by (auto split: if_splits intro: run_trans)
qed simp

lemma rebalanceChunkIDs_steps:
  "rebalanceChunkIDs e me ids c a b = Some (c', out) \<Longrightarrow> runWorks e \<Longrightarrow> steps c c'"
proof (induction ids arbitrary: c a b)
  case (Cons cid ids)
  from Cons.prems(1) obtain n where n: "c me = Some n"
    by (auto split: option.splits)
  obtain s x where g: "chunkGet cid (chunks n) = (s, x)"
    by fastforce
  have s: "steps c (c(me \<mapsto> n\<lparr>chunks := s\<rparr>))"
    by (rule steps_one [where c = c and r = me, OF n nodeStep_results(4) [OF g]])
  show ?case
  proof (cases x)
    case (Inl y)
    with Cons.prems(1) n g have "rebalanceChunkIDs e me ids (c(me \<mapsto> n\<lparr>chunks := s\<rparr>)) a (b + 1) = Some (c', out)"
      by simp
    from run_trans [OF s Cons.IH [OF this Cons.prems(2)]] show ?thesis .
  next
    case (Inr data)
    with Cons.prems(1) n g obtain rs where rs: "replicasFor cid n = Some rs"
      by (auto split: option.splits)
    obtain c1 a1 b1 where p: "copyChunkLoop e me cid data rs (c(me \<mapsto> n\<lparr>chunks := s\<rparr>)) a b = (c1, a1, b1)"
      by (metis prod_cases3)
    with Cons.prems(1) n g Inr rs have "rebalanceChunkIDs e me ids c1 a1 b1 = Some (c', out)"
      by simp
    from Cons.IH [OF this Cons.prems(2)] copyChunkLoop_steps [OF p Cons.prems(2)] s show ?thesis
      by (blast intro: run_trans)
  qed
qed simp

lemma rebalanceChunks_steps:
  assumes "rebalanceChunks e me c = Some (c', out)" "runWorks e"
  shows "steps c c'"
proof -
  from assms(1) obtain n where n: "c me = Some n"
    by (auto simp: rebalanceChunks_def split: option.splits)
  obtain s x where g: "chunkIDs (chunks n) = (s, x)"
    by fastforce
  have s: "steps c (c(me \<mapsto> n\<lparr>chunks := s\<rparr>))"
    by (rule steps_one [where c = c and r = me, OF n nodeStep_results(5) [OF g]])
  with assms n g show ?thesis
    by (cases x) (auto simp: rebalanceChunks_def intro: run_trans dest: rebalanceChunkIDs_steps)
qed

lemma rebalance_steps: "rebalance e me c = Some (c', out) \<Longrightarrow> runWorks e \<Longrightarrow> steps c c'"
  by (auto simp: rebalance_def Let_def split: option.splits
      intro: run_trans dest!: rebalanceKeys_steps rebalanceChunks_steps)

lemma rebalanceRequest_steps:
  "handleRebalance e me meth c = Some (c', r) \<Longrightarrow> runWorks e \<Longrightarrow> steps c c'"
  "sendRebalance e net t c = Some (c', x) \<Longrightarrow> runWorks e \<Longrightarrow> steps c c'"
  by (auto simp: handleRebalance_def sendRebalance_def split: if_splits intro: rebalance_steps)

subsection \<open>Drain\<close>

lemma drainKey_steps: "drainKey e me key v rs c = (c', x) \<Longrightarrow> runWorks e \<Longrightarrow> steps c c'"
proof (induction rs arbitrary: c)
  case (Cons r rs)
  obtain c1 ok where p: "putReplica (requests e key r) me r key v (meanwhile e key r c) = (c1, ok)"
    by fastforce
  have "steps c c1"
    by (rule run_trans [OF runWorks_steps [OF Cons.prems(2)] putReplica_steps [OF p]])
  with Cons p show ?case
    by (auto split: if_splits intro: run_trans)
qed simp

lemma drainKeys_steps: "drainKeys e me future snap keys c = Some (c', x) \<Longrightarrow> runWorks e \<Longrightarrow> steps c c'"
proof (induction keys arbitrary: c)
  case (Cons key keys)
  from Cons.prems(1) obtain n rs where n: "c me = Some n" "replicasForRing future key n = Some rs"
    by (auto split: option.splits)
  obtain c1 y where p: "drainKey e me key (the (snap key)) rs c = (c1, y)"
    by fastforce
  from Cons n p drainKey_steps [OF p Cons.prems(2)] show ?case
    by (cases y) (auto intro: run_trans)
qed simp

lemma drainChunk_steps: "drainChunk e me cid data rs c = (c', x) \<Longrightarrow> runWorks e \<Longrightarrow> steps c c'"
proof (induction rs arbitrary: c)
  case (Cons r rs)
  obtain c1 ok where p: "putChunkReplica (chunkRequests e cid r) me r cid data (meanwhile e cid r c) = (c1, ok)"
    by fastforce
  have "steps c c1"
    by (rule run_trans [OF runWorks_steps [OF Cons.prems(2)] putChunkReplica_steps [OF p]])
  with Cons p show ?case
    by (auto split: if_splits intro: run_trans)
qed simp

lemma drainChunkIDs_steps: "drainChunkIDs e me future ids c = Some (c', x) \<Longrightarrow> runWorks e \<Longrightarrow> steps c c'"
proof (induction ids arbitrary: c)
  case (Cons cid ids)
  from Cons.prems(1) obtain n where n: "c me = Some n"
    by (auto split: option.splits)
  obtain s y where g: "chunkGet cid (chunks n) = (s, y)"
    by fastforce
  have s: "steps c (c(me \<mapsto> n\<lparr>chunks := s\<rparr>))"
    by (rule steps_one [where c = c and r = me, OF n nodeStep_results(4) [OF g]])
  show ?case
  proof (cases y)
    case (Inl z)
    with Cons.prems(1) n g s show ?thesis
      by simp
  next
    case (Inr data)
    with Cons.prems(1) n g obtain rs where rs: "replicasForRing future cid n = Some rs"
      by (auto split: option.splits)
    obtain c1 z where p: "drainChunk e me cid data rs (c(me \<mapsto> n\<lparr>chunks := s\<rparr>)) = (c1, z)"
      by fastforce
    have s1: "steps c c1"
      by (rule run_trans [OF s drainChunk_steps [OF p Cons.prems(2)]])
    with Cons n g Inr rs p show ?thesis
      by (cases z) (auto intro: run_trans)
  qed
qed simp

lemma drain_steps:
  assumes "drain e me ms c = Some (c', x)" "runWorks e"
  shows "steps c c'"
proof -
  from assms(1) obtain n where n: "c me = Some n"
    by (auto simp: drain_def split: option.splits)
  let ?f = "newRing ms (ringVirtualNodes n)"
  from assms(1) n obtain c1 y where k: "drainKeys e me ?f (memSnapshot (store n)) (keyOrder e) c = Some (c1, y)"
    by (auto simp: drain_def Let_def split: option.splits)
  note s1 = drainKeys_steps [OF k assms(2)]
  show ?thesis
  proof (cases y)
    case (Some z)
    with assms(1) n k s1 show ?thesis
      by (simp add: drain_def Let_def)
  next
    case None
    with assms(1) n k obtain n1 where n1: "c1 me = Some n1"
      by (auto simp: drain_def Let_def split: option.splits)
    obtain s z where g: "chunkIDs (chunks n1) = (s, z)"
      by fastforce
    have "steps c1 (c1(me \<mapsto> n1\<lparr>chunks := s\<rparr>))"
      by (rule steps_one [where c = c1 and r = me, OF n1 nodeStep_results(5) [OF g]])
    with s1 have s2: "steps c (c1(me \<mapsto> n1\<lparr>chunks := s\<rparr>))"
      by (rule run_trans)
    with assms n k None n1 g show ?thesis
      by (cases z) (auto simp: drain_def Let_def intro: run_trans dest: drainChunkIDs_steps)
  qed
qed

lemma drainRequest_steps:
  "handleDrain e err me meth body c = Some (c', r) \<Longrightarrow> runWorks e \<Longrightarrow> steps c c'"
  "sendDrain e err net t ms c = Some (c', x) \<Longrightarrow> runWorks e \<Longrightarrow> steps c c'"
  by (auto simp: handleDrain_def sendDrain_def split: if_splits option.splits intro: drain_steps)

subsection \<open>Changes of the membership\<close>

definition changeWorks :: "change \<Rightarrow> bool" where
  "changeWorks e \<longleftrightarrow> (\<forall>t. runWorks (moveRun e t)) \<and> runWorks (drainRun e)
     \<and> (\<forall>t c. steps c (besides e t c) \<and> steps c (undoBesides e t c))"

lemma sendMembershipSync_steps: "sendMembershipSync net now t cfg c = (c', ok) \<Longrightarrow> steps c c'"
  by (auto simp: sendMembershipSync_def split: rpc.splits option.splits prod.splits
      intro: steps_node dest: handleMembershipSync_steps)

lemma undoLoop_steps: "changeWorks e \<Longrightarrow> steps c (undoLoop e rollback ts c)"
proof (induction ts arbitrary: c)
  case (Cons t ts)
  let ?c = "undoBesides e t c"
  have "steps ?c (fst (sendMembershipSync (undoNet e t) (clock e t) t rollback ?c))"
    by (rule sendMembershipSync_steps [OF prod.collapse [symmetric]])
  moreover have "steps c ?c"
    using Cons.prems by (simp add: changeWorks_def)
  ultimately show ?case
    using Cons by (auto intro: run_trans)
qed simp

lemma compensateClusterConfig_steps:
  assumes "changeWorks e"
  shows "steps c (compensateClusterConfig e me ts previous ver c)"
proof -
  let ?c1 = "undoLoop e \<lparr>ConfVersion = ver, ConfMembers = ConfMembers previous\<rparr> ts c"
  let ?c = "undoBesides e me ?c1"
  have u: "steps c ?c1"
    by (rule undoLoop_steps [OF assms])
  have "steps ?c1 ?c"
    using assms by (simp add: changeWorks_def)
  with u have "steps c ?c"
    by (rule run_trans)
  moreover have "steps ?c (?c(me := map_option (\<lambda>n. n\<lparr>configVersion := ver\<rparr>) (?c me)))"
    by (cases "?c me") (auto simp: fun_upd_idem intro: steps_one NodeConfig)
  ultimately show ?thesis
    using u by (auto simp: compensateClusterConfig_def Let_def intro: run_trans)
qed

lemma syncLoop_steps: "syncLoop e cfg applied ts c = (c', x) \<Longrightarrow> changeWorks e \<Longrightarrow> steps c c'"
proof (induction ts arbitrary: applied c)
  case (Cons t ts)
  obtain c1 ok where p: "sendMembershipSync (syncNet e t) (clock e t) t cfg (besides e t c) = (c1, ok)"
    by fastforce
  have "steps c (besides e t c)"
    using Cons.prems(2) by (simp add: changeWorks_def)
  with sendMembershipSync_steps [OF p] have "steps c c1"
    by (blast intro: run_trans)
  with Cons p show ?case
    by (auto split: if_splits intro: run_trans)
qed simp

lemma moveLoop_steps: "moveLoop e ts c = Some (c', x) \<Longrightarrow> changeWorks e \<Longrightarrow> steps c c'"
proof (induction ts arbitrary: c)
  case (Cons t ts)
  from Cons.prems(1) obtain c1 y where p: "sendRebalance (moveRun e t) (moveNet e t) t c = Some (c1, y)"
    by (auto split: option.splits)
  with Cons rebalanceRequest_steps(2) [OF p] show ?case
    by (cases y) (auto simp: changeWorks_def intro: run_trans)
qed simp

lemma applyClusterConfig_steps:
  "applyClusterConfig e me ts previous next' c = Some (c', x) \<Longrightarrow> changeWorks e \<Longrightarrow> steps c c'"
  by (auto simp: applyClusterConfig_def split: prod.splits option.splits
      intro: run_trans [OF _ compensateClusterConfig_steps] run_trans dest!: syncLoop_steps moveLoop_steps)

lemma AddMember_steps: "AddMember e me m c = Some (c', x) \<Longrightarrow> changeWorks e \<Longrightarrow> steps c c'"
  by (auto simp: AddMember_def Let_def split: option.splits if_splits dest: applyClusterConfig_steps)

lemma RemoveMember_steps:
  assumes "RemoveMember e err me m c = Some (c', x)" "changeWorks e"
  shows "steps c c'"
proof -
  have "runWorks (drainRun e)"
    using assms(2) by (simp add: changeWorks_def)
  with assms show ?thesis
    by (auto simp: RemoveMember_def Let_def split: option.splits if_splits bool.splits
        intro: run_trans dest!: applyClusterConfig_steps drainRequest_steps(2))
qed

lemma handleAdminMember_steps:
  "handleAdminMember e drainErr err me meth body c = Some (c', r) \<Longrightarrow> changeWorks e \<Longrightarrow> steps c c'"
  by (auto simp: handleAdminMember_def handleAdminAddMember_def handleAdminRemoveMember_def
      split: httpMethod.splits if_splits option.splits intro: AddMember_steps RemoveMember_steps)

end
