(* ===== verification/NodeStart.thy ===== *)
theory NodeStart
  imports Replication MemoryWrites ChunkProps
begin

text \<open>
  Start and stop of a node, \<open>internal/node/node.go\<close> with \<open>Close\<close> of the store and its log: \<open>New\<close>
  opens the files of the store and the directory of the chunks and puts everything else in its
  first state.  The clock and its nanoseconds are arguments.
\<close>

datatype startError = StartMemory memoryError | StartChunks chunkError

definition NodeNew ::
  "string \<Rightarrow> string list \<Rightarrow> string \<Rightarrow> osFile \<Rightarrow> fileSystem \<Rightarrow> chunkStore \<Rightarrow> int \<Rightarrow> u64 \<Rightarrow> startError + Node" where
  "NodeNew address peers walPath walFile fs dir now unixNano =
     (case OpenMemory walFile fs (walPath @ ''.snapshot'') of
        Inl e \<Rightarrow> Inl (StartMemory e)
      | Inr memory \<Rightarrow>
          case chunkOpen (walPath @ ''.chunks'') dir of
            (s, Some e) \<Rightarrow> Inl (StartChunks e)
          | (s, None) \<Rightarrow>
              Inr \<lparr>addr = address, ring = newRing peers 100, store = memory, replicas = 3, writeQuorum = 2,
                   readQuorum = 2, version = memMaxVersionCounter memory, nodeHints = newHintStore, chunks = s,
                   ringVirtualNodes = 100, configVersion = 0,
                   detector = newFailureDetector peers address now unixNano\<rparr>)"

definition WALClose :: "WAL \<Rightarrow> WAL \<times> ioError option" where
  "WALClose w =
     (case nextFault (wfile w) of
        (Fine, f) \<Rightarrow> (w\<lparr>wfile := f\<rparr>, None) | (Fails _, f) \<Rightarrow> (w\<lparr>wfile := f\<rparr>, Some OSError))"

definition MemClose :: "Memory \<Rightarrow> Memory \<times> ioError option" where
  "MemClose m =
     (case wal m of
        None \<Rightarrow> (m, None)
      | Some w \<Rightarrow> (case WALClose w of (w', e) \<Rightarrow> (m\<lparr>wal := Some w'\<rparr>, e)))"

definition NodeClose :: "Node \<Rightarrow> Node \<times> ioError option" where
  "NodeClose n = (case MemClose (store n) of (m, e) \<Rightarrow> (n\<lparr>store := m\<rparr>, e))"

definition NodeSaveSnapshot :: "Node \<Rightarrow> Node \<times> memoryError option" where
  "NodeSaveSnapshot n = (case SaveSnapshot (store n) of (m, e) \<Rightarrow> (n\<lparr>store := m\<rparr>, e))"

lemma NodeNew_cases:
  assumes "NodeNew address peers walPath walFile fs dir now unixNano = Inr n"
  obtains memory where "OpenMemory walFile fs (walPath @ ''.snapshot'') = Inr memory"
    "chunkFiles (chunks n) = chunkFiles dir" "store n = memory" "version n = maxVersionCounter memory"
    "addr n = address" "ring n = newRing peers 100" "replicas n = 3" "writeQuorum n = 2" "readQuorum n = 2"
    "nodeHints n = newHintStore" "configVersion n = 0" "detector n = newFailureDetector peers address now unixNano"
  using assms
  by (auto simp: NodeNew_def chunkOpen_def plainCall_def chunkCall_def
      split: sum.splits prod.splits option.splits if_splits list.splits fault.splits)

text \<open>C37. A restart brings back what was acknowledged and forgets the rest: with the files of a node in a
  state its store can reach, \<open>New\<close> succeeds once the calls do, and the node has the same values, the
  same chunks and a version counter that no stored value exceeds; but it has no hints, and the
  configuration of its command line under version 0, whatever configuration it had.\<close>
theorem restart_recovers:
  assumes "reachable memInit memStep (store n)" "calls (disk (store n)) = []" "wal (store n) = Some w"
    and "snapshotPath (store n) = path @ ''.snapshot''" "chunkCalls dir = []" "chunkFiles dir = chunkFiles (chunks n)"
  shows "\<exists>n'. NodeNew a ms path (openFile (content (wfile w)) []) (disk (store n)) dir now nano = Inr n'
    \<and> memData (store n') = memData (store n) \<and> chunkFiles (chunks n') = chunkFiles (chunks n)
    \<and> (\<forall>k v. memData (store n') k = Some v \<longrightarrow> Counter (VersionOf v) \<le> version n')
    \<and> nodeHints n' = newHintStore \<and> configVersion n' = 0 \<and> ring n' = newRing ms 100"
proof -
  obtain m where o: "OpenMemory (openFile (content (wfile w)) []) (disk (store n)) (path @ ''.snapshot'') = Inr m"
      "memData m = memData (store n)" "maxVersionCounter m = maxVersionCounter (store n)"
    using memory_reopened [OF assms(1,2)] assms(3,4) by auto
  have "chunkOpen (path @ ''.chunks'') dir = (dir, None)"
    using assms(5) by (simp add: chunkOpen_def plainCall_def chunkCall_def)
  with o assms(6) counter.reachable_inv [OF assms(1)] show ?thesis
    by (auto simp: NodeNew_def bounded_def)
qed

definition noChunks :: chunkStore where
  "noChunks = \<lparr>chunkFiles = Map.empty, chunkCalls = []\<rparr>"

definition startedNode :: "string \<Rightarrow> string list \<Rightarrow> Node" where
  "startedNode a ms =
     \<lparr>addr = a, ring = newRing ms 100, store = openedMemory, replicas = 3, writeQuorum = 2, readQuorum = 2, version = 0,
      nodeHints = newHintStore, chunks = noChunks, ringVirtualNodes = 100, configVersion = 0,
      detector = newFailureDetector ms a 0 1\<rparr>"

lemma NodeNew_started: "NodeNew a ms ''w'' (openFile [] []) emptyDisk noChunks 0 1 = Inr (startedNode a ms)"
  using OpenMemory_new
  by (simp add: NodeNew_def startedNode_def chunkOpen_def plainCall_def chunkCall_def noChunks_def)
     (simp add: openedMemory_def)

lemma restart_recovers_witness:
  "\<exists>m n'. Set ''k'' valueA openedMemory = (m, None)
    \<and> NodeNew ''a'' [''a''] ''w'' (openFile (content (wfile (the (wal m)))) []) (disk m) noChunks 5 6 = Inr n'
    \<and> memData (store n') = [''k'' \<mapsto> valueA] \<and> configVersion n' = 0"
proof -
  obtain m w where m: "Set ''k'' valueA openedMemory = (m, None)" "memData m = [''k'' \<mapsto> valueA]"
      "wal m = Some w" "disk m = emptyDisk" "snapshotPath m = ''w.snapshot''"
    using Set_valueA by blast
  let ?n = "(startedNode ''a'' [''a''])\<lparr>store := m\<rparr>"
  have "reachable memInit memStep (store ?n)"
    using openedMemory_Set m(1) by simp
  from restart_recovers [of ?n w "''w''" noChunks "''a''" "[''a'']" 5 6, OF this] m show ?thesis
    by (auto simp: emptyDisk_def startedNode_def noChunks_def)
qed

end
