(* ===== verification/Background.thy ===== *)
theory Background
  imports NodeStart HandOff Probe
begin

text \<open>
  The process of a node: the tasks that \<open>internal/node/background.go\<close> runs beside the handlers,
  and what \<open>cmd/node/main.go\<close> makes of its command line.  Every task is a goroutine of its own
  that waits for its ticker or for the end of the context; an event says which of the two a task
  saw, with everything the run of the task depends on.  Between two events of a task the others
  run, so that a run of the process is a sequence of events of all tasks.
\<close>

subsection \<open>Tasks\<close>

record 'e backgroundTask =
  taskName :: string
  taskSeconds :: nat
  taskRun :: "'e \<Rightarrow> cluster \<Rightarrow> cluster \<times> string option"

datatype 'e taskEvent = Ticked 'e | Cancelled

text \<open>A task may panic: the panic is logged, and what the task did before it stays.\<close>

fun runPeriodicTask ::
  "('e \<Rightarrow> cluster \<Rightarrow> cluster \<times> string option) \<Rightarrow> 'e taskEvent list \<Rightarrow> cluster \<Rightarrow> cluster \<times> string list" where
  "runPeriodicTask task [] c = (c, [])"
| "runPeriodicTask task (Cancelled # es) c = (c, [])"
| "runPeriodicTask task (Ticked e # es) c =
     (case task e c of
        (c1, p) \<Rightarrow> (case runPeriodicTask task es c1 of
          (c2, logged) \<Rightarrow> (c2, (case p of None \<Rightarrow> logged | Some r \<Rightarrow> r # logged))))"

record taskInput =
  flushReplies :: "string \<Rightarrow> string \<Rightarrow> rpc"
  flushOrder :: "string list"
  probeInput :: probeRun
  probeClock :: int
  gossipInput :: gossipRun

definition backgroundTasks :: "string \<Rightarrow> taskInput backgroundTask list" where
  "backgroundTasks me =
     [\<lparr>taskName = ''hint handoff'', taskSeconds = 2,
       taskRun = (\<lambda>e c. (NodeFlush (flushReplies e) (flushOrder e) me c, None))\<rparr>,
      \<lparr>taskName = ''failure detector'', taskSeconds = 1,
       taskRun = (\<lambda>e c. (probeOnce (probeInput e) (probeClock e) me c, None))\<rparr>,
      \<lparr>taskName = ''gossip'', taskSeconds = 2,
       taskRun = (\<lambda>e c. (gossipOnce (gossipInput e) me c, None))\<rparr>]"

text \<open>
  The tasks side by side: an event names the goroutine it happens to, by its place in the list.
  \<open>live\<close> says which goroutines have not returned.
\<close>

fun runTasks ::
  "'e backgroundTask list \<Rightarrow> nat set \<Rightarrow> (nat \<times> 'e taskEvent) list \<Rightarrow> cluster \<Rightarrow> cluster" where
  "runTasks tasks live [] c = c"
| "runTasks tasks live ((i, Cancelled) # es) c = runTasks tasks (live - {i}) es c"
| "runTasks tasks live ((i, Ticked e) # es) c =
     runTasks tasks live es (if i \<in> live \<and> i < length tasks then fst (taskRun (tasks ! i) e c) else c)"

definition RunBackground :: "string \<Rightarrow> (nat \<times> taskInput taskEvent) list \<Rightarrow> cluster \<Rightarrow> cluster" where
  "RunBackground me es c =
     (let tasks = backgroundTasks me in runTasks tasks {..<length tasks} es c)"

lemma runTasks_stopped: "runTasks tasks {} es c = c"
  by (induction tasks "{} :: nat set" es c rule: runTasks.induct) auto

text \<open>When only one goroutine has events, the tasks side by side are that goroutine.\<close>

lemma runTasks_single:
  assumes "i \<in> live" "i < length tasks" "list_all (\<lambda>e. fst e = i) es"
  shows "runTasks tasks live es c = fst (runPeriodicTask (taskRun (tasks ! i)) (map snd es) c)"
  using assms
proof (induction tasks live es c rule: runTasks.induct)
  case (2 tasks live j es c)
  have "runTasks tasks (live - {i}) fs c = c" if "list_all (\<lambda>e. fst e = i) fs" for fs
    using that
  proof (induction fs)
    case (Cons f fs)
    then show ?case by (cases f rule: prod.exhaust; cases "snd f") auto
  qed simp
  with 2 show ?case by simp
next
  case (3 tasks live j e es c)
  then show ?case by (auto split: prod.split)
qed simp

subsection \<open>Command line\<close>

fun splitComma :: "string \<Rightarrow> string list" where
  "splitComma [] = [[]]"
| "splitComma (c # r) =
     (if c = CHR '','' then [] # splitComma r
      else case splitComma r of [] \<Rightarrow> [[c]] | s # ss \<Rightarrow> (c # s) # ss)"

definition walFlag :: "string \<Rightarrow> string \<Rightarrow> string" where
  "walFlag address walPath =
     (if walPath = [] then ''minidist-'' @ map (\<lambda>c. if c = CHR '':'' then CHR ''_'' else c) address @ ''.wal''
      else walPath)"

text \<open>\<open>opened\<close> is what the paths of the log, of the snapshot and of the chunks hold.\<close>

definition startMain ::
  "string \<Rightarrow> string \<Rightarrow> string \<Rightarrow> (string \<Rightarrow> osFile \<times> fileSystem \<times> chunkStore) \<Rightarrow> int \<Rightarrow> u64 \<Rightarrow> startError + Node" where
  "startMain address peerList walPath opened now nano =
     (let nodes = splitComma peerList; path = walFlag address walPath
      in case opened path of (w, fs, dir) \<Rightarrow> NodeNew address nodes path w fs dir now nano)"

lemma splitComma_nonempty: "splitComma s \<noteq> []"
  by (induction s) (auto split: list.split)

text \<open>An empty list of members is a list with the empty name.\<close>

lemma splitComma_join:
  "list_all (\<lambda>s. CHR '','' \<notin> set s) ss \<Longrightarrow> ss \<noteq> []
     \<Longrightarrow> splitComma (concat (map (\<lambda>s. s @ '','') (butlast ss)) @ last ss) = ss"
proof (induction ss)
  case (Cons s ss)
  have plain: "splitComma (s @ '','' @ r) = s # splitComma r" "splitComma s = [s]" if "CHR '','' \<notin> set s" for s r
    using that by (induction s) auto
  with Cons show ?case by auto
qed simp

end
