(* ===== verification/Process.thy ===== *)
theory Process
  imports Background Service
begin

text \<open>
  The process of a node from its command line to its end, \<open>main\<close> of \<open>cmd/node/main.go\<close>: the flags,
  the start of the node, the background tasks and requests it works on, and the two ways in which
  it ends, by a signal or because the server stopped.  The texts of the log are not modelled.
\<close>

subsection \<open>Flags\<close>

record mainFlags =
  addrFlag :: string
  clusterFlag :: string
  walPathFlag :: string

definition defaultFlags :: mainFlags where
  "defaultFlags =
     \<lparr>addrFlag = ''127.0.0.1:8081'', clusterFlag = ''127.0.0.1:8081,127.0.0.1:8082,127.0.0.1:8083'', walPathFlag = []\<rparr>"

text \<open>The flags with their values as they are given; a later one replaces an earlier one.\<close>

fun parseFlags :: "(string \<times> string) list \<Rightarrow> mainFlags \<Rightarrow> mainFlags option" where
  "parseFlags [] f = Some f"
| "parseFlags ((name, text) # args) f =
     (if name = ''addr'' then parseFlags args (f\<lparr>addrFlag := text\<rparr>)
      else if name = ''cluster'' then parseFlags args (f\<lparr>clusterFlag := text\<rparr>)
      else if name = ''wal'' then parseFlags args (f\<lparr>walPathFlag := text\<rparr>)
      else None)"

subsection \<open>Work\<close>

text \<open>
  What the goroutines of the process do, in the order of their effects.  A request that does not
  return, because a lookup in the ring does not, is no event; \<open>None\<close> is a list with such a request.
\<close>

datatype processEvent = TaskEvent nat "taskInput taskEvent" | RequestEvent environment request

fun processWork :: "string \<Rightarrow> nat set \<Rightarrow> processEvent list \<Rightarrow> cluster \<Rightarrow> cluster option" where
  "processWork me live [] c = Some c"
| "processWork me live (TaskEvent i Cancelled # es) c = processWork me (live - {i}) es c"
| "processWork me live (TaskEvent i (Ticked e) # es) c =
     processWork me live es
       (if i \<in> live \<and> i < length (backgroundTasks me) then fst (taskRun (backgroundTasks me ! i) e c) else c)"
| "processWork me live (RequestEvent e req # es) c =
     (case serve e me req c of None \<Rightarrow> None | Some (c', r) \<Rightarrow> processWork me live es c')"

subsection \<open>Start and end\<close>

text \<open>
  What \<open>main\<close> waits for: a signal, upon which the tasks are cancelled and the server is given time
  for its requests, or the end of the server, in order or with an error.
\<close>

datatype ending = Signalled | ServerClosed | ServerFailed

text \<open>\<open>storeClosed\<close> says whether the deferred \<open>Close\<close> ran: \<open>log.Fatal\<close> leaves the process without it.\<close>

record mainResult =
  exitCode :: nat
  storeClosed :: bool
  remaining :: cluster

definition finish :: "string \<Rightarrow> ending \<Rightarrow> cluster \<Rightarrow> mainResult" where
  "finish me e c =
     (case e of
        ServerFailed \<Rightarrow> \<lparr>exitCode = 1, storeClosed = False, remaining = c(me := None)\<rparr>
      | _ \<Rightarrow>
          (case c me of
             None \<Rightarrow> \<lparr>exitCode = 0, storeClosed = False, remaining = c\<rparr>
           | Some n \<Rightarrow> (case NodeClose n of (n', x) \<Rightarrow> \<lparr>exitCode = 0, storeClosed = True, remaining = c(me := None)\<rparr>)))"

definition runMain ::
  "(string \<times> string) list \<Rightarrow> (string \<Rightarrow> osFile \<times> fileSystem \<times> chunkStore) \<Rightarrow> int \<Rightarrow> u64 \<Rightarrow> processEvent list \<Rightarrow> ending
     \<Rightarrow> cluster \<Rightarrow> mainResult option" where
  "runMain args opened now nano es e c =
     (case parseFlags args defaultFlags of
        None \<Rightarrow> Some \<lparr>exitCode = 2, storeClosed = False, remaining = c\<rparr>
      | Some f \<Rightarrow>
          (let me = addrFlag f
           in case startMain me (clusterFlag f) (walPathFlag f) opened now nano of
                Inl x \<Rightarrow> Some \<lparr>exitCode = 1, storeClosed = False, remaining = c\<rparr>
              | Inr n \<Rightarrow>
                  map_option (finish me e)
                    (processWork me {..<length (backgroundTasks me)} es (c(me \<mapsto> n)))))"

text \<open>Without requests the work of the process is that of its tasks.\<close>

lemma processWork_tasks:
  "processWork me live (map (\<lambda>(i, ev). TaskEvent i ev) es) c = Some (runTasks (backgroundTasks me) live es c)"
proof (induction "backgroundTasks me" live es c rule: runTasks.induct)
qed auto

end
