(* ===== verification/ConfigProps.thy ===== *)
theory ConfigProps
  imports ClusterConfig
begin

text \<open>
  What the configurations of the nodes are: an abstract view of the cluster, the version and the
  members each node believes in, the effect of a change on it, and what a coordinator's answer
  tells.
\<close>

subsection \<open>The abstract view\<close>

type_synonym beliefs = "string \<rightharpoonup> u64 \<times> string set"

definition beliefOf :: "Node \<Rightarrow> u64 \<times> string set" where
  "beliefOf n = (configVersion n, members (ring n))"

definition beliefs :: "cluster \<Rightarrow> beliefs" where
  "beliefs c = (\<lambda>r. map_option beliefOf (c r))"

definition rings_ok :: "cluster \<Rightarrow> bool" where
  "rings_ok c \<longleftrightarrow> (\<forall>r n. c r = Some n \<longrightarrow> ring_ok (ring n))"

text \<open>The specification: a newer configuration is taken over, any other is ignored.\<close>

definition adopt :: "ClusterConfig \<Rightarrow> u64 \<times> string set \<Rightarrow> u64 \<times> string set" where
  "adopt cfg x = (if fst x < ConfVersion cfg then (ConfVersion cfg, set (ConfMembers cfg)) else x)"

definition specSync :: "rpc \<Rightarrow> string \<Rightarrow> ClusterConfig \<Rightarrow> beliefs \<Rightarrow> beliefs" where
  "specSync net t cfg b = (if net = RequestLost then b else b(t := map_option (adopt cfg) (b t)))"

definition goodConfig :: "ClusterConfig \<Rightarrow> bool" where
  "goodConfig cfg \<longleftrightarrow> list_all goodString (ConfMembers cfg) \<and> ConfVersion cfg \<noteq> 0"

lemma members_Add: "members (Add m r) = insert m (members r)"
  by (auto simp: Add_eq)

lemma members_Remove: "members (Remove m r) = members r - {m}"
  by (auto simp: Remove_eq)

lemma drop_members:
  "ring_ok (ring n) \<Longrightarrow> ring_ok (ring (foldl (dropMember cfg) n ms))
    \<and> members (ring (foldl (dropMember cfg) n ms)) = members (ring n) - (set ms - set (ConfMembers cfg))"
proof (induction ms arbitrary: n)
  case (Cons m ms)
  have ok: "ring_ok (ring (dropMember cfg n m))"
    using Cons.prems by (simp add: dropMember_def ring_ok_Remove)
  have m: "members (ring (dropMember cfg n m)) = members (ring n) - ({m} - set (ConfMembers cfg))"
    by (auto simp: dropMember_def members_Remove)
  from Cons.IH [OF ok] show ?case
    by (auto simp: m)
qed simp

lemma take_members:
  "ring_ok (ring n) \<Longrightarrow> ring_ok (ring (foldl (takeMember now) n ms))
    \<and> members (ring (foldl (takeMember now) n ms)) = members (ring n) \<union> set ms"
  by (induction ms arbitrary: n) (auto simp: takeMember_def members_Add ring_ok_Add)

lemma handleMembershipSync_frame:
  assumes "handleMembershipSync now meth body n = (n', status, out)"
  shows "store n' = store n \<and> chunks n' = chunks n \<and> addr n' = addr n \<and> replicas n' = replicas n"
proof -
  have d: "store (foldl (dropMember cfg) x ms) = store x \<and> chunks (foldl (dropMember cfg) x ms) = chunks x
      \<and> addr (foldl (dropMember cfg) x ms) = addr x \<and> replicas (foldl (dropMember cfg) x ms) = replicas x" for cfg x ms
    by (induction ms arbitrary: x) (auto simp: dropMember_def)
  have t: "store (foldl (takeMember now) x ms) = store x \<and> chunks (foldl (takeMember now) x ms) = chunks x
      \<and> addr (foldl (takeMember now) x ms) = addr x \<and> replicas (foldl (takeMember now) x ms) = replicas x" for x ms
    by (induction ms arbitrary: x) (auto simp: takeMember_def)
  show ?thesis
    using assms by (auto simp: handleMembershipSync_def Let_def d t split: if_splits option.splits)
qed

lemma handleMembershipSync_spec:
  assumes "goodConfig cfg" "ring_ok (ring n)"
    and "handleMembershipSync now MethodPut (printJson (encodeConfig cfg)) n = (n', status, body)"
  shows "beliefOf n' = adopt cfg (beliefOf n) \<and> ring_ok (ring n') \<and> status = 204"
proof -
  let ?n1 = "foldl (dropMember cfg) n (Members (ring n))"
  let ?n2 = "foldl (takeMember now) ?n1 (ConfMembers cfg)"
  have m: "set (Members (ring n)) = members (ring n)"
    using assms(2) by (simp add: Members_def ring_ok_def)
  have o1: "ring_ok (ring ?n1)" "members (ring ?n1) = members (ring n) \<inter> set (ConfMembers cfg)"
    using drop_members [OF assms(2), of cfg "Members (ring n)"] m by auto
  have o2: "ring_ok (ring ?n2)" "members (ring ?n2) = set (ConfMembers cfg)"
    using take_members [OF o1(1), of now "ConfMembers cfg"] o1(2) by auto
  have d: "decodeStream decodeConfig (printJson (encodeConfig cfg)) zeroConfig = Some cfg"
    using assms(1) by (simp add: decodeConfig_print goodConfig_def)
  have v: "ConfVersion cfg \<noteq> 0"
    using assms(1) by (simp add: goodConfig_def)
  show ?thesis
  proof (cases "ConfVersion cfg \<le> configVersion n")
    case True
    with d v have "handleMembershipSync now MethodPut (printJson (encodeConfig cfg)) n = (n, noContent)"
      by (simp add: handleMembershipSync_def)
    with assms(2,3) True show ?thesis
      by (auto simp: noContent_def beliefOf_def adopt_def)
  next
    case False
    with d v have "handleMembershipSync now MethodPut (printJson (encodeConfig cfg)) n =
        (?n2\<lparr>configVersion := ConfVersion cfg\<rparr>, noContent)"
      by (simp add: handleMembershipSync_def Let_def)
    with assms(3) have "n' = ?n2\<lparr>configVersion := ConfVersion cfg\<rparr>" "status = 204"
      by (simp_all add: noContent_def)
    with o2 False show ?thesis
      by (simp add: beliefOf_def adopt_def not_le)
  qed
qed

lemma sendMembershipSync_spec:
  assumes "goodConfig cfg" "rings_ok c" "sendMembershipSync net now t cfg c = (c', ok)"
  shows "beliefs c' = specSync net t cfg (beliefs c)" "rings_ok c'" "ok \<longleftrightarrow> net = Delivered \<and> c t \<noteq> None"
proof -
  have "beliefs c' = specSync net t cfg (beliefs c) \<and> rings_ok c' \<and> (ok \<longleftrightarrow> net = Delivered \<and> c t \<noteq> None)"
  proof (cases "net = RequestLost \<or> c t = None")
    case True
    with assms(2,3) show ?thesis
      by (cases net) (auto simp: sendMembershipSync_def specSync_def beliefs_def fun_upd_idem split: option.splits)
  next
    case False
    then obtain n where n: "c t = Some n"
      by auto
    obtain n' status body where h: "handleMembershipSync now MethodPut (printJson (encodeConfig cfg)) n = (n', status, body)"
      by (metis prod_cases3)
    have "ring_ok (ring n)"
      using assms(2) n by (simp add: rings_ok_def)
    note spec = handleMembershipSync_spec [OF assms(1) this h]
    from False assms(3) n h spec have "c' = c(t \<mapsto> n')" "ok \<longleftrightarrow> net = Delivered"
      by (cases net; simp add: sendMembershipSync_def)+
    with spec False n assms(2) show ?thesis
      by (auto simp: beliefs_def specSync_def rings_ok_def fun_eq_iff)
  qed
  then show "beliefs c' = specSync net t cfg (beliefs c)" "rings_ok c'" "ok \<longleftrightarrow> net = Delivered \<and> c t \<noteq> None"
    by blast+
qed

lemma dom_beliefs: "beliefs c t = None \<longleftrightarrow> c t = None"
  by (simp add: beliefs_def)

subsection \<open>The coordinator's loops\<close>

lemma adopt_twice [simp]: "adopt cfg (adopt cfg x) = adopt cfg x"
  by (simp add: adopt_def)

lemma map_adopt_twice [simp]: "map_option (adopt cfg) (map_option (adopt cfg) x) = map_option (adopt cfg) x"
  by (cases x) simp_all

text \<open>Other work and the moves of data that leave the configurations alone.\<close>

definition steady :: "change \<Rightarrow> bool" where
  "steady e \<longleftrightarrow> (\<forall>t c. beliefs (besides e t c) = beliefs c \<and> (rings_ok c \<longrightarrow> rings_ok (besides e t c)))
     \<and> (\<forall>t c. beliefs (undoBesides e t c) = beliefs c \<and> (rings_ok c \<longrightarrow> rings_ok (undoBesides e t c)))
     \<and> (\<forall>t q. friendly q (moveRun e t))"

lemma syncLoop_spec:
  assumes "syncLoop e cfg applied ts c = (c', applied', failed)" "goodConfig cfg" "steady e" "rings_ok c"
  shows "rings_ok c' \<and> (case failed of
      None \<Rightarrow> applied' = applied @ ts \<and> (\<forall>t \<in> set ts. beliefs c t \<noteq> None)
        \<and> (\<forall>r. beliefs c' r = (if r \<in> set ts then map_option (adopt cfg) (beliefs c r) else beliefs c r))
    | Some t \<Rightarrow> (\<exists>pre post. ts = pre @ t # post \<and> applied' = applied @ pre \<and> (\<forall>x \<in> set pre. beliefs c x \<noteq> None)
        \<and> (\<forall>r. beliefs c' r = (if r \<in> set pre \<or> (r = t \<and> syncNet e t = ReplyLost)
            then map_option (adopt cfg) (beliefs c r) else beliefs c r))))"
  using assms(1,4)
proof (induction ts arbitrary: applied c)
  case (Cons t ts)
  let ?d = "besides e t c"
  obtain c1 ok where s: "sendMembershipSync (syncNet e t) (clock e t) t cfg ?d = (c1, ok)"
    by fastforce
  have d: "rings_ok ?d" "beliefs ?d = beliefs c"
    using assms(3) Cons.prems(2) by (simp_all add: steady_def)
  note spec = sendMembershipSync_spec [OF assms(2) d(1) s]
  have t: "?d t \<noteq> None \<longleftrightarrow> beliefs c t \<noteq> None"
    using dom_beliefs [of ?d t] d(2) by simp
  show ?case
  proof (cases ok)
    case False
    have r: "applied' = applied" "failed = Some t" "c' = c1"
      using Cons.prems(1) s False by auto
    have "beliefs c' x = (if x = t \<and> syncNet e t = ReplyLost then map_option (adopt cfg) (beliefs c x) else beliefs c x)" for x
      using spec(1,3) False t unfolding r(3) d(2) by (cases "syncNet e t"; cases "beliefs c t") (auto simp: specSync_def)
    then show ?thesis
      unfolding r option.case by (intro conjI exI [of _ "[]"] exI [of _ ts]) (use spec(2) r(3) in auto)
  next
    case True
    with Cons.prems(1) s have l: "syncLoop e cfg (applied @ [t]) ts c1 = (c', applied', failed)"
      by simp
    have b: "beliefs c1 x = (if x = t then map_option (adopt cfg) (beliefs c x) else beliefs c x)" for x
      using spec(1,3) True unfolding d(2) by (simp add: specSync_def)
    have n: "beliefs c1 x = None \<longleftrightarrow> beliefs c x = None" "beliefs c t \<noteq> None" for x
      using spec(3) True t by (simp_all add: b)
    obtain u w where z: "beliefs c t = Some (u, w)"
      using n(2) by (cases "beliefs c t") auto
    note IH = Cons.IH [OF l spec(2)]
    show ?thesis
    proof (cases failed)
      case None
      with IH show ?thesis
        by (auto simp: n(1) z) (auto simp: b z adopt_def)
    next
      case (Some u)
      with IH obtain pre post where f: "ts = pre @ u # post" "applied' = (applied @ [t]) @ pre"
          "\<forall>x \<in> set pre. beliefs c1 x \<noteq> None" "rings_ok c'"
          "\<And>r. beliefs c' r = (if r \<in> set pre \<or> (r = u \<and> syncNet e u = ReplyLost) then map_option (adopt cfg) (beliefs c1 r) else beliefs c1 r)"
        by auto
      have p: "\<forall>x \<in> set (t # pre). beliefs c x \<noteq> None"
        using f(3) n by simp
      have "beliefs c' r = (if r \<in> set (t # pre) \<or> (r = u \<and> syncNet e u = ReplyLost)
          then map_option (adopt cfg) (beliefs c r) else beliefs c r)" for r
        unfolding f(5) by (simp add: b z)
      with p f(1,2) have "t # ts = (t # pre) @ u # post \<and> applied' = applied @ t # pre \<and> (\<forall>x \<in> set (t # pre). beliefs c x \<noteq> None)
          \<and> (\<forall>r. beliefs c' r = (if r \<in> set (t # pre) \<or> (r = u \<and> syncNet e u = ReplyLost)
              then map_option (adopt cfg) (beliefs c r) else beliefs c r))"
        by simp
      with f(4) show ?thesis
        unfolding Some option.case by blast
    qed
  qed
qed simp

lemma syncLoop_delivers:
  assumes "\<forall>t \<in> set ts. syncNet e t = Delivered \<and> beliefs c t \<noteq> None" "goodConfig cfg" "steady e" "rings_ok c"
  shows "\<exists>c'. syncLoop e cfg applied ts c = (c', applied @ ts, None)"
  using assms(1,4)
proof (induction ts arbitrary: applied c)
  case (Cons t ts)
  let ?d = "besides e t c"
  have d: "rings_ok ?d" "beliefs ?d = beliefs c"
    using assms(3) Cons.prems(2) by (simp_all add: steady_def)
  obtain c1 ok where s: "sendMembershipSync (syncNet e t) (clock e t) t cfg ?d = (c1, ok)"
    by fastforce
  note spec = sendMembershipSync_spec [OF assms(2) d(1) s]
  have "beliefs c t \<noteq> None"
    using Cons.prems(1) by simp
  then have "?d t \<noteq> None"
    using dom_beliefs [of ?d t] unfolding d(2) by simp
  then have "ok"
    using spec(3) Cons.prems(1) by simp
  moreover have "\<forall>x \<in> set ts. syncNet e x = Delivered \<and> beliefs c1 x \<noteq> None"
    using Cons.prems(1) unfolding spec(1) d(2) by (auto simp: specSync_def)
  ultimately show ?case
    using Cons.IH [of c1 "applied @ [t]"] spec(2) s by simp
qed simp

lemma undoLoop_spec:
  assumes "goodConfig cfg" "steady e" "rings_ok c"
  shows "rings_ok (undoLoop e cfg ts c)"
    and "beliefs (undoLoop e cfg ts c) r =
      (if r \<in> set ts \<and> undoNet e r \<noteq> RequestLost then map_option (adopt cfg) (beliefs c r) else beliefs c r)"
proof -
  have "rings_ok (undoLoop e cfg ts c) \<and> (\<forall>r. beliefs (undoLoop e cfg ts c) r =
      (if r \<in> set ts \<and> undoNet e r \<noteq> RequestLost then map_option (adopt cfg) (beliefs c r) else beliefs c r))"
    using assms(3)
  proof (induction ts arbitrary: c)
    case (Cons t ts)
    let ?d = "undoBesides e t c"
    have d: "rings_ok ?d" "beliefs ?d = beliefs c"
      using assms(2) Cons.prems by (simp_all add: steady_def)
    obtain c1 ok where s: "sendMembershipSync (undoNet e t) (clock e t) t cfg ?d = (c1, ok)"
      by fastforce
    note spec = sendMembershipSync_spec [OF assms(1) d(1) s]
    have b: "beliefs c1 x = (if x = t \<and> undoNet e t \<noteq> RequestLost then map_option (adopt cfg) (beliefs c x) else beliefs c x)" for x
      unfolding spec(1) d(2) by (auto simp: specSync_def)
    from Cons.IH [OF spec(2)] s show ?case
      by (auto simp: b)
  qed simp
  then show "rings_ok (undoLoop e cfg ts c)" "beliefs (undoLoop e cfg ts c) r =
      (if r \<in> set ts \<and> undoNet e r \<noteq> RequestLost then map_option (adopt cfg) (beliefs c r) else beliefs c r)"
    by blast+
qed

lemma sameView_beliefs:
  assumes "\<And>q. sameView q c c'"
  shows "beliefs c' = beliefs c" "rings_ok c \<Longrightarrow> rings_ok c'"
proof -
  have v: "map_option (\<lambda>n. (ring n, replicas n, configVersion n)) (c' q) = map_option (\<lambda>n. (ring n, replicas n, configVersion n)) (c q)" for q
    using assms unfolding sameView_def .
  show "beliefs c' = beliefs c"
  proof
    show "beliefs c' q = beliefs c q" for q
      using v [of q] by (cases "c q"; cases "c' q") (simp_all add: beliefs_def beliefOf_def)
  qed
  show "rings_ok c'" if "rings_ok c"
    unfolding rings_ok_def
  proof (intro allI impI)
    show "ring_ok (ring n)" if "c' q = Some n" for q n
      using v [of q] that \<open>rings_ok c\<close> by (cases "c q") (auto simp: rings_ok_def)
  qed
qed

lemma moveLoop_beliefs:
  assumes "moveLoop e ts c = Some (c', x)" "steady e"
  shows "beliefs c' = beliefs c \<and> (rings_ok c \<longrightarrow> rings_ok c')"
  using assms(1)
proof (induction ts arbitrary: c)
  case (Cons t ts)
  obtain c1 y where s: "sendRebalance (moveRun e t) (moveNet e t) t c = Some (c1, y)"
      "(case y of None \<Rightarrow> Some (c1, Some t) | Some result \<Rightarrow> moveLoop e ts c1) = Some (c', x)"
    using Cons.prems by (auto split: option.splits)
  have "sameView q c c1" for q
  proof (cases "c1 = c")
    case False
    with s(1) obtain res where "rebalance (moveRun e t) t c = Some (c1, res)"
      by (auto simp: sendRebalance_def handleRebalance_def split: if_splits)
    with assms(2) show ?thesis
      by (auto simp: steady_def intro: rebalance_view)
  qed (simp add: sameView_def)
  note same = sameView_beliefs [OF this]
  from s(2) Cons.IH [of c1] same show ?case
    by (cases y) auto
qed simp

subsection \<open>Answers of the coordinator\<close>

lemma good_next:
  assumes "c me = Some n" "rings_ok c" "\<forall>x \<in> members (ring n). goodString x" "goodString m"
  shows "set (Members (ring n)) = members (ring n)"
    and "v \<noteq> 0 \<Longrightarrow> goodConfig \<lparr>ConfVersion = v, ConfMembers = Members (ring n)\<rparr>"
    and "v \<noteq> 0 \<Longrightarrow> goodConfig \<lparr>ConfVersion = v, ConfMembers = Members (ring n) @ [m]\<rparr>"
proof -
  show s: "set (Members (ring n)) = members (ring n)"
    using assms(1,2) by (simp add: rings_ok_def ring_ok_def Members_def)
  show "v \<noteq> 0 \<Longrightarrow> goodConfig \<lparr>ConfVersion = v, ConfMembers = Members (ring n)\<rparr>"
      "v \<noteq> 0 \<Longrightarrow> goodConfig \<lparr>ConfVersion = v, ConfMembers = Members (ring n) @ [m]\<rparr>"
    using assms(3,4) s by (simp_all add: goodConfig_def list_all_iff)
qed

lemma next_nonzero: "(v :: u64) \<noteq> - 1 \<Longrightarrow> v + 1 \<noteq> 0"
  using eq_neg_iff_add_eq_0 [of v 1] by simp

lemma two_steps:
  assumes "(v :: u64) < - 2"
  shows "v < v + 1" "v + 1 < v + 1 + 1" "v + 1 \<noteq> 0" "v + 1 + 1 \<noteq> 0"
proof -
  have v: "v \<noteq> - 1"
    using assms by auto
  have w: "v + 1 \<noteq> - 1"
  proof
    assume "v + 1 = - 1"
    then have "v + 1 - 1 = - 1 - 1"
      by (rule arg_cong)
    with assms show False
      by simp
  qed
  show "v + 1 \<noteq> 0" "v + 1 + 1 \<noteq> 0"
    using next_nonzero [OF v] next_nonzero [OF w] .
  then show "v < v + 1" "v + 1 < v + 1 + 1"
    using word_less_plus_one by blast+
qed

lemma apply_ok:
  assumes "applyClusterConfig e me targets previous cfg c = Some (c', None)" "goodConfig cfg" "steady e" "rings_ok c"
  shows "beliefs c' r = (if r \<in> set targets then map_option (adopt cfg) (beliefs c r) else beliefs c r)"
    and "r \<in> set targets \<Longrightarrow> beliefs c r \<noteq> None"
proof -
  obtain c1 applied failed where s: "syncLoop e cfg [] targets c = (c1, applied, failed)"
    by (metis prod_cases3)
  with assms(1) have f: "failed = None" "moveLoop e targets c1 = Some (c', None)"
    by (auto simp: applyClusterConfig_def split: option.splits)
  from syncLoop_spec [OF s assms(2-4)] f(1) moveLoop_beliefs [OF f(2) assms(3)]
  show "beliefs c' r = (if r \<in> set targets then map_option (adopt cfg) (beliefs c r) else beliefs c r)"
      "r \<in> set targets \<Longrightarrow> beliefs c r \<noteq> None"
    by auto
qed

text \<open>C28. When \<open>AddMember\<close> reports success, every target that did not know the version of the change
  or a newer one has taken the new members with that version, and nothing else has changed in what
  the nodes believe; a target that knew such a version has kept its own members and was counted.\<close>
theorem AddMember_agreed:
  assumes "AddMember e me m c = Some (c', None)" "c me = Some n" "m \<notin> members (ring n)" "steady e" "rings_ok c"
    and "\<forall>x \<in> members (ring n). goodString x" "goodString m" "configVersion n \<noteq> - 1"
  shows "(r \<in> insert m (members (ring n)) \<longrightarrow> (\<exists>v ms. beliefs c r = Some (v, ms) \<and>
      beliefs c' r = Some (if v < configVersion n + 1 then (configVersion n + 1, insert m (members (ring n))) else (v, ms))))
    \<and> (r \<notin> insert m (members (ring n)) \<longrightarrow> beliefs c' r = beliefs c r)"
proof -
  note good = good_next [OF assms(2,5,6,7)]
  let ?cfg = "\<lparr>ConfVersion = configVersion n + 1, ConfMembers = Members (ring n) @ [m]\<rparr>"
  have a: "applyClusterConfig e me (Members (ring n) @ [m]) \<lparr>ConfVersion = configVersion n, ConfMembers = Members (ring n)\<rparr> ?cfg c
      = Some (c', None)"
    using assms(1-3) good(1) by (simp add: AddMember_def Let_def)
  note ok = apply_ok [OF a _ assms(4,5)] next_nonzero [OF assms(8)]
  show ?thesis
  proof (cases "r \<in> insert m (members (ring n))")
    case True
    obtain v ms where "beliefs c r = Some (v, ms)"
      using ok(2) [OF good(3) [OF ok(3)], of r] True good(1) by auto
    with ok(1) [OF good(3) [OF ok(3)], of r] True good(1) show ?thesis
      by (intro conjI impI exI [of _ v] exI [of _ ms]) (auto simp: adopt_def)
  next
    case False
    with ok(1) [OF good(3) [OF ok(3)], of r] good(1) show ?thesis
      by auto
  qed
qed

text \<open>The coordinator's own version, set without a message.\<close>

definition stamp :: "bool \<Rightarrow> u64 \<Rightarrow> (u64 \<times> string set) option \<Rightarrow> (u64 \<times> string set) option" where
  "stamp own w x = (if own then map_option (\<lambda>(v, ms). (w, ms)) x else x)"

text \<open>What the nodes believe after the coordinator gave up: \<open>pre\<close> are the targets that had answered.\<close>

lemma apply_failed:
  assumes "applyClusterConfig e me targets previous cfg c = Some (c', Some (SyncFailed t))" "steady e" "rings_ok c"
    and "goodConfig cfg" "goodConfig \<lparr>ConfVersion = ConfVersion cfg + 1, ConfMembers = ConfMembers previous\<rparr>"
  obtains pre post where "targets = pre @ t # post" "\<And>x. x \<in> set pre \<Longrightarrow> beliefs c x \<noteq> None"
    "\<And>r. r \<in> set pre \<Longrightarrow> beliefs c' r =
      (if undoNet e r = RequestLost then map_option (adopt cfg) (beliefs c r)
       else map_option (adopt \<lparr>ConfVersion = ConfVersion cfg + 1, ConfMembers = ConfMembers previous\<rparr>)
          (map_option (adopt cfg) (beliefs c r)))"
    "\<And>r. r \<notin> set pre \<Longrightarrow> beliefs c' r = stamp (r = me) (ConfVersion cfg + 1)
          (if r = t \<and> syncNet e t = ReplyLost then map_option (adopt cfg) (beliefs c r) else beliefs c r)"
proof -
  let ?rb = "\<lparr>ConfVersion = ConfVersion cfg + 1, ConfMembers = ConfMembers previous\<rparr>"
  obtain c1 applied failed where s: "syncLoop e cfg [] targets c = (c1, applied, failed)"
    by (metis prod_cases3)
  with assms(1) have f: "failed = Some t" "c' = compensateClusterConfig e me applied previous (ConfVersion cfg + 1) c1"
    by (auto simp: applyClusterConfig_def split: option.splits)
  from syncLoop_spec [OF s assms(4,2,3)] f(1) obtain pre post where p: "targets = pre @ t # post" "applied = pre"
      "\<And>x. x \<in> set pre \<Longrightarrow> beliefs c x \<noteq> None" "rings_ok c1"
      "\<And>r. beliefs c1 r = (if r \<in> set pre \<or> (r = t \<and> syncNet e t = ReplyLost) then map_option (adopt cfg) (beliefs c r) else beliefs c r)"
    by auto
  note u = undoLoop_spec(2) [OF assms(5,2) p(4), of pre, unfolded p(5)]
  let ?c2 = "undoLoop e ?rb pre c1"
  let ?c3 = "undoBesides e me ?c2"
  have c3: "beliefs ?c3 = beliefs ?c2"
    using assms(2) by (simp add: steady_def)
  have me: "beliefs (?c3(me := map_option (\<lambda>n. n\<lparr>configVersion := ConfVersion cfg + 1\<rparr>) (?c3 me))) r =
      stamp (r = me) (ConfVersion cfg + 1) (beliefs ?c2 r)" for r
    unfolding c3 [symmetric] by (cases "?c3 r") (auto simp: beliefs_def beliefOf_def stamp_def)
  have c': "beliefs c' r = (if me \<in> set pre then beliefs ?c2 r else stamp (r = me) (ConfVersion cfg + 1) (beliefs ?c2 r))" for r
    unfolding f(2) p(2) using me by (simp add: compensateClusterConfig_def Let_def del: fun_upd_apply)
  show ?thesis
  proof (rule that [OF p(1,3)])
    show "beliefs c' r = (if undoNet e r = RequestLost then map_option (adopt cfg) (beliefs c r)
       else map_option (adopt ?rb) (map_option (adopt cfg) (beliefs c r)))" if "r \<in> set pre" for r
      using c' [of r] u [of r] that by (auto simp: stamp_def)
    show "beliefs c' r = stamp (r = me) (ConfVersion cfg + 1)
        (if r = t \<and> syncNet e t = ReplyLost then map_option (adopt cfg) (beliefs c r) else beliefs c r)"
      if "r \<notin> set pre" for r
      using c' [of r] u [of r] that by (auto simp: stamp_def)
  qed
qed

text \<open>Nodes that knew an older version take the configuration; nodes that knew no older one keep theirs.\<close>

lemma adopt_older:
  assumes "\<And>v ms. b = Some (v, ms) \<Longrightarrow> v < ConfVersion cfg"
  shows "map_option (adopt cfg) b = map_option (\<lambda>_. (ConfVersion cfg, set (ConfMembers cfg))) b"
  using assms by (cases b) (auto simp: adopt_def)

lemma adopt_outdated:
  assumes "\<And>v ms. b = Some (v, ms) \<Longrightarrow> ConfVersion cfg \<le> v"
  shows "map_option (adopt cfg) b = b"
  using assms by (cases b) (auto simp: adopt_def not_less)

lemma syncLoop_outdated:
  assumes "syncLoop e cfg applied ts c = (c', applied', None)" "goodConfig cfg" "steady e" "rings_ok c"
    and "\<forall>r \<in> set ts. \<forall>v ms. beliefs c r = Some (v, ms) \<longrightarrow> ConfVersion cfg \<le> v"
  shows "beliefs c' = beliefs c"
proof
  fix r
  have "beliefs c' r = (if r \<in> set ts then map_option (adopt cfg) (beliefs c r) else beliefs c r)"
    using syncLoop_spec [OF assms(1-4)] by simp
  then show "beliefs c' r = beliefs c r"
    using adopt_outdated [of "beliefs c r" cfg] assms(5) by simp
qed

text \<open>C29. The rollback of \<open>AddMember\<close> as it is, best effort.  No target knows a newer version than the
  coordinator's, whose version has two successors, names are UTF-8, and other work leaves the
  configurations alone.  When the configuration is not acknowledged by the target \<open>t\<close>, then of the
  targets before it, which had taken the new members, those that the rollback reaches have the old
  members again under the version after the failed one, and those that it does not reach keep the
  new members; a coordinator that is not among them only stores that version; \<open>t\<close> itself, which
  is sent no rollback, keeps the new members when just its answer was lost; nothing else changes.\<close>
theorem failed_change_rolled_back:
  assumes "AddMember e me m c = Some (c', Some (SyncFailed t))" "c me = Some n" "m \<notin> members (ring n)" "steady e" "rings_ok c"
    and "\<forall>x \<in> members (ring n). goodString x" "goodString m" "configVersion n < - 2"
    and "\<forall>r \<in> insert m (members (ring n)). \<forall>v ms. beliefs c r = Some (v, ms) \<longrightarrow> v \<le> configVersion n"
  shows "\<exists>pre post. Members (ring n) @ [m] = pre @ t # post
    \<and> (\<forall>r \<in> set pre. beliefs c' r = Some (if undoNet e r = RequestLost
         then (configVersion n + 1, insert m (members (ring n))) else (configVersion n + 2, members (ring n))))
    \<and> (me \<notin> insert t (set pre) \<longrightarrow> beliefs c' me = Some (configVersion n + 2, members (ring n)))
    \<and> beliefs c' t = map_option (\<lambda>(v, ms). (if t = me then configVersion n + 2 else v, ms))
         (if syncNet e t = ReplyLost
          then map_option (\<lambda>_. (configVersion n + 1, insert m (members (ring n)))) (beliefs c t) else beliefs c t)
    \<and> (\<forall>r. r \<notin> insert me (set (pre @ [t])) \<longrightarrow> beliefs c' r = beliefs c r)"
proof -
  let ?v = "configVersion n" and ?ms = "members (ring n)"
  have w: "?v < ?v + 1" "?v + 1 < ?v + 1 + 1" "?v + 1 \<noteq> 0" "?v + 1 + 1 \<noteq> 0"
    using two_steps [OF assms(8)] .
  note good = good_next [OF assms(2,5,6,7)]
  let ?cfg = "\<lparr>ConfVersion = ?v + 1, ConfMembers = Members (ring n) @ [m]\<rparr>"
  let ?prev = "\<lparr>ConfVersion = ?v, ConfMembers = Members (ring n)\<rparr>"
  have a: "applyClusterConfig e me (Members (ring n) @ [m]) ?prev ?cfg c = Some (c', Some (SyncFailed t))"
    using assms(1-3) good(1) by (simp add: AddMember_def Let_def)
  have g: "goodConfig ?cfg" "goodConfig \<lparr>ConfVersion = ConfVersion ?cfg + 1, ConfMembers = ConfMembers ?prev\<rparr>"
    using good(2,3) w by simp_all
  obtain pre post where p: "Members (ring n) @ [m] = pre @ t # post" "\<And>x. x \<in> set pre \<Longrightarrow> beliefs c x \<noteq> None"
    "\<And>r. r \<in> set pre \<Longrightarrow> beliefs c' r =
      (if undoNet e r = RequestLost then map_option (adopt ?cfg) (beliefs c r)
       else map_option (adopt \<lparr>ConfVersion = ConfVersion ?cfg + 1, ConfMembers = ConfMembers ?prev\<rparr>)
          (map_option (adopt ?cfg) (beliefs c r)))"
    "\<And>r. r \<notin> set pre \<Longrightarrow> beliefs c' r = stamp (r = me) (ConfVersion ?cfg + 1)
          (if r = t \<and> syncNet e t = ReplyLost then map_option (adopt ?cfg) (beliefs c r) else beliefs c r)"
    using apply_failed [OF a assms(4,5) g] by metis
  have d: "distinct (pre @ t # post)"
    unfolding p(1) [symmetric] using assms(3) good(1) by (simp add: Members_def)
  have targets: "set (pre @ t # post) = insert m ?ms"
    unfolding p(1) [symmetric] using good(1) by simp
  have two: "?v + 1 + 1 = ?v + 2"
    by simp
  have taken: "map_option (adopt ?cfg) (beliefs c r) = map_option (\<lambda>_. (?v + 1, insert m ?ms)) (beliefs c r)"
    if "r \<in> set (pre @ t # post)" for r
    using adopt_older [of "beliefs c r" ?cfg] that assms(9) w(1) good(1)
    unfolding targets by (simp, meson order_le_less_trans)
  have "beliefs c' r = Some (if undoNet e r = RequestLost then (?v + 1, insert m ?ms) else (?v + 2, ?ms))"
    if "r \<in> set pre" for r
  proof -
    have tk: "map_option (adopt ?cfg) (beliefs c r) = Some (?v + 1, insert m ?ms)"
      using taken [of r] p(2) [OF that] that by auto
    show ?thesis
      using p(3) [OF that] w(2) good(1) two unfolding tk by (simp add: adopt_def add.commute)
  qed
  moreover have "beliefs c' me = Some (?v + 2, ?ms)" if "me \<notin> insert t (set pre)"
    using p(4) [of me] that assms(2) two by (simp add: beliefs_def beliefOf_def stamp_def)
  moreover have "beliefs c' t = map_option (\<lambda>(v, ms). (if t = me then ?v + 2 else v, ms)) (if syncNet e t = ReplyLost
      then map_option (\<lambda>_. (?v + 1, insert m ?ms)) (beliefs c t) else beliefs c t)"
    using p(4) [of t] taken [of t] d two by (cases "t = me") (auto simp: stamp_def option.map_id0)
  moreover have "beliefs c' r = beliefs c r" if "r \<notin> insert me (set (pre @ [t]))" for r
    using p(4) [of r] that by (simp add: stamp_def)
  ultimately show ?thesis
    using p(1) by (intro exI [of _ pre] exI [of _ post]) auto
qed

lemma syncLoop_cong:
  "\<forall>t \<in> set ts. besides e t = besides e' t \<and> syncNet e t = syncNet e' t \<and> clock e t = clock e' t \<Longrightarrow>
    syncLoop e cfg applied ts c = syncLoop e' cfg applied ts c"
  by (induction ts arbitrary: applied c) (auto split: prod.split)

lemma moveLoop_besides: "moveLoop (e\<lparr>besides := b, undoBesides := u\<rparr>) ts c = moveLoop e ts c"
  by (induction ts arbitrary: c) (auto split: option.split)

text \<open>C30. Two coordinators that change the members at the same time overwrite each other without notice.
  All targets are up, the messages arrive, names are UTF-8, and another change has reached the
  targets after \<open>AddMember\<close> read the ring and before its first message, while further work leaves
  the configurations alone.  Then every target ignores the configuration and answers like one that
  took it, all are counted as reached, and as soon as their rebalances succeed \<open>AddMember\<close> reports
  success, though the nodes believe what the other change told them.\<close>
theorem concurrent_change_lost:
  assumes "c me = Some n" "m \<notin> members (ring n)" "rings_ok c"
    and "\<forall>x \<in> members (ring n). goodString x" "goodString m" "configVersion n \<noteq> - 1"
    and "Members (ring n) @ [m] = t # ts" "rings_ok (besides e t c)"
    and "\<forall>r \<in> set (t # ts). syncNet e r = Delivered
      \<and> (\<exists>v ms. beliefs (besides e t c) r = Some (v, ms) \<and> configVersion n < v)"
    and "\<forall>u \<in> set ts. \<forall>d. beliefs (besides e u d) = beliefs d \<and> (rings_ok d \<longrightarrow> rings_ok (besides e u d))"
    and "\<forall>u q. friendly q (moveRun e u)"
  shows "\<exists>c1. syncLoop e \<lparr>ConfVersion = configVersion n + 1, ConfMembers = t # ts\<rparr> [] (t # ts) c = (c1, t # ts, None)
    \<and> beliefs c1 = beliefs (besides e t c)
    \<and> (\<forall>c'. moveLoop e (t # ts) c1 = Some (c', None) \<longrightarrow>
         AddMember e me m c = Some (c', None) \<and> beliefs c' = beliefs (besides e t c))"
proof -
  note good = good_next [OF assms(1,3,4,5)]
  let ?cfg = "\<lparr>ConfVersion = configVersion n + 1, ConfMembers = t # ts\<rparr>"
  let ?e = "e\<lparr>besides := (\<lambda>u d. if u \<in> set ts then besides e u d else d), undoBesides := (\<lambda>_ d. d)\<rparr>"
  have cfg: "goodConfig ?cfg"
    using good(3) [OF next_nonzero [OF assms(6)]] assms(7) by simp
  have "distinct (t # ts)"
    unfolding assms(7) [symmetric] using assms(2) good(1) by (simp add: Members_def)
  then have d: "t \<notin> set ts"
    by simp
  have steady: "steady ?e"
    using assms(10,11) by (simp add: steady_def)
  have up: "\<forall>r \<in> set (t # ts). syncNet ?e r = Delivered \<and> beliefs (besides e t c) r \<noteq> None"
    using assms(9) by auto
  from syncLoop_delivers [OF this cfg steady assms(8), of "[]"]
  obtain c1 where s: "syncLoop ?e ?cfg [] (t # ts) (besides e t c) = (c1, t # ts, None)"
    by auto
  have "syncLoop ?e ?cfg [] (t # ts) (besides e t c) = syncLoop e ?cfg [] (t # ts) c"
    using d syncLoop_cong [of ts e ?e] by (simp split: prod.split)
  with s have s': "syncLoop e ?cfg [] (t # ts) c = (c1, t # ts, None)"
    by simp
  have "\<forall>r \<in> set (t # ts). \<forall>v ms. beliefs (besides e t c) r = Some (v, ms) \<longrightarrow> ConfVersion ?cfg \<le> v"
    using assms(9) by (auto simp: inc_le)
  note b = syncLoop_outdated [OF s cfg steady assms(8) this]
  have "AddMember e me m c = Some (c', None) \<and> beliefs c' = beliefs (besides e t c)"
    if m: "moveLoop e (t # ts) c1 = Some (c', None)" for c'
  proof -
    have "moveLoop ?e (t # ts) c1 = Some (c', None)"
      unfolding moveLoop_besides by (rule m)
    from moveLoop_beliefs [OF this steady] b have "beliefs c' = beliefs (besides e t c)"
      by simp
    moreover have "AddMember e me m c = Some (c', None)"
      using assms(1,2,7) good(1) s' m by (simp add: AddMember_def applyClusterConfig_def Let_def del: syncLoop.simps moveLoop.simps)
    ultimately show ?thesis
      by blast
  qed
  with s' b show ?thesis
    by blast
qed

text \<open>C31. A configuration without members is taken over like any other, and the rebalance after it
  clears the node: no value is copied, and when the deletions succeed not one is left.\<close>
theorem empty_config_erases:
  assumes "c r = Some n" "ring_ok (ring n)" "configVersion n < v"
    and "handleMembershipSync now MethodPut (printJson (encodeConfig \<lparr>ConfVersion = v, ConfMembers = []\<rparr>)) n = (n', status, body)"
    and "\<And>k q d. meanwhile e k q d = d" "set (keyOrder e) = dom (memData (store n))"
  shows "status = 204 \<and> (\<exists>c' res. rebalance e r (c(r \<mapsto> n')) = Some (c', res) \<and> ReCopied res = 0
    \<and> (ReFailed res = 0 \<longrightarrow> (\<forall>k. valueAt c' r k = None)))"
proof -
  let ?cfg = "\<lparr>ConfVersion = v, ConfMembers = []\<rparr>"
  have g: "goodConfig ?cfg"
    using assms(3) word_not_simps(1) by (auto simp: goodConfig_def)
  note spec = handleMembershipSync_spec [OF g assms(2,4)]
  have "members (ring n') = {}"
    using spec assms(3) by (simp add: beliefOf_def adopt_def)
  then have h: "hashes (ring n') = []"
    using spec unfolding ring_ok_def by (metis domIff empty_iff not_None_eq set_empty subsetI subset_empty)
  have "store n' = store n"
    using handleMembershipSync_frame [OF assms(4)] by simp
  with rebalance_empty_ring [of "c(r \<mapsto> n')" r n' e, OF _ h assms(5)] assms(6) spec show ?thesis
    by simp
qed

subsection \<open>A concrete cluster\<close>

definition idle :: "cluster \<Rightarrow> bool" where
  "idle c \<longleftrightarrow> (\<forall>r n. c r = Some n \<longrightarrow>
     memData (store n) = Map.empty \<and> chunks n = \<lparr>chunkFiles = Map.empty, chunkCalls = []\<rparr>)"

definition plainChange :: change where
  "plainChange = \<lparr>syncNet = \<lambda>_. Delivered, undoNet = \<lambda>_. Delivered, moveNet = \<lambda>_. Delivered,
     moveRun = \<lambda>_. plainRun\<lparr>keyOrder := []\<rparr>, drainNet = Delivered, drainRun = plainRun\<lparr>keyOrder := []\<rparr>,
     clock = \<lambda>_. 0, besides = \<lambda>_ c. c, undoBesides = \<lambda>_ c. c\<rparr>"

lemma plainChange_simps [simp]:
  "syncNet plainChange t = Delivered" "undoNet plainChange t = Delivered" "moveNet plainChange t = Delivered"
  "moveRun plainChange t = plainRun\<lparr>keyOrder := []\<rparr>" "besides plainChange t c = c" "undoBesides plainChange t c = c"
  "friendly q (plainRun\<lparr>keyOrder := ks\<rparr>)" "steady plainChange"
  by (simp_all add: plainChange_def steady_def friendly_def plainRun_def)

lemma rebalance_names [simp]:
  "foldName (bytesOf ''scanned'') = bytesOf ''SCANNED''" "foldName (bytesOf ''copied'') = bytesOf ''COPIED''"
  "foldName (bytesOf ''failed'') = bytesOf ''FAILED''" "foldName (bytesOf ''hinted'') = bytesOf ''HINTED''"
  "foldName (bytesOf ''cleaned'') = bytesOf ''CLEANED''" "foldName (bytesOf ''chunk_scanned'') = bytesOf ''CHUNK_SCANNED''"
  "foldName (bytesOf ''chunk_copied'') = bytesOf ''CHUNK_COPIED''" "foldName (bytesOf ''chunk_failed'') = bytesOf ''CHUNK_FAILED''"
  "goodString ''scanned''" "goodString ''copied''" "goodString ''failed''" "goodString ''hinted''" "goodString ''cleaned''"
  "goodString ''chunk_scanned''" "goodString ''chunk_copied''" "goodString ''chunk_failed''"
  by code_simp+

lemma decodeRebalance_zero:
  "decodeStream decodeRebalance (printJson (encodeRebalance zeroRebalance) @ [10]) zeroRebalance = Some zeroRebalance"
proof -
  have z: "goodInt 0"
    by (simp add: goodInt_def)
  have "wfJson (encodeRebalance zeroRebalance)"
    by (simp add: encodeRebalance_def zeroRebalance_def z)
  moreover have "decodeRebalance (cleanJson (encodeRebalance zeroRebalance)) zeroRebalance = Some zeroRebalance"
    by (simp add: decodeRebalance_def encodeRebalance_def zeroRebalance_def decodeStruct_def onField_def z)
  ultimately show ?thesis
    using decodeStream_print [where rest = "[10]" and dec = decodeRebalance and s = zeroRebalance] by (simp add: stops_def)
qed

lemma sendRebalance_idle:
  assumes "idle c" "c t = Some n"
  shows "sendRebalance (plainRun\<lparr>keyOrder := []\<rparr>) Delivered t c = Some (c, Some zeroRebalance)"
proof -
  have n: "memData (store n) = Map.empty" "chunks n = \<lparr>chunkFiles = Map.empty, chunkCalls = []\<rparr>"
    using assms by (simp_all add: idle_def)
  have "n\<lparr>chunks := chunks n\<rparr> = n"
    by simp
  then have "c(t \<mapsto> n\<lparr>chunks := \<lparr>chunkFiles = Map.empty, chunkCalls = []\<rparr>\<rparr>) = c"
    unfolding n(2) using assms(2) by (simp add: fun_upd_idem)
  then have "rebalance (plainRun\<lparr>keyOrder := []\<rparr>) t c = Some (c, zeroRebalance)"
    using assms(2) n by (simp add: rebalance_def memSnapshot_def rebalanceChunks_def chunkIDs_def walkOrder_def zeroRebalance_def Let_def)
  then show ?thesis
    using assms(2) decodeRebalance_zero by (simp add: sendRebalance_def handleRebalance_def)
qed

lemma moveLoop_idle: "idle c \<Longrightarrow> \<forall>t \<in> set ts. c t \<noteq> None \<Longrightarrow> moveRun e = moveRun plainChange \<Longrightarrow> moveNet e = moveNet plainChange \<Longrightarrow>
    moveLoop e ts c = Some (c, None)"
proof (induction ts)
  case (Cons t ts)
  then obtain n where "c t = Some n"
    by auto
  from sendRebalance_idle [OF Cons.prems(1) this] Cons show ?case
    by simp
qed simp

lemma syncLoop_idle:
  assumes "goodConfig cfg" "\<forall>t \<in> set ts. syncNet e t = Delivered \<and> c t \<noteq> None"
    and "\<forall>t d. idle d \<longrightarrow> rings_ok d \<longrightarrow> idle (besides e t d) \<and> rings_ok (besides e t d) \<and> dom (besides e t d) = dom d" "idle c" "rings_ok c"
  shows "\<exists>c1. syncLoop e cfg applied ts c = (c1, applied @ ts, None) \<and> idle c1 \<and> dom c1 = dom c"
  using assms(2,4,5)
proof (induction ts arbitrary: applied c)
  case (Cons t ts)
  let ?d = "besides e t c"
  have d: "idle ?d" "rings_ok ?d" "dom ?d = dom c"
    using assms(3) Cons.prems by auto
  obtain c1 ok where s: "sendMembershipSync Delivered (clock e t) t cfg ?d = (c1, ok)"
    by fastforce
  note spec = sendMembershipSync_spec [OF assms(1) d(2) s]
  have dom1: "dom c1 = dom ?d"
    using s by (auto simp: sendMembershipSync_def split: option.splits prod.splits if_splits)
  have ok: "ok"
    using spec(3) Cons.prems(1) d(3) by (auto simp: domIff)
  have "idle c1"
    using d(1) s handleMembershipSync_frame
    by (fastforce simp: idle_def sendMembershipSync_def split: option.splits prod.splits if_splits)
  moreover have "\<forall>t \<in> set ts. syncNet e t = Delivered \<and> c1 t \<noteq> None"
    using Cons.prems(1) dom1 d(3) by (metis domIff list.set_intros(2))
  ultimately show ?case
    using Cons.IH [of c1 "applied @ [t]"] spec(2) s ok dom1 d(3) Cons.prems(1) by simp
qed simp

definition clusterABC :: cluster where
  "clusterABC = clusterAB(''c'' \<mapsto> nodeAt ''c'')"

lemma clusterABC_facts:
  "idle clusterABC" "rings_ok clusterABC" "dom clusterABC = {''a'', ''b'', ''c''}" "clusterABC ''a'' = Some (nodeAt ''a'')"
  "members ring_ab = {''a'', ''b''}" "Members ring_ab = [''a'', ''b'']" "goodString ''a''" "goodString ''b''" "goodString ''c''"
proof -
  show "members ring_ab = {''a'', ''b''}"
    by (rule ring_ab_facts)
  then show "Members ring_ab = [''a'', ''b'']"
    by (simp add: Members_def)
  show "goodString ''a''" "goodString ''b''" "goodString ''c''"
    by code_simp+
  show "idle clusterABC"
    by (auto simp: idle_def clusterABC_def clusterAB_def nodeAt_def plainMemory_def NewMemory_def split: if_splits)
  show "rings_ok clusterABC"
    using ring_ab_facts(4) by (auto simp: rings_ok_def clusterABC_def clusterAB_def split: if_splits)
  show "dom clusterABC = {''a'', ''b'', ''c''}" "clusterABC ''a'' = Some (nodeAt ''a'')"
    by (auto simp: clusterABC_def clusterAB_def)
qed

lemma clusterABC_beliefs:
  "beliefs clusterABC r = (if r \<in> {''a'', ''b'', ''c''} then Some (0, {''a'', ''b''}) else None)"
  by (simp add: beliefs_def clusterABC_def clusterAB_def beliefOf_def nodeAt_def ring_ab_facts)

lemma AddMember_C:
  assumes "goodConfig \<lparr>ConfVersion = 1, ConfMembers = [''a'', ''b'', ''c'']\<rparr>"
    and "\<forall>t \<in> {''a'', ''b'', ''c''}. syncNet e t = Delivered"
    and "\<forall>t d. idle d \<longrightarrow> rings_ok d \<longrightarrow> idle (besides e t d) \<and> rings_ok (besides e t d) \<and> dom (besides e t d) = dom d"
    and "moveRun e = moveRun plainChange" "moveNet e = moveNet plainChange"
  shows "\<exists>c'. AddMember e ''a'' ''c'' clusterABC = Some (c', None)"
proof -
  let ?cfg = "\<lparr>ConfVersion = 1, ConfMembers = [''a'', ''b'', ''c'']\<rparr>"
  have all: "\<forall>t \<in> set [''a'', ''b'', ''c'']. syncNet e t = Delivered \<and> clusterABC t \<noteq> None"
    using assms(2) by (simp add: clusterABC_def clusterAB_def)
  obtain c1 where s: "syncLoop e ?cfg [] [''a'', ''b'', ''c''] clusterABC = (c1, [''a'', ''b'', ''c''], None)"
      "idle c1" "dom c1 = dom clusterABC"
    using syncLoop_idle [OF assms(1) all assms(3) clusterABC_facts(1,2), of "[]"] by auto
  have "\<forall>t \<in> set [''a'', ''b'', ''c'']. c1 t \<noteq> None"
    using s(3) clusterABC_facts(3) by (metis domIff insertCI list.set(1) list.simps(15))
  from moveLoop_idle [OF s(2) this assms(4,5)] s(1) show ?thesis
    by (simp add: AddMember_def clusterABC_facts(4,6) applyClusterConfig_def nodeAt_def Let_def)
qed

lemma config_C: "goodConfig \<lparr>ConfVersion = 1, ConfMembers = [''a'', ''b'', ''c'']\<rparr>"
  using clusterABC_facts(7-9) by (simp add: goodConfig_def)

lemma AddMember_agreed_witness:
  "\<exists>c'. AddMember plainChange ''a'' ''c'' clusterABC = Some (c', None) \<and> beliefs c' ''b'' = Some (1, {''a'', ''b'', ''c''})"
proof -
  obtain c' where c': "AddMember plainChange ''a'' ''c'' clusterABC = Some (c', None)"
    using AddMember_C [OF config_C, of plainChange] by auto
  have n: "members (ring (nodeAt ''a'')) = {''a'', ''b''}" "configVersion (nodeAt ''a'') = 0"
    by (simp_all add: nodeAt_def ring_ab_facts)
  from AddMember_agreed [OF c' clusterABC_facts(4) _ _ clusterABC_facts(2), of "''b''"] c' n clusterABC_facts(7-9)
  show ?thesis
    by (auto simp: clusterABC_beliefs insert_commute)
qed

text \<open>The new node does not answer.\<close>

lemma failed_change_rolled_back_witness:
  "\<exists>c'. AddMember (plainChange\<lparr>syncNet := \<lambda>t. if t = ''c'' then RequestLost else Delivered\<rparr>) ''a'' ''c'' clusterABC
      = Some (c', Some (SyncFailed ''c''))
    \<and> beliefs c' ''a'' = Some (2, {''a'', ''b''}) \<and> beliefs c' ''c'' = Some (0, {''a'', ''b''})"
proof -
  let ?e = "plainChange\<lparr>syncNet := \<lambda>t. if t = ''c'' then RequestLost else Delivered\<rparr>"
  let ?cfg = "\<lparr>ConfVersion = 1, ConfMembers = [''a'', ''b'', ''c'']\<rparr>"
  obtain c1 ok1 where s1: "sendMembershipSync Delivered (clock ?e ''a'') ''a'' ?cfg clusterABC = (c1, ok1)"
    by fastforce
  note p1 = sendMembershipSync_spec [OF config_C clusterABC_facts(2) s1]
  obtain c2 ok2 where s2: "sendMembershipSync Delivered (clock ?e ''b'') ''b'' ?cfg c1 = (c2, ok2)"
    by fastforce
  note p2 = sendMembershipSync_spec [OF config_C p1(2) s2]
  have "beliefs c1 ''b'' \<noteq> None"
    unfolding p1(1) by (simp add: specSync_def clusterABC_beliefs)
  then have ok: "ok1" "ok2"
    using p1(3) p2(3) clusterABC_facts(4) by (auto simp: dom_beliefs)
  have lost: "sendMembershipSync RequestLost now t cfg c = (c, False)" for now t cfg c
    by (simp add: sendMembershipSync_def)
  obtain c' where c': "AddMember ?e ''a'' ''c'' clusterABC = Some (c', Some (SyncFailed ''c''))"
    using s1 s2 ok lost by (simp add: AddMember_def clusterABC_facts(4,6) applyClusterConfig_def nodeAt_def Let_def)
  have st: "steady ?e"
    by (simp add: steady_def)
  have n: "members (ring (nodeAt ''a'')) = {''a'', ''b''}" "configVersion (nodeAt ''a'') = 0"
    by (simp_all add: nodeAt_def ring_ab_facts)
  have old: "\<forall>r \<in> insert ''c'' (members (ring (nodeAt ''a''))). \<forall>v ms. beliefs clusterABC r = Some (v, ms) \<longrightarrow>
      v \<le> configVersion (nodeAt ''a'')"
    by (simp add: clusterABC_beliefs n)
  have prem: "''c'' \<notin> members (ring (nodeAt ''a''))" "\<forall>x \<in> members (ring (nodeAt ''a'')). goodString x"
      "configVersion (nodeAt ''a'') < - 2"
    using clusterABC_facts(7,8) by (simp_all add: n clusterABC_facts(5) word_less_nat_alt)
  obtain pre post where pp: "Members (ring (nodeAt ''a'')) @ [''c''] = pre @ ''c'' # post"
      "\<forall>r \<in> set pre. beliefs c' r = Some (if undoNet ?e r = RequestLost
         then (configVersion (nodeAt ''a'') + 1, insert ''c'' (members (ring (nodeAt ''a''))))
         else (configVersion (nodeAt ''a'') + 2, members (ring (nodeAt ''a''))))"
      "beliefs c' ''c'' = map_option (\<lambda>(v, ms). (if ''c'' = ''a'' then configVersion (nodeAt ''a'') + 2 else v, ms))
         (if syncNet ?e ''c'' = ReplyLost
          then map_option (\<lambda>_. (configVersion (nodeAt ''a'') + 1, insert ''c'' (members (ring (nodeAt ''a''))))) (beliefs clusterABC ''c'')
          else beliefs clusterABC ''c'')"
    using failed_change_rolled_back [OF c' clusterABC_facts(4) prem(1) st clusterABC_facts(2) prem(2) clusterABC_facts(9) prem(3) old]
    by blast
  have "pre = [''a'', ''b'']"
    using pp(1) by (auto simp: nodeAt_def clusterABC_facts(6) Cons_eq_append_conv)
  with pp(2,3) c' n show ?thesis
    by (simp add: clusterABC_beliefs)
qed

text \<open>Another coordinator brings version 5 with the members of the old ring to all nodes.\<close>

definition jump :: "cluster \<Rightarrow> cluster" where
  "jump c = (\<lambda>r. map_option (\<lambda>n. n\<lparr>configVersion := 5\<rparr>) (c r))"

lemma concurrent_change_lost_witness:
  "\<exists>c'. AddMember (plainChange\<lparr>besides := \<lambda>t. if t = ''a'' then jump else (\<lambda>c. c)\<rparr>) ''a'' ''c'' clusterABC = Some (c', None)
    \<and> beliefs c' ''b'' = Some (5, {''a'', ''b''})"
proof -
  let ?e = "plainChange\<lparr>besides := \<lambda>t. if t = ''a'' then jump else (\<lambda>c. c)\<rparr>"
  have j: "idle d \<Longrightarrow> idle (jump d)" "rings_ok d \<Longrightarrow> rings_ok (jump d)" "dom (jump d) = dom d" for d
    by (auto simp: idle_def rings_ok_def jump_def dom_def)
  have b: "beliefs (jump clusterABC) r = (if r \<in> {''a'', ''b'', ''c''} then Some (5, {''a'', ''b''}) else None)" for r
    by (simp add: beliefs_def jump_def clusterABC_def clusterAB_def beliefOf_def nodeAt_def ring_ab_facts)
  have n: "members (ring (nodeAt ''a'')) = {''a'', ''b''}" "configVersion (nodeAt ''a'') = 0"
      "Members (ring (nodeAt ''a'')) @ [''c''] = ''a'' # [''b'', ''c'']"
    by (simp_all add: nodeAt_def ring_ab_facts clusterABC_facts(6))
  let ?cfg = "\<lparr>ConfVersion = configVersion (nodeAt ''a'') + 1, ConfMembers = ''a'' # [''b'', ''c'']\<rparr>"
  obtain c1 where c1: "syncLoop ?e ?cfg [] (''a'' # [''b'', ''c'']) clusterABC = (c1, ''a'' # [''b'', ''c''], None)"
      "\<forall>c'. moveLoop ?e (''a'' # [''b'', ''c'']) c1 = Some (c', None) \<longrightarrow>
         AddMember ?e ''a'' ''c'' clusterABC = Some (c', None) \<and> beliefs c' = beliefs (besides ?e ''a'' clusterABC)"
    using concurrent_change_lost [where e = ?e and m = "''c''", OF clusterABC_facts(4) _ clusterABC_facts(2) _ _ _ n(3)]
      n clusterABC_facts(7-9) j(2) [OF clusterABC_facts(2)] by (auto simp: b simp del: syncLoop.simps moveLoop.simps)
  have all: "\<forall>t \<in> set (''a'' # [''b'', ''c'']). syncNet ?e t = Delivered \<and> clusterABC t \<noteq> None"
    by (simp add: clusterABC_def clusterAB_def)
  have cfg: "goodConfig ?cfg"
    using config_C n(2) by simp
  have quiet: "\<forall>t d. idle d \<longrightarrow> rings_ok d \<longrightarrow>
      idle (besides ?e t d) \<and> rings_ok (besides ?e t d) \<and> dom (besides ?e t d) = dom d"
    by (simp add: j)
  obtain c2 where c2: "syncLoop ?e ?cfg [] (''a'' # [''b'', ''c'']) clusterABC = (c2, [] @ ''a'' # [''b'', ''c''], None)"
      "idle c2" "dom c2 = dom clusterABC"
    using syncLoop_idle [OF cfg all quiet clusterABC_facts(1,2), of "[]"] by blast
  have same: "c2 = c1"
    using c1(1) c2(1) by (simp del: syncLoop.simps)
  have "\<forall>t \<in> set (''a'' # [''b'', ''c'']). c1 t \<noteq> None"
    using c2(3) clusterABC_facts(3) unfolding same by (metis domIff insertCI list.set(1) list.simps(15))
  from moveLoop_idle [OF c2(2) [unfolded same] this, of ?e] c1(2) show ?thesis
    by (simp add: b del: syncLoop.simps moveLoop.simps)
qed

lemma empty_config_erases_witness:
  "\<exists>n' c' res. handleMembershipSync 0 MethodPut (printJson (encodeConfig \<lparr>ConfVersion = 1, ConfMembers = []\<rparr>)) moveNode
      = (n', 204, []) \<and> rebalance plainRun ''a'' (clusterMove(''a'' \<mapsto> n')) = Some (c', res) \<and> ReCopied res = 0"
proof -
  obtain n' status body where h: "handleMembershipSync 0 MethodPut (printJson (encodeConfig \<lparr>ConfVersion = 1, ConfMembers = []\<rparr>)) moveNode
      = (n', status, body)"
    by (metis prod_cases3)
  have c: "clusterMove ''a'' = Some moveNode" "ring_ok (ring moveNode)" "configVersion moveNode < 1"
    using ring_ab_facts(4) by (simp_all add: clusterMove_def) (simp add: moveNode_def nodeAt_def)
  have "body = []"
    using h decodeConfig_print [of "\<lparr>ConfVersion = 1, ConfMembers = []\<rparr>"] c(3)
    by (auto simp: handleMembershipSync_def noContent_def Let_def split: if_splits)
  with empty_config_erases [where c = clusterMove and r = "''a''" and e = plainRun, OF c h] h show ?thesis
    by auto
qed

end
