(* ===== verification/ProbeProps.thy ===== *)
theory ProbeProps
  imports Probe ConfigProps
begin

text \<open>
  What the failure detector achieves over the network: a probe's verdict, a crashed member is
  found, gossip spreads what a node believes; and a member that is removed while it is probed.
\<close>

subsection \<open>Messages come through\<close>

lemma ping_names [simp]:
  "foldName (bytesOf ''target'') = bytesOf ''TARGET''" "goodString ''target''"
  by code_simp+

lemma decodePing_print:
  assumes "goodString t"
  shows "decodeStream decodePing (printJson (encodePing t)) [] = Some t"
proof -
  have "wfJson (encodePing t)"
    by (simp add: encodePing_def)
  moreover have "decodePing (cleanJson (encodePing t)) [] = Some t"
    using assms by (simp add: decodePing_def encodePing_def decodeStruct_def onField_def)
  ultimately show ?thesis
    using decodeStream_print [where rest = "[]" and dec = decodePing] by (simp add: stops_def)
qed

lemma gossip_names [simp]:
  "foldName (bytesOf ''node'') = bytesOf ''NODE''" "foldName (bytesOf ''status'') = bytesOf ''STATUS''"
  "foldName (bytesOf ''incarnation'') = bytesOf ''INCARNATION''"
  "goodString ''node''" "goodString ''status''" "goodString ''incarnation''"
  by code_simp+

lemma statusString_good [simp]: "goodString (statusString s)"
proof (cases s)
  case statusAlive
  have "goodString ''alive''" by code_simp
  then show ?thesis by (simp add: statusString_def statusAlive)
next
  case statusSuspect
  have "goodString ''suspect''" by code_simp
  then show ?thesis by (simp add: statusString_def statusSuspect)
next
  case statusDead
  have "goodString ''dead''" by code_simp
  then show ?thesis by (simp add: statusString_def statusDead)
qed

definition goodGossip :: "gossipMember \<Rightarrow> bool" where
  "goodGossip g \<longleftrightarrow> goodString (GNode g) \<and> goodString (GStatus g)"

lemma decodeGossipMember_encode:
  "goodGossip g \<Longrightarrow> decodeGossipMember (cleanJson (encodeGossipMember g)) x = Some g"
  by (simp add: decodeGossipMember_def encodeGossipMember_def goodGossip_def decodeStruct_def onField_def)

lemma decodeGossip_print:
  assumes "list_all goodGossip gs"
  shows "decodeStream decodeGossip (printJson (encodeGossip gs)) [] = Some gs"
proof -
  have "wfJson (encodeGossipMember g)" for g
    by (simp add: encodeGossipMember_def)
  then have w: "wfJson (encodeGossip gs)"
    by (auto simp: encodeGossip_def encodeSlice_def list_all_iff)
  have "decodeSlice decodeGossipMember zeroGossip (cleanJson (encodeSlice encodeGossipMember gs)) [] = Some gs"
    using assms by (intro decodeSlice_encode) (auto simp: list_all_iff decodeGossipMember_encode)
  then have "decodeGossip (cleanJson (encodeGossip gs)) [] = Some gs"
    by (simp add: decodeGossip_def encodeGossip_def decodeStruct_def onField_def)
  with decodeStream_print [where rest = "[]" and dec = decodeGossip, OF w] show ?thesis
    by (simp add: stops_def)
qed

subsection \<open>The verdict of a probe\<close>

definition fair :: "(string set \<Rightarrow> string list) \<Rightarrow> bool" where
  "fair shuffle \<longleftrightarrow> (\<forall>S. finite S \<longrightarrow> set (shuffle S) = S \<and> distinct (shuffle S))"

text \<open>A member is reached when it is up and its reply arrives.\<close>

definition reached :: "pings \<Rightarrow> string \<Rightarrow> string \<Rightarrow> cluster \<Rightarrow> bool" where
  "reached net a b c \<longleftrightarrow> b = a \<or> net a b = Delivered \<and> c b \<noteq> None"

definition vouches :: "probeRun \<Rightarrow> string \<Rightarrow> string \<Rightarrow> cluster \<Rightarrow> bool" where
  "vouches e h t c \<longleftrightarrow> helpNet e h = Delivered \<and> c h \<noteq> None \<and> reached (pingNet e) h t c"

lemma pingNode_reached: "pingNode (net a b) a b c \<longleftrightarrow> reached net a b c"
  by (auto simp: pingNode_def reached_def handlePing_def noContent_def split: rpc.splits option.splits)

lemma requestIndirectPing_vouches:
  assumes "goodString t" "t \<noteq> []"
  shows "requestIndirectPing (pingNet e) (helpNet e h) h t c \<longleftrightarrow> vouches e h t c"
  using assms
  by (auto simp: requestIndirectPing_def vouches_def handlePingRequest_def decodePing_print pingNode_reached
      noContent_def httpError_def split: rpc.splits option.splits)

lemma awaitHelpers_any: "awaitHelpers oks \<longleftrightarrow> True \<in> set oks"
  by (induction oks) auto

lemma randomMembers_facts:
  fixes exclude :: "string list"
  assumes "fair shuffle" "finite (fdList (detector n))"
  defines "S \<equiv> fdList (detector n) - insert (addr n) (set exclude)"
  shows "set (randomMembers shuffle limit exclude n) \<subseteq> S" "distinct (randomMembers shuffle limit exclude n)"
    "length (randomMembers shuffle limit exclude n) = min limit (card S)"
proof -
  have s: "set (shuffle S) = S" "distinct (shuffle S)"
    using assms by (auto simp: fair_def)
  then have "length (shuffle S) = card S"
    by (metis distinct_card)
  with s show "set (randomMembers shuffle limit exclude n) \<subseteq> S" "distinct (randomMembers shuffle limit exclude n)"
    "length (randomMembers shuffle limit exclude n) = min limit (card S)"
    by (auto simp: randomMembers_def Let_def S_def [symmetric] dest: in_set_takeD)
qed

lemma randomProbeTarget_facts:
  assumes "fair shuffle" "finite (fdList (detector n))" "addr n = me"
  shows "randomProbeTarget shuffle n = None \<longleftrightarrow> fdList (detector n) \<subseteq> {me}"
    and "randomProbeTarget shuffle n = Some t \<Longrightarrow> t \<in> fdList (detector n) - {me}"
proof -
  let ?D = "fdList (detector n)"
  note r = randomMembers_facts [OF assms(1,2), where limit = 1 and exclude = "[]", unfolded assms(3)]
  have "randomProbeTarget shuffle n = None \<longleftrightarrow> length (randomMembers shuffle 1 [] n) = 0"
    by (simp add: randomProbeTarget_def split: list.split)
  also have "\<dots> \<longleftrightarrow> ?D \<subseteq> {me}"
    unfolding r(3) using assms(2) by (auto simp: min_def card_gt_0_iff Suc_le_eq)
  finally show "randomProbeTarget shuffle n = None \<longleftrightarrow> ?D \<subseteq> {me}" .
  show "randomProbeTarget shuffle n = Some t \<Longrightarrow> t \<in> ?D - {me}"
    using r(1) by (auto simp: randomProbeTarget_def split: list.splits)
qed

lemma randomProbeTarget_hd:
  "randomProbeTarget shuffle n = (case shuffle (fdList (detector n) - {addr n}) of [] \<Rightarrow> None | t # ts \<Rightarrow> Some t)"
  by (auto simp: randomProbeTarget_def randomMembers_def Let_def split: list.split)

lemma probeOnce_target:
  assumes "c me = Some n" "addr n = me" "randomProbeTarget (pickTarget e) n = Some t" "goodString t" "t \<noteq> []"
    and "asking e (pinging e c) me = Some n2"
  shows "probeOnce e now me c =
      (if reached (pingNet e) me t (pinging e c) then mark (MarkSuccess t now) me (midway e (pinging e c))
       else mark (if \<exists>h \<in> set (randomMembers (pickHelpers e) 2 [t] n2). vouches e h t (helping e h (asking e (pinging e c)))
                  then MarkSuccess t now else MarkFailure t now) me (midway e (asking e (pinging e c))))"
proof -
  have "indirectProbe e t n2 d \<longleftrightarrow> (\<exists>h \<in> set (randomMembers (pickHelpers e) 2 [t] n2). vouches e h t (helping e h d))" for d
    by (auto simp: indirectProbe_def indirectHelpers_def awaitHelpers_any requestIndirectPing_vouches [OF assms(4,5)] Let_def)
  with assms(1-3,6) show ?thesis
    by (simp add: probeOnce_def pingNode_reached Let_def)
qed

text \<open>C34. The verdict of a probe, with other work going on at every moment of it: a round itself changes
  nothing but the belief of one other member, chosen among the tracked ones; that member is marked
  alive when its reply arrives, or else when one of at most two other members, chosen among those
  tracked by then, is reached and reaches it, and as failing only when all of them fail.  A node
  that tracks no one but itself does nothing.\<close>
theorem probe_verdict:
  assumes "c me = Some n" "addr n = me" "fair (pickTarget e)" "fair (pickHelpers e)"
    and "finite (fdList (detector n))" "\<forall>m \<in> fdList (detector n). goodString m \<and> m \<noteq> []"
    and "asking e (pinging e c) me = Some n'" "addr n' = me" "finite (fdList (detector n'))"
  shows "(fdList (detector n) \<subseteq> {me} \<longrightarrow> probeOnce e now me c = c)
    \<and> (\<not> fdList (detector n) \<subseteq> {me} \<longrightarrow> (\<exists>t hs. t \<in> fdList (detector n) - {me}
        \<and> set hs \<subseteq> fdList (detector n') - {me, t} \<and> distinct hs \<and> length hs = min 2 (card (fdList (detector n') - {me, t}))
        \<and> probeOnce e now me c =
            (if reached (pingNet e) me t (pinging e c) then mark (MarkSuccess t now) me (midway e (pinging e c))
             else mark (if \<exists>h \<in> set hs. vouches e h t (helping e h (asking e (pinging e c)))
                        then MarkSuccess t now else MarkFailure t now) me (midway e (asking e (pinging e c))))))"
proof (cases "randomProbeTarget (pickTarget e) n")
  case None
  with randomProbeTarget_facts(1) [OF assms(3,5,2)] assms(1) show ?thesis
    by (simp add: probeOnce_def)
next
  case (Some t)
  let ?hs = "randomMembers (pickHelpers e) 2 [t] n'"
  note h = randomMembers_facts [OF assms(4,9), where limit = 2 and exclude = "[t]", unfolded assms(8)]
  note td = randomProbeTarget_facts [OF assms(3,5,2)]
  have "goodString t" "t \<noteq> []"
    using td(2) [OF Some] assms(6) by auto
  note p = probeOnce_target [where e = e and c = c and n = n and me = me and t = t, OF assms(1,2) Some this assms(7)]
  have "\<not> fdList (detector n) \<subseteq> {me}"
    using td(1) Some by simp
  with p td(2) [OF Some] h show ?thesis
    by (intro conjI impI exI [of _ t] exI [of _ ?hs]) auto
qed

subsection \<open>A crashed member is found\<close>

definition rounds :: "string \<Rightarrow> (probeRun \<times> int) list \<Rightarrow> cluster \<Rightarrow> cluster" where
  "rounds me es c = foldl (\<lambda>c (e, now). probeOnce e now me c) c es"

text \<open>The other work leaves the member down, the set of members and the belief of this one alone.\<close>

definition sparing :: "string \<Rightarrow> string \<Rightarrow> (cluster \<Rightarrow> cluster) \<Rightarrow> bool" where
  "sparing me t f \<longleftrightarrow> (\<forall>d n. d me = Some n \<longrightarrow> d t = None \<longrightarrow> f d t = None \<and>
     (\<exists>n'. f d me = Some n' \<and> addr n' = addr n \<and> fdList (detector n') = fdList (detector n)
        \<and> stateOf (detector n') t = stateOf (detector n) t))"

definition picks :: "string set \<Rightarrow> string \<Rightarrow> probeRun \<Rightarrow> bool" where
  "picks D t e \<longleftrightarrow> (case pickTarget e D of [] \<Rightarrow> False | x # xs \<Rightarrow> x = t)"

definition hits :: "string set \<Rightarrow> string \<Rightarrow> (probeRun \<times> int) list \<Rightarrow> nat" where
  "hits D t es = length (filter (picks D t \<circ> fst) es)"

text \<open>All the other work beside a round.\<close>

definition spares :: "string \<Rightarrow> string \<Rightarrow> probeRun \<Rightarrow> bool" where
  "spares me t e \<longleftrightarrow> sparing me t (pinging e) \<and> sparing me t (asking e) \<and> (\<forall>h. sparing me t (helping e h)) \<and> sparing me t (midway e)"

text \<open>What a node that watches a dead member believes after some rounds.\<close>

definition watching :: "string \<Rightarrow> string \<Rightarrow> string set \<Rightarrow> memberState \<Rightarrow> nat \<Rightarrow> cluster \<Rightarrow> bool" where
  "watching me t D s k c \<longleftrightarrow> c t = None \<and> (\<exists>n. c me = Some n \<and> addr n = me \<and> fdList (detector n) = D
     \<and> FailureCount (stateOf (detector n) t) = FailureCount s + int k
     \<and> (0 < k \<longrightarrow> Status (stateOf (detector n) t) = (if FailureCount s + int k \<ge> 3 then statusDead else statusSuspect)))"

lemma mark_simps:
  "mark f me c q = (if q = me then map_option (\<lambda>n. n\<lparr>detector := f (detector n)\<rparr>) (c me) else c q)"
  by (simp add: mark_def)

lemma Mark_facts:
  "fdList (MarkSuccess x now f) = insert x (fdList f)" "fdList (MarkFailure x now f) = insert x (fdList f)"
  "x \<noteq> t \<Longrightarrow> stateOf (MarkSuccess x now f) t = stateOf f t" "x \<noteq> t \<Longrightarrow> stateOf (MarkFailure x now f) t = stateOf f t"
  "FailureCount (stateOf (MarkFailure t now f) t) = FailureCount (stateOf f t) + 1"
  "Status (stateOf (MarkFailure t now f) t) = (if FailureCount (stateOf f t) + 1 \<ge> 3 then statusDead else statusSuspect)"
  by (auto simp: MarkSuccess_def MarkFailure_def fdList_def Let_def)

lemma spared:
  assumes "sparing me t f" "d me = Some n" "d t = None"
  obtains n' where "f d t = None" "f d me = Some n'" "addr n' = addr n" "fdList (detector n') = fdList (detector n)"
    "stateOf (detector n') t = stateOf (detector n) t"
  using assms unfolding sparing_def by blast

lemma probeOnce_watching:
  assumes "watching me t D s k c" "t \<in> D" "t \<noteq> me" "finite D" "\<forall>m \<in> D. goodString m \<and> m \<noteq> []"
    and "fair (pickTarget e)" "fair (pickHelpers e)" "spares me t e"
  shows "watching me t D s (if picks (D - {me}) t e then k + 1 else k) (probeOnce e now me c)"
proof -
  from assms(1) obtain n where n: "c me = Some n" "addr n = me" "fdList (detector n) = D" "c t = None"
      "FailureCount (stateOf (detector n) t) = FailureCount s + int k"
      "0 < k \<longrightarrow> Status (stateOf (detector n) t) = (if FailureCount s + int k \<ge> 3 then statusDead else statusSuspect)"
    by (auto simp: watching_def)
  have sp: "sparing me t (pinging e)" "sparing me t (asking e)" "sparing me t (helping e h)" "sparing me t (midway e)" for h
    using assms(8) by (simp_all add: spares_def)
  let ?c1 = "pinging e c" and ?c2 = "asking e (pinging e c)"
  obtain n1 where n1: "?c1 t = None" "?c1 me = Some n1" "addr n1 = addr n" "fdList (detector n1) = fdList (detector n)"
      "stateOf (detector n1) t = stateOf (detector n) t"
    by (rule spared [OF sp(1) n(1,4)])
  obtain n2 where n2: "?c2 t = None" "?c2 me = Some n2" "addr n2 = addr n1" "fdList (detector n2) = fdList (detector n1)"
      "stateOf (detector n2) t = stateOf (detector n1) t"
    by (rule spared [OF sp(2) n1(2,1)])
  obtain m1 where m1: "midway e ?c1 t = None" "midway e ?c1 me = Some m1" "addr m1 = addr n1"
      "fdList (detector m1) = fdList (detector n1)" "stateOf (detector m1) t = stateOf (detector n1) t"
    by (rule spared [OF sp(4) n1(2,1)])
  obtain m2 where m2: "midway e ?c2 t = None" "midway e ?c2 me = Some m2" "addr m2 = addr n2"
      "fdList (detector m2) = fdList (detector n2)" "stateOf (detector m2) t = stateOf (detector n2) t"
    by (rule spared [OF sp(4) n2(2,1)])
  have helped: "helping e h ?c2 t = None" for h
    by (rule spared [OF sp(3) [of h] n2(2,1)])
  note fn = randomProbeTarget_facts [OF assms(6) _ n(2), unfolded n(3), OF assms(4)]
  have "D - {me} \<noteq> {}"
    using assms(2,3) by blast
  with fn(1) obtain x where x: "randomProbeTarget (pickTarget e) n = Some x" "x \<in> D - {me}"
    using fn(2) by blast
  have p: "picks (D - {me}) t e \<longleftrightarrow> x = t"
    using x(1) n(2,3) by (auto simp: picks_def randomProbeTarget_hd split: list.splits)
  have g: "goodString x" "x \<noteq> []"
    using x(2) assms(5) by auto
  note o = probeOnce_target [where e = e and c = c and n = n and me = me and t = x and now = now, OF n(1,2) x(1) g n2(2)]
  show ?thesis
  proof (cases "x = t")
    case True
    have "\<not> (reached (pingNet e) me t ?c1 \<or> (\<exists>h \<in> set (randomMembers (pickHelpers e) 2 [t] n2). vouches e h t (helping e h ?c2)))"
    proof -
      have "set (randomMembers (pickHelpers e) 2 [t] n2) \<subseteq> D - {me, t}"
        using randomMembers_facts(1) [OF assms(7), where n = n2 and limit = 2 and exclude = "[t]"] n n1 n2 assms(4) by auto
      with n1(1) helped assms(3) show ?thesis
        by (auto simp: reached_def vouches_def)
    qed
    with o True have "probeOnce e now me c = mark (MarkFailure t now) me (midway e ?c2)"
      by simp
    with True p n n1 n2 m2 assms(2,3) show ?thesis
      by (auto simp: watching_def mark_simps Mark_facts)
  next
    case False
    with p n n1 n2 m1 m2 x assms(3) show ?thesis
      by (auto simp: o watching_def mark_simps Mark_facts insert_absorb)
  qed
qed

lemma rounds_watching:
  assumes "watching me t D s 0 c" "t \<in> D" "t \<noteq> me" "finite D" "\<forall>m \<in> D. goodString m \<and> m \<noteq> []"
    and "\<forall>(e, now) \<in> set es. fair (pickTarget e) \<and> fair (pickHelpers e) \<and> spares me t e"
  shows "watching me t D s (hits (D - {me}) t es) (rounds me es c)"
  using assms(6)
proof (induction es rule: rev_induct)
  case Nil
  with assms(1) show ?case by (simp add: rounds_def hits_def)
next
  case (snoc r es)
  obtain e now where r: "r = (e, now)"
    by fastforce
  have "watching me t D s (hits (D - {me}) t es) (rounds me es c)"
    using snoc by simp
  from probeOnce_watching [OF this assms(2-5), of e now] snoc.prems r show ?case
    by (simp add: rounds_def hits_def split: if_splits)
qed

text \<open>C35. A crashed member is found: when a member is down for good and three rounds of the prober
  pick it, in any order with rounds for other members and whatever the network does to those, the
  node holds it for dead at the end, as long as no gossip about it comes in.  Other work goes on at
  every moment of the rounds.\<close>
theorem crashed_member_found:
  assumes "c me = Some n" "addr n = me" "t \<in> fdList (detector n)" "t \<noteq> me" "c t = None"
    and "finite (fdList (detector n))" "\<forall>m \<in> fdList (detector n). goodString m \<and> m \<noteq> []"
    and "\<forall>(e, now) \<in> set es. fair (pickTarget e) \<and> fair (pickHelpers e) \<and> spares me t e"
    and "0 \<le> FailureCount (stateOf (detector n) t)" "3 \<le> hits (fdList (detector n) - {me}) t es"
  shows "\<exists>n'. rounds me es c me = Some n' \<and> Status (stateOf (detector n') t) = statusDead"
proof -
  have "watching me t (fdList (detector n)) (stateOf (detector n) t) 0 c"
    using assms(1,2,5) by (simp add: watching_def)
  from rounds_watching [OF this assms(3,4,6,7,8)] assms(9,10) show ?thesis
    by (auto simp: watching_def split: if_splits)
qed

subsection \<open>Gossip spreads\<close>

lemma mergeOne_other: "x \<noteq> GNode g \<Longrightarrow> tracked (mergeOne now g f) x = tracked f x"
  by (auto simp: mergeOne_def refuteSelf_def Let_def split: option.split)

lemma Merge_other: "x \<notin> GNode ` set gs \<Longrightarrow> tracked (Merge now gs f) x = tracked f x"
  by (induction gs arbitrary: f) (simp_all add: mergeOne_other)

text \<open>A list that names each member once acts on a member by its entry alone.\<close>

lemma mergeOne_cong:
  "tracked f (GNode g) = tracked f' (GNode g) \<Longrightarrow> GNode g \<noteq> self f \<Longrightarrow> self f' = self f
    \<Longrightarrow> tracked (mergeOne now g f) (GNode g) = tracked (mergeOne now g f') (GNode g)"
  by (auto simp: mergeOne_def split: option.split)

lemma Merge_one:
  assumes "distinct (map GNode gs)" "g \<in> set gs" "GNode g \<noteq> self f"
  shows "tracked (Merge now gs f) (GNode g) = tracked (mergeOne now g f) (GNode g)"
  using assms
proof (induction gs arbitrary: f)
  case (Cons h gs)
  show ?case
  proof (cases "g = h")
    case True
    then have "GNode g \<notin> GNode ` set gs"
      using Cons.prems(1) by simp
    with True show ?thesis
      by (simp add: Merge_other)
  next
    case False
    then have g: "g \<in> set gs"
      using Cons.prems(2) by simp
    then have "GNode g \<in> GNode ` set gs"
      by (rule imageI)
    with Cons.prems(1) have n: "GNode g \<noteq> GNode h"
      by auto
    have "tracked (Merge now gs (mergeOne now h f)) (GNode g) = tracked (mergeOne now g (mergeOne now h f)) (GNode g)"
      using Cons g by simp
    also have "\<dots> = tracked (mergeOne now g f) (GNode g)"
      using Cons.prems(3) n by (intro mergeOne_cong) (simp_all add: mergeOne_other)
    finally show ?thesis
      by simp
  qed
qed simp

lemma mergeOne_gossip:
  assumes "x \<noteq> self f"
  shows "\<exists>s'. tracked (mergeOne now (gossipOf x s) f) x = Some s' \<and> lexLe (rank s) (rank s')
    \<and> ((\<forall>s0. tracked f x = Some s0 \<longrightarrow> lexLess (rank s0) (rank s)) \<longrightarrow> Status s' = Status s)"
  using assms
  by (cases "tracked f x") (auto simp: mergeOne_def newerMemberState_rank rank_def gossipOf_def grank_def lexLe_def)

text \<open>C36. Gossip spreads what a node believes: a request that arrives is understood and leaves the
  receiver, of every member of its ring that the sender tracks, the receiver itself excepted, with
  a belief at least as new as the sender's, and with the sender's status where its own was older.
  Names are UTF-8.\<close>
theorem gossip_spreads:
  assumes "sendGossip net now order me t c = (c', ok)" "net \<noteq> RequestLost" "c me = Some n" "c t = Some m"
    and "self (detector m) = t" "set order = fdList (detector n)" "distinct order"
    and "\<forall>x \<in> fdList (detector n). goodString x"
    and "x \<in> set (Members (ring m))" "x \<noteq> t" "tracked (detector n) x = Some s"
  shows "(ok \<longleftrightarrow> net = Delivered) \<and> (\<exists>m' s'. c' = c(t \<mapsto> m') \<and> tracked (detector m') x = Some s' \<and> lexLe (rank s) (rank s')
    \<and> ((\<forall>s0. tracked (detector m) x = Some s0 \<longrightarrow> lexLess (rank s0) (rank s)) \<longrightarrow> Status s' = Status s))"
proof -
  let ?gs = "GossipSnapshot order (detector n)"
  let ?fs = "filter (\<lambda>g. GNode g \<in> set (Members (ring m))) ?gs"
  have names: "map GNode ?gs = order"
    by (simp add: GossipSnapshot_def comp_def)
  have "list_all goodGossip ?gs"
    using assms(6,8) by (auto simp: GossipSnapshot_def goodGossip_def list_all_iff)
  then have h: "handleGossipRequest now MethodPost (printJson (encodeGossip ?gs)) m =
      (m\<lparr>detector := Merge now ?fs (detector m)\<rparr>, noContent)"
    by (simp add: handleGossipRequest_def decodeGossip_print handleGossip_def)
  have "x \<in> set order"
    using assms(6,11) by (auto simp: fdList_def)
  then have g: "gossipOf x s \<in> set ?fs"
    using assms(9,11) by (auto simp: GossipSnapshot_def stateOf_def intro!: image_eqI [of _ _ x])
  have "distinct (map GNode ?fs)"
    using assms(7) names by (metis distinct_map_filter)
  from Merge_one [OF this g, of "detector m" now] assms(5,10)
  have "tracked (Merge now ?fs (detector m)) x = tracked (mergeOne now (gossipOf x s) (detector m)) x"
    by simp
  with mergeOne_gossip [of x "detector m" now s] assms(5,10) h assms(1-4) show ?thesis
    by (cases net) (auto simp: sendGossip_def noContent_def)
qed

subsection \<open>A member that is removed while it is probed\<close>

definition in_step :: "Node \<Rightarrow> bool" where
  "in_step n \<longleftrightarrow> fdList (detector n) = members (ring n)"

lemma Track_facts:
  "fdList (TrackMember m now f) = insert m (fdList f)" "fdList (UntrackMember m f) = fdList f - {m}"
  by (auto simp: fdList_def TrackMember_def UntrackMember_def split: if_splits)

lemma handleMembershipSync_in_step:
  assumes "in_step n" "handleMembershipSync now meth body n = (n', out)"
  shows "in_step n'"
proof -
  have d: "in_step x \<Longrightarrow> in_step (foldl (dropMember cfg) x ms)" for cfg x ms
    by (induction ms arbitrary: x) (auto simp: dropMember_def in_step_def Track_facts members_Remove)
  have t: "in_step x \<Longrightarrow> in_step (foldl (takeMember now) x ms)" for x ms
    by (induction ms arbitrary: x) (auto simp: takeMember_def in_step_def Track_facts members_Add)
  have "in_step (x\<lparr>configVersion := v\<rparr>) = in_step x" for x v
    by (simp add: in_step_def)
  with assms d t show ?thesis
    by (auto simp: handleMembershipSync_def Let_def split: if_splits option.splits)
qed

text \<open>A member that is removed while a probe of it is under way comes back: the configuration
  without it takes it out of the ring and out of the detector, and the entry of the verdict, which
  does not look whether the member is still tracked, puts it into the detector again, where nothing
  but its return to the ring would take it out.\<close>
theorem removed_member_returns:
  assumes "c me = Some n" "addr n = me" "ring_ok (ring n)" "in_step n" "goodConfig cfg" "configVersion n < ConfVersion cfg"
    and "randomProbeTarget (pickTarget e) n = Some t" "goodString t" "t \<noteq> []" "t \<notin> set (ConfMembers cfg)"
    and "handleMembershipSync later MethodPut (printJson (encodeConfig cfg)) n = (n1, out)" "midway e c = c(me \<mapsto> n1)"
    and "pinging e c = c" "asking e c = c"
  shows "in_step n1 \<and> t \<notin> fdList (detector n1)
    \<and> (\<exists>n2. probeOnce e now me c me = Some n2 \<and> t \<in> fdList (detector n2) \<and> t \<notin> members (ring n2))"
proof -
  obtain status body where o: "out = (status, body)"
    by fastforce
  have "members (ring n1) = set (ConfMembers cfg)"
    using handleMembershipSync_spec [OF assms(5,3) assms(11) [unfolded o]] assms(6)
    by (simp add: beliefOf_def adopt_def)
  moreover have "in_step n1"
    by (rule handleMembershipSync_in_step [OF assms(4,11)])
  ultimately show ?thesis
    using assms(10) probeOnce_target [where e = e and c = c and n = n and me = me and t = t and now = now, OF assms(1,2,7,8,9)]
    by (auto simp: assms(1,12-14) mark_simps Mark_facts in_step_def)
qed

subsection \<open>A concrete cluster\<close>

definition plainProbe :: probeRun where
  "plainProbe = \<lparr>pickTarget = sorted_list_of_set, pickHelpers = sorted_list_of_set,
     pingNet = \<lambda>_ _. Delivered, helpNet = \<lambda>_. Delivered,
     pinging = \<lambda>c. c, asking = \<lambda>c. c, helping = \<lambda>_ c. c, midway = \<lambda>c. c\<rparr>"

lemma plainProbe_simps [simp]:
  "pickTarget plainProbe = sorted_list_of_set" "pickHelpers plainProbe = sorted_list_of_set"
  "pingNet plainProbe = (\<lambda>_ _. Delivered)" "helpNet plainProbe = (\<lambda>_. Delivered)" "midway plainProbe c = c"
  "pinging plainProbe c = c" "asking plainProbe c = c" "helping plainProbe h c = c"
  "fair sorted_list_of_set"
  by (simp_all add: plainProbe_def fair_def)

lemma nodeAt_detector:
  "fdList (detector (nodeAt q)) = {''a'', ''b'', q}" "self (detector (nodeAt q)) = q"
  "q \<noteq> r \<Longrightarrow> r \<in> {''a'', ''b''} \<Longrightarrow> stateOf (detector (nodeAt q)) r = zeroState"
  by (auto simp: nodeAt_def newFailureDetector_def fdList_def putState_def stateOf_def zeroState_def Let_def)

lemma names_ab: "\<forall>m \<in> {''a'', ''b''}. goodString m \<and> m \<noteq> []" "{''a'', ''b'', ''a''} = {''a'', ''b''}"
  using clusterABC_facts(7,8) by auto

lemma probe_verdict_witness: "probeOnce plainProbe 5 ''a'' clusterAB = mark (MarkSuccess ''b'' 5) ''a'' clusterAB"
proof -
  have c: "clusterAB ''a'' = Some (nodeAt ''a'')" "clusterAB ''b'' \<noteq> None"
    by (simp_all add: clusterAB_def)
  have d: "fdList (detector (nodeAt ''a'')) = {''a'', ''b''}"
    by (auto simp: nodeAt_detector)
  from probe_verdict [where e = plainProbe and now = 5 and c = clusterAB and n = "nodeAt ''a''" and n' = "nodeAt ''a''" and me = "''a''", OF c(1)] names_ab c show ?thesis
    unfolding d by (auto simp: reached_def)
qed

lemma crashed_member_found_witness:
  "\<exists>n'. rounds ''a'' [(plainProbe, 1), (plainProbe, 2), (plainProbe, 3)] [''a'' \<mapsto> nodeAt ''a''] ''a'' = Some n'
    \<and> Status (stateOf (detector n') ''b'') = statusDead"
proof -
  have d: "fdList (detector (nodeAt ''a'')) = {''a'', ''b''}"
    by (auto simp: nodeAt_detector)
  have p: "picks {''b''} ''b'' plainProbe"
    by (simp add: picks_def)
  have s: "spares ''a'' ''b'' plainProbe"
    by (simp add: spares_def sparing_def)
  show ?thesis
    by (rule crashed_member_found [where n = "nodeAt ''a''"])
      (use names_ab p s in \<open>auto simp: d hits_def nodeAt_detector zeroState_def insert_Diff_if\<close>)
qed

lemma gossip_spreads_witness:
  "\<exists>c' m' s'. sendGossip Delivered 5 [''a'', ''b''] ''b'' ''a'' clusterAB = (c', True)
    \<and> c' ''a'' = Some m' \<and> tracked (detector m') ''b'' = Some s' \<and> lexLe (1, 1) (rank s')"
proof -
  have c: "clusterAB ''a'' = Some (nodeAt ''a'')" "clusterAB ''b'' = Some (nodeAt ''b'')"
    by (simp_all add: clusterAB_def)
  have d: "fdList (detector (nodeAt ''b'')) = {''a'', ''b''}"
    by (auto simp: nodeAt_detector)
  obtain c' ok where g: "sendGossip Delivered 5 [''a'', ''b''] ''b'' ''a'' clusterAB = (c', ok)"
    by fastforce
  let ?s = "zeroState\<lparr>Incarnation := 1, StateVersion := 1\<rparr>"
  have t: "tracked (detector (nodeAt ''b'')) ''b'' = Some ?s" "''b'' \<in> set (Members (ring (nodeAt ''a'')))"
    using clusterABC_facts(6) by (simp_all add: nodeAt_def newFailureDetector_def putState_def stateOf_def Let_def zeroState_def)
  from gossip_spreads [where x = "''b''" and s = ?s, OF g _ c(2,1)] names_ab t
  obtain m' s' where m: "ok" "c' = clusterAB(''a'' \<mapsto> m')" "tracked (detector m') ''b'' = Some s'"
      "lexLe (rank ?s) (rank s')"
    by (auto simp: d nodeAt_detector)
  have "rank ?s = (1, 1)"
    by (simp add: rank_def zeroState_def)
  with g m show ?thesis
    by auto
qed

lemma removed_member_returns_witness:
  "\<exists>n1 n2. fst (handleMembershipSync 1 MethodPut (printJson (encodeConfig \<lparr>ConfVersion = 1, ConfMembers = [''a'']\<rparr>)) (nodeAt ''a'')) = n1
    \<and> probeOnce (plainProbe\<lparr>midway := \<lambda>c. c(''a'' \<mapsto> n1)\<rparr>) 5 ''a'' clusterAB ''a'' = Some n2
    \<and> ''b'' \<in> fdList (detector n2) \<and> ''b'' \<notin> members (ring n2)"
proof -
  let ?cfg = "\<lparr>ConfVersion = 1, ConfMembers = [''a'']\<rparr>"
  obtain n1 out where h: "handleMembershipSync 1 MethodPut (printJson (encodeConfig ?cfg)) (nodeAt ''a'') = (n1, out)"
    by (metis surj_pair)
  let ?e = "plainProbe\<lparr>midway := \<lambda>c. c(''a'' \<mapsto> n1)\<rparr>"
  have c: "clusterAB ''a'' = Some (nodeAt ''a'')"
    by (simp add: clusterAB_def)
  have d: "fdList (detector (nodeAt ''a'')) = {''a'', ''b''}"
    by (auto simp: nodeAt_detector)
  have i: "in_step (nodeAt ''a'')"
    by (simp add: in_step_def d ring_ab_facts)
  have g: "goodConfig ?cfg" "configVersion (nodeAt ''a'') < ConfVersion ?cfg"
    using clusterABC_facts(7) by (simp_all add: goodConfig_def) (simp add: nodeAt_def)
  have r: "randomProbeTarget (pickTarget ?e) (nodeAt ''a'') = Some ''b''"
    by (simp add: randomProbeTarget_hd d insert_Diff_if)
  have f: "ring_ok (ring (nodeAt ''a''))"
    by (simp add: ring_ab_facts)
  have m: "midway ?e clusterAB = clusterAB(''a'' \<mapsto> n1)" "''b'' \<notin> set (ConfMembers ?cfg)"
      "pinging ?e clusterAB = clusterAB" "asking ?e clusterAB = clusterAB"
    by simp_all
  from removed_member_returns [where e = ?e and c = clusterAB and now = 5, OF c nodeAt_facts(1) f i g r clusterABC_facts(8) _ m(2) h m(1,3,4)] h show ?thesis
    by (metis fst_conv list.distinct(1))
qed

end
