(* ===== verification/System.thy ===== *)
theory System
  imports AtomicService Process ProbeProps
begin

text \<open>
  The whole system: nodes that start, stop, serve requests and run their background tasks in any
  order, on top of the atomic steps of single nodes; and what holds of every node at every moment.
\<close>

subsection \<open>Collection and background tasks\<close>

definition gcWorks :: "gcRun \<Rightarrow> bool" where
  "gcWorks e \<longleftrightarrow> (\<forall>m c. steps c (beforeMark e m c) \<and> steps c (beforeSweep e m c)) \<and> (\<forall>c. steps c (afterMarks e c))"

lemma requestGCSweep_steps: "requestGCSweep net me t req c = (c', x) \<Longrightarrow> steps c c'"
  by (auto simp: requestGCSweep_def split: option.splits if_splits prod.splits
      intro: steps_node dest: localGCSweep_steps handleGCSweep_steps)

lemma collectLoop_steps: "collectLoop e me v ms live c = (c', x) \<Longrightarrow> gcWorks e \<Longrightarrow> steps c c'"
proof (induction ms arbitrary: live c)
  case (Cons m ms)
  have "steps c (beforeMark e m c)"
    using Cons.prems(2) by (simp add: gcWorks_def)
  with Cons show ?case
    by (auto simp: Let_def split: option.splits if_splits intro: run_trans)
qed simp

lemma sweepMembers_steps: "sweepMembers e me req ms res c = (c', x) \<Longrightarrow> gcWorks e \<Longrightarrow> steps c c'"
proof (induction ms arbitrary: res c)
  case (Cons m ms)
  obtain c1 y where p: "requestGCSweep (sweepNet e m) me m req (beforeSweep e m c) = (c1, y)"
    by fastforce
  have "steps c (beforeSweep e m c)"
    using Cons.prems(2) by (simp add: gcWorks_def)
  with requestGCSweep_steps [OF p] have "steps c c1"
    by (blast intro: run_trans)
  with Cons p show ?case
    by (cases y) (auto intro: run_trans)
qed simp

lemma RunGC_steps:
  assumes "RunGC e me start grace c = (c', x)" "gcWorks e"
  shows "steps c c'"
proof -
  obtain c1 y where p: "collectLiveChunks e me c = (c1, y)"
    by fastforce
  have s1: "steps c c1"
    using p assms(2) by (auto simp: collectLiveChunks_def Let_def split: if_splits prod.splits sum.splits
        dest: collectLoop_steps)
  have "steps c1 (afterMarks e c1)"
    using assms(2) by (simp add: gcWorks_def)
  with s1 have s2: "steps c (afterMarks e c1)"
    by (rule run_trans)
  show ?thesis
  proof (cases y)
    case (Inl z)
    with assms(1) p s1 show ?thesis
      by (auto simp: RunGC_def split: if_splits)
  next
    case (Inr z)
    with assms p s2 show ?thesis
      by (cases z) (auto simp: RunGC_def Let_def split: if_splits intro: run_trans dest: sweepMembers_steps)
  qed
qed

lemma handleAdminGC_steps: "handleAdminGC e me now meth c = (c', r) \<Longrightarrow> gcWorks e \<Longrightarrow> steps c c'"
  by (auto simp: handleAdminGC_def split: if_splits prod.splits sum.splits intro: RunGC_steps)

lemma mark_steps:
  assumes "\<And>n. nodeStep n (n\<lparr>detector := f (detector n)\<rparr>)"
  shows "steps c (mark f me c)"
  using assms by (cases "c me") (auto simp: mark_def fun_upd_idem intro: steps_one)

lemma probeOnce_steps:
  assumes "\<forall>d. steps d (pinging e d) \<and> steps d (asking e d) \<and> steps d (midway e d)"
  shows "steps c (probeOnce e now me c)"
proof -
  have m: "steps d (mark (MarkSuccess t now) me (midway e d))" "steps d (mark (MarkFailure t now) me (midway e d))" for t d
    using assms by (auto intro!: run_trans [OF _ mark_steps] NodeMark NodeMiss)
  have p: "steps c (pinging e c)" "steps c (asking e (pinging e c))"
    using assms by (blast intro: run_trans)+
  show ?thesis
    using run_trans [OF p(1) m(1)] run_trans [OF p(2) m(1)] run_trans [OF p(2) m(2)] p(2)
    by (auto simp: probeOnce_def Let_def split: option.split)
qed

lemma sendGossip_steps: "sendGossip net now order me t c = (c', ok) \<Longrightarrow> steps c c'"
  by (auto simp: sendGossip_def Let_def split: option.splits rpc.splits prod.splits
      intro: steps_node dest: handleGossipRequest_steps)

lemma gossipLoop_steps: "\<forall>t c. steps c (beforeSend e t c) \<Longrightarrow> steps c (gossipLoop e me ts c)"
proof (induction ts arbitrary: c)
  case (Cons t ts)
  let ?c = "beforeSend e t c"
  have "steps ?c (fst (sendGossip (gossipNet e t) (gossipClock e t) (listing e t) me t ?c))"
    by (rule sendGossip_steps [OF prod.collapse [symmetric]])
  moreover have "steps c ?c"
    using Cons.prems by blast
  ultimately have "steps c (fst (sendGossip (gossipNet e t) (gossipClock e t) (listing e t) me t ?c))"
    by (blast intro: run_trans)
  with Cons show ?case
    by (auto intro: run_trans)
qed simp

lemma gossipOnce_steps: "\<forall>t c. steps c (beforeSend e t c) \<Longrightarrow> steps c (gossipOnce e me c)"
  by (auto simp: gossipOnce_def split: option.split intro: gossipLoop_steps)

lemma flushLoop_steps:
  assumes "flushLoop (\<lambda>r k v c. putReplica (net r k) me r k v c) xs h c = (h', c')"
  shows "steps c c' \<and> map_option nodeHints (c' q) = map_option nodeHints (c q)
    \<and> (\<forall>n. nodeHints n = h \<longrightarrow> run nodeStep n (n\<lparr>nodeHints := h'\<rparr>))"
  using assms
proof (induction xs arbitrary: h c)
  case (Cons x xs)
  obtain c1 ok where p: "putReplica (net (Replica x) (HintKey x)) me (Replica x) (HintKey x) (HintValue x) c = (c1, ok)"
    by fastforce
  note s = putReplica_steps [OF p] putReplica_hints [OF p, of q]
  let ?h = "RemoveIfMatch (Replica x) (HintKey x) (VersionOf (HintValue x)) h"
  show ?case
  proof (cases ok)
    case False
    with Cons.prems p have "flushLoop (\<lambda>r k v c. putReplica (net r k) me r k v c) xs h c1 = (h', c')"
      by simp
    from Cons.IH [OF this] s show ?thesis
      by (auto intro: run_trans)
  next
    case True
    with Cons.prems p have "flushLoop (\<lambda>r k v c. putReplica (net r k) me r k v c) xs ?h c1 = (h', c')"
      by simp
    note IH = Cons.IH [OF this]
    have "run nodeStep n (n\<lparr>nodeHints := h'\<rparr>)" if n: "nodeHints n = h" for n
    proof -
      have "run nodeStep n (n\<lparr>nodeHints := ?h\<rparr>)"
        unfolding n [symmetric] by (rule run_one, rule NodeUnhint)
      moreover have "nodeHints (n\<lparr>nodeHints := ?h\<rparr>) = ?h \<longrightarrow>
          run nodeStep (n\<lparr>nodeHints := ?h\<rparr>) (n\<lparr>nodeHints := ?h, nodeHints := h'\<rparr>)"
        using IH by blast
      ultimately show ?thesis
        by (auto intro: run_trans)
    qed
    with IH s show ?thesis
      by (auto intro: run_trans)
  qed
next
  case Nil
  have "n\<lparr>nodeHints := nodeHints n\<rparr> = n" for n :: Node
    by simp
  with Nil show ?case
    by (auto simp: run_refl)
qed

lemma NodeFlush_steps: "steps c (NodeFlush net order me c)"
proof (cases "c me")
  case (Some n)
  obtain h c' where f: "flushHints (\<lambda>r k v c. putReplica (net r k) me r k v c) order (nodeHints n) c = (h, c')"
    by fastforce
  note fl = flushLoop_steps [OF f [unfolded flushHints_def], of me]
  then obtain n' where n': "c' me = Some n'" "nodeHints n' = nodeHints n"
    using Some by auto
  with fl have "run nodeStep n' (n'\<lparr>nodeHints := h\<rparr>)"
    by blast
  from steps_node [where c = c' and r = me, OF this n'(1)] fl
  have "steps c (c'(me \<mapsto> n'\<lparr>nodeHints := h\<rparr>))"
    by (blast intro: run_trans)
  with Some f n'(1) show ?thesis
    by (simp add: NodeFlush_def)
qed (simp add: NodeFlush_def)

subsection \<open>The service\<close>

definition works :: "environment \<Rightarrow> bool" where
  "works e \<longleftrightarrow> runWorks (envMove e) \<and> changeWorks (envChange e) \<and> gcWorks (envGC e)"

lemma handle_steps:
  assumes "handle h e me req c = Some (c', r)" "works e"
  shows "steps c c'"
proof -
  have node: "onNode f me c = Some (c', x) \<Longrightarrow> (\<And>n n' y. f n = (n', y) \<Longrightarrow> run nodeStep n n') \<Longrightarrow> steps c c'" for f x
    by (rule onNode_steps)
  have w: "runWorks (envMove e)" "changeWorks (envChange e)" "gcWorks (envGC e)"
    using assms(2) by (simp_all add: works_def)
  note defs = handle_def Let_def
  show ?thesis
  proof (cases h)
    case HandleObject
    obtain w x where o: "handleObject (envSchedule e) me (envObjectText e) (envWrites e) (reqMethod req) (reqPath req)
        (reqBody req) \<lparr>clu = c, tick = 0\<rparr> = (w, x)"
      by (metis surj_pair)
    with handleObject_ahead [OF o] assms(1) HandleObject show ?thesis
      by (simp add: defs ahead_def)
  next
    case HandleAdminGC
    with assms(1) w(3) show ?thesis
      by (auto simp: defs split: prod.splits intro: handleAdminGC_steps)
  qed (use assms(1) w in \<open>auto simp: defs intro: handleKV_steps rebalanceRequest_steps(1) handleAdminMember_steps
      drainRequest_steps(1) run_refl
      elim!: node handler_steps handleDebugKV_steps handleGossipRequest_steps handleMembershipSync_steps handleGCSweep_steps\<close>)
qed

lemma serve_steps: "serve e me req c = Some (c', r) \<Longrightarrow> works e \<Longrightarrow> steps c c'"
  by (auto simp: serve_def split: routing.splits dest: handle_steps)

subsection \<open>What holds of a node at every moment\<close>

text \<open>
  The node has its own address in the detector too; the ring is consistent; chunk files have the
  content of their name; hints are filed under their replica and key; the largest counter bounds
  the stored versions; map and detector are finite; and the quorums are those of \<open>New\<close>, which
  overlap.
\<close>

definition node_ok :: "string \<Rightarrow> Node \<Rightarrow> bool" where
  "node_ok r n \<longleftrightarrow> addr n = r \<and> self (detector n) = r \<and> ring_ok (ring n) \<and> well_named (chunks n)
     \<and> hints_ok (nodeHints n) \<and> bounded (store n) \<and> finite (dom (memData (store n))) \<and> finite (fdList (detector n))
     \<and> readQuorum n + writeQuorum n > replicas n"

definition cluster_ok :: "cluster \<Rightarrow> bool" where
  "cluster_ok c \<longleftrightarrow> (\<forall>r n. c r = Some n \<longrightarrow> node_ok r n)"

lemma Set_bounded: "bounded m \<Longrightarrow> bounded (fst (Set key v m))"
proof -
  assume b: "bounded m"
  obtain m1 e c where l: "setLocked key v m = (m1, e, c)"
    by (metis prod_cases3)
  with setLocked_bounded [OF l b] bounded_cong [OF MaybeSnapshot_fields] show ?thesis
    by (auto simp: Set_def)
qed

lemma DeleteIfMatch_bounded: "bounded m \<Longrightarrow> bounded (fst (DeleteIfMatch key ver m))"
proof -
  assume b: "bounded m"
  obtain m1 e c where l: "deleteLocked key ver m = (m1, e, c)"
    by (metis prod_cases3)
  with deleteLocked_bounded [OF l b] bounded_cong [OF MaybeSnapshot_fields] show ?thesis
    by (auto simp: DeleteIfMatch_def)
qed

lemma ForceSet_bounded: "bounded m \<Longrightarrow> bounded (ForceSet key v m)"
  by (auto simp: bounded_def ForceSet_def Let_def) (meson le_less_trans less_imp_le)

lemma finite_dom_write:
  assumes "finite (dom (memData m))"
  shows "finite (dom (memData (fst (Set key v m))))" "finite (dom (memData (fst (DeleteIfMatch key ver m))))"
    "finite (dom (memData (ForceSet key v m)))"
proof -
  obtain m' e where s: "Set key v m = (m', e)"
    by fastforce
  with assms show "finite (dom (memData (fst (Set key v m))))"
    by (cases e) (auto dest: Set_ok Set_error)
  obtain m1 e1 c where l: "deleteLocked key ver m = (m1, e1, c)"
    by (metis prod_cases3)
  then have "memData m1 = memData m \<or> memData m1 = (memData m)(key := None)"
    by (auto simp: deleteLocked_def forceDelete_def split: option.splits prod.splits if_splits dest!: logEntry_fields)
  with assms l show "finite (dom (memData (fst (DeleteIfMatch key ver m))))"
    by (auto simp: DeleteIfMatch_def MaybeSnapshot_fields)
  show "finite (dom (memData (ForceSet key v m)))"
    using assms by (simp add: ForceSet_def Let_def)
qed

lemma SaveSnapshot_fields:
  "memData (fst (SaveSnapshot m)) = memData m" "maxVersionCounter (fst (SaveSnapshot m)) = maxVersionCounter m"
  using saved_fields [of m "fst (SaveSnapshot m)" "snd (SaveSnapshot m)"] by (simp_all add: SaveSnapshot_def)

lemma detector_self:
  "self (UntrackMember x f) = self f" "self (TrackMember x now f) = self f" "self (MarkSuccess x now f) = self f"
  "self (MarkFailure x now f) = self f"
  by (simp_all add: UntrackMember_def TrackMember_def MarkSuccess_def MarkFailure_def Let_def)

lemma Merge_finite: "finite (fdList f) \<Longrightarrow> finite (fdList (Merge now gs f))"
proof (induction gs arbitrary: f)
  case (Cons g gs)
  have "fdList (mergeOne now g f) \<subseteq> insert (GNode g) (fdList f)"
    using mergeOne_other [of _ g now f] by (auto simp: fdList_def)
  with Cons show ?case
    by (metis Merge_simps(2) finite_insert finite_subset)
qed simp

lemma nodeStep_ok:
  assumes "nodeStep n n'" "node_ok r n"
  shows "node_ok r n'"
proof -
  have w: "well_named s \<Longrightarrow> chunkStep s t \<Longrightarrow> well_named t" for s t
    by (rule chunkStep_well_named)
  have saved: "bounded (fst (SaveSnapshot m)) = bounded m" for m
    using bounded_cong [OF SaveSnapshot_fields] by blast
  note facts = node_ok_def Set_bounded DeleteIfMatch_bounded ForceSet_bounded finite_dom_write hints_ok_operations
    ring_ok_Add ring_ok_Remove detector_self Track_facts Mark_facts Merge_finite SaveSnapshot_fields saved
  from assms(1) show ?thesis
  proof cases
    case (NodeChunkPut random now data)
    with assms(2) w [OF _ StepPut] show ?thesis by (simp add: node_ok_def)
  next
    case (NodeChunkGet cid)
    with assms(2) w [OF _ StepGet] show ?thesis by (simp add: node_ok_def)
  next
    case NodeChunkList
    with assms(2) w [OF _ StepIDs] show ?thesis by (simp add: node_ok_def)
  next
    case (NodeSweep live cutoff)
    with assms(2) w [OF _ StepSweep] show ?thesis by (simp add: node_ok_def)
  qed (use assms(2) in \<open>simp_all add: facts\<close>)
qed

lemma steps_ok: "steps c c' \<Longrightarrow> cluster_ok c \<Longrightarrow> cluster_ok c'"
proof (induction rule: Transition.run.induct)
  case (run_step c d d')
  then have d: "cluster_ok d"
    by blast
  from run_step(2) show ?case
  proof cases
    case (ClusterNode r n n')
    with d nodeStep_ok [of n n' r] show ?thesis
      by (simp add: cluster_ok_def)
  qed
qed

subsection \<open>The system\<close>

inductive systemStep :: "cluster \<Rightarrow> cluster \<Rightarrow> bool" where
  Request: "works e \<Longrightarrow> serve e me req c = Some (c', r) \<Longrightarrow> systemStep c c'"
| Repairing: "systemStep c (repairChunk net env me cid data source rs c)"
| Probing: "\<forall>d. steps d (pinging e d) \<and> steps d (asking e d) \<and> steps d (midway e d) \<Longrightarrow> systemStep c (probeOnce e now me c)"
| Gossiping: "\<forall>t d. steps d (beforeSend e t d) \<Longrightarrow> systemStep c (gossipOnce e me c)"
| Flushing: "systemStep c (NodeFlush replies order me c)"
| Saving: "c me = Some n \<Longrightarrow> NodeSaveSnapshot n = (n', x) \<Longrightarrow> systemStep c (c(me \<mapsto> n'))"
| Closing: "c me = Some n \<Longrightarrow> NodeClose n = (n', y) \<Longrightarrow> systemStep c (c(me := None))"
| Crashing: "systemStep c (c(me := None))"
| Starting: "NodeNew me ms path walFile fs dir now nano = Inr n \<Longrightarrow> reachable memInit memStep (store n) \<Longrightarrow>
    well_named dir \<Longrightarrow> systemStep c (c(me \<mapsto> n))"

lemma reachable_finite:
  assumes "reachable memInit memStep m"
  shows "finite (dom (memData m))"
proof -
  have "recorded m"
    by (rule store.reachable_inv [OF assms])
  then have "goodView (viewOf m)"
    unfolding recorded_def logHolds_def using goodView_applyEntries durable_goodView by metis
  then show ?thesis
    by (simp add: goodView_def goodSnapshot_def viewOf_def)
qed

lemma NodeNew_ok:
  assumes "NodeNew me ms path walFile fs dir now nano = Inr n" "reachable memInit memStep (store n)" "well_named dir"
  shows "node_ok me n"
proof -
  from NodeNew_cases [OF assms(1)] obtain m where n: "chunkFiles (chunks n) = chunkFiles dir" "addr n = me"
      "ring n = newRing ms 100" "replicas n = 3" "writeQuorum n = 2" "readQuorum n = 2"
      "nodeHints n = newHintStore" "detector n = newFailureDetector ms me now nano"
    by metis
  have "self (newFailureDetector ms me now nano) = me \<and> finite (fdList (newFailureDetector ms me now nano))"
  proof -
    have "self (foldl (\<lambda>fd node. putState node z fd) f ms) = self f
        \<and> (finite (fdList f) \<longrightarrow> finite (fdList (foldl (\<lambda>fd node. putState node z fd) f ms)))" for z f
      by (induction ms arbitrary: f) (auto simp: fdList_def)
    then show ?thesis
      by (simp add: newFailureDetector_def Let_def fdList_def)
  qed
  with n assms(3) well_named_cong [OF n(1)] ring_ok_newRing [of ms 100] reachable_finite [OF assms(2)]
    counter.reachable_inv [OF assms(2)] show ?thesis
    by (simp add: node_ok_def hints_ok_operations)
qed

lemma systemStep_ok:
  assumes "cluster_ok c" "systemStep c c'"
  shows "cluster_ok c'"
  using assms(2)
proof cases
  case (Saving me n n' x)
  then have "nodeStep n n'"
    using NodeSave [of n] by (auto simp: NodeSaveSnapshot_def split: prod.splits)
  with Saving assms(1) show ?thesis
    by (auto simp: cluster_ok_def split: if_splits intro: nodeStep_ok)
next
  case (Starting me ms path walFile fs dir now nano n)
  with assms(1) show ?thesis
    by (auto simp: cluster_ok_def split: if_splits intro: NodeNew_ok)
next
  case (Request e me req r)
  from steps_ok [OF serve_steps [OF Request(2,1)] assms(1)] show ?thesis .
next
  case (Repairing net env me cid data source rs)
  with steps_ok [OF repairChunk_steps assms(1)] show ?thesis by simp
next
  case (Probing e now me)
  with steps_ok [OF probeOnce_steps assms(1)] show ?thesis by simp
next
  case (Gossiping e me)
  with steps_ok [OF gossipOnce_steps assms(1)] show ?thesis by simp
next
  case (Flushing replies order me)
  with steps_ok [OF NodeFlush_steps assms(1)] show ?thesis by simp
qed (use assms(1) in \<open>auto simp: cluster_ok_def split: if_splits\<close>)

interpretation system: inductive_invariant "\<lambda>c. c = Map.empty" systemStep cluster_ok
proof unfold_locales
  show "cluster_ok c" if "c = Map.empty" for c
    using that by (simp add: cluster_ok_def)
qed (rule systemStep_ok)

subsection \<open>A running process\<close>

text \<open>Whatever its tasks do beside each other, the process of a node makes steps of the system.\<close>

definition inputWorks :: "taskInput \<Rightarrow> bool" where
  "inputWorks e \<longleftrightarrow>
     (\<forall>d. steps d (pinging (probeInput e) d) \<and> steps d (asking (probeInput e) d) \<and> steps d (midway (probeInput e) d)) \<and> (\<forall>t d. steps d (beforeSend (gossipInput e) t d))"

lemma backgroundTasks_step:
  assumes "inputWorks e" "i < length (backgroundTasks me)"
  shows "systemStep c (fst (taskRun (backgroundTasks me ! i) e c))"
proof -
  have "i = 0 \<or> i = 1 \<or> i = 2"
    using assms(2) by (auto simp: backgroundTasks_def)
  with assms(1) show ?thesis
    by (auto simp: backgroundTasks_def inputWorks_def intro: Flushing Probing Gossiping)
qed

lemma runTasks_run:
  assumes "\<And>i e c. (i, Ticked e) \<in> set es \<Longrightarrow> i < length tasks \<Longrightarrow> S c (fst (taskRun (tasks ! i) e c))"
  shows "run S c (runTasks tasks live es c)"
  using assms
proof (induction tasks live es c rule: runTasks.induct)
  case (3 tasks live i e es c)
  let ?c = "if i \<in> live \<and> i < length tasks then fst (taskRun (tasks ! i) e c) else c"
  have "run S c ?c"
  proof (cases "i \<in> live \<and> i < length tasks")
    case True
    with 3(2) have "S c ?c" by simp
    from run_step [where S = S, OF run_refl this] show ?thesis .
  qed (auto intro: run_refl)
  moreover have "run S ?c (runTasks tasks live es ?c)"
    using 3 by simp
  ultimately show ?case
    by (auto intro: run_trans)
qed (auto intro: run_refl)

lemma RunBackground_run:
  "\<forall>i e. (i, Ticked e) \<in> set es \<longrightarrow> inputWorks e \<Longrightarrow> run systemStep c (RunBackground me es c)"
  unfolding RunBackground_def Let_def by (rule runTasks_run) (blast intro: backgroundTasks_step)

lemma RunBackground_ok:
  "\<forall>i e. (i, Ticked e) \<in> set es \<longrightarrow> inputWorks e \<Longrightarrow> cluster_ok c \<Longrightarrow> cluster_ok (RunBackground me es c)"
  by (rule system.run_inv [OF RunBackground_run])

text \<open>So does the whole life of a process, from its start on files of a store to its end.\<close>

definition eventWorks :: "processEvent \<Rightarrow> bool" where
  "eventWorks ev \<longleftrightarrow>
     (case ev of
        TaskEvent i (Ticked e) \<Rightarrow> inputWorks e
      | TaskEvent i Cancelled \<Rightarrow> True
      | RequestEvent e req \<Rightarrow> works e)"

lemma processWork_run:
  "processWork me live es c = Some c' \<Longrightarrow> \<forall>ev \<in> set es. eventWorks ev \<Longrightarrow> run systemStep c c'"
proof (induction me live es c rule: processWork.induct)
  case (3 me live i e es c)
  let ?c = "if i \<in> live \<and> i < length (backgroundTasks me) then fst (taskRun (backgroundTasks me ! i) e c) else c"
  have "run systemStep c ?c"
  proof (cases "i \<in> live \<and> i < length (backgroundTasks me)")
    case True
    with 3(3) have "systemStep c ?c"
      using backgroundTasks_step [of e i me c] by (simp add: eventWorks_def)
    from run_step [where S = systemStep, OF run_refl this] show ?thesis .
  qed (auto intro: run_refl)
  moreover have "run systemStep ?c c'"
    using 3 by simp
  ultimately show ?case
    by (rule run_trans)
next
  case (4 me live e req es c)
  then obtain d r where s: "serve e me req c = Some (d, r)" "run systemStep d c'"
    by (auto split: option.splits)
  have "systemStep c d"
    using 4(3) by (intro Request [OF _ s(1)]) (simp add: eventWorks_def)
  from run_step [where S = systemStep, OF run_refl this] s(2) show ?case
    by (rule run_trans)
qed (auto intro: run_refl)

lemma finish_run: "run systemStep c (remaining (finish me e c))"
proof -
  have d: "run systemStep c (c(me := None))"
    by (rule run_step [where S = systemStep, OF run_refl Crashing])
  have n: "c me = Some n \<Longrightarrow> NodeClose n = (n', x) \<Longrightarrow> run systemStep c (c(me := None))" for n n' x
    by (rule run_step [where S = systemStep, OF run_refl Closing])
  show ?thesis
    by (cases e) (auto simp: finish_def d run_refl split: option.split prod.split)
qed

lemma runMain_run:
  assumes "runMain args opened now nano es e c = Some r" "\<forall>ev \<in> set es. eventWorks ev"
    and "\<And>me peerList walPath n. startMain me peerList walPath opened now nano = Inr n \<Longrightarrow> reachable memInit memStep (store n)"
    and "\<And>path. well_named (snd (snd (opened path)))"
  shows "run systemStep c (remaining r)"
proof (cases "parseFlags args defaultFlags")
  case None
  with assms(1) show ?thesis
    by (auto simp: runMain_def run_refl)
next
  case (Some f)
  let ?me = "addrFlag f"
  show ?thesis
  proof (cases "startMain ?me (clusterFlag f) (walPathFlag f) opened now nano")
    case (Inl x)
    with assms(1) Some show ?thesis
      by (auto simp: runMain_def run_refl Let_def)
  next
    case (Inr n)
    obtain w fs dir where o: "opened (walFlag ?me (walPathFlag f)) = (w, fs, dir)"
      by (metis prod_cases3)
    have s: "systemStep c (c(?me \<mapsto> n))"
      using Inr assms(3) [OF Inr] assms(4) [of "walFlag ?me (walPathFlag f)"] o
      by (intro Starting) (auto simp: startMain_def Let_def)
    obtain c' where c': "processWork ?me {..<length (backgroundTasks ?me)} es (c(?me \<mapsto> n)) = Some c'"
        "r = finish ?me e c'"
      using assms(1) Some Inr by (auto simp: runMain_def Let_def)
    from run_step [where S = systemStep, OF run_refl s] processWork_run [OF c'(1) assms(2)]
    have "run systemStep c c'"
      by (rule run_trans)
    with finish_run show ?thesis
      unfolding c'(2) by (blast intro: run_trans)
  qed
qed

end
