(* ===== verification/SystemProps.thy ===== *)
theory SystemProps
  imports System GCProps
begin

text \<open>
  The properties of the whole system: the invariant of every reachable cluster, and the requests
  between the nodes as what the routes of the receiver answer.
\<close>

subsection \<open>Routes\<close>

text \<open>The paths that the senders put together.\<close>

definition kvURL :: "string \<Rightarrow> string" where
  "kvURL k = ''/internal/kv/'' @ k"

definition chunkURL :: "string \<Rightarrow> string" where
  "chunkURL k = ''/internal/chunks/'' @ k"

lemma trim_URL [simp]: "trimPrefix (kvURL k) ''/internal/kv/'' = k" "trimPrefix (chunkURL k) ''/internal/chunks/'' = k"
  by (simp_all add: trimPrefix_def kvURL_def chunkURL_def)

lemma matches_literal:
  "matches p (c # q) \<longleftrightarrow> p = c # q \<or> p \<noteq> [] \<and> last p = CHR ''/'' \<and> take (length p) (c # q) = p"
  by (simp add: matches_def)

lemma bestMatch_kv: "bestMatch routes (''/internal/kv/'' @ k) = Some (''/internal/kv/'', HandleInternalKV)"
  by (simp add: routes_def matches_literal)

lemma bestMatch_chunks: "bestMatch routes (''/internal/chunks/'' @ k) = Some (''/internal/chunks/'', HandleInternalChunk)"
  by (simp add: routes_def matches_literal)

lemma route_below:
  "canonical (kvURL k) \<Longrightarrow> route (kvURL k) = Handled HandleInternalKV"
  "canonical (chunkURL k) \<Longrightarrow> route (chunkURL k) = Handled HandleInternalChunk"
  unfolding route_def kvURL_def chunkURL_def bestMatch_kv bestMatch_chunks by simp_all

lemma route_exact:
  "route ''/internal/ping'' = Handled HandlePing"
  "route ''/internal/ping-request'' = Handled HandlePingRequest"
  "route ''/internal/gossip'' = Handled HandleGossip"
  "route ''/internal/members/sync'' = Handled HandleMembershipSync"
  "route ''/internal/rebalance'' = Handled HandleRebalance"
  "route ''/internal/drain'' = Handled HandleDrain"
  "route ''/internal/gc/mark'' = Handled HandleGCMark"
  "route ''/internal/gc/sweep'' = Handled HandleGCSweep"
  by code_simp+

subsection \<open>Requests between the nodes\<close>

text \<open>A request on its way to a node and its answer on the way back.\<close>

definition delivery_of ::
  "rpc \<Rightarrow> environment \<Rightarrow> string \<Rightarrow> httpMethod \<Rightarrow> string \<Rightarrow> bytes \<Rightarrow> gcSweepRequest \<Rightarrow> cluster
     \<Rightarrow> (cluster \<times> reply option) option" where
  "delivery_of net e target meth path body sw c =
     (if net = RequestLost \<or> c target = None then Some (c, None)
      else map_option (\<lambda>(c', r). (c', if net = Delivered then Some r else None))
        (serve e target \<lparr>reqMethod = meth, reqPath = path, reqBody = \<lparr>pending = body, breaks = False\<rparr>, reqSweep = sw\<rparr> c))"

text \<open>What the senders make of a reply.\<close>

definition accepted :: "reply option \<Rightarrow> bool" where
  "accepted r = (case r of Some (Reply (status, body)) \<Rightarrow> \<not> status \<ge> 300 | _ \<Rightarrow> False)"

definition readValue :: "reply option \<Rightarrow> (Value \<times> bool) option" where
  "readValue r = (case r of
     Some (Reply (status, body)) \<Rightarrow>
       if status = 404 then Some (zeroValue, False)
       else if status > 300 then None
       else map_option (\<lambda>v. (v, True)) (decodeStream decodeValue body zeroValue)
   | _ \<Rightarrow> None)"

definition readChunk :: "string \<Rightarrow> reply option \<Rightarrow> bytes option" where
  "readChunk cid r = (case r of
     Some (Reply (status, body)) \<Rightarrow> if status = 404 \<or> status \<ge> 300 \<or> ID body \<noteq> cid then None else Some body
   | _ \<Rightarrow> None)"

definition readRebalance :: "reply option \<Rightarrow> rebalanceResult option" where
  "readRebalance r = (case r of
     Some (Reply (status, body)) \<Rightarrow> if status \<ge> 300 then None else decodeStream decodeRebalance body zeroRebalance
   | _ \<Rightarrow> None)"

definition readMark :: "reply option \<Rightarrow> gcMarkResponse option" where
  "readMark r = (case r of Some (MarkReply status body) \<Rightarrow> if status \<ge> 300 then None else body | _ \<Rightarrow> None)"

definition readSweep :: "reply option \<Rightarrow> SweepResult option" where
  "readSweep r = (case r of Some (SweepReply status body) \<Rightarrow> if status \<ge> 300 then None else body | _ \<Rightarrow> None)"

definition readReply :: "(reply option \<Rightarrow> 'a) \<Rightarrow> (cluster \<times> reply option) option \<Rightarrow> (cluster \<times> 'a) option" where
  "readReply f = map_option (\<lambda>(c, r). (c, f r))"

lemmas request_defs = delivery_of_def serve_def handle_def onNode_def readReply_def readAllBody_def

lemma putReplica_served:
  assumes "r \<noteq> me" "requestKey key = Some k" "canonical (kvURL k)"
  shows "Some (putReplica net me r key v c) =
    readReply accepted (delivery_of net e r MethodPut (kvURL k) (marshalValue v) sw c)"
  using assms
  by (cases net; cases "c r")
    (auto simp: putReplica_def request_defs route_below handleInternalKV_def internalPut_def accepted_def Let_def
      split: prod.split)

lemma getReplica_served:
  assumes "r \<noteq> me" "requestKey key = Some k" "canonical (kvURL k)"
  shows "Some (c, getReplica net me r key c) =
    readReply readValue (delivery_of net e r MethodGet (kvURL k) [] sw c)"
  using assms
  by (cases net; cases "c r")
    (auto simp: getReplica_def request_defs route_below handleInternalKV_def internalGet_def readValue_def Let_def
      fun_upd_idem split: prod.split)

lemma putChunkReplica_served:
  assumes "r \<noteq> me" "requestKey cid = Some k" "canonical (chunkURL k)"
  shows "Some (putChunkReplica (net, envNow e, envRandom e) me r cid data c) =
    readReply accepted (delivery_of net e r MethodPut (chunkURL k) data sw c)"
  using assms
  by (cases net; cases "c r")
    (auto simp: putChunkReplica_def request_defs route_below handleInternalChunk_def internalChunkPut_def accepted_def
      httpError_def Let_def fun_upd_idem split: prod.split)

lemma getChunkReplica_served:
  assumes "r \<noteq> me" "requestKey cid = Some k" "canonical (chunkURL k)" "k \<noteq> []"
  shows "Some (getChunkReplica net me r cid c) =
    readReply (readChunk cid) (delivery_of net e r MethodGet (chunkURL k) [] sw c)"
  using assms
  by (cases net; cases "c r")
    (auto simp: getChunkReplica_def request_defs route_below handleInternalChunk_def internalChunkGet_def readChunk_def
      httpError_def Let_def fun_upd_idem split: prod.split)

lemma sendMembershipSync_served:
  "Some (sendMembershipSync net (envNow e) t cfg c) =
    readReply accepted (delivery_of net e t MethodPut ''/internal/members/sync'' (printJson (encodeConfig cfg)) sw c)"
  by (cases net; cases "c t")
    (auto simp: sendMembershipSync_def request_defs route_exact accepted_def split: prod.split)

lemma sendRebalance_served:
  "sendRebalance (envMove e) net t c = readReply readRebalance (delivery_of net e t MethodPost ''/internal/rebalance'' [] sw c)"
  by (cases net; cases "c t")
    (auto simp: sendRebalance_def request_defs route_exact readRebalance_def option.map_comp comp_def
      intro!: map_option_cong split: prod.split)

lemma sendDrain_served:
  "sendDrain (envMove e) (envDrainText e) net t ms c =
    readReply accepted (delivery_of net e t MethodPost ''/internal/drain'' (printJson (encodeDrain ms)) sw c)"
  by (cases net; cases "c t")
    (auto simp: sendDrain_def request_defs route_exact accepted_def option.map_comp comp_def
      intro!: map_option_cong split: prod.split)

lemma sendGossip_served:
  assumes "c me = Some n"
  shows "Some (sendGossip net (envNow e) order me t c) =
    readReply accepted (delivery_of net e t MethodPost ''/internal/gossip''
      (printJson (encodeGossip (GossipSnapshot order (detector n)))) sw c)"
  using assms
  by (cases net; cases "c t")
    (auto simp: sendGossip_def request_defs route_exact accepted_def Let_def split: prod.split)

lemma pings_served:
  "t \<noteq> me \<Longrightarrow> Some (c, pingNode net me t c) = readReply accepted (delivery_of net e t MethodGet ''/internal/ping'' [] sw c)"
  "Some (c, requestIndirectPing (envPings e) net h t c) =
    readReply accepted (delivery_of net e h MethodPost ''/internal/ping-request'' (printJson (encodePing t)) sw c)"
  by (cases net; cases "c t"; auto simp: pingNode_def request_defs route_exact accepted_def split: prod.split)
    (cases net; cases "c h"; auto simp: requestIndirectPing_def request_defs route_exact accepted_def split: prod.split)

lemma collection_served:
  "t \<noteq> me \<Longrightarrow> Some (c, requestGCMark net me t c) = readReply readMark (delivery_of net e t MethodGet ''/internal/gc/mark'' [] sw c)"
  "t \<noteq> me \<Longrightarrow> Some (requestGCSweep net me t sw c) =
    readReply readSweep (delivery_of net e t MethodPost ''/internal/gc/sweep'' body sw c)"
  by (cases net; cases "c t"; auto simp: requestGCMark_def request_defs route_exact readMark_def fun_upd_idem split: prod.split)
    (cases net; cases "c t"; auto simp: requestGCSweep_def request_defs route_exact readSweep_def split: prod.split)

text \<open>A key without the characters that mean something in an address gives a canonical path.\<close>

lemma splitSlash_plain: "CHR ''/'' \<notin> set k \<Longrightarrow> splitSlash k = [k]"
  by (induction k) auto

lemma splitSlash_URL:
  assumes "CHR ''/'' \<notin> set k"
  shows "splitSlash (kvURL k) = [[], ''internal'', ''kv'', k]" "splitSlash (chunkURL k) = [[], ''internal'', ''chunks'', k]"
  using assms by (simp_all add: kvURL_def chunkURL_def splitSlash_plain)

lemma plain_canonical:
  assumes "plainKey k"
  shows "canonical (kvURL k)" "canonical (chunkURL k)"
proof -
  have c: "x \<in> set k \<Longrightarrow> x \<notin> set ''%?#/.''" for x
    using assms unfolding plainKey_def list_all_iff by blast
  have "CHR ''/'' \<notin> set k" "CHR ''.'' \<notin> set k"
    using c by (metis list.set_intros(1,2))+
  then have k: "CHR ''/'' \<notin> set k" "k \<noteq> ''.''" "k \<noteq> ''..''"
    by auto
  then show "canonical (kvURL k)" "canonical (chunkURL k)"
    unfolding canonical_def splitSlash_URL [OF k(1)] by simp_all
qed

text \<open>C38. What a node asks of another is what the other's routes answer: each of the requests that the
  nodes make of each other has exactly the effect, and the sender takes from it exactly the result,
  of a request with its method, path and body that the receiver serves, whether it arrives, is
  lost, or only its answer is lost; for keys and chunks only where the path is canonical, since the
  router redirects others.  The messages of the garbage collection, which carry times, are records
  beside an empty body; all others are bytes.\<close>
theorem requests_are_served:
  "(t \<noteq> me \<longrightarrow> requestKey key = Some k \<longrightarrow> canonical (kvURL k) \<longrightarrow>
      Some (putReplica net me t key v c) = readReply accepted (delivery_of net e t MethodPut (kvURL k) (marshalValue v) sw c)
    \<and> Some (c, getReplica net me t key c) = readReply readValue (delivery_of net e t MethodGet (kvURL k) [] sw c))
  \<and> (t \<noteq> me \<longrightarrow> requestKey cid = Some k \<longrightarrow> k \<noteq> [] \<longrightarrow> canonical (chunkURL k) \<longrightarrow>
      Some (putChunkReplica (net, envNow e, envRandom e) me t cid data c) =
        readReply accepted (delivery_of net e t MethodPut (chunkURL k) data sw c)
    \<and> Some (getChunkReplica net me t cid c) = readReply (readChunk cid) (delivery_of net e t MethodGet (chunkURL k) [] sw c))
  \<and> Some (sendMembershipSync net (envNow e) t cfg c) =
      readReply accepted (delivery_of net e t MethodPut ''/internal/members/sync'' (printJson (encodeConfig cfg)) sw c)
  \<and> sendRebalance (envMove e) net t c =
      readReply readRebalance (delivery_of net e t MethodPost ''/internal/rebalance'' [] sw c)
  \<and> sendDrain (envMove e) (envDrainText e) net t ms c =
      readReply accepted (delivery_of net e t MethodPost ''/internal/drain'' (printJson (encodeDrain ms)) sw c)
  \<and> (c me = Some n \<longrightarrow> Some (sendGossip net (envNow e) order me t c) =
      readReply accepted (delivery_of net e t MethodPost ''/internal/gossip''
        (printJson (encodeGossip (GossipSnapshot order (detector n)))) sw c))
  \<and> (t \<noteq> me \<longrightarrow>
      Some (c, pingNode net me t c) = readReply accepted (delivery_of net e t MethodGet ''/internal/ping'' [] sw c)
    \<and> Some (c, requestGCMark net me t c) = readReply readMark (delivery_of net e t MethodGet ''/internal/gc/mark'' [] sw c)
    \<and> Some (requestGCSweep net me t sw c) = readReply readSweep (delivery_of net e t MethodPost ''/internal/gc/sweep'' [] sw c))
  \<and> Some (c, requestIndirectPing (envPings e) net t x c) =
      readReply accepted (delivery_of net e t MethodPost ''/internal/ping-request'' (printJson (encodePing x)) sw c)"
  by (intro conjI impI; (rule putReplica_served getReplica_served putChunkReplica_served getChunkReplica_served
      sendMembershipSync_served sendRebalance_served sendDrain_served sendGossip_served pings_served collection_served;
      assumption))

text \<open>C40. In every state of the system, reached by nodes that start on files of their own, stop, crash,
  serve any requests and run their background tasks in any order, every node is sound: its ring is
  sorted and consistent, every file with the name of a chunk has that chunk's content, every hint is
  filed under its replica and key, no stored version is above the largest counter, and any two
  quorums of replicas share one.\<close>
theorem system_invariant:
  assumes "reachable (\<lambda>c. c = Map.empty) systemStep c" "c r = Some n"
  shows "addr n = r \<and> ring_ok (ring n) \<and> well_named (chunks n) \<and> hints_ok (nodeHints n)
    \<and> (\<forall>k v. memData (store n) k = Some v \<longrightarrow> Counter (VersionOf v) \<le> maxVersionCounter (store n))
    \<and> finite (dom (memData (store n))) \<and> finite (fdList (detector n)) \<and> readQuorum n + writeQuorum n > replicas n"
  using system.reachable_inv [OF assms(1)] assms(2) by (auto simp: cluster_ok_def node_ok_def bounded_def)

subsection \<open>A concrete system\<close>

definition plainGossipRun :: gossipRun where
  "plainGossipRun = \<lparr>pickTargets = sorted_list_of_set, listing = \<lambda>_. [], gossipNet = \<lambda>_. Delivered,
     gossipClock = \<lambda>_. 0, beforeSend = \<lambda>_ c. c\<rparr>"

definition plainEnvironment :: environment where
  "plainEnvironment =
     \<lparr>envKv = \<lparr>kvArrive = \<lambda>xs. xs, kvReads = \<lambda>_. Delivered, kvWrites = \<lambda>_. Delivered\<rparr>, envKvText = \<lambda>_. ''error'',
      envSchedule = plainSchedule, envObjectText = \<lambda>_. ''error'', envWrites = [],
      envMove = plainRun, envDrainText = \<lambda>_. ''error'', envChange = plainChange, envConfigText = \<lambda>_. ''error'',
      envGC = plainGC, envPings = \<lambda>_ _. Delivered, envNow = 0, envRandom = ''1'', envOrder = []\<rparr>"

lemma plainEnvironment_works: "works plainEnvironment"
  by (auto simp: works_def plainEnvironment_def runWorks_def changeWorks_def gcWorks_def plainRun_def plainChange_def plainGC_def)

definition pingRequest :: request where
  "pingRequest = \<lparr>reqMethod = MethodGet, reqPath = ''/internal/ping'', reqBody = \<lparr>pending = [], breaks = False\<rparr>,
     reqSweep = \<lparr>SweepVersion = 0, SweepLive = [], SweepCutoff = 0\<rparr>\<rparr>"

definition debugRequest :: request where
  "debugRequest = \<lparr>reqMethod = MethodPut, reqPath = ''/internal/debug/kv/k'',
     reqBody = \<lparr>pending = marshalValue valueA, breaks = False\<rparr>,
     reqSweep = \<lparr>SweepVersion = 0, SweepLive = [], SweepCutoff = 0\<rparr>\<rparr>"

definition oneNode :: cluster where
  "oneNode = [''a'' \<mapsto> startedNode ''a'' [''a'']]"

lemma debug_served:
  "serve plainEnvironment ''a'' debugRequest oneNode =
    Some (oneNode(''a'' \<mapsto> (startedNode ''a'' [''a''])\<lparr>store := ForceSet ''k'' valueA openedMemory\<rparr>), Reply (204, []))"
proof -
  have "route ''/internal/debug/kv/k'' = Handled HandleDebugKV" "trimPrefix ''/internal/debug/kv/k'' ''/internal/debug/kv/'' = ''k''"
    by code_simp+
  moreover have "decodeStream decodeValue (marshalValue valueA) zeroValue = Some valueA"
    using decodeStream_value [OF valueA_good(1), of "[]"] by (simp add: stops_def)
  ultimately show ?thesis
    by (simp add: serve_def debugRequest_def handle_def onNode_def oneNode_def handleDebugKV_def handleDebugPut_def
        startedNode_def noContent_def)
qed

lemma requests_are_served_witness:
  "Some (putReplica Delivered ''b'' ''a'' ''k'' valueA oneNode) =
    readReply accepted (delivery_of Delivered plainEnvironment ''a'' MethodPut (kvURL ''k'') (marshalValue valueA) (reqSweep pingRequest) oneNode)"
proof -
  have "requestKey ''k'' = Some ''k''" "canonical (kvURL ''k'')"
    using requestKey_plain plain_canonical(1) plain_k(1) by simp_all
  with requests_are_served [where t = "''a''" and me = "''b''" and key = "''k''" and k = "''k''"] show ?thesis
    by blast
qed

lemma system_invariant_witness:
  "\<exists>n. (oneNode(''a'' \<mapsto> (startedNode ''a'' [''a''])\<lparr>store := ForceSet ''k'' valueA openedMemory\<rparr>)) ''a'' = Some n
    \<and> memData (store n) ''k'' = Some valueA \<and> Counter (VersionOf valueA) \<le> maxVersionCounter (store n)"
proof -
  have r1: "reachable (\<lambda>c. c = Map.empty) systemStep oneNode"
    unfolding oneNode_def
  proof (rule reach_step [OF reach_init])
    show "systemStep Map.empty [''a'' \<mapsto> startedNode ''a'' [''a'']]"
      using Starting [OF NodeNew_started, of "''a''" "[''a'']" Map.empty]
        reach_init [where I = memInit and s = openedMemory, OF openedMemory_init]
      by (simp add: startedNode_def noChunks_def well_named_def)
  qed simp
  have r2: "systemStep oneNode
      (oneNode(''a'' \<mapsto> (startedNode ''a'' [''a''])\<lparr>store := ForceSet ''k'' valueA openedMemory\<rparr>))"
    by (rule Request, rule plainEnvironment_works, rule debug_served)
  have r: "reachable (\<lambda>c. c = Map.empty) systemStep
      (oneNode(''a'' \<mapsto> (startedNode ''a'' [''a''])\<lparr>store := ForceSet ''k'' valueA openedMemory\<rparr>))"
    by (rule reach_step [where I = "\<lambda>c. c = Map.empty" and S = systemStep and s = oneNode, OF r1 r2])
  let ?n = "(startedNode ''a'' [''a''])\<lparr>store := ForceSet ''k'' valueA openedMemory\<rparr>"
  have n: "(oneNode(''a'' \<mapsto> ?n)) ''a'' = Some ?n"
    by simp
  have v: "memData (store ?n) ''k'' = Some valueA"
    by (simp add: ForceSet_def Let_def)
  with system_invariant [OF r n] have "Counter (VersionOf valueA) \<le> maxVersionCounter (store ?n)"
    by blast
  with n v show ?thesis
    by (intro exI [of _ ?n] conjI)
qed

end
