(* ===== verification/Overlap.thy ===== *)
theory Overlap
  imports AtomicWork
begin

text \<open>
  \<open>Put\<close>, \<open>Delete\<close> and \<open>Get\<close> request by request: the goroutine of each replica takes effect on its
  own, so that anything may happen between two of them.  An operation is a small machine whose
  moves are the critical sections of \<open>replication.go\<close> and \<open>version.go\<close>; the operations of
  Replication, which run at one go, are runs of it.
\<close>

subsection \<open>Writes\<close>

datatype writeKind = Putting "bytes option" | Deleting

fun written :: "writeKind \<Rightarrow> Version \<Rightarrow> Value" where
  "written (Putting data) v = \<lparr>Data = data, VersionOf = v, Deleted = False\<rparr>"
| "written Deleting v = \<lparr>Data = None, VersionOf = v, Deleted = True\<rparr>"

lemma written_eta: "written (Putting data) = (\<lambda>v. \<lparr>Data = data, VersionOf = v, Deleted = False\<rparr>)"
    "written Deleting = (\<lambda>v. \<lparr>Data = None, VersionOf = v, Deleted = True\<rparr>)"
  by (simp_all add: fun_eq_iff)

lemma NodeWrite_written:
  "NodePut arrive net1 net2 me key data c = writeVersioned arrive net1 net2 me key (written (Putting data)) c"
  "NodeDelete arrive net1 net2 me key c = writeVersioned arrive net1 net2 me key (written Deleting) c"
  by (simp_all only: NodePut_def NodeDelete_def written_eta)

type_synonym reply = "string \<times> Value \<times> bool"

definition replyOf :: "string \<Rightarrow> (Value \<times> bool) option \<Rightarrow> reply list" where
  "replyOf r x = (case x of None \<Rightarrow> [] | Some vf \<Rightarrow> [(r, vf)])"

text \<open>
  Where a write is: before anything, with replicas whose version is still to be read and the
  replies so far, with its version issued, with replicas to write and missed replicas that have no
  hint yet, or returned, with its version if it has one.
\<close>

datatype writeState =
    WriteEntered
  | ReadingVersions "string list" "reply list"
  | VersionIssued Version
  | WritingReplicas Version "string list" "string list" int
  | WriteReturned "Version option" "nodeError option"

text \<open>The moves of \<open>nextVersion\<close>; the last one is the exchange of its loop that succeeds.\<close>

inductive versionMove :: "string \<Rightarrow> string \<Rightarrow> cluster \<times> writeState \<Rightarrow> cluster \<times> writeState \<Rightarrow> bool"
  for me key where
  EnterVersion: "c me = Some n \<Longrightarrow> replicasFor key n = Some rs
    \<Longrightarrow> versionMove me key (c, WriteEntered)
          (c, if int (length rs) < readQuorum n then WriteReturned None (Some NotEnoughReplicas)
              else ReadingVersions rs [])"
| ReplyVersion: "r \<in> set todo
    \<Longrightarrow> versionMove me key (c, ReadingVersions todo got)
          (c, ReadingVersions (remove1 r todo) (got @ replyOf r (getReplica net me r key c)))"
| LackVersions: "c me = Some n \<Longrightarrow> int (length got) < readQuorum n
    \<Longrightarrow> versionMove me key (c, ReadingVersions [] got) (c, WriteReturned None (Some VersionQuorum))"
| SwapVersion: "c me = Some n \<Longrightarrow> \<not> int (length got) < readQuorum n
    \<Longrightarrow> base = (if version n > maxCounterOf got then version n else maxCounterOf got)
    \<Longrightarrow> versionMove me key (c, ReadingVersions [] got)
          (c(me \<mapsto> n\<lparr>version := base + 1\<rparr>), VersionIssued \<lparr>Counter = base + 1, NodeID = addr n\<rparr>)"

text \<open>The moves of \<open>replicateValue\<close>: a reply with an error is collected when its hint is added.\<close>

inductive replicateMove ::
  "string \<Rightarrow> string \<Rightarrow> writeKind \<Rightarrow> cluster \<times> writeState \<Rightarrow> cluster \<times> writeState \<Rightarrow> bool"
  for me key kind where
  EnterReplicas: "c me = Some n \<Longrightarrow> replicasFor key n = Some rs
    \<Longrightarrow> replicateMove me key kind (c, VersionIssued v) (c, WritingReplicas v rs [] 0)"
| ReplyReplica: "r \<in> set todo \<Longrightarrow> putReplica net me r key (written kind v) c = (c', ok)
    \<Longrightarrow> replicateMove me key kind (c, WritingReplicas v todo missed success)
          (c', WritingReplicas v (remove1 r todo) (if ok then missed else r # missed)
                 (if ok then success + 1 else success))"
| AddMissed: "r \<in> set missed
    \<Longrightarrow> replicateMove me key kind (c, WritingReplicas v todo missed success)
          (addHint me r key (written kind v) c, WritingReplicas v todo (remove1 r missed) success)"
| CountReplicas: "c me = Some n
    \<Longrightarrow> replicateMove me key kind (c, WritingReplicas v [] [] success)
          (c, WriteReturned (Some v) (if success \<ge> writeQuorum n then None else Some WriteQuorum))"

text \<open>\<open>Put\<close> and \<open>Delete\<close>.\<close>

inductive writeMove :: "string \<Rightarrow> string \<Rightarrow> writeKind \<Rightarrow> cluster \<times> writeState \<Rightarrow> cluster \<times> writeState \<Rightarrow> bool"
  for me key kind where
  Versioning: "versionMove me key x y \<Longrightarrow> writeMove me key kind x y"
| Replicating: "replicateMove me key kind x y \<Longrightarrow> writeMove me key kind x y"

lemmas EnterWrite = EnterVersion [THEN Versioning]
  and VersionReply = ReplyVersion [THEN Versioning]
  and VersionsShort = LackVersions [THEN Versioning]
  and IssueVersion = SwapVersion [THEN Versioning]
  and BeginWrites = EnterReplicas [THEN Replicating]
  and WriteReply = ReplyReplica [THEN Replicating]
  and KeepHint = AddMissed [THEN Replicating]
  and EndWrite = CountReplicas [THEN Replicating]

text \<open>The cases of a move in one rule.\<close>

lemma writeMove_cases:
  assumes "writeMove me key kind (c, p) (c', p')"
  obtains (EnterWrite) n rs where "p = WriteEntered" "c' = c" "c me = Some n" "replicasFor key n = Some rs"
      "p' = (if int (length rs) < readQuorum n then WriteReturned None (Some NotEnoughReplicas) else ReadingVersions rs [])"
  | (VersionReply) r todo got net where "p = ReadingVersions todo got" "c' = c" "r \<in> set todo"
      "p' = ReadingVersions (remove1 r todo) (got @ replyOf r (getReplica net me r key c))"
  | (VersionsShort) n got where "p = ReadingVersions [] got" "c' = c" "c me = Some n" "int (length got) < readQuorum n"
      "p' = WriteReturned None (Some VersionQuorum)"
  | (IssueVersion) n got base where "p = ReadingVersions [] got" "c me = Some n" "\<not> int (length got) < readQuorum n"
      "base = (if version n > maxCounterOf got then version n else maxCounterOf got)"
      "c' = c(me \<mapsto> n\<lparr>version := base + 1\<rparr>)" "p' = VersionIssued \<lparr>Counter = base + 1, NodeID = addr n\<rparr>"
  | (BeginWrites) n rs v where "p = VersionIssued v" "c' = c" "c me = Some n" "replicasFor key n = Some rs"
      "p' = WritingReplicas v rs [] 0"
  | (WriteReply) r todo net v ok missed success where "p = WritingReplicas v todo missed success" "r \<in> set todo"
      "putReplica net me r key (written kind v) c = (c', ok)"
      "p' = WritingReplicas v (remove1 r todo) (if ok then missed else r # missed) (if ok then success + 1 else success)"
  | (KeepHint) r missed v todo success where "p = WritingReplicas v todo missed success" "r \<in> set missed"
      "c' = addHint me r key (written kind v) c" "p' = WritingReplicas v todo (remove1 r missed) success"
  | (EndWrite) n v success where "p = WritingReplicas v [] [] success" "c' = c" "c me = Some n"
      "p' = WriteReturned (Some v) (if success \<ge> writeQuorum n then None else Some WriteQuorum)"
  using assms
proof cases
  case Versioning
  then show ?thesis
  proof cases
    case (EnterVersion n rs)
    show ?thesis by (rule that(1)) (fact EnterVersion)+
  next
    case (ReplyVersion r todo got net)
    show ?thesis by (rule that(2)) (fact ReplyVersion)+
  next
    case (LackVersions n got)
    show ?thesis by (rule that(3)) (fact LackVersions)+
  next
    case (SwapVersion n got base)
    show ?thesis by (rule that(4)) (fact SwapVersion)+
  qed
next
  case Replicating
  then show ?thesis
  proof cases
    case (EnterReplicas n rs v)
    show ?thesis by (rule that(5)) (fact EnterReplicas)+
  next
    case (ReplyReplica r todo net v ok missed success)
    show ?thesis by (rule that(6)) (fact ReplyReplica)+
  next
    case (AddMissed r missed v todo success)
    show ?thesis by (rule that(7)) (fact AddMissed)+
  next
    case (CountReplicas n v success)
    show ?thesis by (rule that(8)) (fact CountReplicas)+
  qed
qed

subsection \<open>Reads\<close>

datatype readState =
    ReadEntered
  | ReadingValues "string list" "reply list"
  | Repairing Value "string list"
  | ReadReturned "nodeError + bytes option \<times> bool"

text \<open>The replies are collected in any order.\<close>

inductive readMove :: "string \<Rightarrow> string \<Rightarrow> cluster \<times> readState \<Rightarrow> cluster \<times> readState \<Rightarrow> bool"
  for me key where
  EnterRead: "c me = Some n \<Longrightarrow> replicasFor key n = Some rs
    \<Longrightarrow> readMove me key (c, ReadEntered)
          (c, if length rs = 0 then ReadReturned (Inl NoReplicas) else ReadingValues rs [])"
| ValueReply: "r \<in> set todo
    \<Longrightarrow> readMove me key (c, ReadingValues todo got)
          (c, ReadingValues (remove1 r todo) (got @ replyOf r (getReplica net me r key c)))"
| ValuesShort: "c me = Some n \<Longrightarrow> int (length got) < readQuorum n
    \<Longrightarrow> readMove me key (c, ReadingValues [] got) (c, ReadReturned (Inl ReadQuorum))"
| NothingFound: "c me = Some n \<Longrightarrow> \<not> int (length got) < readQuorum n \<Longrightarrow> mset order = mset got \<Longrightarrow> latestOf order = None
    \<Longrightarrow> readMove me key (c, ReadingValues [] got) (c, ReadReturned (Inr (None, False)))"
| NewestFound: "c me = Some n \<Longrightarrow> \<not> int (length got) < readQuorum n \<Longrightarrow> mset order = mset got \<Longrightarrow> latestOf order = Some l
    \<Longrightarrow> readMove me key (c, ReadingValues [] got)
          (c, Repairing l (map fst (filter (\<lambda>(r, v, found). \<not> found \<or> newer l v) order)))"
| RepairReplica: "readMove me key (c, Repairing l (r # rs)) (repairReplica net me r key l c, Repairing l rs)"
| EndRead: "readMove me key (c, Repairing l [])
    (c, ReadReturned (Inr (if Deleted l then (None, False) else (Data l, True))))"

subsection \<open>The operations that run at one go\<close>

lemma run_first: "S s t \<Longrightarrow> run S t u \<Longrightarrow> run S s u"
  by (rule run_trans [OF run_one])

lemma run_last: "run S s t \<Longrightarrow> S t u \<Longrightarrow> run S s u"
  by (rule Transition.run.run_step)

lemma readAll_Cons: "readAll net me key (r # rs) c = replyOf r (getReplica (net r) me r key c) @ readAll net me key rs c"
  by (simp add: readAll_def replyOf_def List.map_filter_simps split: option.split)

lemma remove_first: "mset (r # rs) = mset todo \<Longrightarrow> r \<in> set todo \<and> mset rs = mset (remove1 r todo)"
  by (metis add_mset_remove_trivial list.set_intros(1) mset.simps(2) mset_eq_setD mset_remove1)

lemma version_replies:
  "mset order = mset todo \<Longrightarrow>
     run (writeMove me key kind) (c, ReadingVersions todo got) (c, ReadingVersions [] (got @ readAll net me key order c))"
proof (induction order arbitrary: todo got)
  case Nil
  then show ?case
    by (simp add: readAll_def List.map_filter_simps run_refl)
next
  case (Cons r rs)
  note r = remove_first [OF Cons.prems]
  from run_first [of "writeMove me key kind", OF VersionReply [OF conjunct1 [OF r], of me key kind c got "net r"] Cons.IH [OF conjunct2 [OF r]]]
  show ?case
    by (simp add: readAll_Cons)
qed

lemma value_replies:
  "mset order = mset todo \<Longrightarrow>
     run (readMove me key) (c, ReadingValues todo got) (c, ReadingValues [] (got @ readAll net me key order c))"
proof (induction order arbitrary: todo got)
  case Nil
  then show ?case
    by (simp add: readAll_def List.map_filter_simps run_refl)
next
  case (Cons r rs)
  note r = remove_first [OF Cons.prems]
  from run_first [of "readMove me key", OF ValueReply [OF conjunct1 [OF r], of me key c got "net r"] Cons.IH [OF conjunct2 [OF r]]]
  show ?case
    by (simp add: readAll_Cons)
qed

lemma write_replies:
  "writeLoop net me key (written kind v) order c s = (c', s') \<Longrightarrow> mset order = mset todo \<Longrightarrow>
     run (writeMove me key kind) (c, WritingReplicas v todo [] s) (c', WritingReplicas v [] [] s')"
proof (induction order arbitrary: todo c s)
  case Nil
  then show ?case
    by (simp add: run_refl)
next
  case (Cons r rs)
  obtain c1 ok where p: "putReplica (net r) me r key (written kind v) c = (c1, ok)"
    by fastforce
  note r = remove_first [OF Cons.prems(2)]
  note w = WriteReply [OF conjunct1 [OF r] p, of "[]" s]
  show ?case
  proof (cases ok)
    case True
    with Cons p have "run (writeMove me key kind) (c1, WritingReplicas v (remove1 r todo) [] (s + 1)) (c', WritingReplicas v [] [] s')"
      using r by simp
    with w True show ?thesis
      by (auto intro: run_first)
  next
    case False
    with Cons p have "run (writeMove me key kind) (addHint me r key (written kind v) c1, WritingReplicas v (remove1 r todo) [] s)
        (c', WritingReplicas v [] [] s')"
      using r by simp
    moreover have "writeMove me key kind (c1, WritingReplicas v (remove1 r todo) [r] s)
        (addHint me r key (written kind v) c1, WritingReplicas v (remove1 r todo) [] s)"
      using KeepHint [of r "[r]"] by simp
    ultimately show ?thesis
      using w False by (auto intro: run_first)
  qed
qed

lemma repair_replies:
  "run (readMove me key) (c, Repairing l (map fst (filter (\<lambda>(r, v, found). \<not> found \<or> newer l v) rs)))
     (repairLoop net me key l rs c, Repairing l [])"
proof (induction net me key l rs c rule: repairLoop.induct)
  case (2 net me key l r v found rs c)
  from run_first [of "readMove me key", OF RepairReplica [of me key c l r _ "net r"]] 2 show ?case
    by auto
qed (simp add: run_refl)

text \<open>What a write leaves of the settings of the nodes.\<close>

lemma putReplica_quorum: "putReplica net me r key v c = (c', ok)
    \<Longrightarrow> map_option (\<lambda>n. (addr n, writeQuorum n, version n)) (c' q) = map_option (\<lambda>n. (addr n, writeQuorum n, version n)) (c q)"
  by (auto simp: putReplica_def internalPut_def handleInternalPut_def answers split: if_splits option.splits prod.splits rpc.splits)

lemma addHint_quorum:
  "map_option (\<lambda>n. (addr n, writeQuorum n, version n)) (addHint me r key v c q) = map_option (\<lambda>n. (addr n, writeQuorum n, version n)) (c q)"
  by (auto simp: addHint_def split: option.splits)

lemma writeLoop_quorum:
  "writeLoop net me key v rs c s = (c', s')
    \<Longrightarrow> map_option (\<lambda>n. (addr n, writeQuorum n, version n)) (c' q) = map_option (\<lambda>n. (addr n, writeQuorum n, version n)) (c q)"
proof (induction rs arbitrary: c s)
  case (Cons r rs)
  obtain c1 ok where p: "putReplica (net r) me r key v c = (c1, ok)"
    by fastforce
  with Cons show ?case
    by (cases ok) (auto simp: putReplica_quorum [OF p] addHint_quorum)
qed simp

lemma writeVersioned_overlaps:
  assumes "writeVersioned arrive net1 net2 me key (written kind) c = Some (c', e)" "\<And>xs. mset (arrive xs) = mset xs"
  shows "\<exists>v. run (writeMove me key kind) (c, WriteEntered) (c', WriteReturned v e)
    \<and> (e = None \<longrightarrow> (\<exists>n. c' me = Some n \<and> v = Some \<lparr>Counter = version n, NodeID = addr n\<rparr>))"
proof -
  from assms(1) obtain n rs where n: "c me = Some n" "replicasFor key n = Some rs"
    by (auto simp: writeVersioned_def split: option.splits)
  let ?M = "writeMove me key kind" and ?got = "readAll net1 me key (arrive rs) c"
  note enter = EnterWrite [of c me n key rs kind, OF n]
  have replies: "run ?M (c, WriteEntered) (c, ReadingVersions [] ?got)" if "\<not> int (length rs) < readQuorum n"
    using run_first [of ?M, OF enter] version_replies [OF assms(2), of me key kind c rs "[]" net1] that by simp
  consider (few) "int (length rs) < readQuorum n" "c' = c" "e = Some NotEnoughReplicas"
    | (short) "\<not> int (length rs) < readQuorum n" "int (length ?got) < readQuorum n" "c' = c" "e = Some VersionQuorum"
    | (issued) "\<not> int (length rs) < readQuorum n" "\<not> int (length ?got) < readQuorum n"
    using assms(1) n unfolding writeVersioned_def nextVersion_def Let_def
    by (cases "int (length rs) < readQuorum n"; cases "int (length ?got) < readQuorum n") auto
  then show ?thesis
  proof cases
    case few
    with enter show ?thesis
      by (auto intro!: exI [of _ None] run_one)
  next
    case short
    from run_last [OF replies VersionsShort [where c = c and me = me, OF n(1)]] short show ?thesis
      by auto
  next
    case issued
    define base where "base = (if version n > maxCounterOf ?got then version n else maxCounterOf ?got)"
    define v where "v = \<lparr>Counter = base + 1, NodeID = addr n\<rparr>"
    let ?c1 = "c(me \<mapsto> n\<lparr>version := base + 1\<rparr>)"
    obtain s where s: "writeLoop net2 me key (written kind v) (arrive rs) ?c1 0 = (c', s)"
        "e = (if s \<ge> writeQuorum n then None else Some WriteQuorum)"
      using assms(1) n issued unfolding writeVersioned_def nextVersion_def Let_def replicateValue_def base_def v_def
      by (auto split: prod.splits)
    obtain n' where n': "c' me = Some n'" "writeQuorum n' = writeQuorum n" "v = \<lparr>Counter = version n', NodeID = addr n'\<rparr>"
      using writeLoop_quorum [OF s(1), of me] by (auto simp: v_def)
    have "run ?M (c, WriteEntered) (?c1, VersionIssued v)"
      unfolding v_def using run_last [OF replies IssueVersion [where c = c and me = me, OF n(1)]] issued base_def by simp
    then have "run ?M (c, WriteEntered) (?c1, WritingReplicas v rs [] 0)"
      by (rule run_last) (rule BeginWrites [where n = "n\<lparr>version := base + 1\<rparr>"], use n in \<open>simp_all add: replicasFor_def\<close>)
    then have "run ?M (c, WriteEntered) (c', WritingReplicas v [] [] s)"
      by (rule run_trans [OF _ write_replies [OF s(1) assms(2)]])
    then have "run ?M (c, WriteEntered) (c', WriteReturned (Some v) (if s \<ge> writeQuorum n' then None else Some WriteQuorum))"
      by (rule run_last) (rule EndWrite [where c = c' and me = me, OF n'(1)])
    with s(2) n' show ?thesis
      by auto
  qed
qed

lemma NodeGet_overlaps:
  assumes "NodeGet arrive net1 net2 me key c = Some (c', x)" "\<And>xs. mset (arrive xs) = mset xs"
  shows "run (readMove me key) (c, ReadEntered) (c', ReadReturned x)"
proof -
  from assms(1) obtain n rs where n: "c me = Some n" "replicasFor key n = Some rs"
    by (auto simp: NodeGet_def split: option.splits)
  let ?M = "readMove me key" and ?got = "readAll net1 me key (arrive rs) c"
  note enter = EnterRead [of c me n key rs, OF n]
  show ?thesis
  proof (cases "length rs = 0")
    case True
    with enter assms(1) n show ?thesis
      by (auto simp: NodeGet_def intro: run_one)
  next
    case False
    have got: "run ?M (c, ReadEntered) (c, ReadingValues [] ?got)"
      using run_first [of ?M, OF enter] value_replies [OF assms(2), of me key c rs "[]" net1] False by simp
    show ?thesis
    proof (cases "int (length ?got) < readQuorum n")
      case True
      with run_last [OF got ValuesShort [where c = c and me = me, OF n(1) True]] assms(1) n False show ?thesis
        by (simp add: NodeGet_def)
    next
      case quorum: False
      show ?thesis
      proof (cases "latestOf ?got")
        case None
        with run_last [OF got NothingFound [where c = c and me = me, OF n(1) quorum refl None]] assms(1) n False quorum show ?thesis
          by (simp add: NodeGet_def)
      next
        case (Some l)
        note r = run_last [OF run_trans [OF run_last [OF got NewestFound [where c = c and me = me, OF n(1) quorum refl Some]] repair_replies] EndRead]
        from r [of net2] assms(1) n False quorum Some show ?thesis
          by (auto simp: NodeGet_def Let_def split: if_splits)
      qed
    qed
  qed
qed

subsection \<open>Moves as atomic steps\<close>

context node_work
begin

lemma write_move_runs:
  assumes "writeMove me key kind (c, p) (c', p')" "key_ok key"
    and "\<And>v todo missed success. p = WritingReplicas v todo missed success \<Longrightarrow> value_ok (written kind v)"
  shows "run (clusterStep step) c c'"
  using assms(1)
proof (cases rule: writeMove_cases)
  case (IssueVersion n got base)
  then have "version n \<le> base"
    by (simp add: not_less)
  from node_one [where S = step and c = c and r = me, OF _ issue_step [OF this]] IssueVersion show ?thesis
    by simp
next
  case (WriteReply r todo net v ok missed success)
  from replica_runs [OF WriteReply(3) assms(2) assms(3) [OF WriteReply(1)]] show ?thesis .
next
  case (KeepHint r missed v todo success)
  with assms(2,3) hint_runs show ?thesis
    by simp
qed (simp_all add: run_refl)

lemma read_move_runs:
  assumes "readMove me key (c, p) (c', p')" "key_ok key"
    and "\<And>l rs. p = Repairing l rs \<Longrightarrow> value_ok l"
  shows "run (clusterStep step) c c'"
  using assms(1)
proof cases
  case (RepairReplica l r rs net)
  with assms(2,3) show ?thesis
    using replica_runs [OF prod.collapse [symmetric]] by simp
qed (simp_all add: run_refl)

end

end
