(* ===== verification/Durable.thy ===== *)
theory Durable
  imports Overlap Background
begin

text \<open>
  Crashes and restarts of whole nodes: a system whose nodes die at any moment, also in the middle of
  a write to their log or of a snapshot, and start again on the files that they left, while
  everything else goes on.  It joins the store of a node, the start of its process, the ring and the
  quorums.
\<close>

subsection \<open>What a crash leaves\<close>

text \<open>
  The bytes of the log and the file system with the snapshot.  A process may die with a part of a
  record written, in any state of a snapshot that is being saved, before the log is emptied for it
  and after.  Two places are left out, where the store is known to fail: behind the header of a
  record, whose length is 8, and within the header of the file.
\<close>

inductive leaves :: "Memory \<Rightarrow> bytes \<Rightarrow> fileSystem \<Rightarrow> bool" where
  LeavesLog: "wal m = Some w \<Longrightarrow> record_fits (marshalEntry e) \<Longrightarrow> k < length (encodeRecord True (marshalEntry e)) \<Longrightarrow> k \<noteq> 8
    \<Longrightarrow> leaves m (content (wfile w) @ take k (encodeRecord True (marshalEntry e))) (disk m)"
| LeavesSaved: "wal m = Some w
    \<Longrightarrow> saveSnapshot (snapshotPath m) \<lparr>SnapData = memData m, MaxVersionCounter = maxVersionCounter m\<rparr>
          ((disk m)\<lparr>calls := cs\<rparr>) = (fs, r)
    \<Longrightarrow> leaves m (content (wfile w)) fs"
| LeavesEmptied: "
       saveSnapshot (snapshotPath m) \<lparr>SnapData = memData m, MaxVersionCounter = maxVersionCounter m\<rparr>
          ((disk m)\<lparr>calls := cs\<rparr>) = (fs, None)
    \<Longrightarrow> leaves m [] fs"

lemma recorded_calls: "recorded (m\<lparr>disk := (disk m)\<lparr>calls := cs\<rparr>\<rparr>) = recorded m"
  by (simp add: recorded_def durable_def viewOf_def)

lemma OpenMemory_emptied:
  assumes "durable fs path s" "calls fs = []"
  shows "\<exists>m. OpenMemory (openFile [] []) fs path = Inr m \<and> viewOf m = snapshotView s \<and> snapshotPath m = path \<and> recorded m"
proof -
  let ?w = "\<lparr>wfile = openFile headerBytes []\<lparr>offset := 8\<rparr>, hasHeader = True\<rparr>"
  let ?m = "\<lparr>memData = SnapData s, wal = Some ?w, snapshotPath = path,
      snapshotThreshold = defaultSnapshotThreshold, maxVersionCounter = MaxVersionCounter s, disk = fs\<rparr>"
  have rp: "Replay replayEntry ?w x = (?w, \<lparr>Records = 0, TailRepaired = False\<rparr>, x, None)" for x
    using Replay_clean [of ?w "[]" replayEntry x x] by (simp add: openFile_def walBytes_def)
  have "OpenMemory (openFile [] []) fs path = Inr ?m"
    unfolding OpenMemory_def OpenWAL_empty by (simp add: loadSnapshot_durable [OF assms] rp)
  moreover have "recorded ?m"
  proof -
    have "logHolds ?w []"
      by (simp add: logHolds_def openFile_def walBytes_def)
    then show ?thesis
      unfolding recorded_def using assms(1)
      by (intro exI [of _ ?w] exI [of _ s] exI [of _ "[]"]) (simp add: viewOf_def snapshotView_def)
  qed
  ultimately show ?thesis
    by (intro exI [of _ ?m]) (simp add: viewOf_def snapshotView_def)
qed

lemma leaves_reopened:
  assumes "recorded m" "leaves m bs fs"
  shows "\<exists>m'. OpenMemory (openFile bs []) (fs\<lparr>calls := []\<rparr>) (snapshotPath m) = Inr m'
    \<and> viewOf m' = viewOf m \<and> snapshotPath m' = snapshotPath m \<and> recorded m'"
  using assms(2)
proof cases
  case (LeavesLog w e k)
  let ?m = "m\<lparr>disk := (disk m)\<lparr>calls := []\<rparr>\<rparr>"
  have "recorded ?m"
    using assms(1) by (simp add: recorded_calls)
  from OpenMemory_torn [OF this, of w "marshalEntry e" k] LeavesLog show ?thesis
    by (auto simp: viewOf_def)
next
  case (LeavesSaved w cs r)
  let ?mc = "m\<lparr>disk := (disk m)\<lparr>calls := cs\<rparr>\<rparr>"
  let ?m = "m\<lparr>disk := fs\<lparr>calls := []\<rparr>\<rparr>"
  have "recorded ?mc"
    using assms(1) by (simp only: recorded_calls)
  from saving_recorded [OF this, of fs r] LeavesSaved have "recorded (m\<lparr>disk := fs\<rparr>)"
    by simp
  then have "recorded ?m"
    by (simp add: recorded_def durable_def viewOf_def)
  from OpenMemory_torn [OF this, of w "[]" 0] LeavesSaved show ?thesis
    by (auto simp: viewOf_def record_fits_def length_encodeRecord)
next
  case (LeavesEmptied cs)
  let ?s = "\<lparr>SnapData = memData m, MaxVersionCounter = maxVersionCounter m\<rparr>"
  have "durable fs (snapshotPath m) ?s"
    using durable_saved [OF assms(1) _ _ refl] saveSnapshot_atomic(2) [OF LeavesEmptied(2) refl] by blast
  then have "durable (fs\<lparr>calls := []\<rparr>) (snapshotPath m) ?s"
    by (simp add: durable_def)
  from OpenMemory_emptied [OF this] LeavesEmptied(1) show ?thesis
    by (auto simp: snapshotView_def viewOf_def)
qed

subsection \<open>Steps of a running node\<close>

text \<open>
  The atomic steps with keys and values that JSON keeps, without the debugging write, which is not
  logged, and without changes of the members: a value is only cleaned at a node that is no replica
  of its key.  The outcomes of the calls that save snapshots may change at any time.
\<close>

inductive calmStep :: "Node \<Rightarrow> Node \<Rightarrow> bool" where
  CalmSet: "goodString key \<Longrightarrow> goodValue v \<Longrightarrow> calmStep n (n\<lparr>store := fst (Set key v (store n))\<rparr>)"
| CalmClean: "goodString key \<Longrightarrow> goodVersion ver \<Longrightarrow> replicasFor key n = Some rs \<Longrightarrow> addr n \<notin> set rs
    \<Longrightarrow> calmStep n (n\<lparr>store := fst (DeleteIfMatch key ver (store n))\<rparr>)"
| CalmSave: "calmStep n (n\<lparr>store := fst (SaveSnapshot (store n))\<rparr>)"
| CalmOutcomes: "calmStep n (n\<lparr>store := (store n)\<lparr>disk := (disk (store n))\<lparr>calls := cs\<rparr>\<rparr>\<rparr>)"
| CalmRest: "nodeStep n n' \<Longrightarrow> store n' = store n \<Longrightarrow> ring n' = ring n \<Longrightarrow> calmStep n n'"

text \<open>What the command line and \<open>New\<close> set, and the file of the snapshot, stay.\<close>

definition settings :: "Node \<Rightarrow> string \<times> Ring \<times> int \<times> int \<times> int \<times> string" where
  "settings n = (addr n, ring n, replicas n, writeQuorum n, readQuorum n, snapshotPath (store n))"

lemma paths_kept:
  "snapshotPath (fst (SaveSnapshot m)) = snapshotPath m" "snapshotPath (fst (MaybeSnapshot m)) = snapshotPath m"
  "snapshotPath (fst (Set key v m)) = snapshotPath m" "snapshotPath (fst (DeleteIfMatch key ver m)) = snapshotPath m"
proof -
  have s: "memSaveSnapshot k = (m', e) \<Longrightarrow> snapshotPath m' = snapshotPath k" for k m' e
    by (auto simp: memSaveSnapshot_def split: prod.splits option.splits)
  then show "snapshotPath (fst (SaveSnapshot m)) = snapshotPath m"
    by (metis SaveSnapshot_def prod.collapse)
  show maybe: "snapshotPath (fst (MaybeSnapshot m)) = snapshotPath m" for m
    by (cases "MaybeSnapshot m")
      (auto simp: MaybeSnapshot_def Let_def split: option.splits prod.splits sum.splits if_splits dest!: s)
  have l: "logEntry e k = (m', x) \<Longrightarrow> snapshotPath m' = snapshotPath k" for e k m' x
    by (auto simp: logEntry_def split: option.splits prod.splits)
  show "snapshotPath (fst (Set key v m)) = snapshotPath m"
    by (auto simp: Set_def setLocked_def ForceSet_def Let_def maybe split: option.splits prod.splits if_splits dest!: l)
  show "snapshotPath (fst (DeleteIfMatch key ver m)) = snapshotPath m"
    by (auto simp: DeleteIfMatch_def deleteLocked_def forceDelete_def maybe
        split: option.splits prod.splits if_splits dest!: l)
qed

lemma calmStep_keeps:
  assumes "calmStep n n'"
  shows "settings n' = settings n" "recorded (store n) \<Longrightarrow> recorded (store n')"
proof -
  show "settings n' = settings n"
    using assms
  proof cases
    case CalmRest
    then show ?thesis
      by cases (auto simp: settings_def)
  qed (simp_all add: settings_def paths_kept)
  show "recorded (store n')" if "recorded (store n)"
    using assms
  proof cases
    case (CalmSet key v)
    with memStep_recorded [OF that StepSet] show ?thesis by simp
  next
    case (CalmClean key ver rs)
    with memStep_recorded [OF that StepDelete] show ?thesis by simp
  next
    case CalmSave
    with memStep_recorded [OF that StepSnapshot] show ?thesis by simp
  next
    case (CalmOutcomes cs)
    with that show ?thesis by (simp add: recorded_calls)
  qed (use that in simp)
qed

lemma calmStep_grows:
  assumes "calmStep n n'" "memData (store n) key = Some v"
    and "\<And>rs. replicasFor key n = Some rs \<Longrightarrow> addr n \<in> set rs"
  shows "\<exists>w. memData (store n') key = Some w \<and> VersionOf v \<le> VersionOf w"
  using assms(1)
proof cases
  case (CalmSet k x)
  obtain m e where m: "Set k x (store n) = (m, e)"
    by fastforce
  with mem.versions_grow [OF TrueI TrueI m assms(2)] CalmSet show ?thesis
    by simp
next
  case (CalmClean k ver rs)
  obtain m d e where m: "DeleteIfMatch k ver (store n) = (m, d, e)"
    by (metis prod_cases3)
  have "k \<noteq> key"
    using CalmClean assms(3) by blast
  with DeleteIfMatch_frame [OF m] m CalmClean assms(2) show ?thesis
    by simp
next
  case CalmSave
  have "memData (fst (SaveSnapshot (store n))) = memData (store n)"
    using saved_fields [of "store n" "fst (SaveSnapshot (store n))" "snd (SaveSnapshot (store n))"]
    by (simp add: SaveSnapshot_def)
  with CalmSave assms(2) show ?thesis by simp
qed (use assms(2) in simp_all)

subsection \<open>Nodes that crash and restart\<close>

text \<open>
  The running nodes, and for each address the files that its last process left.  All processes are
  started with the same list of members and the log at its default path, so that the members never
  change.  The directory of the chunks and the clock do not matter here.
\<close>

type_synonym leftFiles = "bytes \<times> fileSystem"

type_synonym site = "cluster \<times> (string \<rightharpoonup> leftFiles)"

inductive siteStep :: "string \<Rightarrow> site \<Rightarrow> site \<Rightarrow> bool" for peerList where
  Working: "clusterStep calmStep c c' \<Longrightarrow> siteStep peerList (c, d) (c', d)"
| Crashing: "c r = Some n \<Longrightarrow> leaves (store n) bs fs
    \<Longrightarrow> siteStep peerList (c, d) (c(r := None), d(r \<mapsto> (bs, fs\<lparr>calls := []\<rparr>)))"
| Starting: "c r = None \<Longrightarrow> d r = Some (bs, fs)
    \<Longrightarrow> startMain r peerList [] (\<lambda>path. (openFile bs [], fs, dir)) now nano = Inr n
    \<Longrightarrow> siteStep peerList (c, d) (c(r \<mapsto> n), d)"

definition siteInit :: "site \<Rightarrow> bool" where
  "siteInit s \<longleftrightarrow> fst s = Map.empty \<and> snd s = (\<lambda>r. Some ([], emptyDisk))"

definition defaultSnapshot :: "string \<Rightarrow> string" where
  "defaultSnapshot r = walFlag r [] @ ''.snapshot''"

definition reopened :: "string \<Rightarrow> leftFiles \<Rightarrow> memoryError + Memory" where
  "reopened r f = OpenMemory (openFile (fst f) []) (snd f) (defaultSnapshot r)"

text \<open>What is stored at an address: in the running node, or in what its files give.\<close>

definition storedAt :: "site \<Rightarrow> string \<Rightarrow> (string \<rightharpoonup> Value)" where
  "storedAt s r =
     (case fst s r of
        Some n \<Rightarrow> memData (store n)
      | None \<Rightarrow>
          (case snd s r of
             None \<Rightarrow> Map.empty
           | Some f \<Rightarrow> (case reopened r f of Inl e \<Rightarrow> Map.empty | Inr m \<Rightarrow> memData m)))"

lemma storedAt_pair:
  "storedAt (c, d) r =
     (case c r of
        Some n \<Rightarrow> memData (store n)
      | None \<Rightarrow>
          (case d r of
             None \<Rightarrow> Map.empty
           | Some f \<Rightarrow> (case reopened r f of Inl e \<Rightarrow> Map.empty | Inr m \<Rightarrow> memData m)))"
  unfolding storedAt_def fst_conv snd_conv ..

definition fits :: "string \<Rightarrow> string \<Rightarrow> Node \<Rightarrow> bool" where
  "fits peerList r n \<longleftrightarrow>
     settings n = (r, newRing (splitComma peerList) 100, 3, 2, 2, defaultSnapshot r) \<and> recorded (store n)"

definition siteOk :: "string \<Rightarrow> site \<Rightarrow> bool" where
  "siteOk peerList s \<longleftrightarrow>
     (\<forall>r n. fst s r = Some n \<longrightarrow> fits peerList r n)
     \<and> (\<forall>r. fst s r = None \<longrightarrow>
          (\<exists>f m. snd s r = Some f \<and> reopened r f = Inr m \<and> recorded m \<and> snapshotPath m = defaultSnapshot r))"

text \<open>Nothing that a replica of its key stores goes back.\<close>

definition siteBelow :: "string \<Rightarrow> site \<Rightarrow> site \<Rightarrow> bool" where
  "siteBelow peerList s s' \<longleftrightarrow>
     (\<forall>r key rs v. GetN key 3 (newRing (splitComma peerList) 100) = Some rs \<longrightarrow> r \<in> set rs \<longrightarrow> storedAt s r key = Some v
        \<longrightarrow> (\<exists>w. storedAt s' r key = Some w \<and> VersionOf v \<le> VersionOf w))"

lemma startMain_default:
  assumes "startMain r peerList [] (\<lambda>path. (openFile bs [], fs, dir)) now nano = Inr n"
    and "reopened r (bs, fs) = Inr m" "snapshotPath m = defaultSnapshot r"
  shows "store n = m" "settings n = (r, newRing (splitComma peerList) 100, 3, 2, 2, defaultSnapshot r)"
proof -
  have "NodeNew r (splitComma peerList) (walFlag r []) (openFile bs []) fs dir now nano = Inr n"
    using assms(1) by (simp add: startMain_def Let_def)
  from NodeNew_cases [OF this] assms(2,3)
  show "store n = m" "settings n = (r, newRing (splitComma peerList) 100, 3, 2, 2, defaultSnapshot r)"
    by (auto simp: reopened_def defaultSnapshot_def settings_def)
qed

lemma siteBelow_at:
  assumes "\<And>q. q \<noteq> r \<Longrightarrow> storedAt s' q = storedAt s q"
    and "\<And>key rs v. GetN key 3 (newRing (splitComma peerList) 100) = Some rs \<Longrightarrow> r \<in> set rs \<Longrightarrow> storedAt s r key = Some v
      \<Longrightarrow> \<exists>w. storedAt s' r key = Some w \<and> VersionOf v \<le> VersionOf w"
  shows "siteBelow peerList s s'"
  unfolding siteBelow_def using assms by (metis order_refl)

lemma siteStep_kept:
  assumes "siteOk peerList s" "siteStep peerList s s'"
  shows "siteOk peerList s' \<and> siteBelow peerList s s'"
  using assms(2)
proof cases
  case (Working c c' d)
  from Working(3) show ?thesis
  proof cases
    case (ClusterNode r n n')
    then have f: "fits peerList r n"
      using assms(1) Working by (simp add: siteOk_def)
    have f': "fits peerList r n'"
      using f calmStep_keeps [OF ClusterNode(3)] by (simp add: fits_def)
    have "\<exists>w. memData (store n') key = Some w \<and> VersionOf v \<le> VersionOf w"
      if "GetN key 3 (newRing (splitComma peerList) 100) = Some rs" "r \<in> set rs" "memData (store n) key = Some v" for key rs v
    proof (rule calmStep_grows [OF ClusterNode(3) that(3)])
      fix qs
      assume "replicasFor key n = Some qs"
      with that(1,2) f show "addr n \<in> set qs"
        by (simp add: replicasFor_def fits_def settings_def)
    qed
    then have "siteBelow peerList s s'"
      using Working ClusterNode by (intro siteBelow_at [of r]) (auto simp: storedAt_pair)
    moreover have "siteOk peerList s'"
      using assms(1) f' Working ClusterNode by (auto simp: siteOk_def)
    ultimately show ?thesis by blast
  qed
next
  case (Crashing c r n bs fs d)
  have f: "fits peerList r n"
    using assms(1) Crashing by (simp add: siteOk_def)
  then obtain m where m: "reopened r (bs, fs\<lparr>calls := []\<rparr>) = Inr m" "viewOf m = viewOf (store n)"
      "snapshotPath m = defaultSnapshot r" "recorded m"
    using leaves_reopened [OF _ Crashing(4)] by (auto simp: fits_def settings_def reopened_def)
  have "siteOk peerList s'"
    using assms(1) Crashing m by (auto simp: siteOk_def)
  moreover have "siteBelow peerList s s'"
    using Crashing m by (intro siteBelow_at [of r]) (auto simp: storedAt_pair viewOf_def split: option.split)
  ultimately show ?thesis by blast
next
  case (Starting c r d bs fs dir now nano n)
  obtain m where m: "reopened r (bs, fs) = Inr m" "recorded m" "snapshotPath m = defaultSnapshot r"
    using assms(1) Starting by (force simp: siteOk_def)
  note n = startMain_default [OF Starting(5) m(1,3)]
  then have "fits peerList r n"
    using m(2) by (simp add: fits_def)
  then have "siteOk peerList s'"
    using assms(1) Starting by (auto simp: siteOk_def)
  moreover have "siteBelow peerList s s'"
    using Starting m(1) n(1) by (intro siteBelow_at [of r]) (auto simp: storedAt_pair)
  ultimately show ?thesis by blast
qed

interpretation site: monotone_system siteInit "siteStep peerList" "siteOk peerList" "siteBelow peerList" for peerList
proof unfold_locales
  fix s
  assume "siteInit s"
  moreover have "\<exists>m. OpenMemory (openFile [] []) emptyDisk path = Inr m \<and> recorded m \<and> snapshotPath m = path" for path
    using OpenMemory_emptied [of emptyDisk path "\<lparr>SnapData = Map.empty, MaxVersionCounter = 0\<rparr>"]
    by (auto simp: durable_def emptyDisk_def)
  ultimately show "siteOk peerList s"
    by (auto simp: siteInit_def siteOk_def reopened_def)
next
  show "siteBelow peerList s s" for s
    by (auto simp: siteBelow_def)
next
  show "siteBelow peerList s u" if "siteBelow peerList s t" "siteBelow peerList t u" for s t u
    using that unfolding siteBelow_def by (meson order_trans)
qed (use siteStep_kept in blast)+

subsection \<open>Acknowledged writes\<close>

text \<open>Writes of a key that the addresses and JSON keep are made of such steps.\<close>

definition safeKey :: "string \<Rightarrow> bool" where
  "safeKey key \<longleftrightarrow> plainKey key \<and> goodString key"

interpretation calm: node_work calmStep safeKey goodValue
proof unfold_locales
  show "safeKey key \<Longrightarrow> requestKey key = Some k \<Longrightarrow> safeKey k" for key k
    using requestKey_plain [of key] by (simp add: safeKey_def)
  show "goodValue v \<Longrightarrow> decodeStream decodeValue (marshalValue v) zeroValue = Some w \<Longrightarrow> goodValue w" for v w
    using decodeStream_value [of v "[]" zeroValue] by (simp add: stops_def)
qed (auto simp: safeKey_def intro: CalmSet CalmRest NodeHint NodeIssue)

lemma isWrite_calm:
  assumes "isWrite arrive net1 net2 me key c c' e" "safeKey key" "\<And>n. c me = Some n \<Longrightarrow> goodString (addr n)"
  shows "run (clusterStep calmStep) c c'"
proof -
  obtain mk where mk: "writeVersioned arrive net1 net2 me key mk c = Some (c', e)" "\<And>v. VersionOf (mk v) = v"
    using isWrite_mk [OF assms(1)] by blast
  show ?thesis
    by (rule calm.versioned_runs [OF mk(1) assms(2)]) (simp add: goodValue_def goodVersion_def mk(2) assms(3))
qed

lemma working_run: "run (clusterStep calmStep) c c' \<Longrightarrow> run (siteStep peerList) (c, d) (c', d)"
  by (induction rule: Transition.run.induct) (auto intro: run_refl Transition.run.run_step Working)

lemma siteOk_good: "siteOk peerList (c, d) \<Longrightarrow> goodAt c key"
proof -
  assume s: "siteOk peerList (c, d)"
  have "goodValue v" if "c r = Some n" "memData (store n) key = Some v" for r n v
  proof -
    have "goodView (viewOf (store n))"
      using s that(1) recorded_goodView by (auto simp: siteOk_def fits_def)
    with that(2) show ?thesis
      by (auto simp: goodView_def goodSnapshot_def viewOf_def)
  qed
  then show ?thesis
    by (auto simp: goodAt_def valueAt_def split: option.splits)
qed

text \<open>The requests of clients for such keys are among what the nodes work on.\<close>

lemma NodeGet_calm:
  assumes "NodeGet arrive net1 net2 me key c = Some (c', x)" "siteOk peerList (c, d)" "safeKey key"
  shows "run (clusterStep calmStep) c c'"
proof (rule calm.get_runs [OF assms(1,3)])
  fix q v
  assume "getReplica (net1 q) me q key c = Some (v, True)"
  from getReplica_value [OF this _ siteOk_good [OF assms(2)]] assms(3) have "valueAt c q key = Some v"
    by (simp add: safeKey_def)
  with siteOk_good [OF assms(2)] show "goodValue v"
    by (auto simp: goodAt_def)
qed

lemma handleKV_site:
  assumes "handleKV e err me meth path r c = Some (c', x)" "siteOk peerList (c, d)"
    and "safeKey (trimPrefix path ''/kv/'')" "goodString me"
  shows "run (siteStep peerList) (c, d) (c', d)"
proof (rule working_run)
  let ?key = "trimPrefix path ''/kv/''"
  have w: "run (clusterStep calmStep) c t" if "isWrite a net1 net2 me ?key c t y" for a net1 net2 t y
    by (rule isWrite_calm [OF that assms(3)]) (use assms(2,4) in \<open>auto simp: siteOk_def fits_def settings_def\<close>)
  have "run (clusterStep calmStep) c t" if "NodePut a net1 net2 me ?key data c = Some (t, y)" for a net1 net2 data t y
    by (rule w [of a net1 net2 t y]) (use that in \<open>auto simp: isWrite_def\<close>)
  moreover have "run (clusterStep calmStep) c t" if "NodeDelete a net1 net2 me ?key c = Some (t, y)" for a net1 net2 t y
    by (rule w [of a net1 net2 t y]) (use that in \<open>auto simp: isWrite_def\<close>)
  ultimately show "run (clusterStep calmStep) c c'"
    using assms(1) NodeGet_calm [OF _ assms(2,3)]
    by (auto simp: handleKV_def handleReplicatedGet_def handleReplicatedPut_def handleReplicatedDelete_def
        Let_def run_refl split: if_splits httpMethod.splits option.splits)
qed

end
