(* ===== verification/DefaultRing.thy ===== *)
theory DefaultRing
  imports RingChange
begin

text \<open>
  The ring that \<open>New\<close> makes for the members \<open>a\<close> and \<open>b\<close>, with 100 virtual nodes each: both have a
  position, so that both are replicas of every key.
\<close>

text \<open>The prefix \<open>b#\<close> of the names is read once, and a first digit once for all second ones.\<close>

fun farBytes :: "u32 \<Rightarrow> u32 \<Rightarrow> bytes \<Rightarrow> bool" where
  "farBytes t s [] = True"
| "farBytes t s (e # es) = (crcByte s e \<noteq> t \<and> farBytes t s es)"

abbreviation farByte :: "u32 \<Rightarrow> bool" where
  "farByte s \<equiv> farBytes 0xD1DBC037 s [48, 49, 50, 51, 52, 53, 54, 55, 56, 57]"

lemma prefix_b: "crcUpdate (NOT 0) (bytesOf ''b#'') = 0x4B8A9557"
  by code_simp

lemma far_one: "farByte 0x4B8A9557"
  by code_simp

lemma first_digits:
  "crcByte 0x4B8A9557 48 = 0xD39D7E6E"
  "crcByte 0x4B8A9557 49 = 0xA49A4EF8"
  "crcByte 0x4B8A9557 50 = 0x3D931F42"
  "crcByte 0x4B8A9557 51 = 0x4A942FD4"
  "crcByte 0x4B8A9557 52 = 0xD4F0BA77"
  "crcByte 0x4B8A9557 53 = 0xA3F78AE1"
  "crcByte 0x4B8A9557 54 = 0x3AFEDB5B"
  "crcByte 0x4B8A9557 55 = 0x4DF9EBCD"
  "crcByte 0x4B8A9557 56 = 0xDD46F65C"
  "crcByte 0x4B8A9557 57 = 0xAA41C6CA"
  by code_simp+

lemma far_low:
  "farByte 0xD39D7E6E"
  "farByte 0xA49A4EF8"
  "farByte 0x3D931F42"
  "farByte 0x4A942FD4"
  "farByte 0xD4F0BA77"
  by code_simp+

lemma far_high:
  "farByte 0xA3F78AE1"
  "farByte 0x3AFEDB5B"
  "farByte 0x4DF9EBCD"
  "farByte 0xDD46F65C"
  "farByte 0xAA41C6CA"
  by code_simp+

lemma far_two: "d \<in> {48, 49, 50, 51, 52, 53, 54, 55, 56, 57} \<Longrightarrow> farByte (crcByte 0x4B8A9557 d)"
  using far_low far_high by (auto simp only: first_digits insert_iff empty_iff)

lemma digit_bytes: "list_all (\<lambda>d. (of_char (digitChar d) :: u8) \<in> {48, 49, 50, 51, 52, 53, 54, 55, 56, 57}) [0..<10]"
  by code_simp

lemma digit_of_byte: "d < 10 \<Longrightarrow> (of_char (digitChar d) :: u8) \<in> {48, 49, 50, 51, 52, 53, 54, 55, 56, 57}"
  using digit_bytes unfolding list_all_iff set_upt by simp

lemma far_digit: "farByte s \<Longrightarrow> d < 10 \<Longrightarrow> crcByte s (of_char (digitChar d)) \<noteq> 0xD1DBC037"
  using digit_of_byte [of d] by auto

lemma vhash_b_apart:
  assumes "i < 100"
  shows "vhash ''b'' i \<noteq> 0x2E243FC8"
proof
  assume "vhash ''b'' i = 0x2E243FC8"
  then have h: "crcUpdate (NOT 0) (bytesOf (''b#'' @ decimal i)) = NOT 0x2E243FC8"
    unfolding vhash_def hash_def virtualNode_def crc32_def by (metis append_Cons append_Nil bit.double_compl)
  have "bytesOf (xs @ ys) = bytesOf xs @ bytesOf ys" for xs ys
    by (simp add: bytesOf_def)
  with h have "crcUpdate 0x4B8A9557 (bytesOf (decimal i)) = NOT 0x2E243FC8"
    by (simp only: crcUpdate_append prefix_b)
  also have "NOT 0x2E243FC8 = (0xD1DBC037 :: u32)"
    by simp
  finally have h: "crcUpdate 0x4B8A9557 (bytesOf (decimal i)) = 0xD1DBC037" .
  show False
  proof (cases "i < 10")
    case True
    with h far_digit [OF far_one True] show ?thesis
      by (simp add: decimal.simps [of i] crcUpdate_def bytesOf_def)
  next
    case False
    then have d: "i div 10 < 10" "i mod 10 < 10"
      using assms by auto
    have "farByte (crcByte 0x4B8A9557 (of_char (digitChar (i div 10))))"
      by (rule far_two [OF digit_of_byte [OF d(1)]])
    from far_digit [OF this d(2)] h False d(1) show ?thesis
      by (simp add: decimal.simps [of i] decimal.simps [of "i div 10"] crcUpdate_def bytesOf_def)
  qed
qed

definition ring_two :: Ring where
  "ring_two = newRing [''a'', ''b''] 100"

lemma ring_two_facts:
  "members ring_two = {''a'', ''b''}" "ring_ok ring_two" "covered ring_two"
proof -
  let ?one = "Add ''a'' (emptyRing 100)"
  have r: "ring_two = Add ''b'' ?one"
    by (simp add: ring_two_def newRing_def)
  have none: "members (emptyRing 100) = {}" "virtualNodes (emptyRing 100) = 100"
    by (simp_all add: emptyRing_def)
  then have one: "members ?one = {''a''}" "virtualNodes ?one = 100" "nodes ?one (vhash ''a'' 0) = Some ''a''"
    by (auto simp: Add_eq emptyRing_def vhashes_def)
  show m: "members ring_two = {''a'', ''b''}"
    by (auto simp: r Add_eq [of "''b''"] one)
  show "ring_ok ring_two"
    by (simp add: ring_two_def ring_ok_newRing)
  have "vhash ''a'' 0 \<notin> set (vhashes ''b'' ?one)"
    using vhash_b_apart vhash_abc(1) by (auto simp: vhashes_def one none)
  then have "nodes ring_two (vhash ''a'' 0) = Some ''a''"
    by (simp add: r Add_eq [of "''b''"] one)
  moreover have "nodes ring_two (vhash ''b'' 0) = Some ''b''"
    by (auto simp: r Add_eq [of "''b''"] one none vhashes_def)
  ultimately show "covered ring_two"
    unfolding covered_def m by (auto intro: ranI)
qed

lemma ring_two_replicas:
  "\<exists>ns. GetN key 3 ring_two = Some ns \<and> distinct ns \<and> set ns = {''a'', ''b''}"
proof -
  obtain ns where ns: "GetN key 3 ring_two = Some ns" "length ns = 2" "distinct ns" "set ns \<subseteq> {''a'', ''b''}"
    using GetN_covered [OF ring_two_facts(2,3), of 3 key] by (auto simp: ring_two_facts(1))
  then have "card (set ns) = card {''a'', ''b''}"
    by (simp add: distinct_card)
  with ns show ?thesis
    by (auto dest: card_subset_eq [rotated])
qed

end
