(* ===== verification/TwoNodes.thy ===== *)
theory TwoNodes
  imports Durable DefaultRing
begin

text \<open>
  A concrete system of two nodes, in which an operation of each kind succeeds and a node dies and
  comes back.
\<close>

text \<open>Members \<open>a\<close> and \<open>b\<close> start on no files; \<open>a\<close> coordinates a write, and \<open>b\<close> dies and comes back.\<close>

definition valueW :: Value where
  "valueW = \<lparr>Data = Some [65], VersionOf = \<lparr>Counter = 1, NodeID = ''a''\<rparr>, Deleted = False\<rparr>"

lemma valueW_good: "goodValue valueW" "goodString ''k''" "goodString ''a''"
  by (simp_all add: valueW_def goodValue_def goodVersion_def) (code_simp+)

lemma valueW_fits: "record_fits (marshalEntry (setEntry ''k'' valueW))"
proof -
  have "length (marshalEntry (setEntry ''k'' valueW)) = 137"
    by code_simp
  then show ?thesis
    by (simp add: record_fits_def)
qed

lemma restarted:
  assumes "reopened r (bs, fs) = Inr m" "snapshotPath m = defaultSnapshot r" "recorded m"
  shows "\<exists>n. startMain r ''a,b'' [] (\<lambda>path. (openFile bs [], fs, noChunks)) 0 1 = Inr n
    \<and> fits ''a,b'' r n \<and> store n = m \<and> version n = maxVersionCounter m"
proof -
  have "chunkOpen (walFlag r [] @ ''.chunks'') noChunks = (noChunks, None)"
    by (simp add: chunkOpen_def plainCall_def chunkCall_def noChunks_def)
  with assms(1) obtain n where n: "startMain r ''a,b'' [] (\<lambda>path. (openFile bs [], fs, noChunks)) 0 1 = Inr n"
      "version n = maxVersionCounter m"
    by (auto simp: startMain_def NodeNew_def reopened_def defaultSnapshot_def Let_def)
  with startMain_default [OF n(1) assms(1,2)] assms(3) show ?thesis
    by (auto simp: fits_def)
qed

lemma fits_two: "fits ''a,b'' r n \<Longrightarrow> ring n = ring_two \<and> replicas n = 3 \<and> writeQuorum n = 2 \<and> readQuorum n = 2 \<and> addr n = r"
  by (simp add: fits_def settings_def ring_two_def)

lemma sorted_replicas:
  assumes "fits ''a,b'' r n"
  shows "\<exists>rs. replicasFor key n = Some rs \<and> sort rs = [''a'', ''b'']"
proof -
  obtain rs where rs: "GetN key 3 ring_two = Some rs" "distinct rs" "set rs = {''a'', ''b''}"
    using ring_two_replicas by blast
  have "sort rs = sorted_list_of_set {''a'', ''b''}"
    using rs(2,3) by (metis distinct_remdups_id sorted_list_of_set_sort_remdups)
  also have "\<dots> = [''a'', ''b'']"
    by simp
  finally show ?thesis
    using rs(1) fits_two [OF assms] by (auto simp: replicasFor_def)
qed

lemma two_version:
  assumes "fits ''a,b'' ''a'' na" "fits ''a,b'' ''b'' nb" "version na = 0"
    and "memData (store na) = Map.empty" "memData (store nb) = Map.empty"
    and rs: "replicasFor ''k'' na = Some rs" "sort rs = [''a'', ''b'']"
  shows "nextVersion sort (\<lambda>_. Delivered) ''a'' ''k'' na rs [''a'' \<mapsto> na, ''b'' \<mapsto> nb] =
    ([''a'' \<mapsto> na, ''b'' \<mapsto> nb](''a'' \<mapsto> na\<lparr>version := 1\<rparr>), Inr \<lparr>Counter = 1, NodeID = ''a''\<rparr>)"
proof -
  let ?c = "[''a'' \<mapsto> na, ''b'' \<mapsto> nb]"
  have len: "length rs = 2"
    using rs(2) by (metis length_sort length_Cons list.size(3) numeral_2_eq_2)
  have "readAll (\<lambda>_. Delivered) ''a'' ''k'' [''a'', ''b''] ?c = [(''a'', zeroValue, False), (''b'', zeroValue, False)]"
    using assms(4,5) plain_k(2)
    by (simp add: readAll_def List.map_filter_simps getReplica_def MemGet_def internalGet_def handleInternalGet_def answers)
    then show ?thesis
    using fits_two [OF assms(1)] assms(3) rs(2) len by (simp add: nextVersion_def maxCounterOf_def Let_def)
qed

lemma put_two:
  assumes "fits ''a,b'' ''a'' na" "fits ''a,b'' ''b'' nb" "version na = 0"
    and "memData (store na) = Map.empty" "memData (store nb) = Map.empty"
  shows "\<exists>ma mb. NodePut sort (\<lambda>_. Delivered) (\<lambda>_. Delivered) ''a'' ''k'' (Some [65]) [''a'' \<mapsto> na, ''b'' \<mapsto> nb] =
      Some ([''a'' \<mapsto> na\<lparr>version := 1, store := ma\<rparr>, ''b'' \<mapsto> nb\<lparr>store := mb\<rparr>], None)
    \<and> memData ma = [''k'' \<mapsto> valueW] \<and> memData mb = [''k'' \<mapsto> valueW]"
proof -
  let ?c = "[''a'' \<mapsto> na, ''b'' \<mapsto> nb]"
  obtain rs where rs: "replicasFor ''k'' na = Some rs" "sort rs = [''a'', ''b'']"
    using sorted_replicas [OF assms(1)] by blast
  obtain ma mb where m: "Set ''k'' valueW (store na) = (ma, None)" "Set ''k'' valueW (store nb) = (mb, None)"
    using assms(1,2) Set_succeeds [OF _ valueW_fits] unfolding fits_def by blast
  note nv = two_version [OF assms rs]
  have ip: "internalPut ''k'' (marshalValue valueW) nb = (nb\<lparr>store := mb\<rparr>, noContent)"
    using decodeStream_value [OF valueW_good(1), of "[]" zeroValue] m(2)
    by (simp add: internalPut_def handleInternalPut_def stops_def)
  have "writeLoop (\<lambda>_. Delivered) ''a'' ''k'' valueW [''a'', ''b''] (?c(''a'' \<mapsto> na\<lparr>version := 1\<rparr>)) 0 =
      (?c(''a'' \<mapsto> na\<lparr>version := 1, store := ma\<rparr>, ''b'' \<mapsto> nb\<lparr>store := mb\<rparr>), 2)"
    using m(1) ip plain_k(2) by (simp add: putReplica_def noContent_def fun_upd_twist)
  then have "NodePut sort (\<lambda>_. Delivered) (\<lambda>_. Delivered) ''a'' ''k'' (Some [65]) ?c =
      Some (?c(''a'' \<mapsto> na\<lparr>version := 1, store := ma\<rparr>, ''b'' \<mapsto> nb\<lparr>store := mb\<rparr>), None)"
    using rs nv fits_two [OF assms(1)] by (simp add: NodePut_def writeVersioned_def replicateValue_def valueW_def)
  moreover have "memData ma = [''k'' \<mapsto> valueW]" "memData mb = [''k'' \<mapsto> valueW]"
    using Set_ok [OF m(1)] Set_ok [OF m(2)] assms(4,5) by simp_all
  ultimately show ?thesis
    by (intro exI [of _ ma] exI [of _ mb]) (simp add: fun_upd_twist)
qed

lemma get_two:
  assumes "c ''a'' = Some na" "c ''b'' = Some nb" "fits ''a,b'' ''b'' nb"
    and "memData (store na) = [''k'' \<mapsto> valueW]" "memData (store nb) = [''k'' \<mapsto> valueW]"
  shows "\<exists>c'. NodeGet sort (\<lambda>_. Delivered) (\<lambda>_. Delivered) ''b'' ''k'' c = Some (c', Inr (Some [65], True))"
proof -
  obtain rs where rs: "replicasFor ''k'' nb = Some rs" "sort rs = [''a'', ''b'']"
    using sorted_replicas [OF assms(3)] by blast
  have ne: "rs \<noteq> []"
    using rs(2) by auto
  have "readAll (\<lambda>_. Delivered) ''b'' ''k'' [''a'', ''b''] c = [(''a'', valueW, True), (''b'', valueW, True)]"
    using assms plain_k(2) decodeStream_value [OF valueW_good(1), of "[10]" zeroValue]
    by (simp add: readAll_def List.map_filter_simps getReplica_def MemGet_def internalGet_def handleInternalGet_def stops_def)
  then show ?thesis
    using assms(2) rs ne fits_two [OF assms(3)]
    by (simp add: NodeGet_def latestOf_def newer_def Let_def valueW_def)
qed

lemma two_started:
  "\<exists>na nb d. reachable siteInit (siteStep ''a,b'') ([''a'' \<mapsto> na, ''b'' \<mapsto> nb], d)
    \<and> fits ''a,b'' ''a'' na \<and> fits ''a,b'' ''b'' nb \<and> version na = 0
    \<and> memData (store na) = Map.empty \<and> memData (store nb) = Map.empty"
proof -
  let ?d = "\<lambda>r. Some ([], emptyDisk)"
  have "\<exists>n. startMain r ''a,b'' [] (\<lambda>path. (openFile [] [], emptyDisk, noChunks)) 0 1 = Inr n
      \<and> fits ''a,b'' r n \<and> version n = 0 \<and> memData (store n) = Map.empty" for r
  proof -
    obtain m where m: "reopened r ([], emptyDisk) = Inr m" "viewOf m = (Map.empty, 0)"
        "snapshotPath m = defaultSnapshot r" "recorded m"
      using OpenMemory_emptied [of emptyDisk "defaultSnapshot r" "\<lparr>SnapData = Map.empty, MaxVersionCounter = 0\<rparr>"]
      by (auto simp: durable_def emptyDisk_def reopened_def snapshotView_def)
    from restarted [OF m(1,3,4)] m(2) show ?thesis
      by (auto simp: viewOf_def)
  qed
  then obtain na nb where
      a: "startMain ''a'' ''a,b'' [] (\<lambda>path. (openFile [] [], emptyDisk, noChunks)) 0 1 = Inr na"
        "fits ''a,b'' ''a'' na" "version na = 0" "memData (store na) = Map.empty"
      and b: "startMain ''b'' ''a,b'' [] (\<lambda>path. (openFile [] [], emptyDisk, noChunks)) 0 1 = Inr nb"
        "fits ''a,b'' ''b'' nb" "memData (store nb) = Map.empty"
    by metis
  have "reachable siteInit (siteStep ''a,b'') (Map.empty, ?d)"
    by (rule reach_init) (simp add: siteInit_def)
  then have "reachable siteInit (siteStep ''a,b'') ([''a'' \<mapsto> na], ?d)"
    by (rule reach_step) (rule Starting [OF _ _ a(1)], simp_all)
  then have "reachable siteInit (siteStep ''a,b'') ([''a'' \<mapsto> na, ''b'' \<mapsto> nb], ?d)"
    by (rule reach_step) (rule Starting [OF _ _ b(1)], simp_all)
  with a b show ?thesis
    by blast
qed

text \<open>A node dies with three bytes of a record written, and starts again.\<close>

lemma crash_and_restart:
  assumes "siteOk ''a,b'' (c, d)" "c r = Some n"
  shows "\<exists>n' d'. run (siteStep ''a,b'') (c, d) (c(r \<mapsto> n'), d') \<and> fits ''a,b'' r n'
    \<and> memData (store n') = memData (store n)"
proof -
  have f: "recorded (store n)" "snapshotPath (store n) = defaultSnapshot r"
    using assms by (auto simp: siteOk_def fits_def settings_def)
  then obtain w where w: "wal (store n) = Some w"
    by (auto simp: recorded_def)
  define bs where "bs = content (wfile w) @ take 3 (encodeRecord True (marshalEntry (setEntry ''k'' valueW)))"
  define fs where "fs = (disk (store n))\<lparr>calls := []\<rparr>"
  have l: "leaves (store n) bs (disk (store n))"
    unfolding bs_def by (rule LeavesLog [OF w valueW_fits]) (simp_all add: length_encodeRecord)
  obtain m where m: "reopened r (bs, fs) = Inr m" "viewOf m = viewOf (store n)" "snapshotPath m = defaultSnapshot r" "recorded m"
    using leaves_reopened [OF f(1) l] f(2) by (auto simp: reopened_def fs_def)
  obtain n' where n': "startMain r ''a,b'' [] (\<lambda>path. (openFile bs [], fs, noChunks)) 0 1 = Inr n'"
      "fits ''a,b'' r n'" "store n' = m"
    using restarted [OF m(1,3,4)] by blast
  have "siteStep ''a,b'' (c, d) (c(r := None), d(r \<mapsto> (bs, fs)))"
    unfolding fs_def by (rule Crashing [where c = c and r = r, OF assms(2) l])
  moreover have "siteStep ''a,b'' (c(r := None), d(r \<mapsto> (bs, fs))) ((c(r := None))(r \<mapsto> n'), d(r \<mapsto> (bs, fs)))"
    by (rule Starting [OF _ _ n'(1)]) simp_all
  ultimately have "run (siteStep ''a,b'') (c, d) ((c(r := None))(r \<mapsto> n'), d(r \<mapsto> (bs, fs)))"
    by (meson run_refl Transition.run.run_step)
  with n' m(2) show ?thesis
    by (intro exI [of _ n'] exI [of _ "d(r \<mapsto> (bs, fs))"]) (simp add: viewOf_def)
qed

text \<open>A write, a crash and a restart, and a read.\<close>

lemma write_crash_read:
  "\<exists>c d c1 c2 d2 c3 n1. reachable siteInit (siteStep ''a,b'') (c, d)
    \<and> NodePut sort (\<lambda>_. Delivered) (\<lambda>_. Delivered) ''a'' ''k'' (Some [65]) c = Some (c1, None)
    \<and> c1 ''a'' = Some n1 \<and> addr n1 = ''a'' \<and> version n1 = 1
    \<and> run (siteStep ''a,b'') (c1, d) (c2, d2) \<and> c2 ''a'' = Some n1
    \<and> readAll (\<lambda>_. Delivered) ''a'' ''k'' [''a'', ''b''] c2 = [(''a'', valueW, True), (''b'', valueW, True)]
    \<and> NodeGet sort (\<lambda>_. Delivered) (\<lambda>_. Delivered) ''b'' ''k'' c2 = Some (c3, Inr (Some [65], True))"
proof -
  obtain na nb d where s: "reachable siteInit (siteStep ''a,b'') ([''a'' \<mapsto> na, ''b'' \<mapsto> nb], d)"
      "fits ''a,b'' ''a'' na" "fits ''a,b'' ''b'' nb" "version na = 0"
      "memData (store na) = Map.empty" "memData (store nb) = Map.empty"
    using two_started by blast
  obtain ma mb where p: "NodePut sort (\<lambda>_. Delivered) (\<lambda>_. Delivered) ''a'' ''k'' (Some [65]) [''a'' \<mapsto> na, ''b'' \<mapsto> nb] =
      Some ([''a'' \<mapsto> na\<lparr>version := 1, store := ma\<rparr>, ''b'' \<mapsto> nb\<lparr>store := mb\<rparr>], None)"
      "memData ma = [''k'' \<mapsto> valueW]" "memData mb = [''k'' \<mapsto> valueW]"
    using put_two [OF s(2-6)] by blast
  define c1 where "c1 = [''a'' \<mapsto> na\<lparr>version := 1, store := ma\<rparr>, ''b'' \<mapsto> nb\<lparr>store := mb\<rparr>]"
  have w: "isWrite sort (\<lambda>_. Delivered) (\<lambda>_. Delivered) ''a'' ''k'' [''a'' \<mapsto> na, ''b'' \<mapsto> nb] c1 None"
    using p(1) by (auto simp: isWrite_def c1_def)
  have "siteOk ''a,b'' ([''a'' \<mapsto> na, ''b'' \<mapsto> nb], d)"
    by (rule site.reachable_inv [OF s(1)])
  moreover have "run (siteStep ''a,b'') ([''a'' \<mapsto> na, ''b'' \<mapsto> nb], d) (c1, d)"
    using plain_k(1) valueW_good(2,3) fits_two [OF s(2)]
    by (intro working_run isWrite_calm [OF w]) (simp_all add: safeKey_def)
  ultimately have "siteOk ''a,b'' (c1, d)"
    by (rule site.run_inv [rotated])
  then obtain n d2 where r: "run (siteStep ''a,b'') (c1, d) (c1(''b'' \<mapsto> n), d2)" "fits ''a,b'' ''b'' n"
      "memData (store n) = [''k'' \<mapsto> valueW]"
    using crash_and_restart [of c1 d "''b''" "nb\<lparr>store := mb\<rparr>"] p(3) by (auto simp: c1_def)
  let ?c2 = "c1(''b'' \<mapsto> n)"
  obtain c3 where g: "NodeGet sort (\<lambda>_. Delivered) (\<lambda>_. Delivered) ''b'' ''k'' ?c2 = Some (c3, Inr (Some [65], True))"
    using get_two [of ?c2 "na\<lparr>version := 1, store := ma\<rparr>" n] r(2,3) p(2) by (auto simp: c1_def)
  have "readAll (\<lambda>_. Delivered) ''a'' ''k'' [''a'', ''b''] ?c2 = [(''a'', valueW, True), (''b'', valueW, True)]"
    using p(2) r(3) plain_k(2) decodeStream_value [OF valueW_good(1), of "[10]" zeroValue]
    by (simp add: c1_def readAll_def List.map_filter_simps getReplica_def MemGet_def internalGet_def handleInternalGet_def
        stops_def)
  moreover have "c1 ''a'' = Some (na\<lparr>version := 1, store := ma\<rparr>)" "?c2 ''a'' = c1 ''a''"
      "addr (na\<lparr>version := 1, store := ma\<rparr>) = ''a''" "version (na\<lparr>version := 1, store := ma\<rparr>) = 1"
    using fits_two [OF s(2)] by (simp_all add: c1_def)
  ultimately show ?thesis
    using s(1) p(1) [folded c1_def] r(1) g by metis
qed

end
