(* ===== verification/OverlapProps.thy ===== *)
theory OverlapProps
  imports TwoNodes
begin

text \<open>
  What overlapping operations guarantee: between any two requests of a write or a read all other
  nodes, operations and tasks may move, and nodes may die and restart.
\<close>

subsection \<open>Operations amid everything else\<close>

inductive amid :: "string \<Rightarrow> (cluster \<times> 'p \<Rightarrow> cluster \<times> 'p \<Rightarrow> bool) \<Rightarrow> site \<times> 'p \<Rightarrow> site \<times> 'p \<Rightarrow> bool"
  for peerList M where
  OwnMove: "M (c, p) (c', p') \<Longrightarrow> amid peerList M ((c, d), p) ((c', d), p')"
| OtherMove: "siteStep peerList s s' \<Longrightarrow> amid peerList M (s, p) (s', p)"

abbreviation others :: "string \<Rightarrow> site \<Rightarrow> site \<Rightarrow> bool" where
  "others peerList \<equiv> run (siteStep peerList)"

lemma amid_own: "run M (c, p) (c', p') \<Longrightarrow> run (amid peerList M) ((c, d), p) ((c', d), p')"
  by (induction "(c, p)" "(c', p')" arbitrary: c' p' rule: Transition.run.induct)
    (auto intro: run_refl Transition.run.run_step OwnMove)

text \<open>The replicas of a key, which all nodes of such a system agree on.\<close>

definition homes :: "string \<Rightarrow> string \<Rightarrow> string list" where
  "homes peerList key = (case GetN key 3 (newRing (splitComma peerList) 100) of Some rs \<Rightarrow> rs | None \<Rightarrow> [])"

definition kept :: "site \<Rightarrow> string \<Rightarrow> string \<Rightarrow> Version \<Rightarrow> bool" where
  "kept s r key v \<longleftrightarrow> (\<exists>x. storedAt s r key = Some x \<and> v \<le> VersionOf x)"

lemma kept_run:
  assumes "kept s r key v" "others peerList s s'" "siteOk peerList s" "r \<in> set (homes peerList key)"
  shows "kept s' r key v"
proof -
  obtain rs where rs: "GetN key 3 (newRing (splitComma peerList) 100) = Some rs" "r \<in> set rs"
    using assms(4) by (cases "GetN key 3 (newRing (splitComma peerList) 100)") (auto simp: homes_def)
  obtain x where x: "storedAt s r key = Some x" "v \<le> VersionOf x"
    using assms(1) by (auto simp: kept_def)
  with site.run_below [OF assms(2,3)] rs obtain w where "storedAt s' r key = Some w" "VersionOf x \<le> VersionOf w"
    unfolding siteBelow_def by blast
  with x(2) show ?thesis
    by (auto simp: kept_def)
qed

lemma homes_node:
  assumes "siteOk peerList (c, d)" "c me = Some n"
  shows "replicasFor key n = Some rs \<Longrightarrow> rs = homes peerList key" "addr n = me" "readQuorum n = 2" "writeQuorum n = 2"
  using assms by (auto simp: siteOk_def fits_def settings_def replicasFor_def homes_def)

lemma homes_shape: "distinct (homes peerList key) \<and> length (homes peerList key) \<le> 3"
proof (cases "GetN key 3 (newRing (splitComma peerList) 100)")
  case (Some rs)
  with replicasFor_shape [of key "n\<lparr>ring := newRing (splitComma peerList) 100, replicas := 3\<rparr>" rs for n] show ?thesis
    by (cases "rs = []") (auto simp: replicasFor_def homes_def)
qed (simp add: homes_def)

text \<open>A value that a replica stored at some time between two states.\<close>

definition seen :: "string \<Rightarrow> string \<Rightarrow> site \<Rightarrow> site \<Rightarrow> Value \<Rightarrow> bool" where
  "seen peerList key s0 s x \<longleftrightarrow> (\<exists>t r. others peerList s0 t \<and> others peerList t s \<and> storedAt t r key = Some x)"

lemma seen_run: "seen peerList key s0 s x \<Longrightarrow> others peerList s s' \<Longrightarrow> seen peerList key s0 s' x"
  unfolding seen_def by (blast intro: run_trans)

text \<open>Replicas that have a version, as long as an operation goes on.\<close>

definition known :: "string \<Rightarrow> string \<Rightarrow> string set \<Rightarrow> Version \<Rightarrow> site \<Rightarrow> site \<Rightarrow> bool" where
  "known peerList key W v0 s0 s \<longleftrightarrow> siteOk peerList s \<and> others peerList s0 s \<and> safeKey key
     \<and> W \<subseteq> set (homes peerList key) \<and> (\<forall>r \<in> W. kept s r key v0)"

lemma known_run:
  assumes "known peerList key W v0 s0 s" "others peerList s s'"
  shows "known peerList key W v0 s0 s'"
proof -
  have "kept s' r key v0" if "r \<in> W" for r
    using assms that by (intro kept_run [of s r key v0 peerList s']) (auto simp: known_def)
  with assms site.run_inv [OF assms(2)] show ?thesis
    by (auto simp: known_def intro: run_trans)
qed

definition replyOk :: "string \<Rightarrow> string \<Rightarrow> string set \<Rightarrow> Version \<Rightarrow> site \<Rightarrow> site \<Rightarrow> reply \<Rightarrow> bool" where
  "replyOk peerList key W v0 s0 s a \<longleftrightarrow>
     (case a of (r, x, found) \<Rightarrow>
        (r \<in> W \<longrightarrow> found \<and> v0 \<le> VersionOf x) \<and> (found \<longrightarrow> goodValue x \<and> seen peerList key s0 s x))"

definition repliesOk :: "string \<Rightarrow> string \<Rightarrow> string set \<Rightarrow> Version \<Rightarrow> site \<Rightarrow> site \<Rightarrow> string list \<Rightarrow> reply list \<Rightarrow> bool" where
  "repliesOk peerList key W v0 s0 s todo got \<longleftrightarrow>
     distinct todo \<and> distinct (map fst got) \<and> set todo \<subseteq> set (homes peerList key)
     \<and> set (map fst got) \<subseteq> set (homes peerList key) - set todo \<and> (\<forall>a \<in> set got. replyOk peerList key W v0 s0 s a)"

lemma repliesOk_run:
  assumes "repliesOk peerList key W v0 s0 s todo got" "others peerList s s'"
  shows "repliesOk peerList key W v0 s0 s' todo got"
proof -
  have "replyOk peerList key W v0 s0 s' a" if "replyOk peerList key W v0 s0 s a" for a
    using that seen_run [OF _ assms(2)] by (auto simp: replyOk_def split: prod.splits)
  with assms(1) show ?thesis
    by (simp add: repliesOk_def)
qed

lemma repliesOk_start: "repliesOk peerList key W v0 s0 s (homes peerList key) []"
  using homes_shape by (simp add: repliesOk_def)

lemma replyOk_got:
  assumes "known peerList key W v0 s0 (c, d)" "getReplica net me r key c = Some (v, found)"
  shows "replyOk peerList key W v0 s0 (c, d) (r, v, found)"
proof -
  have k: "siteOk peerList (c, d)" "others peerList s0 (c, d)" "plainKey key"
    using assms(1) by (simp_all add: known_def safeKey_def)
  obtain n where n: "c r = Some n"
    using getReplica_present [OF assms(2)] by auto
  then have "storedAt (c, d) r key = valueAt c r key"
    by (simp add: storedAt_pair valueAt_def)
  with getReplica_value [OF assms(2) k(3) siteOk_good [OF k(1)]]
  have st: "storedAt (c, d) r key = (if found then Some v else None)" "found \<Longrightarrow> valueAt c r key = Some v"
    by (simp_all split: if_splits)
  have "goodValue v \<and> seen peerList key s0 (c, d) v" if found
    unfolding seen_def using st that siteOk_good [OF k(1)] k(2) run_refl by (fastforce simp: goodAt_def)
  moreover have "found \<and> v0 \<le> VersionOf v" if "r \<in> W"
    using assms(1) that st by (auto simp: known_def kept_def split: if_splits)
  ultimately show ?thesis
    by (simp add: replyOk_def)
qed

lemma repliesOk_reply:
  assumes "repliesOk peerList key W v0 s0 (c, d) todo got" "known peerList key W v0 s0 (c, d)" "r \<in> set todo"
  shows "repliesOk peerList key W v0 s0 (c, d) (remove1 r todo) (got @ replyOf r (getReplica net me r key c))"
proof (cases "getReplica net me r key c")
  case None
  with assms(1) show ?thesis
    by (auto simp: repliesOk_def replyOf_def)
next
  case (Some vf)
  obtain v found where vf: "vf = (v, found)"
    by fastforce
  have "replyOk peerList key W v0 s0 (c, d) (r, v, found)"
    using replyOk_got [OF assms(2)] Some vf by simp
  moreover have "r \<notin> fst ` set got" "r \<in> set (homes peerList key)"
    using assms(1,3) by (auto simp: repliesOk_def)
  ultimately show ?thesis
    using assms(1,3) Some vf by (auto simp: repliesOk_def replyOf_def)
qed

lemma repliesOk_meet:
  assumes "repliesOk peerList key W v0 s0 s [] got" "W \<subseteq> set (homes peerList key)" "2 \<le> card W" "\<not> int (length got) < 2"
  shows "\<exists>r x. (r, x, True) \<in> set got \<and> v0 \<le> VersionOf x"
proof -
  let ?R = "set (homes peerList key)"
  have got: "distinct (map fst got)" "set (map fst got) \<subseteq> ?R"
    using assms(1) by (auto simp: repliesOk_def)
  have "card (set (map fst got)) = length got"
    using distinct_card [OF got(1)] by simp
  moreover have "card ?R \<le> 3"
    using homes_shape by (simp add: distinct_card)
  ultimately obtain r where r: "r \<in> W" "r \<in> set (map fst got)"
    using quorums_meet [of W ?R "set (map fst got)"] got(2) assms(2-4) by auto
  then obtain x found where "(r, x, found) \<in> set got"
    by auto
  with assms(1) r(1) show ?thesis
    by (force simp: repliesOk_def replyOk_def)
qed

subsection \<open>Writes\<close>

text \<open>What holds of a version that was issued.\<close>

definition issuedOk :: "string \<Rightarrow> string set \<Rightarrow> Version \<Rightarrow> Version \<Rightarrow> bool" where
  "issuedOk me W v0 v \<longleftrightarrow> NodeID v = me \<and> (2 \<le> card W \<longrightarrow> Counter v \<noteq> 0 \<longrightarrow> Counter v0 < Counter v)"

text \<open>The replicas that have taken a version, of those whose reply is no longer awaited.\<close>

definition takers :: "string \<Rightarrow> string \<Rightarrow> site \<Rightarrow> Version \<Rightarrow> string list \<Rightarrow> string set" where
  "takers peerList key s v todo = {r \<in> set (homes peerList key) - set todo. kept s r key v}"

fun writeStateOk :: "string \<Rightarrow> string \<Rightarrow> string \<Rightarrow> string set \<Rightarrow> Version \<Rightarrow> site \<Rightarrow> site \<Rightarrow> writeState \<Rightarrow> bool" where
  "writeStateOk peerList me key W v0 s0 s WriteEntered = True"
| "writeStateOk peerList me key W v0 s0 s (ReadingVersions todo got) = repliesOk peerList key W v0 s0 s todo got"
| "writeStateOk peerList me key W v0 s0 s (VersionIssued v) = issuedOk me W v0 v"
| "writeStateOk peerList me key W v0 s0 s (WritingReplicas v todo missed success) =
     (issuedOk me W v0 v \<and> distinct todo \<and> set todo \<subseteq> set (homes peerList key)
      \<and> success \<le> int (card (takers peerList key s v todo)))"
| "writeStateOk peerList me key W v0 s0 s (WriteReturned None e) = True"
| "writeStateOk peerList me key W v0 s0 s (WriteReturned (Some v) e) =
     (issuedOk me W v0 v \<and> (e = None \<longrightarrow> 2 \<le> card (takers peerList key s v [])))"

definition writeInv :: "string \<Rightarrow> string \<Rightarrow> string \<Rightarrow> string set \<Rightarrow> Version \<Rightarrow> site \<Rightarrow> site \<times> writeState \<Rightarrow> bool" where
  "writeInv peerList me key W v0 s0 x \<longleftrightarrow>
     known peerList key W v0 s0 (fst x) \<and> goodString me \<and> writeStateOk peerList me key W v0 s0 (fst x) (snd x)"

lemma takers_run:
  assumes "others peerList s s'" "siteOk peerList s"
  shows "card (takers peerList key s v todo) \<le> card (takers peerList key s' v todo)"
proof (rule card_mono)
  show "takers peerList key s v todo \<subseteq> takers peerList key s' v todo"
    using kept_run [OF _ assms] by (auto simp: takers_def)
qed (simp add: takers_def)

lemma writeStateOk_run:
  assumes "writeStateOk peerList me key W v0 s0 s p" "others peerList s s'" "siteOk peerList s"
  shows "writeStateOk peerList me key W v0 s0 s' p"
proof (cases p)
  case (ReadingVersions todo got)
  with assms(1) repliesOk_run [OF _ assms(2)] show ?thesis by simp
next
  case (WritingReplicas v todo missed success)
  with assms(1) takers_run [OF assms(2,3), of key v todo] show ?thesis by simp
next
  case (WriteReturned w e)
  show ?thesis
  proof (cases w)
    case (Some v)
    with assms(1) WriteReturned takers_run [OF assms(2,3), of key v "[]"] show ?thesis
      by (auto intro: order_trans)
  qed (simp add: WriteReturned)
qed (use assms(1) in simp_all)

lemma written_good: "goodValue (written kind v) \<longleftrightarrow> goodString (NodeID v)" "VersionOf (written kind v) = v"
  by (cases kind; simp add: goodValue_def goodVersion_def)+

text \<open>Every move of a write is work of the nodes, too.\<close>

lemma writeMove_others:
  assumes "writeMove me key kind (c, p) (c', p')" "writeInv peerList me key W v0 s0 ((c, d), p)"
  shows "others peerList (c, d) (c', d)"
proof (rule working_run, rule calm.write_move_runs [OF assms(1)])
  show "safeKey key"
    using assms(2) by (simp add: writeInv_def known_def)
  show "goodValue (written kind v)" if "p = WritingReplicas v todo missed success" for v todo missed success
    using assms(2) that by (simp add: writeInv_def issuedOk_def written_good)
qed

lemma issued_after:
  assumes "repliesOk peerList key W v0 s0 s [] got" "W \<subseteq> set (homes peerList key)" "\<not> int (length got) < 2"
    and "base = (if ver > maxCounterOf got then ver else maxCounterOf got)"
  shows "issuedOk me W v0 \<lparr>Counter = base + 1, NodeID = me\<rparr>"
proof -
  have "Counter v0 < base + 1" if pos: "2 \<le> card W" "base + 1 \<noteq> 0"
  proof -
    obtain r x where x: "(r, x, True) \<in> set got" "v0 \<le> VersionOf x"
      using repliesOk_meet [OF assms(1,2) pos(1) assms(3)] by blast
    have "Counter v0 \<le> Counter (VersionOf x)"
      using x(2) by (auto simp: less_eq_Version_ext_def)
    also have "\<dots> \<le> maxCounterOf got"
      using maxCounterOf_max [of got] x(1) by fastforce
    also have "\<dots> \<le> base"
      using assms(4) by (auto simp: not_less less_imp_le)
    also have "\<dots> < base + 1"
      by (rule word_less_plus_one [OF pos(2)])
    finally show ?thesis .
  qed
  then show ?thesis
    by (simp add: issuedOk_def)
qed

lemma takers_reply:
  assumes "putReplica net me r key (written kind v) c = (c', ok)" "others peerList (c, d) (c', d)"
    and "known peerList key W v0 s0 (c, d)" "goodString (NodeID v)" "r \<in> set todo" "distinct todo" "set todo \<subseteq> set (homes peerList key)"
  shows "int (card (takers peerList key (c, d) v todo)) + (if ok then 1 else 0) \<le> int (card (takers peerList key (c', d) v (remove1 r todo)))"
proof -
  let ?T = "takers peerList key (c', d) v todo" and ?T' = "takers peerList key (c', d) v (remove1 r todo)"
  have k: "siteOk peerList (c, d)" "plainKey key"
    using assms(3) by (simp_all add: known_def safeKey_def)
  note m = takers_run [OF assms(2) k(1), of key v todo]
  have fin: "finite ?T" "finite ?T'" and sub: "?T \<subseteq> ?T'"
    using assms(6) by (auto simp: takers_def)
  show ?thesis
  proof (cases ok)
    case True
    then have "putReplica net me r key (written kind v) c = (c', True)"
      using assms(1) by simp
    from putReplica_holds [OF this k(2)] have "holds c' r key v"
      using assms(4) by (simp add: written_good)
    then have "kept (c', d) r key v"
      by (auto simp: holds_def kept_def valueAt_def storedAt_pair split: option.splits)
    then have "insert r ?T \<subseteq> ?T'"
      using sub assms(5,6,7) by (auto simp: takers_def)
    then have "card (insert r ?T) \<le> card ?T'"
      by (rule card_mono [OF fin(2)])
    moreover have "r \<notin> ?T"
      using assms(5) by (simp add: takers_def)
    ultimately show ?thesis
      using True m fin(1) by simp
  next
    case False
    with m card_mono [OF fin(2) sub] show ?thesis by simp
  qed
qed

lemma writeInv_own:
  assumes "writeInv peerList me key W v0 s0 ((c, d), p)" "writeMove me key kind (c, p) (c', p')"
  shows "writeInv peerList me key W v0 s0 ((c', d), p')"
proof -
  have k: "known peerList key W v0 s0 (c, d)" "goodString me" "siteOk peerList (c, d)"
    using assms(1) by (simp_all add: writeInv_def known_def)
  note os = writeMove_others [OF assms(2,1)]
  have "writeStateOk peerList me key W v0 s0 (c', d) p'"
    using assms(2)
  proof (cases rule: writeMove_cases)
    case (EnterWrite n rs)
    then have "rs = homes peerList key"
      using homes_node(1) [OF k(3)] by blast
    with EnterWrite repliesOk_start show ?thesis by simp
  next
    case (VersionReply r todo got net)
    with repliesOk_reply [OF _ k(1)] assms(1) show ?thesis
      by (simp add: writeInv_def)
  next
    case (IssueVersion n got base)
    with issued_after [of peerList key W v0 s0 "(c, d)" got base "version n" me] homes_node(2,3) [OF k(3)] assms(1)
    show ?thesis
      by (simp add: writeInv_def known_def)
  next
    case (BeginWrites n rs v)
    then have "rs = homes peerList key"
      using homes_node(1) [OF k(3)] by blast
    with BeginWrites homes_shape assms(1) show ?thesis
      by (simp add: writeInv_def)
  next
    case (WriteReply r todo net v ok missed success)
    with takers_reply [OF WriteReply(3) os k(1), of todo] assms(1) k(2) set_remove1_subset [of r todo] show ?thesis
      by (auto simp: writeInv_def issuedOk_def)
  next
    case (KeepHint r missed v todo success)
    with takers_run [OF os k(3), of key v todo] assms(1) show ?thesis
      by (simp add: writeInv_def)
  next
    case (EndWrite n v success)
    with homes_node(4) [OF k(3)] assms(1) show ?thesis
      by (simp add: writeInv_def)
  qed simp
  with known_run [OF k(1) os] k(2) show ?thesis
    by (simp add: writeInv_def)
qed

definition writeInit :: "string \<Rightarrow> string \<Rightarrow> string \<Rightarrow> string set \<Rightarrow> Version \<Rightarrow> site \<Rightarrow> site \<times> writeState \<Rightarrow> bool" where
  "writeInit peerList me key W v0 s0 x \<longleftrightarrow> x = (s0, WriteEntered) \<and> known peerList key W v0 s0 s0 \<and> goodString me"

interpretation writing: inductive_invariant
    "writeInit peerList me key W v0 s0" "amid peerList (writeMove me key kind)" "writeInv peerList me key W v0 s0"
  for peerList me key W v0 s0 kind
proof unfold_locales
  show "writeInit peerList me key W v0 s0 x \<Longrightarrow> writeInv peerList me key W v0 s0 x" for x
    by (auto simp: writeInit_def writeInv_def)
  fix x y
  assume i: "writeInv peerList me key W v0 s0 x" and m: "amid peerList (writeMove me key kind) x y"
  from m show "writeInv peerList me key W v0 s0 y"
  proof cases
    case (OwnMove c p c' p' d)
    with i writeInv_own show ?thesis by blast
  next
    case (OtherMove s s' p)
    then have o1: "others peerList s s'"
      by (simp add: run_one)
    have k: "known peerList key W v0 s0 s" "writeStateOk peerList me key W v0 s0 s p" "goodString me"
      using i OtherMove by (simp_all add: writeInv_def)
    then have "siteOk peerList s"
      by (simp add: known_def)
    from writeStateOk_run [OF k(2) o1 this] known_run [OF k(1) o1] k(3) OtherMove show ?thesis
      by (simp add: writeInv_def)
  qed
qed

subsection \<open>Reads\<close>

definition foundOk :: "string \<Rightarrow> string \<Rightarrow> string set \<Rightarrow> Version \<Rightarrow> site \<Rightarrow> site \<Rightarrow> Value \<Rightarrow> bool" where
  "foundOk peerList key W v0 s0 s x \<longleftrightarrow> seen peerList key s0 s x \<and> (2 \<le> card W \<longrightarrow> v0 \<le> VersionOf x)"

definition answerOf :: "bytes option \<times> bool \<Rightarrow> Value \<Rightarrow> bool" where
  "answerOf a x \<longleftrightarrow> a = (if Deleted x then (None, False) else (Data x, True))"

fun readStateOk :: "string \<Rightarrow> string \<Rightarrow> string set \<Rightarrow> Version \<Rightarrow> site \<Rightarrow> site \<Rightarrow> readState \<Rightarrow> bool" where
  "readStateOk peerList key W v0 s0 s ReadEntered = True"
| "readStateOk peerList key W v0 s0 s (ReadingValues todo got) = repliesOk peerList key W v0 s0 s todo got"
| "readStateOk peerList key W v0 s0 s (Repairing l rs) = (goodValue l \<and> foundOk peerList key W v0 s0 s l)"
| "readStateOk peerList key W v0 s0 s (ReadReturned (Inl e)) = True"
| "readStateOk peerList key W v0 s0 s (ReadReturned (Inr a)) =
     (2 \<le> card W \<longrightarrow> (\<exists>x. foundOk peerList key W v0 s0 s x \<and> answerOf a x))"

definition readInv :: "string \<Rightarrow> string \<Rightarrow> string set \<Rightarrow> Version \<Rightarrow> site \<Rightarrow> site \<times> readState \<Rightarrow> bool" where
  "readInv peerList key W v0 s0 x \<longleftrightarrow> known peerList key W v0 s0 (fst x) \<and> readStateOk peerList key W v0 s0 (fst x) (snd x)"

lemma foundOk_run: "foundOk peerList key W v0 s0 s x \<Longrightarrow> others peerList s s' \<Longrightarrow> foundOk peerList key W v0 s0 s' x"
  by (auto simp: foundOk_def intro: seen_run)

lemma readStateOk_run:
  assumes "readStateOk peerList key W v0 s0 s p" "others peerList s s'"
  shows "readStateOk peerList key W v0 s0 s' p"
proof (cases p)
  case (ReadingValues todo got)
  with assms(1) repliesOk_run [OF _ assms(2)] show ?thesis by simp
next
  case (Repairing l rs)
  with assms(1) foundOk_run [OF _ assms(2)] show ?thesis by simp
next
  case (ReadReturned a)
  with assms(1) foundOk_run [OF _ assms(2)] show ?thesis
    by (cases a) (simp, metis readStateOk.simps(5))
qed simp

lemma readMove_others:
  assumes "readMove me key (c, p) (c', p')" "readInv peerList key W v0 s0 ((c, d), p)"
  shows "others peerList (c, d) (c', d)"
proof (rule working_run, rule calm.read_move_runs [OF assms(1)])
  show "safeKey key"
    using assms(2) by (simp add: readInv_def known_def)
  show "goodValue l" if "p = Repairing l rs" for l rs
    using assms(2) that by (simp add: readInv_def)
qed

text \<open>The newest of a quorum of replies.\<close>

lemma newest_reply:
  assumes "repliesOk peerList key W v0 s0 s [] got" "W \<subseteq> set (homes peerList key)" "\<not> int (length got) < 2"
    and "mset order = mset got"
  shows "latestOf order = Some l \<Longrightarrow> goodValue l \<and> foundOk peerList key W v0 s0 s l"
    and "latestOf order = None \<Longrightarrow> \<not> 2 \<le> card W"
proof -
  have o: "set order = set got"
    by (rule mset_eq_setD [OF assms(4)])
  note meet = repliesOk_meet [OF assms(1,2) _ assms(3)]
  show "goodValue l \<and> foundOk peerList key W v0 s0 s l" if l: "latestOf order = Some l"
  proof -
    from l latestOf_max [of order] o obtain q where "(q, l, True) \<in> set got"
        and max: "\<forall>(r, v, found) \<in> set got. found \<longrightarrow> VersionOf v \<le> VersionOf l"
      by auto
    then have "goodValue l \<and> seen peerList key s0 s l"
      using assms(1) by (fastforce simp: repliesOk_def replyOk_def)
    moreover have "v0 \<le> VersionOf l" if "2 \<le> card W"
      using meet [OF that] max order_trans by fastforce
    ultimately show ?thesis
      by (simp add: foundOk_def)
  qed
  show "\<not> 2 \<le> card W" if "latestOf order = None"
    using that latestOf_max [of order] o meet by fastforce
qed

lemma readInv_own:
  assumes "readInv peerList key W v0 s0 ((c, d), p)" "readMove me key (c, p) (c', p')"
  shows "readInv peerList key W v0 s0 ((c', d), p')"
proof -
  have k: "known peerList key W v0 s0 (c, d)" "W \<subseteq> set (homes peerList key)" "siteOk peerList (c, d)"
    using assms(1) by (simp_all add: readInv_def known_def)
  note os = readMove_others [OF assms(2,1)]
  have i: "readStateOk peerList key W v0 s0 (c, d) p"
    using assms(1) by (simp add: readInv_def)
  have "readStateOk peerList key W v0 s0 (c', d) p'"
    using assms(2)
  proof cases
    case (EnterRead n rs)
    then have "rs = homes peerList key"
      using homes_node(1) [OF k(3)] by blast
    moreover have "\<not> 2 \<le> card W" if "homes peerList key = []"
      using k(2) that by auto
    ultimately show ?thesis
      using EnterRead repliesOk_start by simp
  next
    case (ValueReply r todo got net)
    with repliesOk_reply [OF _ k(1)] i show ?thesis by simp
  next
    case (NothingFound n got order)
    with newest_reply(2) [OF _ k(2), of v0 s0 "(c, d)" got order] homes_node(3) [OF k(3)] i show ?thesis
      by simp
  next
    case (NewestFound n got order l)
    with newest_reply(1) [OF _ k(2), of v0 s0 "(c, d)" got order] homes_node(3) [OF k(3)] i show ?thesis
      by simp
  next
    case (RepairReplica l r rs net)
    with i foundOk_run [OF _ os] show ?thesis by simp
  next
    case (EndRead l)
    with i show ?thesis
      by (auto simp: answerOf_def)
  qed simp
  with known_run [OF k(1) os] show ?thesis
    by (simp add: readInv_def)
qed

definition readInit :: "string \<Rightarrow> string \<Rightarrow> string set \<Rightarrow> Version \<Rightarrow> site \<Rightarrow> site \<times> readState \<Rightarrow> bool" where
  "readInit peerList key W v0 s0 x \<longleftrightarrow> x = (s0, ReadEntered) \<and> known peerList key W v0 s0 s0"

interpretation reading: inductive_invariant
    "readInit peerList key W v0 s0" "amid peerList (readMove me key)" "readInv peerList key W v0 s0"
  for peerList key W v0 s0 me
proof unfold_locales
  show "readInit peerList key W v0 s0 x \<Longrightarrow> readInv peerList key W v0 s0 x" for x
    by (auto simp: readInit_def readInv_def)
  fix x y
  assume i: "readInv peerList key W v0 s0 x" and m: "amid peerList (readMove me key) x y"
  from m show "readInv peerList key W v0 s0 y"
  proof cases
    case (OwnMove c p c' p' d)
    with i readInv_own show ?thesis by blast
  next
    case (OtherMove s s' p)
    then have o1: "others peerList s s'"
      by (simp add: run_one)
    from known_run [OF _ o1] readStateOk_run [OF _ o1] i OtherMove show ?thesis
      by (simp add: readInv_def)
  qed
qed

subsection \<open>Acknowledged writes\<close>

lemma acknowledged:
  assumes "reachable siteInit (siteStep peerList) s0" "safeKey key" "goodString me"
    and "run (amid peerList (writeMove me key kind)) (s0, WriteEntered) (s1, WriteReturned (Some v) None)"
    and "others peerList s1 s2"
  shows "\<exists>W. 2 \<le> card W \<and> known peerList key W v s2 s2"
proof -
  have "known peerList key {} v s0 s0"
    using site.reachable_inv [OF assms(1)] assms(2) by (simp add: known_def run_refl)
  then have "writeInv peerList me key {} v s0 (s0, WriteEntered)"
    using assms(3) by (simp add: writeInv_def)
  from writing.run_inv [OF assms(4) this]
  have w: "known peerList key {} v s0 s1" "2 \<le> card (takers peerList key s1 v [])"
    by (simp_all add: writeInv_def)
  from w(1) have "known peerList key (takers peerList key s1 v []) v s1 s1"
    by (auto simp: known_def takers_def run_refl)
  from known_run [OF this assms(5)] have "known peerList key (takers peerList key s1 v []) v s2 s2"
    by (simp add: known_def run_refl)
  with w(2) show ?thesis
    by blast
qed

text \<open>C1. A read sees every write that was acknowledged before it began.  Other reads, writes, hand-offs,
  repairs and background tasks may take effect between any two requests of either, the order and the
  fate of the requests are arbitrary, and processes, those of the two coordinators included, may die
  and restart on the files they left: a \<open>Get\<close> that returns without an error answers a value
  that a node stored while it ran, whose version is at least that of the write.  What may happen is
  \<open>siteStep\<close>: the members never change, the debugging write is not used, the calls of the log
  succeed while the process lives, its death cuts the log neither right behind the header of a
  record nor within the header of the file, and keys and names are UTF-8, the keys plain
  (\<open>plainKey\<close>: not empty, none of \<open>% ? # / .\<close> and no control characters).\<close>
theorem overlapped_write_is_read:
  assumes "reachable siteInit (siteStep peerList) s0" "safeKey key" "goodString me"
    and "run (amid peerList (writeMove me key kind)) (s0, WriteEntered) (s1, WriteReturned (Some v) None)"
    and "run (siteStep peerList) s1 s2"
    and "run (amid peerList (readMove me2 key)) (s2, ReadEntered) (s3, ReadReturned (Inr (data, found)))"
  shows "\<exists>t r x. run (siteStep peerList) s2 t \<and> run (siteStep peerList) t s3 \<and> storedAt t r key = Some x
    \<and> v \<le> VersionOf x \<and> (data, found) = (if Deleted x then (None, False) else (Data x, True))"
proof -
  obtain W where W: "2 \<le> card W" "known peerList key W v s2 s2"
    using acknowledged [OF assms(1-5)] by blast
  then have "readInv peerList key W v s2 (s2, ReadEntered)"
    by (simp add: readInv_def)
  from reading.run_inv [OF assms(6) this] W(1)
  obtain x where x: "seen peerList key s2 s3 x" "v \<le> VersionOf x" "answerOf (data, found) x"
    by (auto simp: readInv_def foundOk_def)
  from x(1) obtain t r where "others peerList s2 t" "others peerList t s3" "storedAt t r key = Some x"
    unfolding seen_def by blast
  with x(2,3) show ?thesis
    unfolding answerOf_def by blast
qed

text \<open>The version of a write, once it has one.\<close>

fun versionIn :: "writeState \<Rightarrow> Version option" where
  "versionIn (VersionIssued v) = Some v"
| "versionIn (WritingReplicas v todo missed success) = Some v"
| "versionIn (WriteReturned w e) = w"
| "versionIn p = None"

lemma versionIn_issued: "writeStateOk peerList me key W v0 s0 s p \<Longrightarrow> versionIn p = Some v \<Longrightarrow> issuedOk me W v0 v"
  by (cases p) auto

text \<open>C2. Writes are ordered as they happened: a write that begins after another was acknowledged is
  given a larger version, by its counter, whichever nodes coordinate the two and whether or not the
  second one is acknowledged, unless its counter wraps to 0.  What may happen beside and between
  them, deaths and restarts of processes included, is \<open>siteStep\<close> within the same limits as for
  reads: fixed members, no debugging write, log calls that succeed while the process lives, no cut
  right behind the header of a record or within that of the file, plain UTF-8 keys, UTF-8 names.\<close>
theorem overlapped_versions_increase:
  assumes "reachable siteInit (siteStep peerList) s0" "safeKey key" "goodString me" "goodString me2"
    and "run (amid peerList (writeMove me key kind)) (s0, WriteEntered) (s1, WriteReturned (Some v1) None)"
    and "run (siteStep peerList) s1 s2"
    and "run (amid peerList (writeMove me2 key kind2)) (s2, WriteEntered) (s3, p)"
    and "versionIn p = Some v2" "Counter v2 \<noteq> 0"
  shows "Counter v1 < Counter v2 \<and> v1 < v2"
proof -
  obtain W where W: "2 \<le> card W" "known peerList key W v1 s2 s2"
    using acknowledged [OF assms(1-3,5,6)] by blast
  then have "writeInv peerList me2 key W v1 s2 (s2, WriteEntered)"
    using assms(4) by (simp add: writeInv_def)
  from writing.run_inv [OF assms(7) this] have "issuedOk me2 W v1 v2"
    using versionIn_issued [OF _ assms(8)] unfolding writeInv_def fst_conv snd_conv by blast
  with W(1) assms(9) show ?thesis
    by (auto simp: issuedOk_def less_Version_ext_def less_eq_Version_ext_def)
qed

subsection \<open>Two nodes\<close>

lemma overlap_runs:
  assumes "NodePut sort (\<lambda>_. Delivered) (\<lambda>_. Delivered) ''a'' ''k'' (Some [65]) c = Some (c1, None)"
    and "c1 ''a'' = Some n1" "addr n1 = ''a''" "version n1 = 1"
  shows "run (amid peerList (writeMove ''a'' ''k'' (Putting (Some [65])))) ((c, d), WriteEntered)
    ((c1, d), WriteReturned (Some \<lparr>Counter = 1, NodeID = ''a''\<rparr>) None)"
proof -
  have "writeVersioned sort (\<lambda>_. Delivered) (\<lambda>_. Delivered) ''a'' ''k'' (written (Putting (Some [65]))) c = Some (c1, None)"
    using assms(1) by (simp only: NodeWrite_written)
  from writeVersioned_overlaps [OF this] assms(2-4)
  have "run (writeMove ''a'' ''k'' (Putting (Some [65]))) (c, WriteEntered)
      (c1, WriteReturned (Some \<lparr>Counter = 1, NodeID = ''a''\<rparr>) None)"
    by auto
  then show ?thesis
    by (rule amid_own)
qed

lemma overlapped_write_is_read_witness:
  "\<exists>s0 s1 s2 s3 t r x. reachable siteInit (siteStep ''a,b'') s0
    \<and> run (amid ''a,b'' (writeMove ''a'' ''k'' (Putting (Some [65])))) (s0, WriteEntered)
        (s1, WriteReturned (Some \<lparr>Counter = 1, NodeID = ''a''\<rparr>) None)
    \<and> run (siteStep ''a,b'') s1 s2
    \<and> run (amid ''a,b'' (readMove ''b'' ''k'')) (s2, ReadEntered) (s3, ReadReturned (Inr (Some [65], True)))
    \<and> storedAt t r ''k'' = Some x \<and> \<lparr>Counter = 1, NodeID = ''a''\<rparr> \<le> VersionOf x \<and> Data x = Some [65]"
proof -
  obtain c d c1 c2 d2 c3 n1 where w: "reachable siteInit (siteStep ''a,b'') (c, d)"
      "NodePut sort (\<lambda>_. Delivered) (\<lambda>_. Delivered) ''a'' ''k'' (Some [65]) c = Some (c1, None)"
      "c1 ''a'' = Some n1" "addr n1 = ''a''" "version n1 = 1" "run (siteStep ''a,b'') (c1, d) (c2, d2)"
      "NodeGet sort (\<lambda>_. Delivered) (\<lambda>_. Delivered) ''b'' ''k'' c2 = Some (c3, Inr (Some [65], True))"
    using write_crash_read by blast
  note p = overlap_runs [OF w(2-5)]
  have "run (readMove ''b'' ''k'') (c2, ReadEntered) (c3, ReadReturned (Inr (Some [65], True)))"
    by (rule NodeGet_overlaps [OF w(7)]) simp
  then have g: "run (amid ''a,b'' (readMove ''b'' ''k'')) ((c2, d2), ReadEntered) ((c3, d2), ReadReturned (Inr (Some [65], True)))"
    by (rule amid_own)
  have "safeKey ''k''"
    using plain_k(1) valueW_good(2) by (simp add: safeKey_def)
  from overlapped_write_is_read [OF w(1) this valueW_good(3) p w(6) g]
  obtain t r x where "storedAt t r ''k'' = Some x" "\<lparr>Counter = 1, NodeID = ''a''\<rparr> \<le> VersionOf x"
      "(Some [65], True) = (if Deleted x then (None, False) else (Data x, True))"
    by blast
  moreover from this(3) have "Data x = Some [65]"
    by (simp split: if_splits)
  ultimately show ?thesis
    using w(1,6) p g by blast
qed

text \<open>The coordinator of the first write issues the version of a second one.\<close>

lemma overlapped_versions_increase_witness:
  "\<exists>s0 s1 s2 s3. reachable siteInit (siteStep ''a,b'') s0
    \<and> run (amid ''a,b'' (writeMove ''a'' ''k'' (Putting (Some [65])))) (s0, WriteEntered)
        (s1, WriteReturned (Some \<lparr>Counter = 1, NodeID = ''a''\<rparr>) None)
    \<and> run (siteStep ''a,b'') s1 s2
    \<and> run (amid ''a,b'' (writeMove ''a'' ''k'' Deleting)) (s2, WriteEntered) (s3, VersionIssued \<lparr>Counter = 2, NodeID = ''a''\<rparr>)
    \<and> \<lparr>Counter = 1, NodeID = ''a''\<rparr> < \<lparr>Counter = 2, NodeID = ''a''\<rparr>"
proof -
  obtain c d c1 c2 d2 c3 n1 where w: "reachable siteInit (siteStep ''a,b'') (c, d)"
      "NodePut sort (\<lambda>_. Delivered) (\<lambda>_. Delivered) ''a'' ''k'' (Some [65]) c = Some (c1, None)"
      "c1 ''a'' = Some n1" "addr n1 = ''a''" "version n1 = 1" "run (siteStep ''a,b'') (c1, d) (c2, d2)"
      "c2 ''a'' = Some n1"
      "readAll (\<lambda>_. Delivered) ''a'' ''k'' [''a'', ''b''] c2 = [(''a'', valueW, True), (''b'', valueW, True)]"
    using write_crash_read by blast
  note p = overlap_runs [OF w(2-5)]
  let ?M = "writeMove ''a'' ''k'' Deleting" and ?got = "[(''a'', valueW, True), (''b'', valueW, True)]"
  let ?v = "\<lparr>Counter = 2, NodeID = ''a''\<rparr>" and ?c = "c2(''a'' \<mapsto> n1\<lparr>version := 1 + 1\<rparr>)"
  have k: "safeKey ''k''"
    using plain_k(1) valueW_good(2) by (simp add: safeKey_def)
  have "run (siteStep ''a,b'') (c, d) (c1, d)"
    using w(2) plain_k(1) valueW_good fits_two site.reachable_inv [OF w(1)]
    by (intro working_run isWrite_calm [OF _ k]) (auto simp: isWrite_def siteOk_def fits_def settings_def)
  then have "siteOk ''a,b'' (c2, d2)"
    using site.reachable_inv [OF w(1)] w(6) site.run_inv by blast
  then have f: "fits ''a,b'' ''a'' n1"
    using w(7) by (simp add: siteOk_def)
  obtain rs where rs: "replicasFor ''k'' n1 = Some rs" "sort rs = [''a'', ''b'']"
    using sorted_replicas [OF f] by blast
  have "length rs = 2"
    using arg_cong [OF rs(2), of length] by simp
  with EnterWrite [of c2 "''a''" n1, OF w(7) rs(1)] fits_two [OF f]
  have "?M (c2, WriteEntered) (c2, ReadingVersions rs [])"
    by simp
  moreover have "run ?M (c2, ReadingVersions rs []) (c2, ReadingVersions [] ?got)"
    using version_replies [of "[''a'', ''b'']" rs "''a''" "''k''" Deleting c2 "[]" "\<lambda>_. Delivered"] w(8) rs(2)
    by (metis append_Nil mset_sort)
  moreover have "?M (c2, ReadingVersions [] ?got) (?c, VersionIssued ?v)"
    using IssueVersion [of c2 "''a''" n1 ?got 1] w(4,5,7) fits_two [OF f]
    by (simp add: maxCounterOf_def valueW_def)
  ultimately have "run ?M (c2, WriteEntered) (?c, VersionIssued ?v)"
    by (blast intro: run_first run_last)
  then have q: "run (amid ''a,b'' ?M) ((c2, d2), WriteEntered) ((?c, d2), VersionIssued ?v)"
    by (rule amid_own)
  have "\<lparr>Counter = 1, NodeID = ''a''\<rparr> < ?v"
    using overlapped_versions_increase [OF w(1) k valueW_good(3,3) p w(6) q] by simp
  with w(1,6) p q show ?thesis
    by blast
qed

end
