(* ===== verification/Available.thy ===== *)
theory Available
  imports TwoNodes
begin

text \<open>
  When the key-value store serves: a quorum of the replicas of a key that is up and reached is
  enough for writes and reads, whatever becomes of the others.
\<close>

subsection \<open>Reads\<close>

lemma getReplica_succeeds:
  assumes "r \<in> dom c" "plainKey key" "goodAt c key"
  shows "getReplica Delivered me r key c \<noteq> None"
proof (cases "r = me")
  case False
  obtain n where n: "c r = Some n"
    using assms(1) by blast
  have "internalGet key n = httpError ''not found'' 404
      \<or> (\<exists>v. goodValue v \<and> internalGet key n = (200, marshalValue v @ [10]))"
  proof (cases "memData (store n) key")
    case (Some v)
    then have "valueAt c r key = Some v"
      using n by (simp add: valueAt_def)
    then have "goodValue v"
      using assms(3) unfolding goodAt_def by blast
    with Some assms(2) show ?thesis
      by (auto simp: internalGet_def handleInternalGet_def plainKey_def MemGet_def)
  qed (use assms(2) in \<open>simp add: internalGet_def handleInternalGet_def plainKey_def MemGet_def\<close>)
  with n False requestKey_plain [OF assms(2)] decodeStream_value [of _ "[10]" zeroValue] show ?thesis
    by (auto simp: getReplica_def answers stops_def)
qed (use assms(1) in \<open>auto simp: getReplica_def\<close>)

lemma readAll_enough:
  assumes "R \<subseteq> set rs" "R \<subseteq> dom c" "\<forall>r \<in> R. net r = Delivered" "plainKey key" "goodAt c key"
  shows "card R \<le> length (readAll net me key rs c)"
proof -
  have "R \<subseteq> set (map fst (readAll net me key rs c))"
  proof
    fix r
    assume r: "r \<in> R"
    then have "r \<in> dom c" "net r = Delivered"
      using assms(2,3) by blast+
    with getReplica_succeeds [OF _ assms(4,5)] obtain x where "getReplica (net r) me r key c = Some x"
      by fastforce
    with assms(1) r show "r \<in> set (map fst (readAll net me key rs c))"
      by (force simp: readAll_def List.map_filter_def)
  qed
  then have "card R \<le> card (set (map fst (readAll net me key rs c)))"
    by (rule card_mono [rotated]) simp
  also have "\<dots> \<le> length (readAll net me key rs c)"
    using card_length [of "map fst (readAll net me key rs c)"] by simp
  finally show ?thesis .
qed

subsection \<open>Writes\<close>

lemma putReplica_calm:
  assumes "putReplica net me r key v c = (c', ok)" "calm c" "plainKey key" "goodString key" "goodValue v"
  shows "calm c' \<and> dom c' = dom c"
proof -
  have s: "recorded m" if "c q = Some n" "Set key v (store n) = (m, e)" for q n m e
    using recorded_Set [of "store n" key v] that assms(2,4,5) by (auto simp: calm_def)
  have p: "recorded (store n')" if "c q = Some n" "internalPut key (marshalValue v) n = (n', x)" for q n n' x
    using that decodeStream_value [OF assms(5), of "[]" zeroValue] assms(2,3) s [OF that(1)]
    by (auto simp: internalPut_def handleInternalPut_def plainKey_def stops_def calm_def split: prod.splits option.splits)
  show ?thesis
    using assms(1,2) requestKey_plain [OF assms(3)] s p
    by (fastforce simp: putReplica_def calm_def split: if_splits option.splits prod.splits rpc.splits)
qed

lemma addHint_calm: "calm c \<Longrightarrow> calm (addHint me r key v c) \<and> dom (addHint me r key v c) = dom c"
  by (auto simp: addHint_def calm_def split: option.split)

lemma writeLoop_enough:
  assumes "writeLoop net me key v rs c s = (c', s')" "calm c" "plainKey key" "goodString key" "goodValue v"
    and "record_fits (marshalEntry (setEntry key v))" "distinct rs" "R \<subseteq> dom c" "\<forall>r \<in> R. net r = Delivered"
  shows "s + int (card (R \<inter> set rs)) \<le> s'"
  using assms(1,2,7,8)
proof (induction rs arbitrary: c s)
  case (Cons r rs)
  obtain c1 ok where p: "putReplica (net r) me r key v c = (c1, ok)"
    by fastforce
  note c1 = putReplica_calm [OF p Cons.prems(2) assms(3-5)]
  let ?d = "if ok then c1 else addHint me r key v c1"
  have d: "calm ?d" "R \<subseteq> dom ?d"
    using c1 addHint_calm [of c1 me r key v] Cons.prems(4) by (cases ok; simp)+
  have "writeLoop net me key v rs ?d (if ok then s + 1 else s) = (c', s')"
    using Cons.prems(1) p by (cases ok) simp_all
  from Cons.IH [OF this d(1) _ d(2)] Cons.prems(3)
  have IH: "(if ok then s + 1 else s) + int (card (R \<inter> set rs)) \<le> s'"
    by simp
  show ?case
  proof (cases "r \<in> R")
    case True
    then have "r \<in> dom c" "net r = Delivered"
      using Cons.prems(4) assms(9) by blast+
    with putReplica_succeeds [OF Cons.prems(2) _ assms(3-6), of r me] p have "ok"
      by auto
    moreover have "R \<inter> set (r # rs) = insert r (R \<inter> set rs)" "r \<notin> R \<inter> set rs"
      using True Cons.prems(3) by auto
    ultimately show ?thesis
      using IH by simp
  next
    case False
    then have "R \<inter> set (r # rs) = R \<inter> set rs"
      by auto
    with IH show ?thesis
      by (simp split: if_splits)
  qed
qed simp

text \<open>C3. A quorum is enough to be served: when as many replicas of the key as the quorums ask for are up and
  reached and their logs take the entry, a \<open>Put\<close> is acknowledged and a \<open>Get\<close> returns without an error,
  whatever order the requests take effect in and whatever becomes of those to the other replicas.
  The key is plain and UTF-8, as are the names in the stored versions and the coordinator's.\<close>
theorem quorum_serves:
  assumes "c me = Some n" "replicasFor key n = Some rs" "rs \<noteq> []" "calm c" "goodAt c key"
    and "plainKey key" "goodString key" "goodString (addr n)" "\<And>xs. mset (arrive xs) = mset xs"
    and "R \<subseteq> set rs" "R \<subseteq> dom c" "\<forall>r \<in> R. net1 r = Delivered \<and> net2 r = Delivered"
    and "readQuorum n \<le> int (card R)" "writeQuorum n \<le> int (card R)"
    and "\<And>c1 v. nextVersion arrive net1 me key n rs c = (c1, Inr v)
      \<Longrightarrow> record_fits (marshalEntry (setEntry key \<lparr>Data = data, VersionOf = v, Deleted = False\<rparr>))"
  shows "(\<exists>c'. NodePut arrive net1 net2 me key data c = Some (c', None))
    \<and> (\<exists>c' x. NodeGet arrive net1 net2 me key c = Some (c', Inr x))"
proof -
  have arr: "set (arrive rs) = set rs" "distinct (arrive rs)"
    using replicasFor_shape [OF assms(2)] assms(9) mset_eq_imp_distinct_iff mset_eq_setD by (metis, metis)
  have reads: "\<not> int (length (readAll net1 me key (arrive rs) c)) < readQuorum n"
    using readAll_enough [of R "arrive rs" c net1 key me] assms(5,6,10-13) arr(1) by fastforce
  have "card R \<le> length rs"
    using card_mono [OF _ assms(10)] card_length [of rs] by simp
  then have "\<not> int (length rs) < readQuorum n"
    using assms(13) by linarith
  with reads obtain n' v where nv: "nextVersion arrive net1 me key n rs c = (c(me \<mapsto> n'), Inr v)" "store n' = store n" "NodeID v = addr n"
    by (auto simp: nextVersion_def Let_def)
  let ?v = "\<lparr>Data = data, VersionOf = v, Deleted = False\<rparr>" and ?c = "c(me \<mapsto> n')"
  obtain c' s where w: "writeLoop net2 me key ?v (arrive rs) ?c 0 = (c', s)"
    by fastforce
  have calm: "calm ?c" "R \<subseteq> dom ?c"
    using assms(1,4,11) nv(2) by (auto simp: calm_def)
  have "goodValue ?v"
    using assms(8) nv(3) by (simp add: goodValue_def goodVersion_def)
  from writeLoop_enough [OF w calm(1) assms(6,7) this assms(15) [OF nv(1)] arr(2) calm(2)] assms(12)
  have "int (card R) \<le> s"
    using arr(1) assms(10) by (simp add: Int_absorb2)
  then have "NodePut arrive net1 net2 me key data c = Some (c', None)"
    using assms(1,2,14) nv(1) w by (simp add: NodePut_def writeVersioned_def replicateValue_def)
  moreover have "\<exists>c' x. NodeGet arrive net1 net2 me key c = Some (c', Inr x)"
    using assms(1-3) reads by (auto simp: NodeGet_def Let_def split: option.split)
  ultimately show ?thesis
    by blast
qed

lemma quorum_serves_witness:
  "\<exists>na nb d c1 c2 x. reachable siteInit (siteStep ''a,b'') ([''a'' \<mapsto> na, ''b'' \<mapsto> nb], d)
    \<and> NodePut sort (\<lambda>_. Delivered) (\<lambda>_. Delivered) ''a'' ''k'' (Some [65]) [''a'' \<mapsto> na, ''b'' \<mapsto> nb] = Some (c1, None)
    \<and> NodeGet sort (\<lambda>_. Delivered) (\<lambda>_. Delivered) ''a'' ''k'' [''a'' \<mapsto> na, ''b'' \<mapsto> nb] = Some (c2, Inr x)"
proof -
  obtain na nb d where s: "reachable siteInit (siteStep ''a,b'') ([''a'' \<mapsto> na, ''b'' \<mapsto> nb], d)"
      "fits ''a,b'' ''a'' na" "fits ''a,b'' ''b'' nb" "version na = 0"
      "memData (store na) = Map.empty" "memData (store nb) = Map.empty"
    using two_started by blast
  let ?c = "[''a'' \<mapsto> na, ''b'' \<mapsto> nb]"
  obtain rs where rs: "replicasFor ''k'' na = Some rs" "sort rs = [''a'', ''b'']"
    using sorted_replicas [OF s(2)] by blast
  have set: "set rs = {''a'', ''b''}"
    using rs(2) by (metis set_sort list.set(1) list.set(2))
  have calm: "calm ?c"
    using s(2,3) by (simp add: calm_def fits_def)
  have good: "goodAt ?c ''k''"
    using s(5,6) by (auto simp: goodAt_def valueAt_def split: if_splits)
  have "v = \<lparr>Counter = 1, NodeID = ''a''\<rparr>"
    if "nextVersion sort (\<lambda>_. Delivered) ''a'' ''k'' na rs ?c = (c1, Inr v)" for c1 v
    using that two_version [OF s(2-6) rs] by simp
  then have fits: "record_fits (marshalEntry (setEntry ''k'' \<lparr>Data = Some [65], VersionOf = v, Deleted = False\<rparr>))"
    if "nextVersion sort (\<lambda>_. Delivered) ''a'' ''k'' na rs ?c = (c1, Inr v)" for c1 v
    using that valueW_fits unfolding valueW_def by blast
  have "(\<exists>c'. NodePut sort (\<lambda>_. Delivered) (\<lambda>_. Delivered) ''a'' ''k'' (Some [65]) ?c = Some (c', None))
      \<and> (\<exists>c' x. NodeGet sort (\<lambda>_. Delivered) (\<lambda>_. Delivered) ''a'' ''k'' ?c = Some (c', Inr x))"
  proof (rule quorum_serves [where R = "{''a'', ''b''}" and n = na and rs = rs])
    show "goodString (addr na)" "readQuorum na \<le> int (card {''a'', ''b''})" "writeQuorum na \<le> int (card {''a'', ''b''})"
      using fits_two [OF s(2)] valueW_good(3) by simp_all
    show "record_fits (marshalEntry (setEntry ''k'' \<lparr>Data = Some [65], VersionOf = v, Deleted = False\<rparr>))"
      if "nextVersion sort (\<lambda>_. Delivered) ''a'' ''k'' na rs ?c = (c1, Inr v)" for c1 v
      by (rule fits [OF that])
    show "replicasFor ''k'' na = Some rs" "calm ?c" "goodAt ?c ''k''" "plainKey ''k''" "goodString ''k''"
      by (fact rs(1) calm good plain_k(1) valueW_good(2))+
    show "{''a'', ''b''} \<subseteq> set rs"
      unfolding set ..
    then show "rs \<noteq> []"
      by (metis empty_set insert_not_empty subset_empty)
  qed simp_all
  with s(1) show ?thesis
    by blast
qed

end
