(* ===== verification/SyncRace.thy ===== *)
theory SyncRace
  imports ConfigProps
begin

text \<open>
  Configurations that arrive at one node at the same time.  The handler of \<open>handler.go\<close> checks the
  version, lists the members, changes ring and detector member by member and stores the version,
  each under another lock or none, so that requests interleave call by call.
\<close>

lemma syncActs_result:
  assumes "ring_ok (ring n)"
  shows "ring_ok (ring (foldl (\<lambda>x a. syncCall now a x) n (syncActs cfg current)))"
    and "members (ring (foldl (\<lambda>x a. syncCall now a x) n (syncActs cfg current)))
      = members (ring n) - (set current - set (ConfMembers cfg)) \<union> set (ConfMembers cfg)"
    and "configVersion (foldl (\<lambda>x a. syncCall now a x) n (syncActs cfg current)) = ConfVersion cfg"
proof -
  note d = drop_members [OF assms, of cfg current]
  note t = take_members [of "foldl (dropMember cfg) n current" now "ConfMembers cfg"]
  show "ring_ok (ring (foldl (\<lambda>x a. syncCall now a x) n (syncActs cfg current)))"
      "members (ring (foldl (\<lambda>x a. syncCall now a x) n (syncActs cfg current)))
        = members (ring n) - (set current - set (ConfMembers cfg)) \<union> set (ConfMembers cfg)"
      "configVersion (foldl (\<lambda>x a. syncCall now a x) n (syncActs cfg current)) = ConfVersion cfg"
    using d t by (simp_all add: syncActs_def dropMember_acts takeMember_acts)
qed

text \<open>One request whose calls follow each other.\<close>

lemma acts_run:
  "rq i = Acting as \<Longrightarrow> run syncMove (n, rq) (foldl (\<lambda>x a. syncCall now a x) n as, rq(i := Acting []))"
proof (induction as arbitrary: n rq)
  case Nil
  then show ?case
    by (simp add: fun_upd_idem run_refl)
next
  case (Cons a as)
  have "syncMove (n, rq) (syncCall now a n, rq(i := Acting as))"
    using Cons.prems by (rule SyncCall)
  moreover have "run syncMove (syncCall now a n, rq(i := Acting as))
      (foldl (\<lambda>x a. syncCall now a x) (syncCall now a n) as, rq(i := Acting as, i := Acting []))"
    by (rule Cons.IH) simp
  ultimately show ?case
    unfolding fun_upd_upd foldl_Cons by (rule run_trans [OF run_one])
qed

lemma pass_run:
  assumes "rq i = Checking cfg" "configVersion n < ConfVersion cfg"
  shows "run syncMove (n, rq) (n, rq(i := Acting (syncActs cfg (Members (ring n)))))"
proof -
  have "syncMove (n, rq) (n, rq(i := Listing cfg))"
    using assms by (rule SyncPass)
  moreover have "syncMove (n, rq(i := Listing cfg)) (n, rq(i := Listing cfg, i := Acting (syncActs cfg (Members (ring n)))))"
    by (rule SyncList) simp
  ultimately show ?thesis
    unfolding fun_upd_upd by (rule run_step [OF run_one])
qed

lemma handler_run:
  assumes "rq i = Checking cfg" "ConfVersion cfg \<noteq> 0" "decodeStream decodeConfig body zeroConfig = Some cfg"
  shows "run syncMove (n, rq) (fst (handleMembershipSync now MethodPut body n), rq(i := Acting []))"
proof (cases "ConfVersion cfg \<le> configVersion n")
  case True
  have "syncMove (n, rq) (n, rq(i := Acting []))"
    using assms(1) True by (rule SyncIgnore)
  from run_one [of syncMove, OF this] assms(2,3) True show ?thesis
    by (simp add: handleMembershipSync_acts)
next
  case False
  let ?as = "syncActs cfg (Members (ring n))"
  have "run syncMove (n, rq(i := Acting ?as))
      (foldl (\<lambda>x a. syncCall now a x) n ?as, rq(i := Acting ?as, i := Acting []))"
    by (rule acts_run) simp
  moreover have "run syncMove (n, rq) (n, rq(i := Acting ?as))"
    by (rule pass_run) (use assms(1) False in auto)
  ultimately have "run syncMove (n, rq) (foldl (\<lambda>x a. syncCall now a x) n ?as, rq(i := Acting []))"
    unfolding fun_upd_upd by (blast intro: run_trans)
  with assms(2,3) False show ?thesis
    by (simp add: handleMembershipSync_acts)
qed

text \<open>C39. Two configurations that a node handles at the same time.  Both are newer than the one the
  node has, and they may interleave so that the newer is handled as a whole between the listing
  of the members for the older and its first change.  Then both requests end with the version of
  the older, and with members that no configuration has asked for: those of the older and those
  that the newer has added.\<close>

theorem concurrent_syncs_mix:
  assumes "ring_ok (ring n)" "configVersion n < ConfVersion a" "ConfVersion a < ConfVersion b"
    and "i \<noteq> j" "rq i = Checking a" "rq j = Checking b"
  shows "\<exists>n'. run syncMove (n, rq) (n', rq(i := Acting [], j := Acting []))
    \<and> configVersion n' = ConfVersion a
    \<and> members (ring n') = set (ConfMembers a) \<union> (set (ConfMembers b) - members (ring n))"
proof -
  let ?as = "syncActs a (Members (ring n))" and ?bs = "syncActs b (Members (ring n))"
  let ?n1 = "foldl (\<lambda>x a. syncCall 0 a x) n ?bs"
  let ?n2 = "foldl (\<lambda>x a. syncCall 0 a x) ?n1 ?as"
  let ?rq = "rq(i := Acting ?as)"
  have 1: "run syncMove (n, rq) (n, ?rq)"
    using assms(5,2) by (rule pass_run)
  have 2: "run syncMove (n, ?rq) (n, ?rq(j := Acting ?bs))"
    by (rule pass_run) (use assms in auto)
  have 3: "run syncMove (n, ?rq(j := Acting ?bs)) (?n1, ?rq(j := Acting ?bs, j := Acting []))"
    by (rule acts_run) simp
  have 4: "run syncMove (?n1, ?rq(j := Acting ?bs, j := Acting []))
      (?n2, ?rq(j := Acting ?bs, j := Acting [], i := Acting []))"
    by (rule acts_run) (use assms(4) in simp)
  have rq: "?rq(j := Acting ?bs, j := Acting [], i := Acting []) = rq(i := Acting [], j := Acting [])"
    using assms(4) by (auto simp: fun_eq_iff)
  have m: "set (Members (ring n)) = members (ring n)"
    using assms(1) by (simp add: Members_def ring_ok_def)
  note r1 = syncActs_result [OF assms(1), of 0 b "Members (ring n)"]
  note r2 = syncActs_result [OF r1(1), of 0 a "Members (ring n)"]
  have "run syncMove (n, rq) (?n2, rq(i := Acting [], j := Acting []))"
    using run_trans [OF 1 run_trans [OF 2 run_trans [OF 3 4]]] unfolding rq .
  moreover have "members (ring ?n2) = set (ConfMembers a) \<union> (set (ConfMembers b) - members (ring n))"
    using r2(2) r1(2) m by auto
  ultimately show ?thesis
    using r2(3) by blast
qed

text \<open>The configurations \<open>{a, b, c}\<close> and, after it, \<open>{a, b, d}\<close> at a node of the ring \<open>{a, b}\<close>.\<close>

theorem concurrent_syncs_mix_witness:
  "\<exists>n' rq. run syncMove (nodeAt ''a'', \<lambda>i. Checking (if i = 0
        then \<lparr>ConfVersion = 1, ConfMembers = [''a'', ''b'', ''c'']\<rparr> else \<lparr>ConfVersion = 2, ConfMembers = [''a'', ''b'', ''d'']\<rparr>)) (n', rq)
    \<and> rq 0 = Acting [] \<and> rq 1 = Acting []
    \<and> configVersion n' = 1 \<and> members (ring n') = {''a'', ''b'', ''c'', ''d''}"
proof -
  let ?a = "\<lparr>ConfVersion = 1, ConfMembers = [''a'', ''b'', ''c'']\<rparr>"
  let ?b = "\<lparr>ConfVersion = 2, ConfMembers = [''a'', ''b'', ''d'']\<rparr>"
  let ?rq = "\<lambda>i. Checking (if i = (0 :: nat) then ?a else ?b)"
  have n: "ring_ok (ring (nodeAt ''a''))" "configVersion (nodeAt ''a'') = 0" "members (ring (nodeAt ''a'')) = {''a'', ''b''}"
    using ring_ab_facts(4) by (simp_all add: nodeAt_def ring_ab_facts)
  obtain n' where n': "run syncMove (nodeAt ''a'', ?rq) (n', ?rq(0 := Acting [], 1 := Acting []))"
      "configVersion n' = ConfVersion ?a"
      "members (ring n') = set (ConfMembers ?a) \<union> (set (ConfMembers ?b) - members (ring (nodeAt ''a'')))"
    using concurrent_syncs_mix [of "nodeAt ''a''" ?a ?b 0 1 ?rq] n by (auto simp: word_less_nat_alt)
  have "members (ring n') = {''a'', ''b'', ''c'', ''d''}"
    using n'(3) n(3) by auto
  with n'(1,2) show ?thesis
    by (intro exI [of _ n'] exI [of _ "?rq(0 := Acting [], 1 := Acting [])"]) simp
qed

end
