(* ===== verification/Spec2Isabelle.thy ===== *)
theory Spec2Isabelle
  imports RaftApply RaftElection Raftgrpc RingChange MemoryWrites MembershipProps HandOff ObjectProps GCProps SystemProps OverlapProps Available SyncRace
begin

text \<open>
  MiniDist: a key-value store in the manner of Dynamo, with an object store on top of it, and the
  start of a Raft library.

  The program.  Every node (\<open>internal/node\<close>) serves HTTP and can coordinate any request.  Keys and
  chunks are placed on a consistent hash ring (\<open>internal/hashring\<close>).  A coordinator writes a
  version of a key to all replicas and is content with a quorum; the replicas that it missed
  get a hint, which a background task delivers later; a read asks all replicas, answers the
  newest version of a quorum and repairs the others.  A node keeps its values in memory, with a
  write-ahead log and a snapshot file (\<open>internal/store\<close>).  Objects (\<open>internal/object\<close>) are cut
  into chunks that are stored under their SHA-256 hash (\<open>internal/chunk\<close>) on the nodes of the
  ring, and their metadata is a key of the key-value store.  Probes and gossip keep the belief of
  a node about the others; an administrator changes the members, upon which configurations are
  sent round and data is moved; chunks that no metadata refers to are collected.
  \<open>internal/raft\<close> and \<open>internal/raftgrpc\<close> have votes, the log and the applier of Raft, which the nodes
  do not use yet.

  \<^bold>\<open>Libraries.\<close>
  Prelude: machine types and shared facts.  GoLib: CRC-32, \<open>sort.Search\<close>, decimal numbers,
  UTF-8 and the like.  FileIO: an open file as its bytes, the offset and the outcomes of the system
  calls to come.  Json, JsonText and Codec: \<open>encoding/json\<close> as texts, trees and structs, with the
  proof that what is written is read back.  Sha256: the digest, computed.  Http: methods, statuses
  and bodies.  Transition: reachable states and runs of a step relation, with the locales
  \<open>inductive_invariant\<close> and \<open>monotone_system\<close>.  NewerWins: the locale \<open>newer_wins\<close> of a map that
  keeps the newer version.

  \<^bold>\<open>Raft.\<close>
  Raft is \<open>raft.go\<close>, \<open>vote.go\<close> and \<open>election.go\<close>; RaftElection proves that a term has at
  most one winner with a name (the empty name is the code's mark for no vote), for any requests and
  as long as no node starts an election in the largest term or loses its state; RaftApply that the applier, whose critical sections interleave with everything else,
  delivers the committed entries in order and that these stay; Raftgrpc is the adapter.

  \<^bold>\<open>Ring.\<close>
  HashRing is \<open>ring.go\<close>; RingWalk and RingChange say what the lookups and changes of members compute.

  \<^bold>\<open>Store.\<close>
  Versions, StoreCodec, Wal, Snapshot and Memory are \<open>memory.go\<close>, \<open>wal.go\<close> and \<open>snapshot.go\<close>.
  WalReplay and WalProps: the log is read back as it was written, also when it is torn.  Recovery,
  MemoryProps and MemoryWrites: a restart in any reachable state brings the values back, newer
  versions win, and the counter bounds them.

  \<^bold>\<open>Replication.\<close>
  Replication is \<open>replication.go\<close> and \<open>version.go\<close>, with the \<open>Node\<close> record of \<open>node.go\<close> and the
  internal handlers; a cluster is a map from addresses to running nodes.  Hints is \<open>hint.go\<close>.
  Quorum, QuorumProps and HandOff: acknowledged writes are read, versions go up, every replica has
  the value or a hint, and hints stay until they are delivered.  Overlap has \<open>Put\<close>, \<open>Delete\<close> and
  \<open>Get\<close> once more as machines that move request by request, and proves that the functions of
  Replication, which run at one go, are runs of these machines.

  \<^bold>\<open>Chunks and objects.\<close>
  ChunkStore, Chunker and NodeChunks are \<open>chunk/store.go\<close>, \<open>chunker.go\<close> and \<open>node/chunk.go\<close>;
  ChunkProps proves that files hold what their names say, NodeChunks that acknowledged chunks
  are found.  ObjectStore is \<open>internal/object\<close> with the handlers of the objects; ObjectProps
  proves its round trip over the locale \<open>chunk_backend\<close>, which \<open>NodeChunks\<close> meets.

  \<^bold>\<open>Membership, moves and collection.\<close>
  Membership and MembershipProps are the failure detector of \<open>membership.go\<close>; Probe and
  ProbeProps the traffic of \<open>probe.go\<close> and \<open>gossip.go\<close>.  Rebalance and RebalanceProps are \<open>rebalance.go\<close>
  and \<open>drain.go\<close>: nothing is lost.  ClusterConfig and ConfigProps are \<open>cluster_membership.go\<close>, with
  an abstract view of which node believes in which members that a change refines.  The handler of a
  configuration takes no lock over its calls: \<open>handleMembershipSync\<close> is the request whose calls nothing
  comes between, \<open>syncMove\<close> moves any number of requests call by call, and SyncRace shows that the
  first is a run of the second and what two requests at the same time can end in.  GC and GCProps
  are \<open>gc.go\<close>: what is live or young stays, what is neither goes.

  \<^bold>\<open>The whole.\<close>
  KvHandlers and AdminHandlers are the remaining handlers of \<open>handler.go\<close>, \<open>replication.go\<close> and
  \<open>debug.go\<close>; Service is the table of routes and \<open>serve\<close>, what a request does to the cluster;
  NodeStart is \<open>New\<close> and \<open>Close\<close> of \<open>node.go\<close>; Background the tasks of \<open>background.go\<close>; Process is
  \<open>main.go\<close>, from the flags over the work of the tasks and requests to the end by a signal or an error.
  Atomic defines the atomic steps of single nodes; AtomicWork and AtomicService prove that all
  operations are sequences of them, the operations on values in a locale \<open>node_work\<close> that is
  interpreted on all steps and on those of the next section.  System is the transition system of
  nodes that start, serve, run their tasks and stop in any order, with its invariant; SystemProps
  has the properties of the whole.

  \<^bold>\<open>Crashes.\<close>
  Durable is a system whose nodes work in any order, die at any moment, also in the middle of a
  write to the log or of a snapshot, and start again with \<open>main.go\<close>'s command line on the files that
  they left; nothing that a replica stores of its keys goes back there.  DefaultRing computes the
  ring of two members with 100 virtual nodes each, TwoNodes runs a write, a crash, a restart and a
  read on it.  OverlapProps proves for the machines of Overlap, amid all moves of that system, that a
  read sees every write acknowledged before and that versions follow the order of the writes.
  Available proves that a quorum that is up and reached is enough for writes and reads.  What a
  crash leaves (\<open>leaves\<close>) excludes a log cut right behind the header of a record or within the
  header of the file, where a finding shows that the store fails; keys and values are those that
  JSON keeps; writes of the log do not fail there but by the crash; the members do not change, and
  the debugging write, which is not logged, does not occur.

  \<^bold>\<open>Keys.\<close>
  A key reaches other nodes in the path of an address, where it is not escaped.  What is said of
  the values at other nodes is therefore said of plain keys (\<open>plainKey\<close>): not empty, and without
  \<open>% ? # / .\<close> and control characters; \<open>question_mark_cuts_key\<close> shows how a write of another key gets
  lost.  Keys and node names also go through JSON, which keeps them when they are UTF-8
  (\<open>goodString\<close>); the names of chunks and the keys of metadata are plain and UTF-8.

  \<^bold>\<open>How the code is modelled.\<close>
  Structs are records, with the names of the source where these are free; \<open>uint64\<close> is a word of
  64 bits and wraps; errors are values of a sum or an option; a slice access that Go would panic
  on and a loop that may not end are \<open>None\<close>.  A mutex is the atomicity of the operation it
  covers, and operations that release it in between are split there.  Everything that is
  not decided by the state is an argument: clocks, random names, the order of a Go map, the order
  in which replies arrive, for each request whether it is delivered, lost, or loses only its
  answer, for each system call whether it fails, and for the operations that take many requests
  what the rest of the system does between two of them (\<open>run\<close>, \<open>change\<close>, \<open>gcRun\<close>, \<open>probeRun\<close>,
  \<open>gossipRun\<close>, \<open>schedule\<close>; the moves of Overlap for \<open>Put\<close>, \<open>Delete\<close> and \<open>Get\<close>).  The theorems hold for all of these, or for all that are sequences of
  atomic steps, or that keep what they say.

  \<^bold>\<open>Bounds.\<close>
  \<open>getNLoop\<close> and \<open>GetN\<close> are partial, because the loop of the source does not end when two members share
  all their positions; RingWalk says when they return.  The JSON reader has fuel twice the
  length of the text and one, and JsonText proves that a text that was written never needs more.
  Replay and the cutting of streams recurse on what is left to read, the applier on the entries
  that it has not delivered.  All other recursions are structural or shorten a text.

  \<^bold>\<open>Not modelled.\<close>
  Timeouts and cancelled contexts, beyond the requests that they lose.  Headers of HTTP, the
  location of a redirect and that a client follows it (a key whose path is not canonical is
  delivered by \<open>putReplica\<close> as it is), and that the body of an object is sent while it is read, beyond what
  the client sees of an error.  The times in the JSON of garbage collection and of the debugging page,
  whose messages are passed as records.  Directories, beyond the files under them, and file modes.
  That the counter of failed probes would wrap at the largest \<open>int\<close>.
  Log output, the dashes of the flags, and the time that the server is given to end.  The generated stubs
  of gRPC and protobuf, beyond the messages and getters, and the transport, which is an argument.
\<close>

end
